(* ===== verification/Prelude.thy ===== *)
theory Prelude
  imports Main "HOL-Library.Word" "HOL-Library.Log_Nat"
begin

text \<open>
  Facts about words, powers of two and numbers that every component of the development uses.
  The collection \<open>word_values\<close> holds the equations that read a word operation as an operation on
  natural numbers.
\<close>

unbundle bit_operations_syntax

abbreviation u8 :: "'a::len word \<Rightarrow> 8 word" where "u8 \<equiv> ucast"
abbreviation u16 :: "'a::len word \<Rightarrow> 16 word" where "u16 \<equiv> ucast"
abbreviation u32 :: "'a::len word \<Rightarrow> 32 word" where "u32 \<equiv> ucast"
abbreviation u64 :: "'a::len word \<Rightarrow> 64 word" where "u64 \<equiv> ucast"

named_theorems word_values \<open>the number a word operation yields, as a function of the numbers it is given\<close>

lemma unat_push_bit [word_values]: "unat (push_bit n w) = unat w * 2 ^ n mod 2 ^ LENGTH('a)"
  for w :: "'a::len word"
  unfolding unsigned_push_bit_eq take_bit_eq_mod push_bit_eq_mult [of n "unat w"] ..

lemma unat_drop_bit [word_values]: "unat (drop_bit n w) = unat w div 2 ^ n"
  for w :: "'a::len word"
  unfolding unat_drop_bit_eq drop_bit_eq_div [of n "unat w"] ..

lemma unat_or_disj: "a AND b = 0 \<Longrightarrow> unat (a OR b) = unat a + unat b"
  for a b :: "'a::len word"
proof -
  assume "a AND b = 0"
  then have "unat a AND unat b = 0"
    by (simp flip: unsigned_and_eq)
  then show ?thesis
    by (simp only: unsigned_or_eq disjunctive_add_eq_or)
qed

lemma unat_lt2p [simp]: "unat w < 2 ^ LENGTH('a)" for w :: "'a::len word"
  by (rule unsigned_less)

lemma unat64_less: "unat w < 2 ^ 64" for w :: "64 word"
  using unat_lt2p [of w] by simp

lemma or_of_bool: "v OR of_bool p = v + of_bool (p \<and> even v)" for v :: nat
  using or_one_eq [of v] by (cases p) auto

lemma unat_of_bool [simp]: "unat (of_bool p :: 'a::len word) = of_bool p"
  by (cases p) auto

lemma word_zero_iff_unat: "w = 0 \<longleftrightarrow> unat w = 0" for w :: "'a::len word"
  by (simp add: unat_eq_zero)

lemma div_mod_pow_split:
  "(v::nat) mod 2 ^ (m + n) = 0 \<longleftrightarrow> v mod 2 ^ m = 0 \<and> (v div 2 ^ m) mod 2 ^ n = 0"
proof -
  have "v mod 2 ^ (m + n) = 2 ^ m * (v div 2 ^ m mod 2 ^ n) + v mod 2 ^ m"
    by (simp add: power_add mod_mult2_eq)
  then show ?thesis by auto
qed
lemma bit_unat_less: "bit w n \<Longrightarrow> unat w < 2 ^ m \<Longrightarrow> n < m" for w :: "'a::len word"
proof (rule ccontr)
  assume b: "bit w n" and l: "unat w < 2 ^ m" and "\<not> n < m"
  then have "take_bit m (unat w) = unat w" by (simp add: take_bit_nat_eq_self)
  moreover have "bit (unat w) n" using b by (simp add: bit_unsigned_iff bit_imp_le_length)
  ultimately have "n < m" by (metis bit_take_bit_iff)
  with \<open>\<not> n < m\<close> show False ..
qed

lemma word_of_int_nat: "0 \<le> i \<Longrightarrow> (word_of_int i :: 'a::len word) = of_nat (nat i)"
  by (metis nat_0_le of_int_of_nat_eq)

lemma unat_of_nat_less [word_values]: "n < 2 ^ LENGTH('a) \<Longrightarrow> unat (of_nat n :: 'a::len word) = n"
  by (simp add: unat_of_nat take_bit_nat_eq_self)

lemma unat_word_of_int_less: "0 \<le> i \<Longrightarrow> i < 2 ^ LENGTH('a) \<Longrightarrow> unat (word_of_int i :: 'a::len word) = nat i"
  by (simp add: word_of_int_nat unat_of_nat_less nat_less_numeral_power_cancel_iff nat_less_iff del: of_nat_nat)

lemma div_pow_eq_0: "v div 2 ^ n = 0 \<longleftrightarrow> v < 2 ^ n" for v :: nat
  by (simp add: div_eq_0_iff)

lemma uint_int_unat: "uint w = int (unat w)" for w :: "'a::len word"
  by simp

end
