(* ===== verification/SoftFloatBase.thy ===== *)
theory SoftFloatBase
  imports Prelude
begin

text \<open>
  The two-word numbers of \<open>lib/lib-arm64.c\<close> (type \<open>u128_t\<close>), their value, the sticky shift and the
  rounding and packing step \<open>f3_round\<close>.  \<open>stk n v\<close> is the number a sticky right shift by \<open>n\<close> leaves,
  \<open>rep k X N D\<close> says that \<open>X\<close> carries all a rounding needs to know of the quotient N/D when at least
  \<open>k\<close> low bits are still to be dropped, and \<open>rne_div\<close> is division rounded to nearest, ties to even.
\<close>

record u128_t =
  ux0 :: "64 word"
  ux1 :: "64 word"

definition u128_val :: "u128_t \<Rightarrow> nat" where
  "u128_val x = unat (ux1 x) * 2 ^ 64 + unat (ux0 x)"

definition u128_shl :: "nat \<Rightarrow> u128_t \<Rightarrow> u128_t" where
  "u128_shl n x = \<lparr>ux0 = push_bit n (ux0 x), ux1 = push_bit n (ux1 x) OR drop_bit (64 - n) (ux0 x)\<rparr>"

definition u128_shr :: "nat \<Rightarrow> u128_t \<Rightarrow> u128_t" where
  "u128_shr n x = \<lparr>ux0 = drop_bit n (ux0 x) OR push_bit (64 - n) (ux1 x), ux1 = drop_bit n (ux1 x)\<rparr>"

definition u128_join :: "u128_t \<Rightarrow> 128 word" where
  "u128_join x = push_bit 64 (ucast (ux1 x)) OR ucast (ux0 x)"

lemma unat_join: "unat (u128_join x) = u128_val x"
proof -
  have d: "push_bit 64 (ucast (ux1 x) :: 128 word) AND ucast (ux0 x) = 0"
    by (rule bit_word_eqI) (auto simp: bit_simps dest: bit_imp_le_length)
  have "unat (ux1 x) * 2 ^ 64 < 2 ^ 128"
    using unat_lt2p [of "ux1 x"] by simp
  moreover have "unat (ux0 x) < 2 ^ 128"
    using unat_lt2p [of "ux0 x"] by simp
  ultimately show ?thesis
    unfolding u128_join_def unat_or_disj [OF d] u128_val_def
    by (simp add: unat_push_bit unsigned_ucast_eq take_bit_nat_eq_self)
qed

lemma u128_val_less: "u128_val x < 2 ^ 128"
  using unat_lt2p [of "u128_join x"] by (simp add: unat_join)

lemma u128_val_inject: "u128_val x = u128_val y \<longleftrightarrow> x = y"
proof
  assume eq: "u128_val x = u128_val y"
  have "u128_val z div 2 ^ 64 = unat (ux1 z)" "u128_val z mod 2 ^ 64 = unat (ux0 z)" for z
    using unat_lt2p [of "ux0 z"] by (simp_all add: u128_val_def)
  with eq have "unat (ux1 x) = unat (ux1 y)" "unat (ux0 x) = unat (ux0 y)" by metis+
  then show "x = y" by (simp add: word_unat_eq_iff)
qed simp

lemma bit_join: "bit (u128_join x) n \<longleftrightarrow> (if n < 64 then bit (ux0 x) n else bit (ux1 x) (n - 64))"
  by (auto simp: u128_join_def bit_simps dest: bit_imp_le_length)

lemma join_shl:
  assumes "0 < n" "n < 64"
  shows "u128_join (u128_shl n x) = push_bit n (u128_join x)"
proof (rule bit_word_eqI)
  fix i assume "i < LENGTH(128)"
  then have i: "i < 128" by simp
  consider "i < n" | "n \<le> i" "i < 64" | "64 \<le> i" "i < 64 + n" | "64 + n \<le> i" by linarith
  then show "bit (u128_join (u128_shl n x)) i = bit (push_bit n (u128_join x)) i"
  proof cases
    case 3
    then have "64 - n + (i - 64) = i - n" "i - n < 64" "\<not> n \<le> i - 64" "n \<le> i" using assms by linarith+
    then show ?thesis using 3 assms i by (simp add: bit_join u128_shl_def bit_simps)
  next
    case 4
    then have "i - n - 64 = i - 64 - n" by simp
    then show ?thesis using 4 assms i by (auto simp: bit_join u128_shl_def bit_simps dest: bit_imp_le_length)
  next
    case 2
    then have "i - n < 64" by linarith
    then show ?thesis using 2 assms i by (simp add: bit_join u128_shl_def bit_simps)
  qed (use assms i in \<open>simp_all add: bit_join u128_shl_def bit_simps\<close>)
qed

lemma join_shr:
  assumes "0 < n" "n < 64"
  shows "u128_join (u128_shr n x) = drop_bit n (u128_join x)"
proof (rule bit_word_eqI)
  fix i assume "i < LENGTH(128)"
  consider "i < 64 - n" | "64 - n \<le> i" "i < 64" | "64 \<le> i" by linarith
  then show "bit (u128_join (u128_shr n x)) i = bit (drop_bit n (u128_join x)) i"
  proof cases
    case 2
    then have "n + i - 64 = i - (64 - n)" using assms by simp
    then show ?thesis using 2 assms by (auto simp: bit_join u128_shr_def bit_simps dest: bit_imp_le_length)
  next
    case 3
    then have "n + i - 64 = n + (i - 64)" by simp
    then show ?thesis using 3 assms by (simp add: bit_join u128_shr_def bit_simps)
  qed (use assms in \<open>auto simp: bit_join u128_shr_def bit_simps dest: bit_imp_le_length\<close>)
qed

lemma val_shl: "0 < n \<Longrightarrow> n < 64 \<Longrightarrow> u128_val (u128_shl n x) = u128_val x * 2 ^ n mod 2 ^ 128"
  by (simp add: join_shl unat_push_bit flip: unat_join)

lemma val_shr: "0 < n \<Longrightarrow> n < 64 \<Longrightarrow> u128_val (u128_shr n x) = u128_val x div 2 ^ n"
  by (simp only: join_shr unat_drop_bit flip: unat_join)

lemma join_or_low: "u128_join (x\<lparr>ux0 := ux0 x OR w\<rparr>) = u128_join x OR ucast w"
  by (rule bit_word_eqI) (auto simp: u128_join_def bit_simps)

lemma val_or_low: "u128_val (x\<lparr>ux0 := ux0 x OR w\<rparr>) = u128_val x OR unat w"
proof -
  have "unat (ucast w :: 128 word) = unat w" for w :: "64 word"
    using unat_lt2p [of w] by (simp add: unsigned_ucast_eq take_bit_nat_eq_self)
  then show ?thesis by (simp add: join_or_low unsigned_or_eq flip: unat_join)
qed

definition stk :: "nat \<Rightarrow> nat \<Rightarrow> nat" where
  "stk n v = v div 2 ^ n OR of_bool (v mod 2 ^ n \<noteq> 0)"

definition rep :: "nat \<Rightarrow> nat \<Rightarrow> nat \<Rightarrow> nat \<Rightarrow> bool" where
  "rep k X N D \<longleftrightarrow> 0 < D \<and> X div 2 ^ k = N div (D * 2 ^ k) \<and> (X mod 2 ^ k = 0 \<longleftrightarrow> N mod (D * 2 ^ k) = 0)"

lemma stk_0 [simp]: "stk 0 v = v"
  by (simp add: stk_def)

lemma stk_div2: "stk n v div 2 = v div 2 ^ Suc n"
  by (simp add: stk_def or_of_bool mult.commute flip: div_mult2_eq)

lemma stk_even: "even (stk n v) \<longleftrightarrow> v mod 2 ^ Suc n = 0"
  using div_mod_pow_split [of v n 1] by (auto simp: stk_def or_of_bool even_iff_mod_2_eq_zero)

lemma nat_eq_by_half: "a div 2 = b div 2 \<Longrightarrow> even a \<longleftrightarrow> even b \<Longrightarrow> a = b" for a b :: nat
  by (metis even_two_times_div_two odd_two_times_div_two_succ)

lemma stk_stk: "stk m (stk n v) = stk (m + n) v"
proof (cases m)
  case 0
  then show ?thesis by simp
next
  case (Suc m')
  show ?thesis
  proof (rule nat_eq_by_half)
    have "stk n v div 2 div 2 ^ m = v div 2 ^ Suc n div 2 ^ m" by (simp only: stk_div2)
    then have "stk n v div 2 ^ Suc m = v div 2 ^ Suc (m + n)"
      by (simp add: power_add mult_ac flip: div_mult2_eq)
    then show "stk m (stk n v) div 2 = stk (m + n) v div 2" by (simp only: stk_div2)
    have "stk n v mod 2 ^ Suc m = 0 \<longleftrightarrow> stk n v mod 2 = 0 \<and> stk n v div 2 mod 2 ^ m = 0"
      using div_mod_pow_split [of "stk n v" 1 m] by simp
    also have "\<dots> \<longleftrightarrow> v mod 2 ^ Suc n = 0 \<and> v div 2 ^ Suc n mod 2 ^ m = 0"
      using stk_even [of n v] by (simp add: stk_div2 even_iff_mod_2_eq_zero del: power_Suc)
    also have "\<dots> \<longleftrightarrow> v mod 2 ^ Suc (m + n) = 0"
      using div_mod_pow_split [of v "Suc n" m] by (simp add: add.commute)
    finally show "even (stk m (stk n v)) \<longleftrightarrow> even (stk (m + n) v)" by (simp only: stk_even)
  qed
qed

definition f3_sticky_shift :: "int \<Rightarrow> u128_t \<Rightarrow> u128_t" where
  "f3_sticky_shift sh x =
     (if sh \<ge> 128 then \<lparr>ux0 = of_bool (ux0 x OR ux1 x \<noteq> 0), ux1 = 0\<rparr>
      else
        let (sh, x) =
              (if sh \<ge> 64 then (sh - 64, \<lparr>ux0 = ux1 x OR of_bool (ux0 x \<noteq> 0), ux1 = 0\<rparr>)
               else (sh, x))
        in if sh > 0
           then \<lparr>ux0 = (drop_bit (nat sh) (ux0 x) OR push_bit (nat (64 - sh)) (ux1 x))
                        OR of_bool (push_bit (nat (64 - sh)) (ux0 x) \<noteq> 0),
                 ux1 = drop_bit (nat sh) (ux1 x)\<rparr>
           else x)"

lemma sticky_low:
  assumes "0 < n" "n < 64"
  shows "u128_val \<lparr>ux0 = (drop_bit n (ux0 x) OR push_bit (64 - n) (ux1 x))
                        OR of_bool (push_bit (64 - n) (ux0 x) \<noteq> 0),
                 ux1 = drop_bit n (ux1 x)\<rparr> = stk n (u128_val x)"
proof -
  let ?p = "push_bit (64 - n) (ux0 x) \<noteq> 0"
  have "push_bit (64 - n) (ux0 x) = 0 \<longleftrightarrow> unat (ux0 x) * 2 ^ (64 - n) mod 2 ^ 64 = 0"
    by (simp add: word_zero_iff_unat unat_push_bit)
  also have "\<dots> \<longleftrightarrow> 2 ^ n * 2 ^ (64 - n) dvd unat (ux0 x) * 2 ^ (64 - n)"
    using assms by (simp add: mod_eq_0_iff_dvd flip: power_add)
  also have "\<dots> \<longleftrightarrow> unat (ux0 x) mod 2 ^ n = 0"
    by (simp add: mod_eq_0_iff_dvd)
  also have "\<dots> \<longleftrightarrow> u128_val x mod 2 ^ n = 0"
  proof -
    have "(2::nat) ^ n dvd 2 ^ 64" using assms by (intro le_imp_power_dvd) simp
    then show ?thesis by (simp add: u128_val_def mod_eq_0_iff_dvd dvd_add_right_iff)
  qed
  finally have p: "?p \<longleftrightarrow> u128_val x mod 2 ^ n \<noteq> 0" by simp
  have "\<lparr>ux0 = (drop_bit n (ux0 x) OR push_bit (64 - n) (ux1 x)) OR of_bool ?p,
         ux1 = drop_bit n (ux1 x)\<rparr>
       = (u128_shr n x)\<lparr>ux0 := ux0 (u128_shr n x) OR of_bool ?p\<rparr>"
    by (simp add: u128_shr_def)
  then show ?thesis
    using assms by (simp add: val_or_low val_shr stk_def p)
qed

lemma val_sticky_shift: "0 \<le> sh \<Longrightarrow> u128_val (f3_sticky_shift sh x) = stk (nat sh) (u128_val x)"
proof -
  assume sh: "0 \<le> sh"
  consider "128 \<le> sh" | "64 \<le> sh" "sh < 128" | "sh < 64" by linarith
  then show ?thesis
  proof cases
    case 1
    have "(2::nat) ^ 128 \<le> 2 ^ nat sh" using 1 by (intro power_increasing) auto
    with u128_val_less [of x] have "u128_val x < 2 ^ nat sh" by linarith
    then have "stk (nat sh) (u128_val x) = of_bool (u128_val x \<noteq> 0)"
      by (simp add: stk_def)
    moreover have "ux0 x OR ux1 x = 0 \<longleftrightarrow> u128_val x = 0"
      by (auto simp: u128_val_def or_eq_0_iff unsigned_or_eq word_zero_iff_unat)
    ultimately show ?thesis using 1 by (simp add: f3_sticky_shift_def u128_val_def)
  next
    case 2
    define y where "y = \<lparr>ux0 = ux1 x OR of_bool (ux0 x \<noteq> 0), ux1 = 0\<rparr>"
    have y: "u128_val y = stk 64 (u128_val x)"
      using unat_lt2p [of "ux0 x"]
      by (simp add: y_def u128_val_def stk_def unsigned_or_eq word_zero_iff_unat)
    show ?thesis
    proof (cases "sh = 64")
      case True
      then show ?thesis using y by (simp add: f3_sticky_shift_def y_def)
    next
      case False
      then have "f3_sticky_shift sh x = \<lparr>ux0 = (drop_bit (nat (sh - 64)) (ux0 y) OR push_bit (64 - nat (sh - 64)) (ux1 y))
                        OR of_bool (push_bit (64 - nat (sh - 64)) (ux0 y) \<noteq> 0),
                 ux1 = drop_bit (nat (sh - 64)) (ux1 y)\<rparr>"
        using 2 by (simp add: f3_sticky_shift_def y_def nat_diff_distrib)
      then have "u128_val (f3_sticky_shift sh x) = stk (nat (sh - 64)) (u128_val y)"
        using 2 False by (simp only:) (rule sticky_low; simp)
      moreover have "nat (sh - 64) + 64 = nat sh" using 2 by simp
      ultimately show ?thesis by (simp only: y stk_stk)
    qed
  next
    case 3
    show ?thesis
    proof (cases "sh = 0")
      case True
      then show ?thesis by (simp add: f3_sticky_shift_def)
    next
      case False
      then have "f3_sticky_shift sh x = \<lparr>ux0 = (drop_bit (nat sh) (ux0 x) OR push_bit (64 - nat sh) (ux1 x))
                        OR of_bool (push_bit (64 - nat sh) (ux0 x) \<noteq> 0),
                 ux1 = drop_bit (nat sh) (ux1 x)\<rparr>"
        using 3 sh by (simp add: f3_sticky_shift_def nat_diff_distrib)
      then show ?thesis
        using 3 False sh by (simp only:) (rule sticky_low; simp)
    qed
  qed
qed

definition f3_zero :: "int \<Rightarrow> u128_t" where
  "f3_zero sg = \<lparr>ux0 = 0, ux1 = push_bit 63 (word_of_int sg)\<rparr>"

definition f3_infinity :: "int \<Rightarrow> u128_t" where
  "f3_infinity sg = \<lparr>ux0 = 0, ux1 = push_bit 63 (word_of_int sg) OR 0x7fff000000000000\<rparr>"

definition f3_round :: "int \<Rightarrow> int \<Rightarrow> u128_t \<Rightarrow> u128_t" where
  "f3_round sg ex x =
     (let (x, ex) = (if ex > 0 then (f3_sticky_shift 13 x, ex)
                      else (f3_sticky_shift (14 - ex) x, 0));
          error = ux0 x AND 3;
          x = u128_shr 2 x;
          (x, ex) =
            (if error = 3 \<or> (error = 2 \<and> ux0 x AND 1 \<noteq> 0) then
               let x = x\<lparr>ux0 := ux0 x + 1\<rparr> in
               if ux0 x = 0 then
                 let x = x\<lparr>ux1 := ux1 x + 1\<rparr> in
                 if ux1 x = push_bit 48 1 then (x, 1)
                 else if ux1 x = push_bit 49 1 then (u128_shr 1 x, ex + 1)
                 else (x, ex)
               else (x, ex)
             else (x, ex))
      in if ex \<ge> 32767 then f3_infinity sg
         else x\<lparr>ux1 := drop_bit 16 (push_bit 16 (ux1 x))
                        OR push_bit 48 (word_of_int ex) OR push_bit 63 (word_of_int sg)\<rparr>)"

definition rne_div :: "nat \<Rightarrow> nat \<Rightarrow> nat" where
  "rne_div N D = (let q = N div D; r = N mod D in
     if 2 * r > D \<or> (2 * r = D \<and> odd q) then q + 1 else q)"

lemma rep_stk:
  assumes r: "rep k X N D" and k: "k \<le> Suc s"
  shows "stk s X div 2 = N div (D * 2 ^ Suc s)"
    and "even (stk s X) \<longleftrightarrow> N mod (D * 2 ^ Suc s) = 0"
proof -
  obtain m where m: "Suc s = k + m" using k le_Suc_ex by blast
  have d: "X div 2 ^ k = N div (D * 2 ^ k)" and e: "X mod 2 ^ k = 0 \<longleftrightarrow> N mod (D * 2 ^ k) = 0"
    using r by (auto simp: rep_def)
  have "X div 2 ^ k div 2 ^ m = N div (D * 2 ^ k) div 2 ^ m" by (simp only: d)
  then show "stk s X div 2 = N div (D * 2 ^ Suc s)"
    by (simp only: stk_div2 m power_add div_mult2_eq mult.assoc [symmetric])
  have "even (stk s X) \<longleftrightarrow> X mod 2 ^ k = 0 \<and> X div 2 ^ k mod 2 ^ m = 0"
    by (simp only: stk_even m div_mod_pow_split)
  also have "\<dots> \<longleftrightarrow> N mod (D * 2 ^ k) = 0 \<and> N div (D * 2 ^ k) mod 2 ^ m = 0"
    by (simp only: d e)
  also have "\<dots> \<longleftrightarrow> N mod (D * 2 ^ k * 2 ^ m) = 0"
  proof -
    have "0 < D" using r by (simp add: rep_def)
    have "N mod (D * 2 ^ k * 2 ^ m) = (D * 2 ^ k) * (N div (D * 2 ^ k) mod 2 ^ m) + N mod (D * 2 ^ k)"
      by (rule mod_mult2_eq)
    with \<open>0 < D\<close> show ?thesis by auto
  qed
  also have "D * 2 ^ k * 2 ^ m = D * 2 ^ Suc s" by (simp only: m power_add mult.assoc)
  finally show "even (stk s X) \<longleftrightarrow> N mod (D * 2 ^ Suc s) = 0" .
qed

lemma rne_sticky:
  assumes r: "rep k X N D" and k: "k \<le> Suc s"
  shows "stk s X div 4 + of_bool (stk s X mod 4 = 3 \<or> (stk s X mod 4 = 2 \<and> odd (stk s X div 4)))
         = rne_div N (D * 2 ^ (s + 2))"
proof -
  define H where "H = D * 2 ^ Suc s"
  define Z where "Z = stk s X"
  have H: "0 < H" using r by (simp add: H_def rep_def)
  have z2: "Z div 2 = N div H" and ze: "even Z \<longleftrightarrow> N mod H = 0"
    using rep_stk [OF r k] by (simp_all add: Z_def H_def)
  have DH: "D * 2 ^ (s + 2) = 2 * H" by (simp add: H_def)
  have q: "N div (2 * H) = Z div 4"
    using z2 by (metis div_mult2_eq mult.commute num_double numeral_times_numeral)
  have rr: "N mod (2 * H) = H * (Z div 2 mod 2) + N mod H"
    by (simp add: z2 mod_mult2_eq mult.commute [of 2])
  define r where "r = N mod H"
  have lt: "r < H" using H by (simp add: r_def)
  have z4: "Z mod 4 = 2 * (Z div 2 mod 2) + Z mod 2" using mod_mult2_eq [of Z 2 2] by simp
  have par: "Z mod 2 = (if r = 0 then 0 else 1)" using ze unfolding r_def by (cases "even Z") (simp_all add: odd_iff_mod_2_eq_one)
  have rd: "rne_div N (2 * H) = Z div 4 + of_bool (Z div 2 mod 2 = 1 \<and> (r \<noteq> 0 \<or> odd (Z div 4)))"
  proof (cases "Z div 2 mod 2 = 1")
    case True
    then show ?thesis using lt H unfolding rne_div_def Let_def q rr r_def [symmetric] by auto
  next
    case False
    then have "Z div 2 mod 2 = 0" by simp
    then show ?thesis using lt H unfolding rne_div_def Let_def q rr r_def [symmetric] by simp
  qed
  show ?thesis
    unfolding DH rd Z_def [symmetric] z4 par by auto
qed

lemma val_pack:
  assumes "0 \<le> ex" "ex < 32768" "sg = 0 \<or> sg = 1"
  shows "u128_val (x\<lparr>ux1 := drop_bit 16 (push_bit 16 (ux1 x))
             OR push_bit 48 (word_of_int ex) OR push_bit 63 (word_of_int sg)\<rparr>)
         = u128_val x mod 2 ^ 112 + nat ex * 2 ^ 112 + nat sg * 2 ^ 127"
proof -
  define e where "e = (word_of_int ex :: 64 word)"
  define g where "g = (word_of_int sg :: 64 word)"
  have ue: "unat e = nat ex" "unat e < 2 ^ 15" and ug: "unat g = nat sg" "unat g < 2 ^ 1"
    using assms unat_word_of_int_less [of ex, where 'a = 64] unat_word_of_int_less [of sg, where 'a = 64]
    unfolding e_def g_def by auto
  let ?l = "drop_bit 16 (push_bit 16 (ux1 x))"
  have l: "unat ?l = unat (ux1 x) mod 2 ^ 48"
    using mod_mult_mult2 [of "unat (ux1 x)" "2 ^ 16" "2 ^ 48"]
    by (simp add: unat_drop_bit unat_push_bit)
  have d1: "?l AND (push_bit 48 e OR push_bit 63 g) = 0"
    by (rule bit_word_eqI) (auto simp: bit_simps)
  have d2: "push_bit 48 e AND push_bit 63 g = 0"
    using bit_unat_less [OF _ ue(2)] by (intro bit_word_eqI) (fastforce simp: bit_simps)
  have "unat (?l OR push_bit 48 e OR push_bit 63 g) = unat (ux1 x) mod 2 ^ 48 + nat ex * 2 ^ 48 + nat sg * 2 ^ 63"
    using assms unfolding unat_or_disj [OF d1] unat_or_disj [OF d2] l
    by (auto simp: unat_push_bit ue ug)
  moreover have "u128_val x mod 2 ^ 112 = (unat (ux1 x) mod 2 ^ 48) * 2 ^ 64 + unat (ux0 x)"
  proof -
    have "u128_val x mod 2 ^ (64 + 48) = 2 ^ 64 * (u128_val x div 2 ^ 64 mod 2 ^ 48) + u128_val x mod 2 ^ 64"
      by (simp only: power_add mod_mult2_eq)
    then show ?thesis using unat_lt2p [of "ux0 x"] by (simp add: u128_val_def)
  qed
  ultimately show ?thesis
    using assms by (simp add: u128_val_def flip: e_def g_def)
qed

lemma val_f3_infinity: "sg = 0 \<or> sg = 1 \<Longrightarrow> u128_val (f3_infinity sg) = 32767 * 2 ^ 112 + nat sg * 2 ^ 127"
  by (auto simp: u128_val_def f3_infinity_def)

lemma val_f3_zero: "sg = 0 \<or> sg = 1 \<Longrightarrow> u128_val (f3_zero sg) = nat sg * 2 ^ 127"
  by (auto simp: u128_val_def f3_zero_def)

lemma u128_incr:
  assumes "u128_val x < 2 ^ 128 - 1"
  shows "ux0 x + 1 \<noteq> 0 \<Longrightarrow> u128_val (x\<lparr>ux0 := ux0 x + 1\<rparr>) = u128_val x + 1"
    and "ux0 x + 1 = 0 \<Longrightarrow> u128_val (x\<lparr>ux0 := 0, ux1 := ux1 x + 1\<rparr>) = u128_val x + 1"
proof -
  assume "ux0 x + 1 = 0"
  then have "ux0 x = - 1" by (rule max_word_wrap)
  then have x0: "unat (ux0 x) = 2 ^ 64 - 1"
    by (simp add: unsigned_minus_1_eq_mask mask_eq_exp_minus_1)
  then have "unat (ux1 x) < 2 ^ 64 - 1" using assms by (simp add: u128_val_def)
  then have "unat (ux1 x + 1) = unat (ux1 x) + 1"
    by (simp add: unat_word_ariths)
  with x0 show "u128_val (x\<lparr>ux0 := 0, ux1 := ux1 x + 1\<rparr>) = u128_val x + 1"
    by (simp add: u128_val_def)
next
  assume "ux0 x + 1 \<noteq> 0"
  then have "unat (ux0 x + 1) = unat (ux0 x) + 1"
    using unatSuc [of "ux0 x"] by (simp add: add.commute)
  then show "u128_val (x\<lparr>ux0 := ux0 x + 1\<rparr>) = u128_val x + 1"
    by (simp add: u128_val_def)
qed

definition f3_pack :: "int \<Rightarrow> int \<Rightarrow> u128_t \<Rightarrow> u128_t" where
  "f3_pack sg ex x = (if ex \<ge> 32767 then f3_infinity sg
     else x\<lparr>ux1 := drop_bit 16 (push_bit 16 (ux1 x))
                        OR push_bit 48 (word_of_int ex) OR push_bit 63 (word_of_int sg)\<rparr>)"

lemma val_f3_pack:
  assumes "0 \<le> ex" "sg = 0 \<or> sg = 1"
  shows "u128_val (f3_pack sg ex x)
         = min (32767 * 2 ^ 112) (u128_val x mod 2 ^ 112 + nat ex * 2 ^ 112) + nat sg * 2 ^ 127"
proof (cases "ex \<ge> 32767")
  case True
  then have "32767 \<le> nat ex" by simp
  then have "min (32767 * 2 ^ 112) (u128_val x mod 2 ^ 112 + nat ex * 2 ^ 112) = 32767 * 2 ^ 112"
    by (intro min.absorb1) simp
  with True show ?thesis using assms by (simp add: f3_pack_def val_f3_infinity)
next
  case False
  then have "nat ex \<le> 32766" by simp
  then have a: "nat ex * 2 ^ 112 \<le> 32766 * 2 ^ 112" by (rule mult_le_mono1)
  have b: "u128_val x mod 2 ^ 112 \<le> 2 ^ 112" by (rule less_imp_le) simp
  have "u128_val x mod 2 ^ 112 + nat ex * 2 ^ 112 \<le> 2 ^ 112 + 32766 * 2 ^ 112"
    by (rule add_mono [OF b a])
  then have "min (32767 * 2 ^ 112) (u128_val x mod 2 ^ 112 + nat ex * 2 ^ 112)
      = u128_val x mod 2 ^ 112 + nat ex * 2 ^ 112"
    by (intro min.absorb2) simp
  with False show ?thesis using assms val_pack [of ex sg x] by (simp only: f3_pack_def) simp
qed

text \<open>the mantissa and the error bits of f3_round, on numbers\<close>

lemma val_low2: "unat (ux0 x AND 3) = u128_val x mod 4" "unat (ux0 x AND 1) = u128_val x mod 2"
proof -
  have "ux0 x AND 3 = ux0 x mod 4" "ux0 x AND 1 = ux0 x mod 2"
    using take_bit_eq_mask [of 2 "ux0 x"] take_bit_eq_mask [of 1 "ux0 x"]
    by (simp_all add: take_bit_eq_mod mask_numeral)
  moreover have "u128_val x = unat (ux0 x) + 4 * (unat (ux1 x) * 2 ^ 62)"
    "u128_val x = unat (ux0 x) + 2 * (unat (ux1 x) * 2 ^ 63)"
    by (simp_all add: u128_val_def)
  then have "u128_val x mod 4 = unat (ux0 x) mod 4" "u128_val x mod 2 = unat (ux0 x) mod 2"
    by (metis mod_mult_self2)+
  ultimately show "unat (ux0 x AND 3) = u128_val x mod 4" "unat (ux0 x AND 1) = u128_val x mod 2"
    by (simp_all add: unat_mod)
qed

definition round_bits :: "int \<Rightarrow> nat \<Rightarrow> nat" where
  "round_bits ex Z = (if ex > 0 then nat ex - 1 else 0) * 2 ^ 112
     + (Z div 4 + of_bool (Z mod 4 = 3 \<or> (Z mod 4 = 2 \<and> odd (Z div 4))))"

lemma f3_round_bits:
  assumes sg: "sg = 0 \<or> sg = 1" and n: "ex > 0 \<Longrightarrow> 2 ^ 127 \<le> u128_val x"
    and Z: "Z = stk (nat (if ex > 0 then 13 else 14 - ex)) (u128_val x)"
  shows "u128_val (f3_round sg ex x) = min (32767 * 2 ^ 112) (round_bits ex Z) + nat sg * 2 ^ 127"
proof -
  define y where "y = (if ex > 0 then f3_sticky_shift 13 x else f3_sticky_shift (14 - ex) x)"
  define e where "e = (if ex > 0 then ex else 0)"
  define z where "z = u128_shr 2 y"
  define up where "up = (u128_val y mod 4 = 3 \<or> (u128_val y mod 4 = 2 \<and> odd (u128_val z)))"
  have y: "u128_val y = Z" by (simp add: y_def Z val_sticky_shift)
  have z: "u128_val z = Z div 4" using val_shr [of 2 y] by (simp add: z_def y)
  have zb: "Z div 4 < 2 ^ 113" "ex \<le> 0 \<Longrightarrow> Z div 4 < 2 ^ 112" "ex > 0 \<Longrightarrow> 2 ^ 112 \<le> Z div 4"
  proof -
    define s where "s = nat (if ex > 0 then 13 else 14 - ex)"
    have q: "Z div 4 = u128_val x div 2 ^ (s + 2)"
    proof -
      have "Z div 4 = Z div 2 div 2" by simp
      also have "\<dots> = u128_val x div 2 ^ Suc s div 2" unfolding Z s_def [symmetric] stk_div2 ..
      finally show ?thesis by (simp add: mult.commute flip: div_mult2_eq)
    qed
    have le: "u128_val x div 2 ^ (s + 2) \<le> u128_val x div 2 ^ m" if "m \<le> s + 2" for m
      using that by (intro div_le_mono2 power_increasing) auto
    have lt: "u128_val x div 2 ^ 15 < 2 ^ 113" "u128_val x div 2 ^ 16 < 2 ^ 112"
      using u128_val_less [of x] by (auto simp: less_mult_imp_div_less)
    have "15 \<le> s + 2" "ex \<le> 0 \<Longrightarrow> 16 \<le> s + 2" by (auto simp: s_def)
    with le lt q show "Z div 4 < 2 ^ 113" "ex \<le> 0 \<Longrightarrow> Z div 4 < 2 ^ 112" by fastforce+
    assume "ex > 0"
    then have "Z div 4 = u128_val x div 2 ^ 15" by (simp add: q s_def)
    with n [OF \<open>ex > 0\<close>] show "2 ^ 112 \<le> Z div 4"
      using div_le_mono [of "2 ^ 127" "u128_val x" "2 ^ 15"] by simp
  qed
  have err: "ux0 y AND 3 = 3 \<longleftrightarrow> Z mod 4 = 3" "ux0 y AND 3 = 2 \<longleftrightarrow> Z mod 4 = 2"
    "ux0 z AND 1 \<noteq> 0 \<longleftrightarrow> odd (Z div 4)"
    using val_low2 [of y] val_low2 [of z]
    by (auto simp: word_unat_eq_iff y z odd_iff_mod_2_eq_one)
  define inc where "inc = (Z mod 4 = 3 \<or> (Z mod 4 = 2 \<and> odd (Z div 4)))"
  have unfold: "f3_round sg ex x =
      (if \<not> inc then f3_pack sg e z
       else if ux0 z + 1 \<noteq> 0 then f3_pack sg e (z\<lparr>ux0 := ux0 z + 1\<rparr>)
       else let w = z\<lparr>ux0 := 0, ux1 := ux1 z + 1\<rparr> in
         if ux1 w = push_bit 48 1 then f3_pack sg 1 w
         else if ux1 w = push_bit 49 1 then f3_pack sg (e + 1) (u128_shr 1 w)
         else f3_pack sg e w)"
    unfolding inc_def err [symmetric] z_def e_def y_def f3_pack_def f3_round_def Let_def
    by (auto split: if_splits)
  have A: "M mod 2 ^ 112 + nat e * 2 ^ 112 = (if ex > 0 then nat ex - 1 else 0) * 2 ^ 112 + M"
    if M: "M < 2 ^ 113" "ex \<le> 0 \<Longrightarrow> M < 2 ^ 112" "ex > 0 \<Longrightarrow> 2 ^ 112 \<le> M" for M
  proof (cases "ex > 0")
    case True
    then have "M mod 2 ^ 112 = M - 2 ^ 112" using M by (simp add: le_mod_geq)
    moreover have "nat ex * K = (nat ex - 1) * K + K" for K
      using True by (cases "nat ex") auto
    ultimately show ?thesis using True M(3) unfolding e_def by simp
  next
    case False
    then show ?thesis using M(2) by (simp add: e_def)
  qed
  have e0: "0 \<le> e" by (simp add: e_def)
  note pack = val_f3_pack [OF _ sg]
  have rb: "round_bits ex Z = (if ex > 0 then nat ex - 1 else 0) * 2 ^ 112 + (Z div 4 + of_bool inc)"
    by (simp only: round_bits_def inc_def)
  have zlt: "u128_val z < 2 ^ 128 - 1" using zb(1) by (simp add: z)
  show ?thesis
  proof (cases inc)
    case False
    then show ?thesis using A [OF zb] e0 by (simp add: unfold rb pack z)
  next
    case inc: True
    define M where "M = Z div 4 + 1"
    have Mb: "M \<le> 2 ^ 113" "ex \<le> 0 \<Longrightarrow> M \<le> 2 ^ 112" "ex > 0 \<Longrightarrow> 2 ^ 112 < M"
      using zb by (auto simp: M_def)
    have rbM: "round_bits ex Z = (if ex > 0 then nat ex - 1 else 0) * 2 ^ 112 + M"
      using inc by (simp only: rb M_def of_bool_eq if_True)
    show ?thesis
    proof (cases "ux0 z + 1 = 0")
      case False
      have v: "u128_val (z\<lparr>ux0 := ux0 z + 1\<rparr>) = M"
        using u128_incr(1) [OF zlt False] by (simp only: z M_def)
      have "M mod 2 ^ 64 = unat (ux0 z + 1)"
        using unat_lt2p [of "ux0 z + 1"] by (simp flip: v add: u128_val_def)
      then have "M mod 2 ^ 64 \<noteq> 0" using False by (simp add: word_zero_iff_unat)
      then have "M \<noteq> 2 ^ 112" "M \<noteq> 2 ^ 113" by auto
      then have "M < 2 ^ 113" "ex \<le> 0 \<Longrightarrow> M < 2 ^ 112" "ex > 0 \<Longrightarrow> 2 ^ 112 \<le> M"
        using Mb by (auto simp: le_less)
      note A [OF this]
      then show ?thesis using False inc e0 by (simp add: unfold rbM pack v)
    next
      case True
      define w where "w = z\<lparr>ux0 := 0, ux1 := ux1 z + 1\<rparr>"
      have v: "u128_val w = M"
        using u128_incr(2) [OF zlt True] by (simp only: z M_def w_def)
      have vw: "M = unat (ux1 w) * 2 ^ 64" by (simp flip: v add: u128_val_def w_def)
      have w1: "ux1 w = push_bit 48 1 \<longleftrightarrow> M = 2 ^ 112" and w2: "ux1 w = push_bit 49 1 \<longleftrightarrow> M = 2 ^ 113"
        by (auto simp: vw word_unat_eq_iff)
      have fr: "f3_round sg ex x = (if M = 2 ^ 112 then f3_pack sg 1 w
          else if M = 2 ^ 113 then f3_pack sg (e + 1) (u128_shr 1 w) else f3_pack sg e w)"
        using True inc by (simp only: unfold w_def [symmetric] Let_def w1 w2) simp
      consider "M = 2 ^ 112" | "M = 2 ^ 113" | "M \<noteq> 2 ^ 112" "M \<noteq> 2 ^ 113" by blast
      then show ?thesis
      proof cases
        case 1
        then have "\<not> ex > 0" using Mb(3) by auto
        with 1 show ?thesis by (simp add: fr rbM pack v)
      next
        case 2
        then have ex: "ex > 0" using Mb(2) by (cases "ex > 0") auto
        have "u128_val (u128_shr 1 w) = 2 ^ 112" using val_shr [of 1 w] by (simp add: v 2)
        moreover have "nat (ex + 1) * K = (nat ex - 1) * K + (K + K)" for K
          using ex by (cases "nat ex") (auto simp: nat_add_distrib)
        ultimately show ?thesis using 2 ex by (simp add: fr rbM pack e_def)
      next
        case 3
        then have "M < 2 ^ 113" "ex \<le> 0 \<Longrightarrow> M < 2 ^ 112" "ex > 0 \<Longrightarrow> 2 ^ 112 \<le> M"
          using Mb by (auto simp: le_less)
        note A [OF this]
        then show ?thesis using 3 e0 by (simp add: fr rbM pack v)
      qed
    qed
  qed
qed

end
