(* ===== verification/SoftFloatRound.thy ===== *)
theory SoftFloatRound
  imports SoftFloatBase
begin

text \<open>
  The specification of rounding: \<open>tf_enc N D\<close> is the binary128 encoding (without sign) of N/D in units
  of the least subnormal, and \<open>f3_round_rep\<close> shows that \<open>f3_round\<close> computes it from any mantissa that
  represents the exact value.
\<close>

definition tf_enc :: "nat \<Rightarrow> nat \<Rightarrow> nat" where
  "tf_enc N D = (let e = floorlog 2 (N div D) - 113 in e * 2 ^ 112 + rne_div N (D * 2 ^ e))"

lemma rne_div_cross:
  assumes "0 < D" "0 < D'" "N * D' = N' * D"
  shows "rne_div N D = rne_div N' D'"
proof -
  have sc: "rne_div (N * c) (D * c) = rne_div N D" if "0 < c" "0 < D" for N D c :: nat
  proof -
    have "N * c div (D * c) = N div D" using that by simp
    moreover have "N * c mod (D * c) = N mod D * c" by (rule mod_mult_mult2)
    moreover have "2 * (N mod D * c) > D * c \<longleftrightarrow> 2 * (N mod D) > D"
      using that by (metis mult.assoc mult_less_cancel2)
    moreover have "2 * (N mod D * c) = D * c \<longleftrightarrow> 2 * (N mod D) = D"
      using that by (metis mult.assoc mult_cancel2 less_not_refl)
    ultimately show ?thesis by (simp only: rne_div_def Let_def)
  qed
  have "rne_div N D = rne_div (N * D') (D * D')" using sc [of D' D N] assms by simp
  also have "\<dots> = rne_div (N' * D) (D' * D)" by (simp only: assms mult.commute [of D D'])
  also have "\<dots> = rne_div N' D'" using sc [of D D' N'] assms by simp
  finally show ?thesis .
qed

lemma rne_div_0 [simp]: "0 < D \<Longrightarrow> rne_div 0 D = 0"
  by (simp add: rne_div_def)

lemma floorlog_2_eq: "2 ^ m \<le> v \<Longrightarrow> v < 2 ^ Suc m \<Longrightarrow> floorlog 2 v = Suc m"
proof -
  assume a: "2 ^ m \<le> v" "v < 2 ^ Suc m"
  have "0 < v" using a(1) by (cases v) auto
  with floorlog_bounds [of v 2] have b: "2 ^ (floorlog 2 v - 1) \<le> v" "v < 2 ^ floorlog 2 v" by auto
  from a(1) b(2) have "(2::nat) ^ m < 2 ^ floorlog 2 v" by linarith
  moreover from a(2) b(1) have "(2::nat) ^ (floorlog 2 v - 1) < 2 ^ Suc m" by linarith
  ultimately have "m < floorlog 2 v" "floorlog 2 v - 1 < Suc m"
    by (meson one_less_numeral_iff power_less_imp_less_exp semiring_norm(76))+
  then show ?thesis by linarith
qed

lemma floorlog_2_le: "v < 2 ^ m \<Longrightarrow> floorlog 2 v \<le> m"
proof (cases "v = 0")
  case False
  assume a: "v < 2 ^ m"
  from floorlog_bounds [of v 2] False have "2 ^ (floorlog 2 v - 1) \<le> v" by auto
  with a have "(2::nat) ^ (floorlog 2 v - 1) < 2 ^ m" by linarith
  then have "floorlog 2 v - 1 < m"
    by (meson one_less_numeral_iff power_less_imp_less_exp semiring_norm(76))
  then show ?thesis by linarith
qed (simp add: floorlog_def)

lemma rep_bounds:
  assumes r: "rep k X N D" and k: "k \<le> m"
  shows "X < 2 ^ m * c \<Longrightarrow> N < D * (2 ^ m * c)" and "2 ^ m * c \<le> X \<Longrightarrow> D * (2 ^ m * c) \<le> N"
proof -
  obtain j where m: "m = k + j" using k le_Suc_ex by blast
  have D: "0 < D" and d: "X div 2 ^ k = N div (D * 2 ^ k)" using r by (auto simp: rep_def)
  have "X < 2 ^ m * c \<longleftrightarrow> X div 2 ^ k < 2 ^ j * c"
    by (simp add: m power_add div_less_iff_less_mult mult_ac)
  also have "\<dots> \<longleftrightarrow> N < D * (2 ^ m * c)"
    using D by (simp add: d m power_add div_less_iff_less_mult mult_ac)
  finally have "X < 2 ^ m * c \<longleftrightarrow> N < D * (2 ^ m * c)" .
  then show "X < 2 ^ m * c \<Longrightarrow> N < D * (2 ^ m * c)" "2 ^ m * c \<le> X \<Longrightarrow> D * (2 ^ m * c) \<le> N"
    by auto
qed

theorem f3_round_rep:
  assumes r: "rep k (u128_val x) N D" and k: "k \<le> 14"
    and sg: "sg = 0 \<or> sg = 1" and n: "ex > 0 \<Longrightarrow> 2 ^ 127 \<le> u128_val x"
    and sc: "Ns * D * 2 ^ nat (16 - ex) = N * Ds * 2 ^ nat (ex - 16)" and Ds: "0 < Ds"
  shows "u128_val (f3_round sg ex x) = min (32767 * 2 ^ 112) (tf_enc Ns Ds) + nat sg * 2 ^ 127"
proof -
  define s where "s = nat (if ex > 0 then 13 else 14 - ex)"
  define e where "e = (if ex > 0 then nat ex - 1 else 0)"
  have D: "0 < D" using r by (simp add: rep_def)
  have "13 \<le> s" unfolding s_def by (cases "ex > 0") (simp_all add: le_nat_iff)
  then have s: "k \<le> Suc s" using k by simp
  have rb: "round_bits ex (stk s (u128_val x)) = e * 2 ^ 112 + rne_div N (D * 2 ^ (s + 2))"
    unfolding round_bits_def e_def rne_sticky [OF r s] ..
  have cross: "Ns * (D * 2 ^ (s + 2)) = N * (Ds * 2 ^ e)"
  proof (cases "ex > 0")
    case True
    then obtain i where i: "ex = int i" "0 < i" by (metis nat_0_le zero_less_nat_eq order_less_imp_le)
    show ?thesis
    proof (cases "i \<le> 16")
      case True
      have p: "(2::nat) ^ (16 - i) * 2 ^ (i - 1) = 2 ^ 15" "s + 2 = 15" "e = i - 1"
        using True i by (simp_all flip: power_add add: s_def e_def)
      have "Ns * D * 2 ^ (16 - i) * 2 ^ (i - 1) = N * Ds * 2 ^ (i - 1)"
      proof -
        have "nat (16 - ex) = 16 - i" "nat (ex - 16) = 0" using i True by auto
        then show ?thesis using sc by simp
      qed
      then show ?thesis using p by (simp only: mult.assoc)
    next
      case False
      have "i - 16 + 15 = i - 1" using False by simp
      then have p: "(2::nat) ^ (i - 16) * 2 ^ 15 = 2 ^ (i - 1)" by (metis power_add)
      have q: "s + 2 = 15" "e = i - 1" using i by (simp_all add: s_def e_def)
      have "nat (16 - ex) = 0" "nat (ex - 16) = i - 16" using i False by auto
      then have "Ns * D * 2 ^ 15 = N * Ds * 2 ^ (i - 16) * 2 ^ 15" using sc by simp
      then show ?thesis using p q by (simp only: mult.assoc)
    qed
  next
    case False
    then have "nat (ex - 16) = 0" "nat (16 - ex) = s + 2" "e = 0" by (auto simp: s_def e_def)
    then show ?thesis using sc by (simp add: mult.assoc)
  qed
  have eq: "rne_div N (D * 2 ^ (s + 2)) = rne_div Ns (Ds * 2 ^ e)"
    using cross D Ds by (intro rne_div_cross) auto
  have fl: "floorlog 2 (Ns div Ds) - 113 = e"
  proof -
    have Nlt: "N < D * 2 ^ 128"
      using rep_bounds(1) [OF r, of 14 "2 ^ 114"] k u128_val_less [of x] by simp
    have ub: "Ns div Ds < 2 ^ (113 + e)"
    proof -
      have "15 \<le> s + 2" using \<open>13 \<le> s\<close> by simp
      have "Ns * (D * 2 ^ (s + 2)) < D * 2 ^ 128 * (Ds * 2 ^ e)"
        using cross Nlt Ds by simp
      also have "\<dots> = Ds * 2 ^ (113 + e) * (D * 2 ^ 15)"
        by (simp add: power_add)
      also have "\<dots> \<le> Ds * 2 ^ (113 + e) * (D * 2 ^ (s + 2))"
        using \<open>15 \<le> s + 2\<close> by (intro mult_le_mono2 power_increasing) simp_all
      finally have "Ns < Ds * 2 ^ (113 + e)" by simp
      then show ?thesis using Ds by (simp add: div_less_iff_less_mult mult.commute)
    qed
    show ?thesis
    proof (cases "ex > 0")
      case True
      have "D * 2 ^ 127 \<le> N"
        using rep_bounds(2) [OF r, of 14 "2 ^ 113"] k n [OF True] by simp
      have "s + 2 = 15" using True by (simp add: s_def)
      have "Ds * 2 ^ (112 + e) * (D * 2 ^ 15) = D * 2 ^ 127 * (Ds * 2 ^ e)"
        by (simp add: power_add)
      also have "\<dots> \<le> Ns * (D * 2 ^ 15)"
        using cross \<open>D * 2 ^ 127 \<le> N\<close> \<open>s + 2 = 15\<close> Ds by simp
      finally have "Ds * 2 ^ (112 + e) \<le> Ns" using D by simp
      then have "2 ^ (112 + e) \<le> Ns div Ds" using Ds by (simp add: less_eq_div_iff_mult_less_eq mult.commute)
      then have "floorlog 2 (Ns div Ds) = Suc (112 + e)" using ub by (intro floorlog_2_eq) auto
      then show ?thesis by simp
    next
      case False
      then have "e = 0" by (simp add: e_def)
      then show ?thesis using floorlog_2_le [OF ub] by simp
    qed
  qed
  have "u128_val (f3_round sg ex x)
      = min (32767 * 2 ^ 112) (round_bits ex (stk s (u128_val x))) + nat sg * 2 ^ 127"
    using f3_round_bits [OF sg n] by (simp only: s_def)
  also have "round_bits ex (stk s (u128_val x)) = tf_enc Ns Ds"
    unfolding rb eq tf_enc_def Let_def fl ..
  finally show ?thesis .
qed

end
