(* ===== verification/SoftFloatUnpack.thy ===== *)
theory SoftFloatUnpack
  imports SoftFloatRound
begin

text \<open>
  Sign, exponent, fraction and value of a binary128 number, and the routines that take one apart:
  \<open>f3_unpack\<close>, \<open>f3_normalise\<close> and the NaN detection.
\<close>

definition f3_NaN :: "u128_t" where
  "f3_NaN = \<lparr>ux0 = - 1, ux1 = 0x7fffffffffffffff\<rparr>"

definition fp3_convert_NaN :: "int \<Rightarrow> u128_t \<Rightarrow> u128_t" where
  "fp3_convert_NaN sg mnt =
     \<lparr>ux0 = ux0 mnt, ux1 = ux1 mnt OR 0x7fff800000000000 OR push_bit 63 (word_of_int sg)\<rparr>"

definition fp3_detect_NaNs ::
  "int \<Rightarrow> int \<Rightarrow> u128_t \<Rightarrow> int \<Rightarrow> int \<Rightarrow> u128_t \<Rightarrow> u128_t option" where
  "fp3_detect_NaNs a_sgn a_exp a b_sgn b_exp b =
     (if a_exp = 32767 \<and> ux0 a OR push_bit 16 (ux1 a) \<noteq> 0 \<and> \<not> drop_bit 47 (ux1 a) AND 1 \<noteq> 0
      then Some (fp3_convert_NaN a_sgn a)
      else if b_exp = 32767 \<and> ux0 b OR push_bit 16 (ux1 b) \<noteq> 0 \<and> \<not> drop_bit 47 (ux1 b) AND 1 \<noteq> 0
      then Some (fp3_convert_NaN b_sgn b)
      else if a_exp = 32767 \<and> ux0 a OR push_bit 16 (ux1 a) \<noteq> 0
      then Some (fp3_convert_NaN a_sgn a)
      else if b_exp = 32767 \<and> ux0 b OR push_bit 16 (ux1 b) \<noteq> 0
      then Some (fp3_convert_NaN b_sgn b)
      else None)"

definition f3_unpack :: "u128_t \<Rightarrow> int \<times> int \<times> u128_t" where
  "f3_unpack f =
     (let x = f;
          sg = uint (drop_bit 63 (ux1 x));
          ex = uint (drop_bit 48 (ux1 x) AND 32767);
          x = x\<lparr>ux1 := drop_bit 16 (push_bit 16 (ux1 x))\<rparr>
      in if ex \<noteq> 0 then (sg, ex, x\<lparr>ux1 := ux1 x OR push_bit 48 1\<rparr>) else (sg, 1, x))"

fun f3_norm_loop :: "nat \<Rightarrow> int \<Rightarrow> u128_t \<Rightarrow> int \<times> u128_t" where
  "f3_norm_loop sh ex mnt =
     (if sh = 0 then (ex, mnt)
      else if drop_bit (64 - sh) (ux1 mnt) = 0
      then f3_norm_loop (sh div 2) (ex - int sh) (u128_shl sh mnt)
      else f3_norm_loop (sh div 2) ex mnt)"

declare f3_norm_loop.simps [simp del]

definition f3_normalise :: "int \<Rightarrow> u128_t \<Rightarrow> int \<times> u128_t" where
  "f3_normalise ex mnt =
     (if ux0 mnt OR ux1 mnt = 0 then (ex, mnt)
      else if ux1 mnt = 0 then f3_norm_loop 32 (ex - 64) \<lparr>ux0 = 0, ux1 = ux0 mnt\<rparr>
      else f3_norm_loop 32 ex mnt)"

definition tf_sign :: "u128_t \<Rightarrow> nat" where "tf_sign f = u128_val f div 2 ^ 127"
definition tf_expo :: "u128_t \<Rightarrow> nat" where "tf_expo f = u128_val f div 2 ^ 112 mod 2 ^ 15"
definition tf_frac :: "u128_t \<Rightarrow> nat" where "tf_frac f = u128_val f mod 2 ^ 112"
definition tf_sig :: "u128_t \<Rightarrow> nat" where "tf_sig f = (if tf_expo f = 0 then 0 else 2 ^ 112) + tf_frac f"
definition tf_mag :: "u128_t \<Rightarrow> nat" where "tf_mag f = tf_sig f * 2 ^ (max 1 (tf_expo f) - 1)"
definition tf_finite :: "u128_t \<Rightarrow> bool" where "tf_finite f \<longleftrightarrow> tf_expo f \<noteq> 32767"
definition tf_is_nan :: "u128_t \<Rightarrow> bool" where "tf_is_nan f \<longleftrightarrow> tf_expo f = 32767 \<and> tf_frac f \<noteq> 0"
definition tf_is_inf :: "u128_t \<Rightarrow> bool" where "tf_is_inf f \<longleftrightarrow> tf_expo f = 32767 \<and> tf_frac f = 0"

lemma or_zero_val: "ux0 x OR ux1 x = 0 \<longleftrightarrow> u128_val x = 0"
  by (auto simp: u128_val_def or_eq_0_iff unsigned_or_eq word_zero_iff_unat)

lemma val_div_64: "u128_val x div 2 ^ 64 = unat (ux1 x)" and val_mod_64: "u128_val x mod 2 ^ 64 = unat (ux0 x)"
  using unat_lt2p [of "ux0 x"] by (simp_all add: u128_val_def)

lemma val_div_hi: "u128_val x div 2 ^ (64 + n) = unat (ux1 x) div 2 ^ n"
  by (simp add: power_add div_mult2_eq flip: val_div_64)

lemma val_mod_hi: "u128_val x mod 2 ^ (64 + n) = (unat (ux1 x) mod 2 ^ n) * 2 ^ 64 + unat (ux0 x)"
proof -
  have "u128_val x mod 2 ^ (64 + n) = 2 ^ 64 * (u128_val x div 2 ^ 64 mod 2 ^ n) + u128_val x mod 2 ^ 64"
    by (simp only: power_add mod_mult2_eq)
  then show ?thesis by (simp only: val_div_64 val_mod_64 mult.commute)
qed

lemma unat_low48: "unat (drop_bit 16 (push_bit 16 w)) = unat w mod 2 ^ 48" for w :: "64 word"
  using mod_mult_mult2 [of "unat w" "2 ^ 16" "2 ^ 48"]
  by (simp add: unat_drop_bit unat_push_bit)

lemma and_mask_mod: "w AND 32767 = w mod 2 ^ 15" for w :: "64 word"
  using take_bit_eq_mask [of 15 w] by (simp add: take_bit_eq_mod mask_numeral)

lemma f3_unpack_eq:
  "f3_unpack f = (int (tf_sign f), int (max 1 (tf_expo f)), snd (snd (f3_unpack f)))"
  and f3_unpack_sig: "u128_val (snd (snd (f3_unpack f))) = tf_sig f"
proof -
  have sg: "uint (drop_bit 63 (ux1 f)) = int (tf_sign f)"
    using val_div_hi [of f 63] by (simp only: tf_sign_def unat_drop_bit uint_int_unat) simp
  have ex: "uint (drop_bit 48 (ux1 f) AND 32767) = int (tf_expo f)"
    using val_div_hi [of f 48] by (simp only: tf_expo_def and_mask_mod unat_mod unat_drop_bit uint_int_unat) simp
  let ?w = "drop_bit 16 (push_bit 16 (ux1 f))"
  have fr: "u128_val (f\<lparr>ux1 := ?w\<rparr>) = tf_frac f"
    using val_mod_hi [of f 48] by (simp add: tf_frac_def u128_val_def unat_low48)
  have d: "?w AND push_bit 48 g = 0" for g
    by (rule bit_word_eqI) (auto simp: bit_simps)
  have hid: "u128_val (f\<lparr>ux1 := ?w OR push_bit 48 1\<rparr>) = 2 ^ 112 + tf_frac f"
    unfolding fr [symmetric] using unat_or_disj [OF d [of 1]] by (simp add: u128_val_def)
  show "f3_unpack f = (int (tf_sign f), int (max 1 (tf_expo f)), snd (snd (f3_unpack f)))"
    by (simp add: f3_unpack_def Let_def sg ex)
  show "u128_val (snd (snd (f3_unpack f))) = tf_sig f"
    using fr hid by (simp add: f3_unpack_def Let_def ex tf_sig_def)
qed

lemma f3_unpackE:
  assumes "f3_unpack f = (sg, ex, m)"
  shows "sg = int (tf_sign f)" "ex = int (max 1 (tf_expo f))" "u128_val m = tf_sig f"
  using f3_unpack_eq [of f] f3_unpack_sig [of f] assms by auto

lemma tf_sign_01: "tf_sign f = 0 \<or> tf_sign f = 1"
proof -
  have "tf_sign f < 2" using u128_val_less [of f] by (simp add: tf_sign_def less_mult_imp_div_less)
  then show ?thesis by linarith
qed

lemma tf_expo_less: "tf_expo f < 32768" by (simp add: tf_expo_def)

lemma tf_sig_less: "tf_sig f < 2 ^ 113"
  using mod_less_divisor [of "2 ^ 112" "u128_val f"] by (auto simp: tf_sig_def tf_frac_def)

lemma val_high_zero: "0 < sh \<Longrightarrow> sh \<le> 64 \<Longrightarrow> drop_bit (64 - sh) (ux1 m) = 0 \<longleftrightarrow> u128_val m < 2 ^ (128 - sh)"
proof -
  assume "0 < sh" "sh \<le> 64"
  then have "128 - sh = 64 + (64 - sh)" by simp
  then have "u128_val m < 2 ^ (128 - sh) \<longleftrightarrow> u128_val m div 2 ^ (64 + (64 - sh)) = 0"
    by (simp only: div_pow_eq_0)
  then show ?thesis by (simp add: val_div_hi unat_drop_bit word_zero_iff_unat)
qed

lemma f3_norm_loop_spec:
  "2 ^ (128 - 2 * 2 ^ k) \<le> u128_val m \<Longrightarrow> k \<le> 5 \<Longrightarrow> f3_norm_loop (2 ^ k) ex m = (ex', m') \<Longrightarrow>
   \<exists>L. u128_val m' = u128_val m * 2 ^ L \<and> ex' = ex - int L \<and> 2 ^ 127 \<le> u128_val m'"
proof (induction k arbitrary: m ex)
  case 0
  have stop: "f3_norm_loop 0 e y = (e, y)" for e y by (simp add: f3_norm_loop.simps)
  show ?case
  proof (cases "u128_val m < 2 ^ 127")
    case True
    then have "(ex', m') = (ex - 1, u128_shl 1 m)"
      using 0 val_high_zero [of 1 m] by (simp add: f3_norm_loop.simps [of "Suc 0"] stop)
    moreover have "u128_val (u128_shl 1 m) = u128_val m * 2 ^ 1"
      using True val_shl [of 1 m] by simp
    ultimately show ?thesis using 0 by (intro exI [of _ 1]) auto
  next
    case False
    then have "(ex', m') = (ex, m)"
      using 0 val_high_zero [of 1 m] by (simp add: f3_norm_loop.simps [of "Suc 0"] stop)
    then show ?thesis using False by (intro exI [of _ 0]) auto
  qed
next
  case (Suc k)
  have le: "(2::nat) ^ Suc k \<le> 2 ^ 5" using Suc.prems(2) by (intro power_increasing) auto
  then have sh: "(2::nat) ^ Suc k \<le> 32" "0 < (2::nat) ^ Suc k" "2 ^ Suc k div 2 = (2::nat) ^ k" by auto
  show ?case
  proof (cases "u128_val m < 2 ^ (128 - 2 ^ Suc k)")
    case True
    let ?m = "u128_shl (2 ^ Suc k) m"
    have "(2::nat) ^ (128 - 2 ^ Suc k) * 2 ^ 2 ^ Suc k = 2 ^ 128"
      using sh by (simp flip: power_add)
    with True have "u128_val m * 2 ^ 2 ^ Suc k < 2 ^ 128"
      by (metis mult_less_cancel2 zero_less_numeral zero_less_power)
    then have v: "u128_val ?m = u128_val m * 2 ^ 2 ^ Suc k"
      using val_shl [of "2 ^ Suc k" m] sh by simp
    have "(2::nat) ^ (128 - 2 * 2 ^ Suc k) * 2 ^ 2 ^ Suc k = 2 ^ (128 - 2 * 2 ^ k)"
      using sh by (simp flip: power_add)
    then have "2 ^ (128 - 2 * 2 ^ k) \<le> u128_val ?m"
      using Suc.prems(1) v by (metis mult_le_mono1)
    moreover have "f3_norm_loop (2 ^ k) (ex - int (2 ^ Suc k)) ?m = (ex', m')"
      using Suc.prems(3) val_high_zero [of "2 ^ Suc k" m] sh True
      by (simp add: f3_norm_loop.simps [of "2 * 2 ^ k"])
    ultimately obtain L where "u128_val m' = u128_val ?m * 2 ^ L" "ex' = ex - int (2 ^ Suc k) - int L" "2 ^ 127 \<le> u128_val m'"
      using Suc.IH Suc.prems(2) by (meson Suc_leD)
    then show ?thesis using v by (intro exI [of _ "2 ^ Suc k + L"]) (simp add: power_add)
  next
    case False
    then have "2 ^ (128 - 2 * 2 ^ k) \<le> u128_val m" by simp
    moreover have "f3_norm_loop (2 ^ k) ex m = (ex', m')"
      using Suc.prems(3) val_high_zero [of "2 ^ Suc k" m] sh False
      by (simp add: f3_norm_loop.simps [of "2 * 2 ^ k"])
    ultimately show ?thesis using Suc.IH Suc.prems(2) by (meson Suc_leD)
  qed
qed

lemma f3_normalise_spec:
  assumes nz: "u128_val m \<noteq> 0" and f: "f3_normalise ex m = (ex', m')"
  obtains L where "u128_val m' = u128_val m * 2 ^ L" "ex' = ex - int L" "2 ^ 127 \<le> u128_val m'"
proof (cases "ux1 m = 0")
  case True
  let ?m = "\<lparr>ux0 = 0, ux1 = ux0 m\<rparr>"
  have v: "u128_val ?m = u128_val m * 2 ^ 64" using True by (simp add: u128_val_def)
  then have "2 ^ (128 - 2 * 2 ^ 5) \<le> u128_val ?m" using nz by simp
  moreover have "f3_norm_loop (2 ^ 5) (ex - 64) ?m = (ex', m')"
    using f True nz or_zero_val [of m] unfolding f3_normalise_def by simp
  ultimately obtain L where "u128_val m' = u128_val ?m * 2 ^ L" "ex' = ex - 64 - int L" "2 ^ 127 \<le> u128_val m'"
    using f3_norm_loop_spec by (metis le_refl)
  then show ?thesis using v by (intro that [of "64 + L"]) (auto simp: power_add)
next
  case False
  then have "1 \<le> unat (ux1 m)" by (simp add: word_zero_iff_unat Suc_le_eq)
  then have "2 ^ (128 - 2 * 2 ^ 5) \<le> u128_val m" by (simp add: u128_val_def)
  moreover have "f3_norm_loop (2 ^ 5) ex m = (ex', m')"
    using f False nz or_zero_val [of m] unfolding f3_normalise_def by simp
  ultimately obtain L where "u128_val m' = u128_val m * 2 ^ L" "ex' = ex - int L" "2 ^ 127 \<le> u128_val m'"
    using f3_norm_loop_spec by (metis le_refl)
  then show ?thesis by (rule that)
qed

end
