(* ===== verification/SoftFloatArith.thy ===== *)
theory SoftFloatArith
  imports SoftFloatUnpack Complex_Main
begin

text \<open>
  The four operations of \<open>lib/lib-arm64.c\<close> as definitions, the arithmetic of two-word numbers, and
  the contract (\<open>f3_rounder\<close>) through which they rest on the rounder.
\<close>

definition u128_add :: "u128_t \<Rightarrow> u128_t \<Rightarrow> u128_t" where
  "u128_add a b = (let x0 = ux0 a + ux0 b in
     \<lparr>ux0 = x0, ux1 = ux1 a + ux1 b + of_bool (x0 < ux0 a)\<rparr>)"

definition u128_sub :: "u128_t \<Rightarrow> u128_t \<Rightarrow> u128_t" where
  "u128_sub a b = (let x0 = ux0 a - ux0 b in
     \<lparr>ux0 = x0, ux1 = ux1 a - ux1 b - of_bool (x0 > ux0 a)\<rparr>)"

definition u128_neg :: "u128_t \<Rightarrow> u128_t" where
  "u128_neg x = (let x0 = - ux0 x in \<lparr>ux0 = x0, ux1 = - ux1 x - of_bool (x0 \<noteq> 0)\<rparr>)"

definition f3_add :: "u128_t \<Rightarrow> u128_t \<Rightarrow> int \<Rightarrow> u128_t" where
  "f3_add fa fb neg =
     (let (a_sgn, a_exp, a) = f3_unpack fa;
          (b_sgn, b_exp, b) = f3_unpack fb
      in case fp3_detect_NaNs a_sgn a_exp a b_sgn b_exp b of Some fx \<Rightarrow> fx | None \<Rightarrow>
      let b_sgn = b_sgn XOR neg in
      if a_exp = 32767 \<and> b_exp = 32767 \<and> a_sgn \<noteq> b_sgn then f3_NaN
      else if a_exp = 32767 then f3_infinity a_sgn
      else if b_exp = 32767 then f3_infinity b_sgn
      else if ux0 a OR ux1 a OR ux0 b OR ux1 b = 0 then f3_zero (a_sgn AND b_sgn)
      else
        let a = u128_shl 3 a;
            b = u128_shl 3 b;
            (a, b, a_exp) =
              (if a_exp \<le> b_exp then (f3_sticky_shift (b_exp - a_exp) a, b, b_exp)
               else (a, f3_sticky_shift (a_exp - b_exp) b, a_exp));
            x_exp = a_exp;
            (x_sgn, x) =
              (if a_sgn = b_sgn then (a_sgn, u128_add a b)
               else let x = u128_sub a b in
                 if drop_bit 63 (ux1 x) \<noteq> 0 then (a_sgn XOR 1, u128_neg x) else (a_sgn, x))
        in if ux0 x OR ux1 x = 0 then f3_zero 0
           else let (x_exp, x) = f3_normalise x_exp x in f3_round x_sgn (x_exp + 12) x)"

definition addtf3 :: "u128_t \<Rightarrow> u128_t \<Rightarrow> u128_t" where "addtf3 a b = f3_add a b 0"
definition subtf3 :: "u128_t \<Rightarrow> u128_t \<Rightarrow> u128_t" where "subtf3 a b = f3_add a b 1"

definition multf3_limbs :: "u128_t \<Rightarrow> u128_t \<Rightarrow> 64 word \<times> 64 word" where
  "multf3_limbs a b =
     (let a0 = drop_bit 34 (push_bit 28 (ux0 a));
          b0 = drop_bit 34 (push_bit 28 (ux0 b));
          a1 = drop_bit 36 (ux0 a) OR drop_bit 34 (push_bit 62 (ux1 a));
          b1 = drop_bit 36 (ux0 b) OR drop_bit 34 (push_bit 62 (ux1 b));
          a2 = drop_bit 34 (push_bit 32 (ux1 a));
          b2 = drop_bit 34 (push_bit 32 (ux1 b));
          a3 = drop_bit 32 (ux1 a);
          b3 = drop_bit 32 (ux1 b);
          x0 = a0 * b0;
          x1 = drop_bit 30 x0 + a0 * b1 + a1 * b0;
          x2 = drop_bit 30 x1 + a0 * b2 + a1 * b1 + a2 * b0;
          x3 = drop_bit 30 x2 + a0 * b3 + a1 * b2 + a2 * b1 + a3 * b0;
          x4 = drop_bit 30 x3 + a1 * b3 + a2 * b2 + a3 * b1;
          x5 = drop_bit 30 x4 + a2 * b3 + a3 * b2;
          x6 = drop_bit 30 x5 + a3 * b3;
          y0 = push_bit 34 x5 OR drop_bit 30 (push_bit 34 x4) OR drop_bit 60 (push_bit 34 x3)
               OR of_bool (push_bit 38 x3 OR push_bit 34 (x2 OR x1 OR x0) \<noteq> 0)
      in (y0, x6))"

definition multf3 :: "u128_t \<Rightarrow> u128_t \<Rightarrow> u128_t" where
  "multf3 fa fb =
     (let (a_sgn, a_exp, a) = f3_unpack fa;
          (b_sgn, b_exp, b) = f3_unpack fb
      in case fp3_detect_NaNs a_sgn a_exp a b_sgn b_exp b of Some fx \<Rightarrow> fx | None \<Rightarrow>
      if (a_exp = 32767 \<and> ux0 b OR ux1 b = 0) \<or> (b_exp = 32767 \<and> ux0 a OR ux1 a = 0) then f3_NaN
      else if a_exp = 32767 \<or> b_exp = 32767 then f3_infinity (a_sgn XOR b_sgn)
      else if ux0 a OR ux1 a = 0 \<or> ux0 b OR ux1 b = 0 then f3_zero (a_sgn XOR b_sgn)
      else
        let (a_exp, a) = f3_normalise a_exp a;
            (b_exp, b) = f3_normalise b_exp b;
            x_sgn = a_sgn XOR b_sgn;
            x_exp = a_exp + b_exp - 16352;
            (y0, y1) = multf3_limbs a b;
            (x, x_exp) = (if drop_bit 63 y1 = 0
                          then (\<lparr>ux0 = push_bit 1 y0, ux1 = push_bit 1 y1 OR drop_bit 63 y0\<rparr>, x_exp - 1)
                          else (\<lparr>ux0 = y0, ux1 = y1\<rparr>, x_exp))
        in f3_round x_sgn x_exp x)"

fun divtf3_loop :: "nat \<Rightarrow> u128_t \<Rightarrow> u128_t \<Rightarrow> u128_t \<Rightarrow> u128_t \<times> u128_t" where
  "divtf3_loop 0 a b x = (a, x)"
| "divtf3_loop (Suc n) a b x =
     (let x = u128_shl 1 x;
          (a, x) = (if ux1 a > ux1 b \<or> (ux1 a = ux1 b \<and> ux0 a \<ge> ux0 b)
                    then (\<lparr>ux0 = ux0 a - ux0 b, ux1 = ux1 a - ux1 b - of_bool (ux0 a < ux0 b)\<rparr>,
                          x\<lparr>ux0 := ux0 x OR 1\<rparr>)
                    else (a, x));
          a = u128_shl 1 a
      in divtf3_loop n a b x)"

definition divtf3 :: "u128_t \<Rightarrow> u128_t \<Rightarrow> u128_t" where
  "divtf3 fa fb =
     (let (a_sgn, a_exp, a) = f3_unpack fa;
          (b_sgn, b_exp, b) = f3_unpack fb
      in case fp3_detect_NaNs a_sgn a_exp a b_sgn b_exp b of Some fx \<Rightarrow> fx | None \<Rightarrow>
      if (a_exp = 32767 \<and> b_exp = 32767) \<or> (ux0 a OR ux1 a = 0 \<and> ux0 b OR ux1 b = 0) then f3_NaN
      else if a_exp = 32767 \<or> ux0 b OR ux1 b = 0 then f3_infinity (a_sgn XOR b_sgn)
      else if ux0 a OR ux1 a = 0 \<or> b_exp = 32767 then f3_zero (a_sgn XOR b_sgn)
      else
        let (a_exp, a) = f3_normalise a_exp a;
            (b_exp, b) = f3_normalise b_exp b;
            x_sgn = a_sgn XOR b_sgn;
            x_exp = a_exp - b_exp + 16395;
            a = u128_shr 1 a;
            b = u128_shr 1 b;
            (a, x) = divtf3_loop 116 a b \<lparr>ux0 = 0, ux1 = 0\<rparr>;
            x = x\<lparr>ux0 := ux0 x OR of_bool (ux0 a OR ux1 a \<noteq> 0)\<rparr>;
            (x_exp, x) = f3_normalise x_exp x
        in f3_round x_sgn x_exp x)"

lemma detect_none:
  "tf_finite fa \<Longrightarrow> tf_finite fb \<Longrightarrow> fp3_detect_NaNs sa (int (max 1 (tf_expo fa))) a sb (int (max 1 (tf_expo fb))) b = None"
  by (auto simp: fp3_detect_NaNs_def tf_finite_def max_def)

lemma rep_exact: "rep k X X 1" by (simp add: rep_def)

lemma rep_mono: "rep k X N D \<Longrightarrow> k \<le> k' \<Longrightarrow> rep k' X N D"
proof -
  assume r: "rep k X N D" and "k \<le> k'"
  then obtain j where j: "k' = k + j" using le_Suc_ex by blast
  have D: "0 < D" and d: "X div 2 ^ k = N div (D * 2 ^ k)" and e: "X mod 2 ^ k = 0 \<longleftrightarrow> N mod (D * 2 ^ k) = 0"
    using r by (auto simp: rep_def)
  have "X div 2 ^ k div 2 ^ j = N div (D * 2 ^ k) div 2 ^ j" by (simp only: d)
  then have 1: "X div 2 ^ k' = N div (D * 2 ^ k')"
    by (simp only: j power_add div_mult2_eq mult.assoc [symmetric])
  have "N mod (D * 2 ^ k * 2 ^ j) = (D * 2 ^ k) * (N div (D * 2 ^ k) mod 2 ^ j) + N mod (D * 2 ^ k)"
    by (rule mod_mult2_eq)
  then have "N mod (D * 2 ^ k * 2 ^ j) = 0 \<longleftrightarrow> N mod (D * 2 ^ k) = 0 \<and> N div (D * 2 ^ k) mod 2 ^ j = 0"
    using D by auto
  then have 2: "X mod 2 ^ k' = 0 \<longleftrightarrow> N mod (D * 2 ^ k') = 0"
    unfolding j div_mod_pow_split d e unfolding power_add mult.assoc ..
  show ?thesis using 1 2 D by (simp add: rep_def)
qed

lemma rep_shl: "rep k X N D \<Longrightarrow> rep (k + L) (X * 2 ^ L) (N * 2 ^ L) D"
proof -
  assume r: "rep k X N D"
  have "X * 2 ^ L div 2 ^ (k + L) = X div 2 ^ k" "X * 2 ^ L mod 2 ^ (k + L) = 0 \<longleftrightarrow> X mod 2 ^ k = 0"
    by (simp_all add: power_add mod_mult_mult2)
  moreover have "N * 2 ^ L div (D * 2 ^ (k + L)) = N div (D * 2 ^ k)"
    "N * 2 ^ L mod (D * 2 ^ (k + L)) = 0 \<longleftrightarrow> N mod (D * 2 ^ k) = 0"
  proof -
    have e: "D * 2 ^ (k + L) = D * 2 ^ k * 2 ^ L" by (simp add: power_add)
    show "N * 2 ^ L div (D * 2 ^ (k + L)) = N div (D * 2 ^ k)" unfolding e by simp
    show "N * 2 ^ L mod (D * 2 ^ (k + L)) = 0 \<longleftrightarrow> N mod (D * 2 ^ k) = 0"
      unfolding e mod_mult_mult2 by simp
  qed
  ultimately show ?thesis using r by (simp add: rep_def)
qed

lemma rep_1I: "0 < D \<Longrightarrow> X = N div D OR of_bool (N mod D \<noteq> 0) \<Longrightarrow> rep 1 X N D"
proof -
  assume D: "0 < D" and X: "X = N div D OR of_bool (N mod D \<noteq> 0)"
  have "X div 2 = N div D div 2" unfolding X or_of_bool by (auto)
  then have 1: "X div 2 = N div (D * 2)" by (simp add: div_mult2_eq)
  have "N mod (D * 2) = D * (N div D mod 2) + N mod D" by (rule mod_mult2_eq)
  then have "N mod (D * 2) = 0 \<longleftrightarrow> even (N div D) \<and> N mod D = 0" using D by auto
  also have "\<dots> \<longleftrightarrow> even X" unfolding X or_of_bool by auto
  finally show ?thesis using 1 D by (auto simp: rep_def even_iff_mod_2_eq_zero)
qed

lemma rep_add: "even a \<Longrightarrow> rep 1 (a + stk s b) (a * 2 ^ s + b) (2 ^ s)"
  by (rule rep_1I) (auto simp: stk_def or_of_bool)

lemma rep_sub:
  assumes "even a" "stk s b \<le> a"
  shows "b \<le> a * 2 ^ s" "rep 1 (a - stk s b) (a * 2 ^ s - b) (2 ^ s)"
proof -
  define q r where "q = b div 2 ^ s" and "r = b mod 2 ^ s"
  have b: "b = q * 2 ^ s + r" and r: "r < 2 ^ s" unfolding q_def r_def by (rule div_mult_mod_eq [symmetric]) simp
  have st: "stk s b = q + of_bool (r \<noteq> 0 \<and> even q)" by (simp add: stk_def or_of_bool q_def r_def)
  have qa: "q < a \<or> (q = a \<and> r = 0)"
    using assms st by (cases "r = 0"; cases "even q") (auto simp: le_less)
  show le: "b \<le> a * 2 ^ s"
  proof (cases "q = a")
    case False
    then have "q + 1 \<le> a" using qa by simp
    then have "(q + 1) * 2 ^ s \<le> a * 2 ^ s" by (rule mult_le_mono1)
    then show ?thesis using b r by simp
  qed (use qa b in auto)
  show "rep 1 (a - stk s b) (a * 2 ^ s - b) (2 ^ s)"
  proof (rule rep_1I)
    show "a - stk s b = (a * 2 ^ s - b) div 2 ^ s OR of_bool ((a * 2 ^ s - b) mod 2 ^ s \<noteq> 0)"
    proof (cases "r = 0")
      case True
      then have "a * 2 ^ s - b = (a - q) * 2 ^ s" by (simp add: b diff_mult_distrib)
      then show ?thesis using True by (simp add: st)
    next
      case False
      then have "q < a" using qa by simp
      then obtain d where d: "a = q + 1 + d" using less_iff_Suc_add by auto
      define t where "t = 2 ^ s - r"
      have t: "2 ^ s = r + t" "0 < t" using r by (simp_all add: t_def)
      have "a * 2 ^ s = b + (t + d * 2 ^ s)"
        unfolding b d add_mult_distrib using t(1) by simp
      then have e: "a * 2 ^ s - b = t + d * 2 ^ s" by simp
      have "t < 2 ^ s" "t \<noteq> 0" using t False by auto
      then have "(a * 2 ^ s - b) div 2 ^ s = d" "(a * 2 ^ s - b) mod 2 ^ s \<noteq> 0"
        unfolding e by simp_all
      then have "(a * 2 ^ s - b) div 2 ^ s OR of_bool ((a * 2 ^ s - b) mod 2 ^ s \<noteq> 0) = d + of_bool (even d)"
        by (simp only: or_of_bool) simp
      moreover have "a - stk s b = d + of_bool (even d)"
        using False assms(1) by (simp add: st d)
      ultimately show ?thesis by simp
    qed
  qed simp
qed

lemma rep_zero: "rep 1 0 N D \<Longrightarrow> N = 0"
proof -
  assume r: "rep 1 0 N D"
  then have "N div (D * 2) = 0" "N mod (D * 2) = 0" by (auto simp: rep_def)
  then show "N = 0" by (metis div_mult_mod_eq mult_0 add_0)
qed

text \<open>addition, subtraction and negation of two-word numbers are those of 128-bit words\<close>

lemma val_add_lt: "u128_val a + u128_val b < 2 ^ 128 \<Longrightarrow> u128_val (u128_add a b) = u128_val a + u128_val b"
proof -
  assume lt: "u128_val a + u128_val b < 2 ^ 128"
  define a0 a1 b0 b1 where "a0 = unat (ux0 a)" and "a1 = unat (ux1 a)" and "b0 = unat (ux0 b)" and "b1 = unat (ux1 b)"
  have r: "a0 < 2 ^ 64" "b0 < 2 ^ 64" "a1 < 2 ^ 64" "b1 < 2 ^ 64"
    unfolding a0_def a1_def b0_def b1_def by (rule unat64_less)+
  have x0: "unat (ux0 a + ux0 b) = (if a0 + b0 < 2 ^ 64 then a0 + b0 else a0 + b0 - 2 ^ 64)"
    using r by (simp add: unat_word_ariths a0_def b0_def mod_if)
  have c: "ux0 a + ux0 b < ux0 a \<longleftrightarrow> \<not> a0 + b0 < 2 ^ 64"
    unfolding word_less_nat_alt x0 using r by (auto simp: a0_def [symmetric])
  have lt': "a1 * 2 ^ 64 + a0 + (b1 * 2 ^ 64 + b0) < 2 ^ 128"
    using lt by (simp add: u128_val_def a0_def a1_def b0_def b1_def)
  have x1: "unat (ux1 a + ux1 b + of_bool (\<not> a0 + b0 < 2 ^ 64)) = a1 + b1 + of_bool (\<not> a0 + b0 < 2 ^ 64)"
  proof -
    have "a1 + b1 + of_bool (\<not> a0 + b0 < 2 ^ 64) < 2 ^ 64"
      using lt' by (cases "a0 + b0 < 2 ^ 64") simp_all
    then show ?thesis by (simp add: unat_word_ariths a1_def [symmetric] b1_def [symmetric])
  qed
  show ?thesis
    unfolding u128_add_def Let_def u128_val_def u128_t.simps c x0 x1
    by (cases "a0 + b0 < 2 ^ 64") (simp_all add: a1_def b1_def a0_def b0_def)
qed

lemma val_sub_le: "u128_val b \<le> u128_val a \<Longrightarrow> u128_val (u128_sub a b) = u128_val a - u128_val b"
  and val_sub_gt: "u128_val a < u128_val b \<Longrightarrow> u128_val (u128_sub a b) = 2 ^ 128 - (u128_val b - u128_val a)"
proof -
  define a0 a1 b0 b1 where "a0 = unat (ux0 a)" and "a1 = unat (ux1 a)" and "b0 = unat (ux0 b)" and "b1 = unat (ux1 b)"
  have r: "a0 < 2 ^ 64" "b0 < 2 ^ 64" "a1 < 2 ^ 64" "b1 < 2 ^ 64"
    unfolding a0_def a1_def b0_def b1_def by (rule unat64_less)+
  have x0: "unat (ux0 a - ux0 b) = (if b0 \<le> a0 then a0 - b0 else a0 + 2 ^ 64 - b0)"
    using r unat_sub_if_size [of "ux0 a" "ux0 b"] by (simp add: a0_def b0_def word_size)
  have c: "ux0 a - ux0 b > ux0 a \<longleftrightarrow> \<not> b0 \<le> a0"
    unfolding word_less_nat_alt x0 using r by (auto simp: a0_def [symmetric])
  define bb where "bb = b1 + of_bool (\<not> b0 \<le> a0)"
  have x1: "unat (ux1 a - ux1 b - of_bool (\<not> b0 \<le> a0)) = (if bb \<le> a1 then a1 - bb else a1 + 2 ^ 64 - bb)"
    using r unat_sub_if_size [of "ux1 a" "ux1 b"] unat_sub_if_size [of "ux1 a - ux1 b" 1]
    by (auto simp: a1_def [symmetric] b1_def [symmetric] bb_def word_size)
  have v: "u128_val a = a1 * 2 ^ 64 + a0" "u128_val b = b1 * 2 ^ 64 + b0"
    by (simp_all add: u128_val_def a0_def a1_def b0_def b1_def)
  have s: "u128_val (u128_sub a b) = (if bb \<le> a1 then a1 - bb else a1 + 2 ^ 64 - bb) * 2 ^ 64
      + (if b0 \<le> a0 then a0 - b0 else a0 + 2 ^ 64 - b0)"
    unfolding u128_sub_def Let_def u128_val_def u128_t.simps c x0 x1 ..
  show "u128_val b \<le> u128_val a \<Longrightarrow> u128_val (u128_sub a b) = u128_val a - u128_val b"
    "u128_val a < u128_val b \<Longrightarrow> u128_val (u128_sub a b) = 2 ^ 128 - (u128_val b - u128_val a)"
    using r unfolding s v bb_def by (cases "b0 \<le> a0"; simp; linarith)+
qed

lemma u128_neg_sub: "u128_neg x = u128_sub \<lparr>ux0 = 0, ux1 = 0\<rparr> x"
  by (simp add: u128_neg_def u128_sub_def Let_def word_neq_0_conv)

lemma val_neg: "0 < u128_val x \<Longrightarrow> u128_val (u128_neg x) = 2 ^ 128 - u128_val x"
  using val_sub_gt [of "\<lparr>ux0 = 0, ux1 = 0\<rparr>" x] by (simp add: u128_neg_sub u128_val_def)

definition tf_sval :: "u128_t \<Rightarrow> int" where
  "tf_sval f = (if tf_sign f = 0 then int (tf_mag f) else - int (tf_mag f))"

lemma rep_exact_quot: "0 < D \<Longrightarrow> N = X * D \<Longrightarrow> rep k X N D"
  by (simp add: rep_def mult.commute [of D] mod_mult_mult2)

lemma rep_sub_right:
  assumes "even b" "b \<le> stk s a"
  shows "b * 2 ^ s \<le> a" "rep 1 (stk s a - b) (a - b * 2 ^ s) (2 ^ s)"
proof -
  define q r where "q = a div 2 ^ s" and "r = a mod 2 ^ s"
  have a: "a = q * 2 ^ s + r" and r: "r < 2 ^ s" unfolding q_def r_def by (rule div_mult_mod_eq [symmetric]) simp
  have st: "stk s a = q + of_bool (r \<noteq> 0 \<and> even q)" by (simp add: stk_def or_of_bool q_def r_def)
  have bq: "b \<le> q"
  proof (rule ccontr)
    assume "\<not> b \<le> q"
    then have "b = q + 1" "even q" using assms(2) st by (cases "even q"; cases "r = 0"; simp)+
    then show False using assms(1) by simp
  qed
  then obtain d where d: "q = b + d" using le_Suc_ex by blast
  then have e: "a = b * 2 ^ s + (d * 2 ^ s + r)" by (simp add: a algebra_simps)
  show "b * 2 ^ s \<le> a" unfolding e by simp
  have e': "a - b * 2 ^ s = d * 2 ^ s + r" unfolding e by simp
  have "(a - b * 2 ^ s) div 2 ^ s = d" "(a - b * 2 ^ s) mod 2 ^ s = r" unfolding e' using r by simp_all
  then have "(a - b * 2 ^ s) div 2 ^ s OR of_bool ((a - b * 2 ^ s) mod 2 ^ s \<noteq> 0) = d + of_bool (r \<noteq> 0 \<and> even d)"
    by (simp only: or_of_bool)
  moreover have "stk s a - b = d + of_bool (r \<noteq> 0 \<and> even d)" using assms(1) by (simp add: st d)
  ultimately show "rep 1 (stk s a - b) (a - b * 2 ^ s) (2 ^ s)" by (intro rep_1I) simp_all
qed

lemma signed_rep:
  fixes p q :: int and a b s :: nat
  assumes "even b" "p = 1 \<or> p = - 1" "q = 1 \<or> q = - 1"
  defines "X \<equiv> p * int (stk s a) + q * int b" and "N \<equiv> p * int a + q * int (b * 2 ^ s)"
  shows "rep 1 (nat \<bar>X\<bar>) (nat \<bar>N\<bar>) (2 ^ s)" "X < 0 \<Longrightarrow> N \<le> 0" "0 < X \<Longrightarrow> 0 \<le> N"
proof -
  consider (same) "p = q" | (diff) "q = - p" using assms(2,3) by auto
  then have "rep 1 (nat \<bar>X\<bar>) (nat \<bar>N\<bar>) (2 ^ s) \<and> (X < 0 \<longrightarrow> N \<le> 0) \<and> (0 < X \<longrightarrow> 0 \<le> N)"
  proof cases
    case same
    have XN: "X = q * int (b + stk s a)" "N = q * int (b * 2 ^ s + a)"
      by (simp_all add: X_def N_def same algebra_simps)
    then have "nat \<bar>X\<bar> = b + stk s a" "nat \<bar>N\<bar> = b * 2 ^ s + a"
      using assms(3) by (auto simp only: abs_mult abs_minus abs_one mult_1_left abs_of_nat nat_int)
    moreover have "(X < 0 \<longrightarrow> N \<le> 0) \<and> (0 < X \<longrightarrow> 0 \<le> N)"
      using assms(3) unfolding XN by (elim disjE) (simp_all del: of_nat_add of_nat_mult)
    ultimately show ?thesis using rep_add [OF assms(1)] by simp
  next
    case diff
    have X: "X = p * (int (stk s a) - int b)" and N: "N = p * (int a - int (b * 2 ^ s))"
      by (simp_all add: X_def N_def diff algebra_simps)
    show ?thesis
    proof (cases "b \<le> stk s a")
      case True
      note R = rep_sub_right [OF assms(1) True]
      have XN: "X = p * int (stk s a - b)" "N = p * int (a - b * 2 ^ s)"
        using True R(1) by (simp_all only: X N of_nat_diff)
      then have "nat \<bar>X\<bar> = stk s a - b" "nat \<bar>N\<bar> = a - b * 2 ^ s"
        using assms(2) by (auto simp only: abs_mult abs_minus abs_one mult_1_left abs_of_nat nat_int)
      moreover have "(X < 0 \<longrightarrow> N \<le> 0) \<and> (0 < X \<longrightarrow> 0 \<le> N)"
        using assms(2) unfolding XN by (elim disjE) (simp_all del: of_nat_diff)
      ultimately show ?thesis using R by simp
    next
      case False
      then have le: "stk s a \<le> b" by simp
      note R = rep_sub [OF assms(1) le]
      have XN: "X = (- p) * int (b - stk s a)" "N = (- p) * int (b * 2 ^ s - a)"
        using le R(1) by (simp_all only: X N of_nat_diff) (simp_all add: algebra_simps)
      then have "nat \<bar>X\<bar> = b - stk s a" "nat \<bar>N\<bar> = b * 2 ^ s - a"
        using assms(2) by (auto simp only: abs_mult abs_minus abs_one mult_1_left abs_of_nat nat_int)
      moreover have "(X < 0 \<longrightarrow> N \<le> 0) \<and> (0 < X \<longrightarrow> 0 \<le> N)"
        using assms(2) unfolding XN by (elim disjE) (simp_all del: of_nat_diff)
      ultimately show ?thesis using R by simp
    qed
  qed
  then show "rep 1 (nat \<bar>X\<bar>) (nat \<bar>N\<bar>) (2 ^ s)" "X < 0 \<Longrightarrow> N \<le> 0" "0 < X \<Longrightarrow> 0 \<le> N" by auto
qed

lemma stk_exact: "2 ^ s dvd v \<Longrightarrow> stk s v * 2 ^ s = v"
  by (simp add: stk_def)

lemma powi2_add: "(2::real) powi (i + j) = 2 powi i * 2 powi j"
  by (simp add: power_int_add)

lemma round_scale_real:
  assumes "real Ns * real D * 2 powi 16 = real N * real Ds * 2 powi ex"
  shows "Ns * D * 2 ^ nat (16 - ex) = N * Ds * 2 ^ nat (ex - 16)"
proof -
  have "real Ns * real D * 2 ^ nat (16 - ex) = real N * real Ds * 2 ^ nat (ex - 16)"
  proof (cases "ex \<le> 16")
    case True
    have "2 powi (16 - ex) * (2::real) powi ex = 2 powi 16" using power_int_add [of "2::real" "16 - ex" ex] by simp
    then have "real Ns * real D * 2 powi (16 - ex) * 2 powi ex = real N * real Ds * 2 powi ex"
      using assms by (simp only: mult.assoc)
    moreover have "(2::real) powi (16 - ex) = 2 ^ nat (16 - ex)" using True by (simp add: power_int_def)
    ultimately show ?thesis using True by simp
  next
    case False
    have "2 powi (ex - 16) * (2::real) powi 16 = 2 powi ex" using power_int_add [of "2::real" "ex - 16" 16] by simp
    then have "real Ns * real D * 2 powi 16 = real N * real Ds * 2 powi (ex - 16) * 2 powi 16"
      using assms by (simp only: mult.assoc)
    moreover have "(2::real) powi (ex - 16) = 2 ^ nat (ex - 16)" using False by (simp add: power_int_def)
    ultimately show ?thesis using False by simp
  qed
  then have "real (Ns * D * 2 ^ nat (16 - ex)) = real (N * Ds * 2 ^ nat (ex - 16))" by simp
  then show ?thesis by (simp only: of_nat_eq_iff)
qed

lemma norm_unpack:
  assumes u: "f3_unpack f = (sg, ex, m)" and n: "f3_normalise ex m = (ex', m')" and nz: "u128_val m \<noteq> 0"
  shows "real (tf_mag f) = real (u128_val m') * 2 powi (ex' - 1)"
    and "2 ^ 127 \<le> u128_val m'" and "2 ^ 15 dvd u128_val m'"
proof -
  obtain L where L: "u128_val m' = u128_val m * 2 ^ L" "ex' = ex - int L" "2 ^ 127 \<le> u128_val m'"
    using f3_normalise_spec [OF nz n] .
  note U = f3_unpackE [OF u]
  show "2 ^ 127 \<le> u128_val m'" by (rule L)
  have "15 \<le> L"
  proof (rule ccontr)
    assume "\<not> 15 \<le> L"
    then have "(2::nat) ^ L \<le> 2 ^ 14" by (intro power_increasing) auto
    then have "u128_val m * 2 ^ L < 2 ^ 113 * 2 ^ 14"
      using tf_sig_less [of f] U(3) by (intro mult_less_le_imp_less) auto
    with L show False by simp
  qed
  then show "2 ^ 15 dvd u128_val m'" unfolding L(1) by (intro dvd_mult le_imp_power_dvd)
  define E where "E = max 1 (tf_expo f)"
  have "1 \<le> E" by (simp add: E_def)
  have "real (u128_val m') * 2 powi (ex' - 1) = real (u128_val m) * (2 powi int L * 2 powi (int E - int L - 1))"
    by (simp add: L U E_def)
  also have "(2::real) powi int L * 2 powi (int E - int L - 1) = 2 powi (int (E - 1))"
    using power_int_add [of "2::real" "int L" "int E - int L - 1"] \<open>1 \<le> E\<close> by (simp add: of_nat_diff)
  also have "\<dots> = 2 ^ (E - 1)" by simp
  finally show "real (tf_mag f) = real (u128_val m') * 2 powi (ex' - 1)"
    unfolding tf_mag_def U(3) [symmetric] E_def by simp
qed

lemma xor_sign: "\<exists>s. int (tf_sign a) XOR int (tf_sign b) = s \<and> (s = 0 \<or> s = 1) \<and> nat s = (if tf_sign a = tf_sign b then 0 else 1)"
  using tf_sign_01 [of a] tf_sign_01 [of b] by auto

lemma tf_enc_0 [simp]: "0 < D \<Longrightarrow> tf_enc 0 D = 0"
  by (simp add: tf_enc_def floorlog_def)

lemma unpack_finite: "f3_unpack f = (s, e, m) \<Longrightarrow> tf_finite f \<Longrightarrow> e \<noteq> 32767"
  using f3_unpackE [of f s e m] by (auto simp: tf_finite_def max_def)

lemma mag_zero: "f3_unpack f = (s, e, m) \<Longrightarrow> u128_val m = 0 \<longleftrightarrow> tf_mag f = 0"
  using f3_unpackE [of f s e m] by (auto simp: tf_mag_def)

definition tf_one :: nat where "tf_one = 2 ^ 16494"

lemma tf_one_pos [simp]: "0 < tf_one" by (simp only: tf_one_def zero_less_power zero_less_numeral)

lemma real_tf_one: "real tf_one = 2 powi 16494"
  unfolding tf_one_def of_nat_power of_nat_numeral by (simp only: power_int_numeral)

text \<open>
  The interface between the arithmetic routines and the rounder.  Whatever maps a sign, an exponent and
  a mantissa that represents N/D to the nearest encoding of the scaled value serves the clients; the
  library's \<open>f3_round\<close> is shown to be one.
\<close>

locale f3_rounder =
  fixes rnd :: "int \<Rightarrow> int \<Rightarrow> u128_t \<Rightarrow> u128_t"
  assumes rnd_rep: "rep k (u128_val x) N D \<Longrightarrow> k \<le> 14 \<Longrightarrow> sg = 0 \<or> sg = 1 \<Longrightarrow>
    (ex > 0 \<Longrightarrow> 2 ^ 127 \<le> u128_val x) \<Longrightarrow>
    Ns * D * 2 ^ nat (16 - ex) = N * Ds * 2 ^ nat (ex - 16) \<Longrightarrow> 0 < Ds \<Longrightarrow>
    u128_val (rnd sg ex x) = min (32767 * 2 ^ 112) (tf_enc Ns Ds) + nat sg * 2 ^ 127"
begin

lemmas rnd_real = rnd_rep [OF _ _ _ _ round_scale_real]

lemma add_core:
  fixes p q :: int
  assumes e: "1 \<le> ea" "ea \<le> eb" and b: "fa < 2 ^ 113" "fb < 2 ^ 113" "1 < eb \<Longrightarrow> 2 ^ 112 \<le> fb"
    and pq: "p = 1 \<or> p = - 1" "q = 1 \<or> q = - 1"
  defines "X \<equiv> p * int (stk (eb - ea) (8 * fa)) + q * int (8 * fb)"
    and "S \<equiv> p * int (fa * 2 ^ (ea - 1)) + q * int (fb * 2 ^ (eb - 1))"
  assumes x: "u128_val x = nat \<bar>X\<bar>"
  shows "X < 0 \<longleftrightarrow> S < 0" "X = 0 \<longleftrightarrow> S = 0"
    and "X \<noteq> 0 \<Longrightarrow> f3_normalise (int eb) x = (e', x') \<Longrightarrow> sg = 0 \<or> sg = 1 \<Longrightarrow>
      u128_val (rnd sg (e' + 12) x') = min (32767 * 2 ^ 112) (tf_enc (nat \<bar>S\<bar>) 1) + nat sg * 2 ^ 127"
proof -
  define s where "s = eb - ea"
  define N where "N = p * int (8 * fa) + q * int (8 * fb * 2 ^ s)"
  have eb: "eb - 1 = (ea - 1) + s" using e by (simp add: s_def)
  have NS: "N * 2 ^ (ea - 1) = 8 * S"
    unfolding N_def S_def eb power_add by (simp add: algebra_simps)
  note R = signed_rep [of "8 * fb" p q s "8 * fa", OF _ pq, folded N_def s_def X_def [folded s_def]]
  have R1: "rep 1 (nat \<bar>X\<bar>) (nat \<bar>N\<bar>) (2 ^ s)" using R(1) by simp
  have Nz: "X = 0 \<Longrightarrow> N = 0" using rep_zero [of "nat \<bar>N\<bar>" "2 ^ s"] R1 by simp
  have N0: "X = 0" if "N = 0"
  proof -
    have "nat \<bar>X\<bar> div 2 = 0" "nat \<bar>X\<bar> mod 2 = 0" using R1 that by (simp_all add: rep_def)
    then have "nat \<bar>X\<bar> = 0" by (metis div_mult_mod_eq mult_0 add_0)
    then show ?thesis by simp
  qed
  have sgnNS: "N < 0 \<longleftrightarrow> S < 0" "N = 0 \<longleftrightarrow> S = 0"
  proof -
    have "N < 0 \<longleftrightarrow> N * 2 ^ (ea - 1) < 0" by (simp add: mult_less_0_iff)
    then show "N < 0 \<longleftrightarrow> S < 0" unfolding NS by simp
    have "N = 0 \<longleftrightarrow> N * 2 ^ (ea - 1) = 0" by simp
    then show "N = 0 \<longleftrightarrow> S = 0" unfolding NS by simp
  qed
  show "X = 0 \<longleftrightarrow> S = 0" using Nz N0 sgnNS by blast
  show "X < 0 \<longleftrightarrow> S < 0"
    using R(2,3) Nz N0 sgnNS by (metis dvd_triv_left even_mult_iff even_numeral linorder_neqE_linordered_idom not_less order_le_less)
  assume X: "X \<noteq> 0" and n: "f3_normalise (int eb) x = (e', x')" and sg: "sg = 0 \<or> sg = 1"
  have "u128_val x \<noteq> 0" using X x by simp
  then obtain L where L: "u128_val x' = u128_val x * 2 ^ L" "e' = int eb - int L" "2 ^ 127 \<le> u128_val x'"
    using f3_normalise_spec n by blast
  have rep: "rep 14 (u128_val x') (nat \<bar>N\<bar> * 2 ^ L) (2 ^ s)"
  proof (cases "s \<le> 3")
    case True
    then have "2 ^ s dvd 8 * fa" using le_imp_power_dvd [of s 3 "2::nat"] by simp
    then have "int (8 * fa) = int (stk s (8 * fa)) * 2 ^ s" by (metis stk_exact of_nat_mult of_nat_power of_nat_numeral)
    then have "N = X * 2 ^ s" unfolding N_def X_def s_def [symmetric] by (simp add: algebra_simps)
    then have "nat \<bar>N\<bar> = nat \<bar>X\<bar> * 2 ^ s" by (simp add: abs_mult nat_mult_distrib nat_power_eq)
    then show ?thesis unfolding L x by (intro rep_exact_quot) simp_all
  next
    case False
    have "L \<le> 13"
    proof (rule ccontr)
      assume "\<not> L \<le> 13"
      have "2 ^ 112 \<le> fb" using b(3) False e by (simp add: s_def)
      then have "int (8 * fb) \<ge> 2 ^ 115" by simp
      moreover have "int (stk s (8 * fa)) \<le> 2 ^ 112 + 1"
      proof -
        have "8 * fa div 2 ^ s \<le> 8 * fa div 2 ^ 4" using False by (intro div_le_mono2 power_increasing) auto
        also have "\<dots> \<le> 2 ^ 112" using b(1) by simp
        finally show ?thesis by (simp add: stk_def or_of_bool)
      qed
      ultimately have "2 ^ 114 \<le> nat \<bar>X\<bar>" using pq unfolding X_def s_def [symmetric] by (auto simp: abs_if)
      then have "2 ^ 114 * 2 ^ 14 \<le> u128_val x * 2 ^ L"
        unfolding x using \<open>\<not> L \<le> 13\<close> by (intro mult_le_mono power_increasing) auto
      then show False using u128_val_less [of x'] L by simp
    qed
    then show ?thesis using rep_shl [OF R1, of L] rep_mono [of "1 + L"] unfolding L x by simp
  qed
  have sc: "real (nat \<bar>S\<bar>) * real (2 ^ s) * 2 powi 16 = real (nat \<bar>N\<bar> * 2 ^ L) * real 1 * 2 powi (e' + 12)"
  proof -
    have "nat \<bar>N\<bar> * 2 ^ (ea - 1) = 8 * nat \<bar>S\<bar>"
    proof -
      have "int (nat \<bar>N\<bar> * 2 ^ (ea - 1)) = \<bar>N * 2 ^ (ea - 1)\<bar>" by (simp add: abs_mult)
      also have "\<dots> = int (8 * nat \<bar>S\<bar>)" unfolding NS by (simp add: abs_mult)
      finally show ?thesis by (simp only: of_nat_eq_iff)
    qed
    then have "real (nat \<bar>N\<bar> * 2 ^ (ea - 1)) = real (8 * nat \<bar>S\<bar>)" by (simp only:)
    then have n: "real (nat \<bar>N\<bar>) * 2 powi int (ea - 1) = 2 powi 3 * real (nat \<bar>S\<bar>)" by simp
    have "real (nat \<bar>N\<bar> * 2 ^ L) * 2 powi (e' + 12)
        = real (nat \<bar>N\<bar>) * (2 powi int L * 2 powi (e' + 12))" by simp
    also have "(2::real) powi int L * 2 powi (e' + 12) = 2 powi int (ea - 1) * 2 powi (int s + 13)"
      unfolding powi2_add [symmetric] using L(2) e by (simp add: s_def of_nat_diff add.commute)
    also have "real (nat \<bar>N\<bar>) * (2 powi int (ea - 1) * 2 powi (int s + 13))
        = real (nat \<bar>S\<bar>) * (2 powi 3 * 2 powi (int s + 13))"
      using n by (simp only: mult.assoc [symmetric]) (simp only: mult_ac)
    also have "(2::real) powi 3 * 2 powi (int s + 13) = 2 powi int s * 2 powi 16"
      unfolding powi2_add [symmetric] by (simp add: add.commute)
    finally show ?thesis by (simp add: mult_ac)
  qed
  show "u128_val (rnd sg (e' + 12) x') = min (32767 * 2 ^ 112) (tf_enc (nat \<bar>S\<bar>) 1) + nat sg * 2 ^ 127"
    by (rule rnd_real [OF rep _ sg L(3) sc]) simp_all
qed

end

interpretation f3: f3_rounder f3_round
  by unfold_locales (rule f3_round_rep)

end
