(* ===== verification/SoftFloatAdd.thy ===== *)
theory SoftFloatAdd
  imports SoftFloatArith
begin

text \<open>
  Addition and subtraction: \<open>f3_add\<close> is the correctly rounded sum of finite operands.
\<close>

lemma f3_add_finite:
  assumes fin: "tf_finite fa" "tf_finite fb" and n: "neg = 0 \<or> neg = 1"
  defines "S \<equiv> tf_sval fa + (if neg = 1 then - tf_sval fb else tf_sval fb)"
  shows "u128_val (f3_add fa fb neg)
    = min (32767 * 2 ^ 112) (tf_enc (nat \<bar>S\<bar>) 1)
      + (if S < 0 \<or> (S = 0 \<and> tf_sign fa = 1 \<and> (tf_sign fb = 1) \<noteq> (neg = 1)) then 2 ^ 127 else 0)"
proof -
  obtain sa ea a where ua: "f3_unpack fa = (sa, ea, a)" by (cases "f3_unpack fa") auto
  obtain sb0 eb b where ub: "f3_unpack fb = (sb0, eb, b)" by (cases "f3_unpack fb") auto
  note Ua = f3_unpackE [OF ua] and Ub = f3_unpackE [OF ub]
  define sb where "sb = sb0 XOR neg"
  define p q :: int where "p = (if sa = 0 then 1 else - 1)" and "q = (if sb = 0 then 1 else - 1)"
  have sa: "sa = 0 \<or> sa = 1" using tf_sign_01 [of fa] by (auto simp: Ua)
  have sb: "sb = 0 \<or> sb = 1" using tf_sign_01 [of fb] n by (auto simp: Ub sb_def)
  have sb1: "sb = 1 \<longleftrightarrow> (tf_sign fb = 1) \<noteq> (neg = 1)" using tf_sign_01 [of fb] n by (auto simp: Ub sb_def)
  have sa1: "sa = 1 \<longleftrightarrow> tf_sign fa = 1" by (simp add: Ua)
  have S: "S = p * int (tf_mag fa) + q * int (tf_mag fb)"
    using tf_sign_01 [of fa] tf_sign_01 [of fb] n
    by (auto simp: S_def p_def q_def sb_def Ua Ub tf_sval_def)
  have det: "fp3_detect_NaNs sa ea a sb0 eb b = None"
    using detect_none [OF fin] by (simp add: Ua Ub)
  have e: "ea \<noteq> 32767" "eb \<noteq> 32767" using unpack_finite ua ub fin by auto
  have or4: "ux0 a OR ux1 a OR ux0 b OR ux1 b = 0 \<longleftrightarrow> u128_val a = 0 \<and> u128_val b = 0"
    unfolding or_zero_val [symmetric] or_eq_0_iff by auto
  show ?thesis
  proof (cases "u128_val a = 0 \<and> u128_val b = 0")
    case True
    then have "f3_add fa fb neg = f3_zero (sa AND sb)"
      using e by (simp add: f3_add_def ua ub det or4 sb_def)
    moreover have "S = 0" using True mag_zero [OF ua] mag_zero [OF ub] by (simp add: S)
    moreover have "sa AND sb = (if sa = 1 \<and> sb = 1 then 1 else 0)" using sa sb by auto
    ultimately show ?thesis by (auto simp: val_f3_zero sa1 sb1)
  next
    case nz: False
    define A B where "A = 8 * tf_sig fa" and "B = 8 * tf_sig fb"
    have AB: "A < 2 ^ 116" "B < 2 ^ 116" using tf_sig_less [of fa] tf_sig_less [of fb] by (simp_all add: A_def B_def)
    have vA: "u128_val (u128_shl 3 a) = A" using AB val_shl [of 3 a] by (simp add: A_def Ua)
    have vB: "u128_val (u128_shl 3 b) = B" using AB val_shl [of 3 b] by (simp add: B_def Ub)
    obtain na nb where nab: "na = max 1 (tf_expo fa)" "nb = max 1 (tf_expo fb)" "ea = int na" "eb = int nb"
      by (simp add: Ua Ub)
    define a' where "a' = (if ea \<le> eb then f3_sticky_shift (eb - ea) (u128_shl 3 a) else u128_shl 3 a)"
    define b' where "b' = (if ea \<le> eb then u128_shl 3 b else f3_sticky_shift (ea - eb) (u128_shl 3 b))"
    define mx where "mx = (if ea \<le> eb then eb else ea)"
    have va: "u128_val a' = stk (nb - na) A" and vb: "u128_val b' = stk (na - nb) B"
      by (auto simp: a'_def b'_def nab val_sticky_shift vA vB nat_diff_distrib')
    have lt: "u128_val a' < 2 ^ 117" "u128_val b' < 2 ^ 117"
    proof -
      have "stk s v < 2 ^ 117" if "v < 2 ^ 116" for s v
      proof -
        have "v div 2 ^ s + 1 \<le> v + 1" by simp
        moreover have "stk s v \<le> v div 2 ^ s + 1" by (simp add: stk_def or_of_bool)
        ultimately have "stk s v \<le> v + 1" by (rule order_trans [rotated])
        with that show ?thesis by simp
      qed
      with AB va vb show "u128_val a' < 2 ^ 117" "u128_val b' < 2 ^ 117" by simp_all
    qed
    define xs where "xs = (if sa = sb then (sa, u128_add a' b')
               else let x = u128_sub a' b' in
                 if drop_bit 63 (ux1 x) \<noteq> 0 then (sa XOR 1, u128_neg x) else (sa, x))"
    obtain sx x where sx: "xs = (sx, x)" by (cases xs)
    define X where "X = p * int (u128_val a') + q * int (u128_val b')"
    have x: "u128_val x = nat \<bar>X\<bar> \<and> (X \<noteq> 0 \<longrightarrow> (sx = (if X < 0 then 1 else 0)))"
    proof (cases "sa = sb")
      case True
      then have "x = u128_add a' b'" "sx = sa" using sx by (simp_all add: xs_def)
      moreover have "u128_val (u128_add a' b') = u128_val a' + u128_val b'" using lt by (intro val_add_lt) simp
      moreover have "X = p * int (u128_val a' + u128_val b')" using True by (simp add: X_def p_def q_def algebra_simps)
      ultimately show ?thesis using sa by (auto simp add: p_def simp del: of_nat_add)
    next
      case False
      then have xs: "xs = (if \<not> u128_val (u128_sub a' b') < 2 ^ 127 then (sa XOR 1, u128_neg (u128_sub a' b')) else (sa, u128_sub a' b'))"
        using val_high_zero [of 1 "u128_sub a' b'"] by (simp add: xs_def Let_def)
      have Xp: "X = p * (int (u128_val a') - int (u128_val b'))"
        using False sa sb by (auto simp: X_def p_def q_def)
      show ?thesis
      proof (cases "u128_val b' \<le> u128_val a'")
        case True
        have "u128_val (u128_sub a' b') < 2 ^ 127" using lt by (simp add: val_sub_le [OF True])
        then have "x = u128_sub a' b'" "sx = sa" "u128_val x = u128_val a' - u128_val b'"
          using xs sx val_sub_le [OF True] by simp_all
        moreover have "X = p * int (u128_val a' - u128_val b')" using True by (simp add: Xp of_nat_diff)
        ultimately show ?thesis using sa by (auto simp add: p_def simp del: of_nat_diff)
      next
        case F: False
        then have g: "u128_val (u128_sub a' b') = 2 ^ 128 - (u128_val b' - u128_val a')"
          by (intro val_sub_gt) simp
        have "\<not> u128_val (u128_sub a' b') < 2 ^ 127" using lt by (simp add: g)
        then have "x = u128_neg (u128_sub a' b')" "sx = sa XOR 1"
          using xs sx by simp_all
        moreover have "u128_val (u128_neg (u128_sub a' b')) = u128_val b' - u128_val a'"
          using val_neg [of "u128_sub a' b'"] g lt F by simp
        moreover have "X = - p * int (u128_val b' - u128_val a')" using F by (simp add: Xp of_nat_diff algebra_simps)
        ultimately show ?thesis using sa F by (auto simp add: p_def simp del: of_nat_diff)
      qed
    qed
    obtain e' x' where nx: "f3_normalise mx x = (e', x')" by (cases "f3_normalise mx x") auto
    have fr: "f3_add fa fb neg = (if u128_val x = 0 then f3_zero 0 else f3_round sx (e' + 12) x')"
    proof -
      have nor: "\<not> (ux0 a OR ux1 a OR ux0 b OR ux1 b = 0)" using nz or4 by simp
      have "f3_add fa fb neg = (case xs of (sx, x) \<Rightarrow> if ux0 x OR ux1 x = 0 then f3_zero 0
          else case f3_normalise mx x of (e', x') \<Rightarrow> f3_round sx (e' + 12) x')"
        unfolding xs_def a'_def b'_def mx_def f3_add_def ua ub prod.case det option.case Let_def sb_def [symmetric]
        using e nor by (cases "ea \<le> eb") simp_all
      then show ?thesis by (simp add: sx nx or_zero_val)
    qed
    have core: "(X < 0 \<longleftrightarrow> S < 0) \<and> (X = 0 \<longleftrightarrow> S = 0) \<and> (X \<noteq> 0 \<longrightarrow> 
      u128_val (f3_round sx (e' + 12) x') = min (32767 * 2 ^ 112) (tf_enc (nat \<bar>S\<bar>) 1) + nat sx * 2 ^ 127)"
    proof -
      have pq: "p = 1 \<or> p = - 1" "q = 1 \<or> q = - 1" by (auto simp: p_def q_def)
      have n1: "1 \<le> na" "1 \<le> nb" by (simp_all add: nab)
      have sig: "1 < na \<Longrightarrow> 2 ^ 112 \<le> tf_sig fa" "1 < nb \<Longrightarrow> 2 ^ 112 \<le> tf_sig fb"
        by (auto simp: nab tf_sig_def)
      have sx01: "X \<noteq> 0 \<Longrightarrow> sx = 0 \<or> sx = 1" using x by auto
      show ?thesis
      proof (cases "na \<le> nb")
        case True
        have X': "X = p * int (stk (nb - na) (8 * tf_sig fa)) + q * int (8 * tf_sig fb)"
          using True by (simp add: X_def va vb A_def B_def)
        have S': "S = p * int (tf_sig fa * 2 ^ (na - 1)) + q * int (tf_sig fb * 2 ^ (nb - 1))"
          by (simp add: S tf_mag_def nab)
        have mx': "mx = int nb" using True by (simp add: mx_def nab)
        note C = f3.add_core [OF n1(1) True tf_sig_less [of fa] tf_sig_less [of fb] sig(2) pq, folded X' S']
        show ?thesis using C(1) [of x] C(2) [of x] C(3) [of x] x nx sx01 unfolding mx' by blast
      next
        case False
        then have le: "nb \<le> na" by simp
        have X': "X = q * int (stk (na - nb) (8 * tf_sig fb)) + p * int (8 * tf_sig fa)"
          using le by (simp add: X_def va vb A_def B_def)
        have S': "S = q * int (tf_sig fb * 2 ^ (nb - 1)) + p * int (tf_sig fa * 2 ^ (na - 1))"
          by (simp add: S tf_mag_def nab)
        have mx': "mx = int na" using False by (simp add: mx_def nab)
        note C = f3.add_core [OF n1(2) le tf_sig_less [of fb] tf_sig_less [of fa] sig(1) pq(2,1), folded X' S']
        show ?thesis using C(1) [of x] C(2) [of x] C(3) [of x] x nx sx01 unfolding mx' by blast
      qed
    qed
    show ?thesis
    proof (cases "X = 0")
      case True
      have "\<not> (sa = 1 \<and> sb = 1)"
      proof
        assume "sa = 1 \<and> sb = 1"
        then have "S = - (int (tf_mag fa) + int (tf_mag fb))" by (simp add: S p_def q_def)
        with True core have "tf_mag fa = 0" "tf_mag fb = 0" by simp_all
        with nz mag_zero [OF ua] mag_zero [OF ub] show False by simp
      qed
      with True core x show ?thesis by (simp add: fr val_f3_zero sa1 sb1)
    next
      case False
      have v: "u128_val (f3_add fa fb neg) = min (32767 * 2 ^ 112) (tf_enc (nat \<bar>S\<bar>) 1) + nat sx * 2 ^ 127"
      proof -
        have "u128_val x \<noteq> 0" using False x by simp
        then show ?thesis using False core fr by (simp only: if_False simp_thms)
      qed
      have "sx = (if S < 0 then 1 else 0)" "S \<noteq> 0" using False core x by simp_all
      then show ?thesis unfolding v by simp
    qed
  qed
qed

end
