(* ===== verification/SoftFloatMul.thy ===== *)
theory SoftFloatMul
  imports SoftFloatArith
begin

text \<open>
  Multiplication: the product in base 2^30 limbs is the exact product with a sticky bit, and
  \<open>multf3\<close> is the correctly rounded product of finite operands.
\<close>

lemma limb_mul:
  fixes a0 a1 a2 a3 :: nat
  assumes r: "a0 < 2 ^ 30" "a1 < 2 ^ 30" "a2 < 2 ^ 30" "a3 < 2 ^ 32"
    "b0 < 2 ^ 30" "b1 < 2 ^ 30" "b2 < 2 ^ 30" "b3 < 2 ^ 32"
  defines "x0 \<equiv> a0 * b0"
  defines "x1 \<equiv> x0 div 2 ^ 30 + a0 * b1 + a1 * b0"
  defines "x2 \<equiv> x1 div 2 ^ 30 + a0 * b2 + a1 * b1 + a2 * b0"
  defines "x3 \<equiv> x2 div 2 ^ 30 + a0 * b3 + a1 * b2 + a2 * b1 + a3 * b0"
  defines "x4 \<equiv> x3 div 2 ^ 30 + a1 * b3 + a2 * b2 + a3 * b1"
  defines "x5 \<equiv> x4 div 2 ^ 30 + a2 * b3 + a3 * b2"
  defines "x6 \<equiv> x5 div 2 ^ 30 + a3 * b3"
  shows "(a0 + 2 ^ 30 * (a1 + 2 ^ 30 * (a2 + 2 ^ 30 * a3))) * (b0 + 2 ^ 30 * (b1 + 2 ^ 30 * (b2 + 2 ^ 30 * b3)))
      = x0 mod 2 ^ 30 + 2 ^ 30 * (x1 mod 2 ^ 30 + 2 ^ 30 * (x2 mod 2 ^ 30 + 2 ^ 30 * (x3 mod 2 ^ 30
        + 2 ^ 30 * (x4 mod 2 ^ 30 + 2 ^ 30 * (x5 mod 2 ^ 30 + 2 ^ 30 * x6)))))"
    and "x0 < 2 ^ 64" "x1 < 2 ^ 64" "x2 < 2 ^ 64" "x3 < 2 ^ 64" "x4 < 2 ^ 64" "x5 < 2 ^ 64" "x6 < 2 ^ 64"
proof -
  have s: "x mod 2 ^ 30 + 2 ^ 30 * (x div 2 ^ 30 + y) = x + 2 ^ 30 * y" for x y :: nat
    by (simp add: distrib_left del: power_numeral)
  show P: "(a0 + 2 ^ 30 * (a1 + 2 ^ 30 * (a2 + 2 ^ 30 * a3))) * (b0 + 2 ^ 30 * (b1 + 2 ^ 30 * (b2 + 2 ^ 30 * b3)))
      = x0 mod 2 ^ 30 + 2 ^ 30 * (x1 mod 2 ^ 30 + 2 ^ 30 * (x2 mod 2 ^ 30 + 2 ^ 30 * (x3 mod 2 ^ 30
        + 2 ^ 30 * (x4 mod 2 ^ 30 + 2 ^ 30 * (x5 mod 2 ^ 30 + 2 ^ 30 * x6)))))"
    unfolding x6_def s unfolding x5_def add.assoc s unfolding x4_def add.assoc s unfolding x3_def add.assoc s
    unfolding x2_def add.assoc s unfolding x1_def add.assoc s unfolding x0_def
    by (simp add: algebra_simps)
  have m: "u * v \<le> 2 ^ (p + q)" if "u < 2 ^ p" "v < 2 ^ q" for u v p q :: nat
    using that by (simp add: power_add mult_le_mono)
  have d: "x div 2 ^ 30 \<le> 2 ^ 34" if "x < 2 ^ 64" for x :: nat
    using that div_le_mono [of x "2 ^ 64" "2 ^ 30"] by simp
  note M = m [OF r(1) r(5)] m [OF r(1) r(6)] m [OF r(2) r(5)] m [OF r(1) r(7)] m [OF r(2) r(6)] m [OF r(3) r(5)]
    m [OF r(1) r(8)] m [OF r(2) r(7)] m [OF r(3) r(6)] m [OF r(4) r(5)] m [OF r(2) r(8)] m [OF r(3) r(7)] m [OF r(4) r(6)]
    m [OF r(3) r(8)] m [OF r(4) r(7)]
  show 0: "x0 < 2 ^ 64" using M by (simp add: x0_def)
  show 1: "x1 < 2 ^ 64" using M d [OF 0] by (simp add: x1_def)
  show 2: "x2 < 2 ^ 64" using M d [OF 1] by (simp add: x2_def)
  show 3: "x3 < 2 ^ 64" using M d [OF 2] by (simp add: x3_def)
  show 4: "x4 < 2 ^ 64" using M d [OF 3] by (simp add: x4_def)
  show 5: "x5 < 2 ^ 64" using M d [OF 4] by (simp add: x5_def)
  have la: "a0 + 2 ^ 30 * (a1 + 2 ^ 30 * (a2 + 2 ^ 30 * a3)) < 2 ^ 122" using r by simp
  have lb: "b0 + 2 ^ 30 * (b1 + 2 ^ 30 * (b2 + 2 ^ 30 * b3)) < 2 ^ 122" using r by simp
  have "2 ^ 180 * x6 \<le> (a0 + 2 ^ 30 * (a1 + 2 ^ 30 * (a2 + 2 ^ 30 * a3))) * (b0 + 2 ^ 30 * (b1 + 2 ^ 30 * (b2 + 2 ^ 30 * b3)))"
    unfolding P by simp
  also have "\<dots> < 2 ^ 122 * 2 ^ 122" using la lb by (intro mult_strict_mono) auto
  finally show "x6 < 2 ^ 64" by simp
qed


lemma multf3_limbs_spec:
  assumes A: "u128_val a = 64 * A" and B: "u128_val b = 64 * B"
  shows "(case multf3_limbs a b of (y0, y1) \<Rightarrow> u128_val \<lparr>ux0 = y0, ux1 = y1\<rparr>) = stk 116 (A * B)"
proof -
  define lim where "lim u = (drop_bit 34 (push_bit 28 (ux0 u)), drop_bit 36 (ux0 u) OR drop_bit 34 (push_bit 62 (ux1 u)),
     drop_bit 34 (push_bit 32 (ux1 u)), drop_bit 32 (ux1 u))" for u :: u128_t
  have L: "\<exists>u0 u1 u2 u3. lim u = (u0, u1, u2, u3) \<and> unat u0 < 2 ^ 30 \<and> unat u1 < 2 ^ 30 \<and> unat u2 < 2 ^ 30 \<and> unat u3 < 2 ^ 32
      \<and> unat u0 + 2 ^ 30 * (unat u1 + 2 ^ 30 * (unat u2 + 2 ^ 30 * unat u3)) = U"
    if U: "u128_val u = 64 * U" for u U
  proof -
    define p q where "p = unat (ux0 u)" and "q = unat (ux1 u)"
    have r: "p < 2 ^ 64" "q < 2 ^ 64" unfolding p_def q_def by (rule unat64_less)+
    have d: "drop_bit 36 (ux0 u) AND drop_bit 34 (push_bit 62 (ux1 u)) = 0"
      by (rule bit_word_eqI) (auto simp: bit_simps dest: bit_imp_le_length)
    have v0: "unat (drop_bit 34 (push_bit 28 (ux0 u))) = p mod 2 ^ 36 div 2 ^ 6"
      using mod_mult_mult2 [of p "2 ^ 28" "2 ^ 36"] div_mult2_eq [of "p mod 2 ^ 36 * 2 ^ 28" "2 ^ 28" "2 ^ 6"]
      by (simp add: unat_drop_bit unat_push_bit p_def)
    have v1: "unat (drop_bit 36 (ux0 u) OR drop_bit 34 (push_bit 62 (ux1 u))) = p div 2 ^ 36 + q mod 4 * 2 ^ 28"
      using mod_mult_mult2 [of q "2 ^ 62" 4] unfolding unat_or_disj [OF d]
      by (simp add: unat_drop_bit unat_push_bit p_def q_def)
    have v2: "unat (drop_bit 34 (push_bit 32 (ux1 u))) = q mod 2 ^ 32 div 4"
      using mod_mult_mult2 [of q "2 ^ 32" "2 ^ 32"] div_mult2_eq [of "q mod 2 ^ 32 * 2 ^ 32" "2 ^ 32" 4]
      by (simp add: unat_drop_bit unat_push_bit q_def)
    have v3: "unat (drop_bit 32 (ux1 u)) = q div 2 ^ 32" by (simp add: unat_drop_bit q_def)
    have "q * 2 ^ 64 + p = 64 * U" using U by (simp add: u128_val_def p_def q_def)
    then have "p mod 2 ^ 36 div 2 ^ 6 + 2 ^ 30 * (p div 2 ^ 36 + q mod 4 * 2 ^ 28 + 2 ^ 30 * (q mod 2 ^ 32 div 4 + 2 ^ 30 * (q div 2 ^ 32))) = U"
    proof -
      assume e: "q * 2 ^ 64 + p = 64 * U"
      have "p = 64 * (U - q * 2 ^ 58)" using e by simp
      then obtain p' where p': "p = 64 * p'" by blast
      have U: "U = q * 2 ^ 58 + p'" using e by (simp add: p')
      have "64 * p' mod (64 * 2 ^ 30) = 64 * (p' mod 2 ^ 30)" by (rule mod_mult_mult1)
      then have m: "p mod 2 ^ 36 div 2 ^ 6 = p' mod 2 ^ 30" by (simp add: p')
      have d: "p div 2 ^ 36 = p' div 2 ^ 30" using div_mult2_eq [of p 64 "2 ^ 30"] by (simp add: p')
      have q0: "q mod 2 ^ 32 mod 4 = q mod 4" by (simp add: mod_mod_cancel)
      have "q = q div 2 ^ 32 * 2 ^ 32 + (q mod 2 ^ 32 div 4 * 4 + q mod 4)"
        using div_mult_mod_eq [of "q mod 2 ^ 32" 4] div_mult_mod_eq [of q "2 ^ 32"] unfolding q0 by linarith
      moreover have "p' = p' div 2 ^ 30 * 2 ^ 30 + p' mod 2 ^ 30" by (rule div_mult_mod_eq [symmetric])
      ultimately show ?thesis unfolding m d U by (simp del: div_mult_mod_eq)
    qed
    moreover have "p mod 2 ^ 36 div 2 ^ 6 < 2 ^ 30" "q mod 2 ^ 32 div 4 < 2 ^ 30" "q div 2 ^ 32 < 2 ^ 32"
      using r by (simp_all add: less_mult_imp_div_less)
    moreover have "p div 2 ^ 36 + q mod 4 * 2 ^ 28 < 2 ^ 30"
      using r by simp
    ultimately show ?thesis unfolding lim_def by (intro exI conjI) (rule refl | simp only: v0 v1 v2 v3)+
  qed
  obtain a0 a1 a2 a3 where a: "lim a = (a0, a1, a2, a3)" and ra: "unat a0 < 2 ^ 30" "unat a1 < 2 ^ 30" "unat a2 < 2 ^ 30" "unat a3 < 2 ^ 32"
    and va: "unat a0 + 2 ^ 30 * (unat a1 + 2 ^ 30 * (unat a2 + 2 ^ 30 * unat a3)) = A" using L [OF A] by blast
  obtain b0 b1 b2 b3 where b: "lim b = (b0, b1, b2, b3)" and rb: "unat b0 < 2 ^ 30" "unat b1 < 2 ^ 30" "unat b2 < 2 ^ 30" "unat b3 < 2 ^ 32"
    and vb: "unat b0 + 2 ^ 30 * (unat b1 + 2 ^ 30 * (unat b2 + 2 ^ 30 * unat b3)) = B" using L [OF B] by blast
  define x0 where "x0 = a0 * b0"
  define x1 where "x1 = drop_bit 30 x0 + a0 * b1 + a1 * b0"
  define x2 where "x2 = drop_bit 30 x1 + a0 * b2 + a1 * b1 + a2 * b0"
  define x3 where "x3 = drop_bit 30 x2 + a0 * b3 + a1 * b2 + a2 * b1 + a3 * b0"
  define x4 where "x4 = drop_bit 30 x3 + a1 * b3 + a2 * b2 + a3 * b1"
  define x5 where "x5 = drop_bit 30 x4 + a2 * b3 + a3 * b2"
  define x6 where "x6 = drop_bit 30 x5 + a3 * b3"
  define y0 where "y0 = push_bit 34 x5 OR drop_bit 30 (push_bit 34 x4) OR drop_bit 60 (push_bit 34 x3)
               OR of_bool (push_bit 38 x3 OR push_bit 34 (x2 OR x1 OR x0) \<noteq> 0)"
  have m: "multf3_limbs a b = (y0, x6)"
    using a b unfolding lim_def prod.inject multf3_limbs_def Let_def y0_def x0_def x1_def x2_def x3_def x4_def x5_def x6_def
    by (simp only:)
  note LM = limb_mul [OF ra rb]
  have V0: "unat x0 = unat a0 * unat b0"
    using LM(2) by (simp add: x0_def unat_word_ariths)
  have V1: "unat x1 = unat x0 div 2 ^ 30 + unat a0 * unat b1 + unat a1 * unat b0"
    using LM(3) unfolding V0 [symmetric] by (simp add: x1_def unat_word_ariths unat_drop_bit mod_simps)
  have V2: "unat x2 = unat x1 div 2 ^ 30 + unat a0 * unat b2 + unat a1 * unat b1 + unat a2 * unat b0"
    using LM(4) unfolding V0 [symmetric] V1 [symmetric] by (simp add: x2_def unat_word_ariths unat_drop_bit mod_simps)
  have V3: "unat x3 = unat x2 div 2 ^ 30 + unat a0 * unat b3 + unat a1 * unat b2 + unat a2 * unat b1 + unat a3 * unat b0"
    using LM(5) unfolding V0 [symmetric] V1 [symmetric] V2 [symmetric] by (simp add: x3_def unat_word_ariths unat_drop_bit mod_simps)
  have V4: "unat x4 = unat x3 div 2 ^ 30 + unat a1 * unat b3 + unat a2 * unat b2 + unat a3 * unat b1"
    using LM(6) unfolding V0 [symmetric] V1 [symmetric] V2 [symmetric] V3 [symmetric]
    by (simp add: x4_def unat_word_ariths unat_drop_bit mod_simps)
  have V5: "unat x5 = unat x4 div 2 ^ 30 + unat a2 * unat b3 + unat a3 * unat b2"
    using LM(7) unfolding V0 [symmetric] V1 [symmetric] V2 [symmetric] V3 [symmetric] V4 [symmetric]
    by (simp add: x5_def unat_word_ariths unat_drop_bit mod_simps)
  have V6: "unat x6 = unat x5 div 2 ^ 30 + unat a3 * unat b3"
    using LM(8) unfolding V0 [symmetric] V1 [symmetric] V2 [symmetric] V3 [symmetric] V4 [symmetric] V5 [symmetric]
    by (simp add: x6_def unat_word_ariths unat_drop_bit mod_simps)
  define l where "l w = unat w mod 2 ^ 30" for w :: "64 word"
  have l: "l w < 2 ^ 30" for w by (simp add: l_def)
  have P: "A * B = l x0 + 2 ^ 30 * (l x1 + 2 ^ 30 * (l x2 + 2 ^ 30 * (l x3 + 2 ^ 30 * (l x4 + 2 ^ 30 * (l x5 + 2 ^ 30 * unat x6)))))"
    using LM(1) unfolding V0 [symmetric] V1 [symmetric] V2 [symmetric] V3 [symmetric] V4 [symmetric] V5 [symmetric] V6 [symmetric]
    by (simp only: va vb l_def)
  let ?s = "push_bit 38 x3 OR push_bit 34 (x2 OR x1 OR x0) \<noteq> 0"
  define z0 where "z0 = push_bit 34 x5 OR drop_bit 30 (push_bit 34 x4) OR drop_bit 60 (push_bit 34 x3)"
  have d1: "push_bit 34 x5 AND (drop_bit 30 (push_bit 34 x4) OR drop_bit 60 (push_bit 34 x3)) = 0"
    by (rule bit_word_eqI) (auto simp: bit_simps dest: bit_imp_le_length)
  have d2: "drop_bit 30 (push_bit 34 x4) AND drop_bit 60 (push_bit 34 x3) = 0"
    by (rule bit_word_eqI) (auto simp: bit_simps dest: bit_imp_le_length)
  have p34: "unat (push_bit 34 w) = l w * 2 ^ 34" for w
    using mod_mult_mult2 [of "unat w" "2 ^ 34" "2 ^ 30"] by (simp add: unat_push_bit l_def)
  have z0: "unat z0 = l x5 * 2 ^ 34 + l x4 * 2 ^ 4 + l x3 div 2 ^ 26"
    unfolding z0_def unat_or_disj [OF d1] unat_or_disj [OF d2] unat_drop_bit p34
    using div_mult2_eq [of "l x3 * 2 ^ 34" "2 ^ 34" "2 ^ 26"] by (simp add: div_mult_swap)
  have sz: "?s \<longleftrightarrow> \<not> (l x0 = 0 \<and> l x1 = 0 \<and> l x2 = 0 \<and> l x3 mod 2 ^ 26 = 0)"
  proof -
    have "push_bit 38 x3 = 0 \<longleftrightarrow> unat x3 mod 2 ^ 26 = 0"
      using mod_mult_mult2 [of "unat x3" "2 ^ 38" "2 ^ 26"] by (simp add: word_zero_iff_unat unat_push_bit)
    also have "\<dots> \<longleftrightarrow> l x3 mod 2 ^ 26 = 0" by (simp add: l_def mod_mod_cancel)
    finally have "push_bit 38 x3 = 0 \<longleftrightarrow> l x3 mod 2 ^ 26 = 0" .
    moreover have "push_bit 34 w = 0 \<longleftrightarrow> l w = 0" for w
      unfolding word_zero_iff_unat p34 by simp
    ultimately show ?thesis unfolding push_bit_or or_eq_0_iff by simp metis
  qed
  have dm: "A * B div 2 ^ 116 = unat x6 * 2 ^ 64 + unat z0" "A * B mod 2 ^ 116 \<noteq> 0 \<longleftrightarrow> ?s"
  proof -
    define W where "W = l x0 + 2 ^ 30 * (l x1 + 2 ^ 30 * (l x2 + 2 ^ 30 * (l x3 mod 2 ^ 26)))"
    have "l x3 mod 2 ^ 26 < 2 ^ 26" by simp
    then have W: "W < 2 ^ 116" using l [of x0] l [of x1] l [of x2] unfolding W_def by simp
    have W0: "W = 0 \<longleftrightarrow> l x0 = 0 \<and> l x1 = 0 \<and> l x2 = 0 \<and> l x3 mod 2 ^ 26 = 0" by (simp add: W_def)
    define u v where "u = l x3 div 2 ^ 26" and "v = l x3 mod 2 ^ 26"
    have l3: "l x3 = u * 2 ^ 26 + v" unfolding u_def v_def by (rule div_mult_mod_eq [symmetric])
    have e: "A * B = W + 2 ^ 116 * (unat x6 * 2 ^ 64 + unat z0)"
      unfolding W_def z0 u_def [symmetric] v_def [symmetric] P unfolding l3 by simp
    show "A * B div 2 ^ 116 = unat x6 * 2 ^ 64 + unat z0" unfolding e using W by simp
    have "A * B mod 2 ^ 116 = W" unfolding e mod_mult_self2 using W by (rule mod_less)
    then show "A * B mod 2 ^ 116 \<noteq> 0 \<longleftrightarrow> ?s" unfolding sz using W0 by simp
  qed
  have "u128_val \<lparr>ux0 = y0, ux1 = x6\<rparr> = u128_val (\<lparr>ux0 = z0, ux1 = x6\<rparr>\<lparr>ux0 := ux0 \<lparr>ux0 = z0, ux1 = x6\<rparr> OR of_bool ?s\<rparr>)"
    by (simp add: y0_def z0_def or.assoc)
  also have "\<dots> = (unat x6 * 2 ^ 64 + unat z0) OR of_bool ?s"
    unfolding val_or_low by (simp add: u128_val_def)
  finally show ?thesis by (simp only: m prod.case stk_def dm)
qed

lemma multf3_finite:
  assumes fin: "tf_finite fa" "tf_finite fb"
  shows "u128_val (multf3 fa fb)
    = min (32767 * 2 ^ 112) (tf_enc (tf_mag fa * tf_mag fb) tf_one) + (if tf_sign fa = tf_sign fb then 0 else 2 ^ 127)"
proof -
  obtain sa ea a where ua: "f3_unpack fa = (sa, ea, a)" by (cases "f3_unpack fa") auto
  obtain sb eb b where ub: "f3_unpack fb = (sb, eb, b)" by (cases "f3_unpack fb") auto
  note Ua = f3_unpackE [OF ua] and Ub = f3_unpackE [OF ub]
  define sg where "sg = sa XOR sb"
  have sg: "sg = 0 \<or> sg = 1" and ns: "nat sg * 2 ^ 127 = (if tf_sign fa = tf_sign fb then 0 else 2 ^ 127)"
    using xor_sign [of fa fb] by (auto simp: sg_def Ua Ub)
  have det: "fp3_detect_NaNs sa ea a sb eb b = None"
    using detect_none [OF fin] by (simp add: Ua Ub)
  have e: "ea \<noteq> 32767" "eb \<noteq> 32767" using unpack_finite ua ub fin by auto
  show ?thesis
  proof (cases "u128_val a = 0 \<or> u128_val b = 0")
    case True
    then have "multf3 fa fb = f3_zero sg"
      using e by (simp add: multf3_def ua ub det or_zero_val sg_def)
    moreover have z: "tf_mag fa * tf_mag fb = 0" using True mag_zero [OF ua] mag_zero [OF ub] by simp
    ultimately show ?thesis unfolding ns [symmetric] z by (simp add: val_f3_zero [OF sg])
  next
    case False
    obtain ea' a' where na: "f3_normalise ea a = (ea', a')" by (cases "f3_normalise ea a") auto
    obtain eb' b' where nb: "f3_normalise eb b = (eb', b')" by (cases "f3_normalise eb b") auto
    obtain y0 y1 where y: "multf3_limbs a' b' = (y0, y1)" by (cases "multf3_limbs a' b'") auto
    define Y where "Y = \<lparr>ux0 = y0, ux1 = y1\<rparr>"
    define ex where "ex = ea' + eb' - 16352"
    have nza: "u128_val a \<noteq> 0" and nzb: "u128_val b \<noteq> 0" using False by auto
    note NA = norm_unpack [OF ua na nza] and NB = norm_unpack [OF ub nb nzb]
    have sh: "u128_shl 1 Y = \<lparr>ux0 = push_bit 1 y0, ux1 = push_bit 1 y1 OR drop_bit 63 y0\<rparr>"
      by (simp add: u128_shl_def Y_def)
    have fr: "multf3 fa fb = (if drop_bit 63 y1 = 0 then f3_round sg (ex - 1) (u128_shl 1 Y) else f3_round sg ex Y)"
      unfolding sh using e False by (simp add: multf3_def ua ub det or_zero_val na nb y sg_def ex_def Y_def)
    have "64 dvd u128_val a'" "64 dvd u128_val b'"
      using NA(3) NB(3) by (auto intro: dvd_trans [of 64 "2 ^ 15"])
    then obtain A B where A: "u128_val a' = 64 * A" and B: "u128_val b' = 64 * B" by (auto elim!: dvdE)
    have Y: "u128_val Y = stk 116 (A * B)"
      using multf3_limbs_spec [OF A B] by (simp add: y Y_def)
    have rY: "rep 1 (u128_val Y) (A * B) (2 ^ 116)" by (rule rep_1I) (simp_all only: Y stk_def, simp)
    have AB: "2 ^ 242 \<le> A * B"
    proof -
      have "2 ^ 121 \<le> A" "2 ^ 121 \<le> B" using NA(2) NB(2) A B by simp_all
      then have "(2::nat) ^ 121 * 2 ^ 121 \<le> A * B" by (rule mult_le_mono)
      then show ?thesis by simp
    qed
    have Yge: "2 ^ 126 \<le> u128_val Y"
    proof -
      have "2 ^ 242 div 2 ^ 116 \<le> A * B div 2 ^ 116" by (rule div_le_mono [OF AB])
      then show ?thesis by (simp add: Y stk_def or_of_bool)
    qed
    have mag: "real (tf_mag fa * tf_mag fb) * real (2 ^ 116) * 2 powi 16
        = real (A * B) * real tf_one * 2 powi ex"
    proof -
      have "2 powi (ea' - 1) * 2 powi (eb' - 1) * 2 powi 12 * 2 powi 116 * 2 powi 16
          = (2::real) powi ((ea' - 1) + (eb' - 1) + 12 + 116 + 16)"
        unfolding powi2_add ..
      also have "(ea' - 1) + (eb' - 1) + 12 + 116 + 16 = 16494 + ex" by (simp add: ex_def)
      also have "(2::real) powi (16494 + ex) = real tf_one * 2 powi ex" unfolding real_tf_one powi2_add ..
      finally have p: "2 powi (ea' - 1) * 2 powi (eb' - 1) * 2 powi 12 * 2 powi 116 * 2 powi 16
          = real tf_one * 2 powi ex" .
      have "real (tf_mag fa * tf_mag fb) * real (2 ^ 116) * 2 powi 16
          = real (A * B) * (2 powi (ea' - 1) * 2 powi (eb' - 1) * 2 powi 12 * 2 powi 116 * 2 powi 16)"
        by (simp add: NA(1) NB(1) A B)
      then show ?thesis unfolding p by (simp only: mult.assoc)
    qed
    show ?thesis
    proof (cases "drop_bit 63 y1 = 0")
      case True
      then have lt: "u128_val Y < 2 ^ 127" using val_high_zero [of 1 Y] by (simp add: Y_def)
      then have v: "u128_val (u128_shl 1 Y) = u128_val Y * 2 ^ 1" using val_shl [of 1 Y] by simp
      have r2: "rep 2 (u128_val (u128_shl 1 Y)) (A * B * 2 ^ 1) (2 ^ 116)"
        unfolding v using rep_shl [OF rY, of 1] by (simp add: numeral_2_eq_2)
      have p: "(2::real) powi ex = 2 ^ 1 * 2 powi (ex - 1)"
        using power_int_add [of "2::real" 1 "ex - 1"] by simp
      show ?thesis unfolding fr if_P [OF True] ns [symmetric]
        by (rule f3.rnd_real [OF r2 _ sg]) (use v Yge mag in \<open>simp_all add: p\<close>)
    next
      case F: False
      then have "2 ^ 127 \<le> u128_val Y" using val_high_zero [of 1 Y] by (simp add: Y_def)
      then show ?thesis unfolding fr if_not_P [OF F] ns [symmetric]
        by (intro f3.rnd_real [OF rY _ sg _ mag]) simp_all
    qed
  qed
qed

end
