(* ===== verification/SoftFloatDiv.thy ===== *)
theory SoftFloatDiv
  imports SoftFloatArith
begin

text \<open>
  Division: the 116-step restoring loop computes quotient and remainder, and \<open>divtf3\<close> is the
  correctly rounded quotient of finite operands.
\<close>

lemma divtf3_loop_spec:
  "u128_val a < 2 * u128_val b \<Longrightarrow> u128_val b < 2 ^ 127 \<Longrightarrow> (u128_val x + 1) * 2 ^ n \<le> 2 ^ 128 \<Longrightarrow>
   divtf3_loop n a b x = (a', x') \<Longrightarrow>
   2 ^ n * (u128_val a + 2 * u128_val x * u128_val b) = 2 * u128_val x' * u128_val b + u128_val a' \<and> u128_val a' < 2 * u128_val b"
proof (induction n arbitrary: a x)
  case (Suc n)
  have xlt: "u128_val x * 2 + 2 \<le> 2 ^ 128"
  proof -
    have "(u128_val x + 1) * 2 * 1 \<le> (u128_val x + 1) * 2 * 2 ^ n" by (rule mult_le_mono2) simp
    also have "\<dots> \<le> 2 ^ 128" using Suc.prems(3) by (simp only: power_Suc mult.assoc)
    finally show ?thesis by simp
  qed
  have x2: "u128_val (u128_shl 1 x) = 2 * u128_val x" using xlt val_shl [of 1 x] by simp
  define c where "c = (ux1 a > ux1 b \<or> (ux1 a = ux1 b \<and> ux0 a \<ge> ux0 b))"
  have c: "c \<longleftrightarrow> u128_val b \<le> u128_val a"
    unfolding c_def u128_val_def word_less_nat_alt word_le_nat_alt word_unat_eq_iff
    using unat64_less [of "ux0 a"] unat64_less [of "ux0 b"] by auto
  define ad where "ad = \<lparr>ux0 = ux0 a - ux0 b, ux1 = ux1 a - ux1 b - of_bool (ux0 a < ux0 b)\<rparr>"
  have ad: "u128_val ad = u128_val a - u128_val b" if c
  proof -
    have "ux0 a - ux0 b > ux0 a \<longleftrightarrow> ux0 a < ux0 b"
      by (simp add: word_less_nat_alt unat_sub_if_size word_size)
         (use unat64_less [of "ux0 a"] unat64_less [of "ux0 b"] in auto)
    then have "ad = u128_sub a b" by (simp add: ad_def u128_sub_def Let_def)
    then show ?thesis using that val_sub_le [of b a] c by simp
  qed
  define a1 where "a1 = u128_shl 1 (if c then ad else a)"
  define x1 where "x1 = (if c then (u128_shl 1 x)\<lparr>ux0 := ux0 (u128_shl 1 x) OR 1\<rparr> else u128_shl 1 x)"
  have st: "divtf3_loop n a1 b x1 = (a', x')"
    using Suc.prems(4) unfolding divtf3_loop.simps c_def [symmetric] ad_def [symmetric] a1_def x1_def
    by (simp add: Let_def split: if_splits)
  have "u128_val (if c then ad else a) < u128_val b" using c ad Suc.prems(1) by auto
  moreover from this have "u128_val a1 = 2 * u128_val (if c then ad else a)"
    using val_shl [of 1 "if c then ad else a"] Suc.prems(2) by (simp add: a1_def)
  ultimately have a1: "u128_val a1 < 2 * u128_val b" "u128_val a1 + 2 * (if c then u128_val b else 0) = 2 * u128_val a"
    using c ad by auto
  have x1: "u128_val x1 = 2 * u128_val x + of_bool c"
    using val_or_low [of "u128_shl 1 x" 1] or_of_bool [of "2 * u128_val x" True] x2 by (simp add: x1_def)
  have "(u128_val x1 + 1) * 2 ^ n \<le> (2 * u128_val x + 2) * 2 ^ n" by (rule mult_le_mono1) (simp add: x1)
  also have "\<dots> \<le> 2 ^ 128" using Suc.prems(3) by (simp add: algebra_simps)
  finally have x1le: "(u128_val x1 + 1) * 2 ^ n \<le> 2 ^ 128" .
  have "2 ^ Suc n * (u128_val a + 2 * u128_val x * u128_val b) = 2 ^ n * (2 * u128_val a + 4 * u128_val x * u128_val b)"
    by (simp add: algebra_simps)
  also have "2 * u128_val a + 4 * u128_val x * u128_val b = u128_val a1 + 2 * u128_val x1 * u128_val b"
    using a1(2) by (auto simp: x1 algebra_simps)
  finally show ?case using Suc.IH [OF a1(1) Suc.prems(2) x1le st] by simp
qed simp

lemma divtf3_finite:
  assumes fin: "tf_finite fa" "tf_finite fb" and nzb: "tf_mag fb \<noteq> 0"
  shows "u128_val (divtf3 fa fb)
    = min (32767 * 2 ^ 112) (tf_enc (tf_mag fa * tf_one) (tf_mag fb)) + (if tf_sign fa = tf_sign fb then 0 else 2 ^ 127)"
proof -
  obtain sa ea a where ua: "f3_unpack fa = (sa, ea, a)" by (cases "f3_unpack fa") auto
  obtain sb eb b where ub: "f3_unpack fb = (sb, eb, b)" by (cases "f3_unpack fb") auto
  note Ua = f3_unpackE [OF ua] and Ub = f3_unpackE [OF ub]
  define sg where "sg = sa XOR sb"
  have sg: "sg = 0 \<or> sg = 1" and ns: "nat sg * 2 ^ 127 = (if tf_sign fa = tf_sign fb then 0 else 2 ^ 127)"
    using xor_sign [of fa fb] by (auto simp: sg_def Ua Ub)
  have det: "fp3_detect_NaNs sa ea a sb eb b = None"
    using detect_none [OF fin] by (simp add: Ua Ub)
  have e: "ea \<noteq> 32767" "eb \<noteq> 32767" using unpack_finite ua ub fin by auto
  have b0: "u128_val b \<noteq> 0" using nzb mag_zero [OF ub] by simp
  show ?thesis
  proof (cases "u128_val a = 0")
    case True
    then have "divtf3 fa fb = f3_zero sg"
      using e b0 by (simp add: divtf3_def ua ub det or_zero_val sg_def)
    moreover have z: "tf_mag fa * tf_one = 0" using True mag_zero [OF ua] by simp
    ultimately show ?thesis unfolding ns [symmetric] z using nzb by (simp add: val_f3_zero [OF sg])
  next
    case False
    obtain ea' a' where na: "f3_normalise ea a = (ea', a')" by (cases "f3_normalise ea a") auto
    obtain eb' b' where nb: "f3_normalise eb b = (eb', b')" by (cases "f3_normalise eb b") auto
    note NA = norm_unpack [OF ua na False] and NB = norm_unpack [OF ub nb b0]
    define a1 b1 where "a1 = u128_shr 1 a'" and "b1 = u128_shr 1 b'"
    obtain r q where loop: "divtf3_loop 116 a1 b1 \<lparr>ux0 = 0, ux1 = 0\<rparr> = (r, q)" by fastforce
    define x where "x = q\<lparr>ux0 := ux0 q OR of_bool (ux0 r OR ux1 r \<noteq> 0)\<rparr>"
    obtain ex' x' where nx: "f3_normalise (ea' - eb' + 16395) x = (ex', x')"
      by (cases "f3_normalise (ea' - eb' + 16395) x") auto
    have fr: "divtf3 fa fb = f3_round sg ex' x'"
      using e False b0 nx unfolding x_def
      unfolding divtf3_def ua ub prod.case Let_def det option.case na nb a1_def [symmetric] b1_def [symmetric]
      by (simp add: na nb loop or_zero_val sg_def flip: a1_def b1_def)
    define A B where "A = u128_val a1" and "B = u128_val b1"
    have A: "u128_val a' = 2 * A" and B: "u128_val b' = 2 * B"
    proof -
      have "2 dvd u128_val a'" "2 dvd u128_val b'"
        using NA(3) NB(3) by (auto intro: dvd_trans [of 2 "2 ^ 15"])
      then show "u128_val a' = 2 * A" "u128_val b' = 2 * B"
        using val_shr [of 1 a'] val_shr [of 1 b'] by (simp_all add: A_def B_def a1_def b1_def)
    qed
    have rA: "2 ^ 126 \<le> A" "A < 2 ^ 127" and rB: "2 ^ 126 \<le> B" "B < 2 ^ 127"
      using NA(2) NB(2) u128_val_less [of a'] u128_val_less [of b'] A B by simp_all
    have inv: "2 ^ 116 * A = u128_val q * (2 * B) + u128_val r" "u128_val r < 2 * B"
      using divtf3_loop_spec [OF _ _ _ loop] rA rB by (simp_all add: A_def [symmetric] B_def [symmetric] u128_val_def [of "\<lparr>ux0 = 0, ux1 = 0\<rparr>"])
    have x: "u128_val x = u128_val q OR of_bool (u128_val r \<noteq> 0)"
      by (simp add: x_def val_or_low or_zero_val)
    have rx: "rep 1 (u128_val x) (2 ^ 116 * A) (2 * B)"
    proof (rule rep_1I)
      have "2 ^ 116 * A div (2 * B) = u128_val q" "2 ^ 116 * A mod (2 * B) = u128_val r"
        unfolding inv(1) using inv(2) by simp_all
      then show "u128_val x = 2 ^ 116 * A div (2 * B) OR of_bool (2 ^ 116 * A mod (2 * B) \<noteq> 0)"
        by (simp only: x)
    qed (use rB in simp)
    have xge: "2 ^ 114 \<le> u128_val x"
    proof -
      have "2 ^ 114 \<le> u128_val q"
      proof (rule ccontr)
        assume "\<not> 2 ^ 114 \<le> u128_val q"
        then have "u128_val q + 1 \<le> 2 ^ 114" by simp
        then have "(u128_val q + 1) * (2 * B) \<le> 2 ^ 114 * (2 * B)" by (rule mult_le_mono1)
        moreover have "(u128_val q + 1) * (2 * B) = u128_val q * (2 * B) + 2 * B" by (simp only: add_mult_distrib mult_1)
        ultimately have "2 ^ 116 * A < 2 ^ 114 * (2 * B)" using inv by linarith
        then show False using rA rB by simp
      qed
      then show ?thesis by (simp add: x or_of_bool)
    qed
    then have "u128_val x \<noteq> 0" by auto
    then obtain L where L: "u128_val x' = u128_val x * 2 ^ L" "ex' = ea' - eb' + 16395 - int L" "2 ^ 127 \<le> u128_val x'"
      using f3_normalise_spec nx by blast
    have "L \<le> 13"
    proof (rule ccontr)
      assume "\<not> L \<le> 13"
      then have "(2::nat) ^ 14 \<le> 2 ^ L" by (intro power_increasing) auto
      with xge have "2 ^ 114 * 2 ^ 14 \<le> u128_val x * 2 ^ L" by (rule mult_le_mono)
      then show False using u128_val_less [of x'] L by simp
    qed
    then have rep: "rep 14 (u128_val x') (2 ^ 116 * A * 2 ^ L) (2 * B)"
      using rep_shl [OF rx, of L] rep_mono [of "1 + L"] unfolding L by simp
    have sc: "real (tf_mag fa * tf_one) * real (2 * B) * 2 powi 16
        = real (2 ^ 116 * A * 2 ^ L) * real (tf_mag fb) * 2 powi ex'"
    proof -
      have "2 powi 1 * 2 powi (ea' - 1) * 2 powi 16494 * 2 powi 1 * 2 powi 16
          = (2::real) powi 116 * 2 powi int L * 2 powi 1 * 2 powi (eb' - 1) * 2 powi ex'"
        unfolding powi2_add [symmetric] by (simp add: L(2))
      then have p: "2 * 2 powi (ea' - 1) * real tf_one * 2 * 2 powi 16
          = 2 ^ 116 * 2 ^ L * 2 * 2 powi (eb' - 1) * 2 powi ex'"
        unfolding real_tf_one by (simp only: power_int_1_right power_int_numeral power_int_of_nat)
      have "real (tf_mag fa * tf_one) * real (2 * B) * 2 powi 16
          = real A * real B * (2 * 2 powi (ea' - 1) * real tf_one * 2 * 2 powi 16)"
        by (simp add: NA(1) A mult_ac)
      also have "\<dots> = real (2 ^ 116 * A * 2 ^ L) * real (tf_mag fb) * 2 powi ex'"
        unfolding p by (simp add: NB(1) B mult_ac)
      finally show ?thesis .
    qed
    show ?thesis unfolding fr ns [symmetric]
      using nzb by (intro f3.rnd_real [OF rep _ sg L(3) sc]) simp_all
  qed
qed

end
