(* ===== verification/SoftFloatExtend.thy ===== *)
theory SoftFloatExtend
  imports SoftFloatAdd SoftFloatMul SoftFloatDiv
begin

text \<open>
  The widening conversions \<open>__extendsftf2\<close> and \<open>__extenddftf2\<close>: a binary format with \<open>p\<close> fraction bits
  and \<open>w\<close> exponent bits is read by \<open>bin_sign\<close>, \<open>bin_expo\<close>, \<open>bin_frac\<close> and \<open>bin_mag\<close>; every finite
  binary32 and binary64 number is converted exactly.  The loop that looks for the leading bit of a
  subnormal runs on fuel; 24 (53) steps are enough, which the specifications show.
\<close>

definition bin_sign :: "nat \<Rightarrow> nat \<Rightarrow> nat \<Rightarrow> nat" where "bin_sign p w n = n div 2 ^ (p + w)"
definition bin_expo :: "nat \<Rightarrow> nat \<Rightarrow> nat \<Rightarrow> nat" where "bin_expo p w n = n div 2 ^ p mod 2 ^ w"
definition bin_frac :: "nat \<Rightarrow> nat \<Rightarrow> nat" where "bin_frac p n = n mod 2 ^ p"
definition bin_mag :: "nat \<Rightarrow> nat \<Rightarrow> nat \<Rightarrow> nat" where
  "bin_mag p w n = ((if bin_expo p w n = 0 then 0 else 2 ^ p) + bin_frac p n) * 2 ^ (max 1 (bin_expo p w n) - 1)"

text \<open>encoding of N/D (units of the least subnormal) with p fraction bits\<close>
definition bin_enc :: "nat \<Rightarrow> nat \<Rightarrow> nat \<Rightarrow> nat" where
  "bin_enc p N D = (let e = floorlog 2 (N div D) - (p + 1) in e * 2 ^ p + rne_div N (D * 2 ^ e))"

lemma tf_enc_bin: "tf_enc N D = bin_enc 112 N D"
  by (simp add: tf_enc_def bin_enc_def)

fun sf_adj_loop :: "nat \<Rightarrow> 32 word \<Rightarrow> nat \<Rightarrow> nat option" where
  "sf_adj_loop 0 a adj = None"
| "sf_adj_loop (Suc fuel) a adj =
     (if drop_bit (23 - adj) (drop_bit 1 (push_bit 1 a)) = 0 then sf_adj_loop fuel a (adj + 1) else Some adj)"

definition extendsftf2 :: "32 word \<Rightarrow> u128_t option" where
  "extendsftf2 a =
     (let aa = ucast a :: 64 word in
      if push_bit 1 a = 0 then Some \<lparr>ux0 = 0, ux1 = push_bit 32 aa\<rparr>
      else if drop_bit 24 (push_bit 1 a) = 255 then
        Some \<lparr>ux0 = 0, ux1 = 0x7fff000000000000 OR push_bit 63 (drop_bit 31 aa) OR drop_bit 16 (push_bit 41 aa)
                OR push_bit 47 (of_bool (push_bit 9 a \<noteq> 0))\<rparr>
      else if drop_bit 24 (push_bit 1 a) = 0 then
        (case sf_adj_loop 24 a 0 of None \<Rightarrow> None | Some adj \<Rightarrow>
           Some \<lparr>ux0 = 0, ux1 = push_bit 63 (drop_bit 31 aa) OR push_bit 48 (16256 - of_nat adj + 1)
                   OR drop_bit 16 (push_bit 41 (push_bit adj aa))\<rparr>)
      else Some \<lparr>ux0 = 0, ux1 = push_bit 63 (drop_bit 31 aa) OR push_bit 48 ((drop_bit 23 aa AND 255) + 16256)
                   OR drop_bit 16 (push_bit 41 aa)\<rparr>)"

fun df_adj_loop :: "nat \<Rightarrow> 64 word \<Rightarrow> nat \<Rightarrow> nat option" where
  "df_adj_loop 0 a adj = None"
| "df_adj_loop (Suc fuel) a adj =
     (if drop_bit (52 - adj) (drop_bit 1 (push_bit 1 a)) = 0 then df_adj_loop fuel a (adj + 1) else Some adj)"

definition extenddftf2 :: "64 word \<Rightarrow> u128_t option" where
  "extenddftf2 a =
     (let x0 = push_bit 60 a in
      if push_bit 1 a = 0 then Some \<lparr>ux0 = x0, ux1 = a\<rparr>
      else if drop_bit 53 (push_bit 1 a) = 2047 then
        Some \<lparr>ux0 = x0, ux1 = 0x7fff000000000000 OR push_bit 63 (drop_bit 63 a) OR drop_bit 16 (push_bit 12 a)
                OR push_bit 47 (of_bool (push_bit 12 a \<noteq> 0))\<rparr>
      else if drop_bit 53 (push_bit 1 a) = 0 then
        (case df_adj_loop 53 a 0 of None \<Rightarrow> None | Some adj \<Rightarrow>
           Some \<lparr>ux0 = push_bit adj x0,
                 ux1 = push_bit 63 (drop_bit 63 a) OR push_bit 48 (15360 - of_nat adj + 1)
                   OR drop_bit 16 (push_bit 12 (push_bit adj a))\<rparr>)
      else Some \<lparr>ux0 = x0, ux1 = push_bit 63 (drop_bit 63 a) OR push_bit 48 ((drop_bit 52 a AND 2047) + 15360)
                   OR drop_bit 16 (push_bit 12 a)\<rparr>)"


lemma val_pack3:
  assumes s: "unat s < 2" and e: "unat e < 2 ^ 15" and l: "unat l < 2 ^ 48"
  shows "u128_val \<lparr>ux0 = z, ux1 = push_bit 63 s OR push_bit 48 e OR l\<rparr>
    = unat s * 2 ^ 127 + unat e * 2 ^ 112 + (unat l * 2 ^ 64 + unat z)"
proof -
  have lb: "\<not> bit l i" if "48 \<le> i" for i using bit_unat_less [OF _ l] that by fastforce
  have eb: "\<not> bit e i" if "15 \<le> i" for i using bit_unat_less [OF _ e] that by fastforce
  have d1: "push_bit 63 s AND (push_bit 48 e OR l) = 0"
    by (rule bit_word_eqI) (use lb eb in \<open>auto simp: bit_simps\<close>)
  have d2: "push_bit 48 e AND l = 0"
    by (rule bit_word_eqI) (use lb in \<open>auto simp: bit_simps\<close>)
  have "unat (push_bit 63 s OR push_bit 48 e OR l) = unat s * 2 ^ 63 + (unat e * 2 ^ 48 + unat l)"
    unfolding unat_or_disj [OF d1] unat_or_disj [OF d2] using s e by (simp add: unat_push_bit)
  then show ?thesis by (simp add: u128_val_def)
qed

lemma unat_or_less: "unat u < 2 ^ n \<Longrightarrow> unat v < 2 ^ n \<Longrightarrow> unat (u OR v) < 2 ^ n" for u v :: "'a::len word"
  by (metis unsigned_or_eq take_bit_or take_bit_nat_eq_self take_bit_nat_less_exp)

lemma unat_or_ge: "unat u \<le> unat (v OR u)" "unat u \<le> unat (u OR v)" for u v :: "'a::len word"
  unfolding word_le_nat_alt [symmetric] by (simp_all add: le_word_or1 le_word_or2)

lemma tf_fields:
  assumes "u128_val x = s * 2 ^ 127 + e * 2 ^ 112 + m" "e < 2 ^ 15" "m < 2 ^ 112"
  shows "tf_sign x = s" "tf_expo x = e" "tf_frac x = m"
proof -
  have v: "u128_val x = m + 2 ^ 112 * (e + 2 ^ 15 * s)" using assms(1) by simp
  have q: "u128_val x div 2 ^ 112 = e + 2 ^ 15 * s" unfolding v using assms(3) by simp
  show "tf_frac x = m" unfolding tf_frac_def v mod_mult_self2 using assms(3) by (rule mod_less)
  show "tf_expo x = e" unfolding tf_expo_def q using assms(2) by simp
  have "u128_val x div 2 ^ 127 = u128_val x div 2 ^ 112 div 2 ^ 15"
    by (simp flip: div_mult2_eq)
  also have "\<dots> = s" unfolding q using assms(2) by simp
  finally show "tf_sign x = s" unfolding tf_sign_def .
qed

lemma bin_fields:
  assumes "n < 2 ^ (p + w + 1)"
  shows "n = bin_sign p w n * 2 ^ (p + w) + bin_expo p w n * 2 ^ p + bin_frac p n" "bin_sign p w n < 2"
    "bin_expo p w n < 2 ^ w" "bin_frac p n < 2 ^ p"
proof -
  have "n = n div 2 ^ p * 2 ^ p + n mod 2 ^ p" by (rule div_mult_mod_eq [symmetric])
  also have "n div 2 ^ p = n div 2 ^ p div 2 ^ w * 2 ^ w + n div 2 ^ p mod 2 ^ w" by (rule div_mult_mod_eq [symmetric])
  also have "n div 2 ^ p div 2 ^ w = bin_sign p w n" by (simp add: bin_sign_def power_add div_mult2_eq)
  finally show "n = bin_sign p w n * 2 ^ (p + w) + bin_expo p w n * 2 ^ p + bin_frac p n"
    by (simp add: bin_expo_def bin_frac_def power_add algebra_simps)
  show "bin_sign p w n < 2" using assms by (simp add: bin_sign_def div_less_iff_less_mult power_add mult.commute)
qed (simp_all add: bin_expo_def bin_frac_def)

lemma adj_step: "j \<le> P \<Longrightarrow> n div 2 ^ (P - j) = 0 \<longleftrightarrow> n * 2 ^ j < 2 ^ P" for n :: nat
proof -
  assume "j \<le> P"
  then have "(2::nat) ^ P = 2 ^ (P - j) * 2 ^ j" by (simp flip: power_add)
  then show ?thesis by (simp add: div_pow_eq_0)
qed

lemma sf_adj_loop_spec:
  assumes n: "unat (drop_bit 1 (push_bit 1 a)) = n" "0 < n"
  shows "fuel + adj = 24 \<Longrightarrow> n * 2 ^ adj < 2 ^ 24 \<Longrightarrow>
    \<exists>j\<le>23. sf_adj_loop fuel a adj = Some j \<and> 2 ^ 23 \<le> n * 2 ^ j \<and> n * 2 ^ j < 2 ^ 24"
proof (induction fuel arbitrary: adj)
  case 0
  then show ?case using n(2) by simp
next
  case (Suc fuel)
  have z: "drop_bit (23 - adj) (drop_bit 1 (push_bit 1 a)) = 0 \<longleftrightarrow> n * 2 ^ adj < 2 ^ 23"
    using adj_step [of adj 23 n] Suc.prems(1) by (simp only: word_zero_iff_unat unat_drop_bit [of "23 - adj"] n(1))
  show ?case
  proof (cases "n * 2 ^ adj < 2 ^ 23")
    case True
    then have "n * 2 ^ (adj + 1) < 2 ^ 24" by simp
    then show ?thesis using Suc.IH [of "adj + 1"] Suc.prems(1) True z by simp
  next
    case False
    then show ?thesis using Suc.prems z by (intro exI [of _ adj]) simp
  qed
qed

lemma df_adj_loop_spec:
  assumes n: "unat (drop_bit 1 (push_bit 1 a)) = n" "0 < n"
  shows "fuel + adj = 53 \<Longrightarrow> n * 2 ^ adj < 2 ^ 53 \<Longrightarrow>
    \<exists>j\<le>52. df_adj_loop fuel a adj = Some j \<and> 2 ^ 52 \<le> n * 2 ^ j \<and> n * 2 ^ j < 2 ^ 53"
proof (induction fuel arbitrary: adj)
  case 0
  then show ?case using n(2) by simp
next
  case (Suc fuel)
  have z: "drop_bit (52 - adj) (drop_bit 1 (push_bit 1 a)) = 0 \<longleftrightarrow> n * 2 ^ adj < 2 ^ 52"
    using adj_step [of adj 52 n] Suc.prems(1) by (simp only: word_zero_iff_unat unat_drop_bit [of "52 - adj"] n(1))
  show ?case
  proof (cases "n * 2 ^ adj < 2 ^ 52")
    case True
    then have "n * 2 ^ (adj + 1) < 2 ^ 53" by simp
    then show ?thesis using Suc.IH [of "adj + 1"] Suc.prems(1) True z by simp
  next
    case False
    then show ?thesis using Suc.prems z by (intro exI [of _ adj]) simp
  qed
qed

definition tf_quiet_nan :: "u128_t \<Rightarrow> bool" where
  "tf_quiet_nan f \<longleftrightarrow> tf_expo f = 32767 \<and> 2 ^ 111 \<le> tf_frac f"

lemma mul_mod_pow: "n * 2 ^ k mod 2 ^ m = (n mod 2 ^ (m - k)) * 2 ^ k" if "k \<le> m" for n :: nat
  using that mod_mult_mult2 [of n "2 ^ k" "2 ^ (m - k)"] by (simp flip: power_add)

lemma mul_div_pow: "n * 2 ^ k div 2 ^ m = n * 2 ^ (k - m)" if "m \<le> k" for n :: nat
proof -
  have "(2::nat) ^ k = 2 ^ (k - m) * 2 ^ m" using that by (simp flip: power_add)
  then show ?thesis by simp
qed

lemma mul_div_pow': "n * 2 ^ k div 2 ^ m = n div 2 ^ (m - k)" if "k \<le> m" for n :: nat
proof -
  have "(2::nat) ^ m = 2 ^ (m - k) * 2 ^ k" using that by (simp flip: power_add)
  then show ?thesis by simp
qed

definition sf_unit :: nat where "sf_unit = 2 ^ 16345"
definition df_unit :: nat where "df_unit = 2 ^ 15420"

lemma unit_powers:
  "m + n = 16345 \<Longrightarrow> 2 ^ m * 2 ^ n = sf_unit" "m + n = 15420 \<Longrightarrow> 2 ^ m * 2 ^ n = df_unit"
  "m + n = 16494 \<Longrightarrow> 2 ^ m * 2 ^ n = tf_one"
  unfolding sf_unit_def df_unit_def tf_one_def power_add [symmetric] by (simp_all only:)

lemma unit_pos [simp]: "0 < sf_unit" "0 < df_unit"
  unfolding sf_unit_def df_unit_def by (simp_all only: zero_less_power zero_less_numeral)

lemma unit_eq: "2 ^ (112 - 23 + 16256) = sf_unit" "2 ^ (112 - 52 + 15360) = df_unit"
  unfolding sf_unit_def df_unit_def by (rule arg_cong [of _ _ "power 2"], simp)+

lemma extend_normal:
  assumes v: "u128_val x = S * 2 ^ 127 + (E + B) * 2 ^ 112 + F * 2 ^ (112 - p)"
    and r: "p \<le> 112" "F < 2 ^ p" "1 \<le> E" "E + B < 32767"
  shows "tf_sign x = S \<and> tf_finite x \<and> tf_mag x = (2 ^ p + F) * 2 ^ (E - 1) * 2 ^ (112 - p + B)"
proof -
  have p: "2 ^ p * 2 ^ (112 - p) = (2::nat) ^ 112" using r(1) by (simp flip: power_add)
  then have "F * 2 ^ (112 - p) < 2 ^ 112" using r(2) by (metis mult_less_mono1 zero_less_numeral zero_less_power)
  note T = tf_fields [OF v _ this]
  have e: "tf_expo x = E + B" using T(2) r(4) by simp
  have "tf_mag x = (2 ^ p * 2 ^ (112 - p) + F * 2 ^ (112 - p)) * 2 ^ (E - 1 + B)"
    using T(3) r p by (simp add: tf_mag_def tf_sig_def e max_def)
  also have "\<dots> = (2 ^ p + F) * 2 ^ (E - 1) * 2 ^ (112 - p + B)" by (simp add: power_add algebra_simps)
  finally show ?thesis using T r e by (simp add: tf_finite_def)
qed

lemma extend_subnormal:
  assumes v: "u128_val x = S * 2 ^ 127 + (B + 1 - j) * 2 ^ 112 + (F * 2 ^ j - 2 ^ p) * 2 ^ (112 - p)"
    and r: "p \<le> 112" "2 ^ p \<le> F * 2 ^ j" "F * 2 ^ j < 2 ^ (p + 1)" "j \<le> B" "B < 32766"
  shows "tf_sign x = S \<and> tf_finite x \<and> tf_mag x = F * 2 ^ (112 - p + B)"
proof -
  have p: "2 ^ p * 2 ^ (112 - p) = (2::nat) ^ 112" using r(1) by (simp flip: power_add)
  have "F * 2 ^ j - 2 ^ p < 2 ^ p" using r by simp
  then have "(F * 2 ^ j - 2 ^ p) * 2 ^ (112 - p) < 2 ^ 112" using p by (metis mult_less_mono1 zero_less_numeral zero_less_power)
  note T = tf_fields [OF v _ this]
  have e: "tf_expo x = B + 1 - j" using T(2) r(5) by simp
  have "tf_mag x = (2 ^ p * 2 ^ (112 - p) + (F * 2 ^ j - 2 ^ p) * 2 ^ (112 - p)) * 2 ^ (B - j)"
    using T(3) r p by (simp add: tf_mag_def tf_sig_def e max_def)
  also have "\<dots> = F * 2 ^ j * 2 ^ (112 - p) * 2 ^ (B - j)"
    using r(2) by (simp flip: add_mult_distrib)
  also have "\<dots> = F * (2 ^ (112 - p) * (2 ^ j * 2 ^ (B - j)))" by (simp only: mult_ac)
  also have "(2::nat) ^ j * 2 ^ (B - j) = 2 ^ B" using r(4) by (simp flip: power_add)
  finally have "tf_mag x = F * 2 ^ (112 - p + B)" by (simp only: power_add)
  moreover have "B + 1 - j \<noteq> 32767" "B + 1 - j < 2 ^ 15" using r(5) by simp_all
  ultimately show ?thesis using T e by (simp add: tf_finite_def)
qed

lemma extend_special:
  assumes v: "u128_val x = S * 2 ^ 127 + 32767 * 2 ^ 112 + m" "m < 2 ^ 112"
    and m: "F = 0 \<Longrightarrow> m = 0" "F \<noteq> 0 \<Longrightarrow> 2 ^ 111 \<le> m"
  shows "tf_sign x = S \<and> (if F = (0::nat) then tf_is_inf x else tf_quiet_nan x)"
  using tf_fields [OF v(1) _ v(2)] m by (simp add: tf_is_inf_def tf_quiet_nan_def)

lemma sf_fields:
  fixes a :: "32 word"
  defines "n \<equiv> unat a"
  defines "S \<equiv> bin_sign 23 8 n" and "E \<equiv> bin_expo 23 8 n" and "F \<equiv> bin_frac 23 n"
  shows "n = (E * 2 ^ 23 + F) + S * 2 ^ 31" "S < 2" "E < 2 ^ 8" "F < 2 ^ 23"
    and "unat (ucast a :: 64 word) = n" "unat (drop_bit 31 (ucast a :: 64 word)) = S"
    and "unat (push_bit 1 a) = (E * 2 ^ 23 + F) * 2" "unat (drop_bit 24 (push_bit 1 a)) = E"
    and "unat (push_bit 9 a) = F * 2 ^ 9" "n mod 2 ^ 23 = F"
    and "unat (drop_bit 23 (ucast a) AND (255 :: 64 word)) = E"
proof -
  have n32: "n < 2 ^ 32" unfolding n_def using unat_lt2p [of a] by simp
  show nSEF: "n = (E * 2 ^ 23 + F) + S * 2 ^ 31" and S: "S < 2" and E: "E < 2 ^ 8" and F: "F < 2 ^ 23"
    using bin_fields [of n 23 8] n32 by (simp_all add: S_def E_def F_def)
  show aa: "unat (ucast a :: 64 word) = n" using n32 by (simp add: n_def unsigned_ucast_eq take_bit_nat_eq_self)
  show "unat (drop_bit 31 (ucast a :: 64 word)) = S" by (simp add: unat_drop_bit aa S_def bin_sign_def)
  show p1: "unat (push_bit 1 a) = (E * 2 ^ 23 + F) * 2"
  proof -
    have "unat (push_bit 1 a) = n * 2 ^ 1 mod 2 ^ 32" unfolding n_def unat_push_bit by simp
    also have "\<dots> = n mod 2 ^ 31 * 2" using mul_mod_pow [of 1 32 n] by simp
    also have "n mod 2 ^ 31 = E * 2 ^ 23 + F"
      unfolding nSEF mod_mult_self1 using E F by (intro mod_less) simp
    finally show ?thesis .
  qed
  show "unat (drop_bit 24 (push_bit 1 a)) = E" unfolding unat_drop_bit p1 using F by simp
  show nF: "n mod 2 ^ 23 = F" by (simp add: F_def bin_frac_def)
  have "unat (push_bit 9 a) = n * 2 ^ 9 mod 2 ^ 32" unfolding n_def unat_push_bit by simp
  then show "unat (push_bit 9 a) = F * 2 ^ 9" using mul_mod_pow [of 9 32 n] nF by simp
  have "drop_bit 23 (ucast a :: 64 word) AND 255 = drop_bit 23 (ucast a) mod 256"
    using take_bit_eq_mask [of 8 "drop_bit 23 (ucast a :: 64 word)"] by (simp add: take_bit_eq_mod mask_numeral)
  then show "unat (drop_bit 23 (ucast a) AND (255 :: 64 word)) = E"
    by (simp add: unat_mod unat_drop_bit aa E_def bin_expo_def)
qed

lemma extendsftf2_spec:
  fixes a :: "32 word"
  defines "n \<equiv> unat a"
  shows "\<exists>x. extendsftf2 a = Some x \<and> tf_sign x = bin_sign 23 8 n \<and>
    (if bin_expo 23 8 n = 255 then (if bin_frac 23 n = 0 then tf_is_inf x else tf_quiet_nan x)
     else tf_finite x \<and> tf_mag x = bin_mag 23 8 n * sf_unit)"
proof -
  define S E F where "S = bin_sign 23 8 n" and "E = bin_expo 23 8 n" and "F = bin_frac 23 n"
  note D = sf_fields [of a, folded n_def, folded S_def E_def F_def]
  have z1: "push_bit 1 a = 0 \<longleftrightarrow> E = 0 \<and> F = 0" unfolding word_zero_iff_unat D by simp
  have e2: "drop_bit 24 (push_bit 1 a) = 255 \<longleftrightarrow> E = 255" "drop_bit 24 (push_bit 1 a) = 0 \<longleftrightarrow> E = 0"
    unfolding word_unat_eq_iff D by simp_all
  have p9: "push_bit 9 a = 0 \<longleftrightarrow> F = 0" unfolding word_zero_iff_unat D by simp
  have fr: "unat (drop_bit 16 (push_bit 41 w)) = unat w mod 2 ^ 23 * 2 ^ 25" for w :: "64 word"
    using mul_mod_pow [of 41 64 "unat w"] mul_div_pow [of 16 41 "unat w mod 2 ^ 23"]
    by (simp add: unat_drop_bit unat_push_bit)
  have s2: "unat (drop_bit 31 (ucast a :: 64 word)) < 2" unfolding D by (rule D)
  let ?G = "\<exists>x. extendsftf2 a = Some x \<and> tf_sign x = S \<and> (if E = 255 then (if F = 0 then tf_is_inf x else tf_quiet_nan x)
     else tf_finite x \<and> tf_mag x = bin_mag 23 8 n * sf_unit)"
  consider "E = 0" "F = 0" | "E = 255" | "E = 0" "F \<noteq> 0" | "E \<noteq> 0" "E \<noteq> 255" by blast
  then have ?G
  proof cases
    case 1
    define x where "x = \<lparr>ux0 = 0, ux1 = push_bit 32 (ucast a :: 64 word)\<rparr>"
    have "u128_val x = S * 2 ^ 127 + 0 * 2 ^ 112 + 0"
      using 1 D(1,2) unfolding x_def u128_val_def by (simp add: unat_push_bit D)
    note T = tf_fields [OF this]
    have "extendsftf2 a = Some x" using 1 z1 by (simp add: extendsftf2_def Let_def x_def)
    moreover have "bin_mag 23 8 n = 0" using 1 by (simp add: bin_mag_def E_def F_def)
    ultimately show ?thesis using T 1
      by (simp add: tf_finite_def tf_mag_def tf_sig_def)
  next
    case 2
    define l where "l = drop_bit 16 (push_bit 41 (ucast a :: 64 word)) OR push_bit 47 (of_bool (push_bit 9 a \<noteq> 0))"
    define x where "x = \<lparr>ux0 = 0, ux1 = push_bit 63 (drop_bit 31 (ucast a)) OR push_bit 48 32767 OR l\<rparr>"
    have l: "unat l < 2 ^ 48"
      unfolding l_def by (rule unat_or_less) (use fr [of "ucast a"] D(4,10) in \<open>auto simp: D unat_push_bit\<close>)
    have l0: "F = 0 \<Longrightarrow> unat l = 0" "F \<noteq> 0 \<Longrightarrow> 2 ^ 47 \<le> unat l"
      using fr [of "ucast a"] p9 D(10) unat_or_ge(1) [of "push_bit 47 1 :: 64 word" "drop_bit 16 (push_bit 41 (ucast a))"]
      by (simp_all add: l_def D unsigned_or_eq)
    have "u128_val x = S * 2 ^ 127 + 32767 * 2 ^ 112 + unat l * 2 ^ 64"
      unfolding x_def using val_pack3 [OF s2 _ l, of 32767 0] by (simp add: D)
    note T = extend_special [where F = F, OF this]
    have "extendsftf2 a = Some x"
      using 2 z1 e2 unfolding extendsftf2_def x_def l_def by (simp add: Let_def ac_simps or.left_commute)
    then show ?thesis using T 2 l l0 by simp
  next
    case 3
    have d: "unat (drop_bit 1 (push_bit 1 a)) = F" unfolding unat_drop_bit D using 3 by simp
    obtain j where j: "j \<le> 23" "sf_adj_loop 24 a 0 = Some j" "2 ^ 23 \<le> F * 2 ^ j" "F * 2 ^ j < 2 ^ (23 + 1)"
      using sf_adj_loop_spec [OF d, of 24 0] 3 D(4) by auto
    define l where "l = drop_bit 16 (push_bit 41 (push_bit j (ucast a :: 64 word)))"
    define e where "e = 16256 - of_nat j + (1 :: 64 word)"
    define x where "x = \<lparr>ux0 = 0, ux1 = push_bit 63 (drop_bit 31 (ucast a)) OR push_bit 48 e OR l\<rparr>"
    have e: "unat e = 16257 - j"
    proof -
      have "e = of_nat (16257 - j)" using j(1) by (simp add: e_def of_nat_diff)
      then show ?thesis by (simp only:) (rule unat_of_nat_less, simp)
    qed
    have l: "unat l = (F * 2 ^ j - 2 ^ 23) * 2 ^ 25"
    proof -
      have "unat (push_bit j (ucast a :: 64 word)) mod 2 ^ 23 = n * 2 ^ j mod 2 ^ 23"
        by (simp add: unat_push_bit D mod_mod_cancel)
      also have "n * 2 ^ j = F * 2 ^ j + 2 ^ 23 * (S * 2 ^ 8 * 2 ^ j)" using 3 D(1) by (simp add: algebra_simps)
      also have "\<dots> mod 2 ^ 23 = F * 2 ^ j mod 2 ^ 23" by (rule mod_mult_self2)
      also have "\<dots> = F * 2 ^ j - 2 ^ 23" using j by (subst le_mod_geq) simp_all
      finally show ?thesis unfolding l_def fr by (simp only:)
    qed
    have "u128_val x = S * 2 ^ 127 + (16256 + 1 - j) * 2 ^ 112 + (F * 2 ^ j - 2 ^ 23) * 2 ^ (112 - 23)"
      unfolding x_def using val_pack3 [OF s2, of e l 0] l j by (simp add: e D)
    then have "tf_sign x = S \<and> tf_finite x \<and> tf_mag x = F * sf_unit"
      by (rule extend_subnormal [where p = 23 and B = 16256, OF _ _ j(3,4), unfolded unit_eq]) (use j(1) in simp_all)
    moreover have "extendsftf2 a = Some x" using 3 z1 e2 j by (simp add: extendsftf2_def Let_def x_def l_def e_def)
    moreover have "bin_mag 23 8 n = F" using 3 by (simp add: bin_mag_def flip: E_def F_def)
    ultimately show ?thesis using 3 by simp
  next
    case 4
    define l where "l = drop_bit 16 (push_bit 41 (ucast a :: 64 word))"
    define e where "e = (drop_bit 23 (ucast a) AND 255) + (16256 :: 64 word)"
    define x where "x = \<lparr>ux0 = 0, ux1 = push_bit 63 (drop_bit 31 (ucast a)) OR push_bit 48 e OR l\<rparr>"
    have e: "unat e = E + 16256" using D(3,11) by (simp add: e_def unat_word_ariths)
    have l: "unat l = F * 2 ^ 25" unfolding l_def fr D(5,10) ..
    have "u128_val x = S * 2 ^ 127 + (E + 16256) * 2 ^ 112 + F * 2 ^ (112 - 23)"
      unfolding x_def using val_pack3 [OF s2, of e l 0] D(3,4) l by (simp add: e D)
    then have "tf_sign x = S \<and> tf_finite x \<and> tf_mag x = (2 ^ 23 + F) * 2 ^ (E - 1) * sf_unit"
      by (rule extend_normal [where p = 23 and B = 16256, OF _ _ D(4), unfolded unit_eq]) (use 4 D(3) in simp_all)
    moreover have "extendsftf2 a = Some x" using 4 z1 e2 by (simp add: extendsftf2_def Let_def x_def l_def e_def)
    moreover have "bin_mag 23 8 n = (2 ^ 23 + F) * 2 ^ (E - 1)" using 4 by (simp add: bin_mag_def max_def flip: E_def F_def)
    ultimately show ?thesis using 4 by simp
  qed
  then show ?thesis by (simp only: S_def E_def F_def)
qed
lemma df_fields:
  fixes a :: "64 word"
  defines "n \<equiv> unat a"
  defines "S \<equiv> bin_sign 52 11 n" and "E \<equiv> bin_expo 52 11 n" and "F \<equiv> bin_frac 52 n"
  shows "n = (E * 2 ^ 52 + F) + S * 2 ^ 63" "S < 2" "E < 2 ^ 11" "F < 2 ^ 52"
    and "unat a = n" "unat (drop_bit 63 a) = S"
    and "unat (push_bit 1 a) = (E * 2 ^ 52 + F) * 2" "unat (drop_bit 53 (push_bit 1 a)) = E"
    and "unat (push_bit 12 a) = F * 2 ^ 12" "n mod 2 ^ 52 = F"
    and "unat (drop_bit 52 a AND 2047) = E"
proof -
  have n64: "n < 2 ^ 64" unfolding n_def by (rule unat64_less)
  show nSEF: "n = (E * 2 ^ 52 + F) + S * 2 ^ 63" and S: "S < 2" and E: "E < 2 ^ 11" and F: "F < 2 ^ 52"
    using bin_fields [of n 52 11] n64 by (simp_all add: S_def E_def F_def)
  show "unat a = n" by (simp add: n_def)
  show "unat (drop_bit 63 a) = S" by (simp add: unat_drop_bit n_def S_def bin_sign_def)
  show p1: "unat (push_bit 1 a) = (E * 2 ^ 52 + F) * 2"
  proof -
    have "unat (push_bit 1 a) = n * 2 ^ 1 mod 2 ^ 64" unfolding n_def unat_push_bit by simp
    also have "\<dots> = n mod 2 ^ 63 * 2" using mul_mod_pow [of 1 64 n] by simp
    also have "n mod 2 ^ 63 = E * 2 ^ 52 + F"
      unfolding nSEF mod_mult_self1 using E F by (intro mod_less) simp
    finally show ?thesis .
  qed
  show "unat (drop_bit 53 (push_bit 1 a)) = E" unfolding unat_drop_bit p1 using F by simp
  show nF: "n mod 2 ^ 52 = F" by (simp add: F_def bin_frac_def)
  have "unat (push_bit 12 a) = n * 2 ^ 12 mod 2 ^ 64" unfolding n_def unat_push_bit by simp
  then show "unat (push_bit 12 a) = F * 2 ^ 12" using mul_mod_pow [of 12 64 n] nF by simp
  have "drop_bit 52 a AND 2047 = drop_bit 52 a mod 2048"
    using take_bit_eq_mask [of 11 "drop_bit 52 a"] by (simp add: take_bit_eq_mod mask_numeral)
  then show "unat (drop_bit 52 a AND 2047) = E"
    by (simp add: unat_mod unat_drop_bit n_def E_def bin_expo_def)
qed

lemma df_frac:
  "unat (drop_bit 16 (push_bit 12 w)) * 2 ^ 64 + unat (push_bit 60 w) = unat w mod 2 ^ 52 * 2 ^ 60"
  "unat (drop_bit 16 (push_bit 12 w)) < 2 ^ 48" for w :: "64 word"
proof -
  define m where "m = unat w mod 2 ^ 52"
  have l: "unat (drop_bit 16 (push_bit 12 w)) = m div 2 ^ 4"
    using mul_mod_pow [of 12 64 "unat w"] mul_div_pow' [of 12 16 m]
    by (simp add: unat_drop_bit unat_push_bit m_def)
  have x: "unat (push_bit 60 w) = m mod 2 ^ 4 * 2 ^ 60"
    using mul_mod_pow [of 60 64 "unat w"] by (simp add: unat_push_bit m_def mod_mod_cancel)
  have "m < 2 ^ 52" by (simp add: m_def)
  then show "unat (drop_bit 16 (push_bit 12 w)) < 2 ^ 48" unfolding l by (simp add: less_mult_imp_div_less)
  have "m div 2 ^ 4 * 2 ^ 64 + m mod 2 ^ 4 * 2 ^ 60 = (m div 2 ^ 4 * 2 ^ 4 + m mod 2 ^ 4) * 2 ^ 60"
    by (simp only: add_mult_distrib mult.assoc power_add [symmetric]) simp
  also have "m div 2 ^ 4 * 2 ^ 4 + m mod 2 ^ 4 = m" by (rule div_mult_mod_eq)
  finally show "unat (drop_bit 16 (push_bit 12 w)) * 2 ^ 64 + unat (push_bit 60 w) = unat w mod 2 ^ 52 * 2 ^ 60"
    by (simp only: l x m_def)
qed

lemma extenddftf2_spec:
  fixes a :: "64 word"
  defines "n \<equiv> unat a"
  shows "\<exists>x. extenddftf2 a = Some x \<and> tf_sign x = bin_sign 52 11 n \<and>
    (if bin_expo 52 11 n = 2047 then (if bin_frac 52 n = 0 then tf_is_inf x else tf_quiet_nan x)
     else tf_finite x \<and> tf_mag x = bin_mag 52 11 n * df_unit)"
proof -
  define S E F where "S = bin_sign 52 11 n" and "E = bin_expo 52 11 n" and "F = bin_frac 52 n"
  note D = df_fields [of a, folded n_def, folded S_def E_def F_def]
  have z1: "push_bit 1 a = 0 \<longleftrightarrow> E = 0 \<and> F = 0" unfolding word_zero_iff_unat D by simp
  have e2: "drop_bit 53 (push_bit 1 a) = 2047 \<longleftrightarrow> E = 2047" "drop_bit 53 (push_bit 1 a) = 0 \<longleftrightarrow> E = 0"
    unfolding word_unat_eq_iff D by simp_all
  have p12: "push_bit 12 a = 0 \<longleftrightarrow> F = 0" unfolding word_zero_iff_unat D by simp
  have s2: "unat (drop_bit 63 a) < 2" unfolding D by (rule D)
  let ?G = "\<exists>x. extenddftf2 a = Some x \<and> tf_sign x = S \<and> (if E = 2047 then (if F = 0 then tf_is_inf x else tf_quiet_nan x)
     else tf_finite x \<and> tf_mag x = bin_mag 52 11 n * df_unit)"
  have x0: "unat (push_bit 60 a) = F mod 2 ^ 4 * 2 ^ 60"
  proof -
    have "n mod 2 ^ 4 = F mod 2 ^ 4" unfolding D(10) [symmetric] by (simp add: mod_mod_cancel)
    moreover have "unat (push_bit 60 a) = n * 2 ^ 60 mod 2 ^ 64" unfolding n_def unat_push_bit by simp
    moreover have "n * 2 ^ 60 mod 2 ^ 64 = n mod 2 ^ (64 - 60) * 2 ^ 60" by (rule mul_mod_pow) simp
    ultimately show ?thesis by simp
  qed
  consider "E = 0" "F = 0" | "E = 2047" | "E = 0" "F \<noteq> 0" | "E \<noteq> 0" "E \<noteq> 2047" by blast
  then have ?G
  proof cases
    case 1
    define x where "x = \<lparr>ux0 = push_bit 60 a, ux1 = a\<rparr>"
    have "u128_val x = S * 2 ^ 127 + 0 * 2 ^ 112 + 0"
      using 1 D(1) x0 n_def unfolding x_def u128_val_def by simp
    note T = tf_fields [OF this]
    have "extenddftf2 a = Some x" using 1 z1 by (simp add: extenddftf2_def Let_def x_def)
    moreover have "bin_mag 52 11 n = 0" using 1 by (simp add: bin_mag_def E_def F_def)
    ultimately show ?thesis using T 1
      by (simp add: tf_finite_def tf_mag_def tf_sig_def)
  next
    case 2
    define l where "l = drop_bit 16 (push_bit 12 a) OR push_bit 47 (of_bool (push_bit 12 a \<noteq> 0))"
    define x where "x = \<lparr>ux0 = push_bit 60 a, ux1 = push_bit 63 (drop_bit 63 a) OR push_bit 48 32767 OR l\<rparr>"
    define m where "m = unat l * 2 ^ 64 + unat (push_bit 60 a)"
    have l: "unat l < 2 ^ 48"
      unfolding l_def by (rule unat_or_less) (use df_frac(2) [of a] in \<open>auto simp: unat_push_bit\<close>)
    have m: "m < 2 ^ 112" using l unat64_less [of "push_bit 60 a"] by (simp add: m_def)
    have m0: "m = 0" if "F = 0"
    proof -
      have "l = drop_bit 16 (push_bit 12 a)" using p12 that by (simp add: l_def)
      then show ?thesis using df_frac(1) [of a] that unfolding n_def [symmetric] D(10) m_def by simp
    qed
    have m1: "2 ^ 111 \<le> m" if "F \<noteq> 0"
    proof -
      have "push_bit 47 (of_bool (push_bit 12 a \<noteq> 0)) = (push_bit 47 1 :: 64 word)" using p12 that by simp
      then have "2 ^ 47 \<le> unat l"
        using unat_or_ge(1) [of "push_bit 47 1 :: 64 word" "drop_bit 16 (push_bit 12 a)"] by (simp add: l_def)
      then show ?thesis by (simp add: m_def)
    qed
    have "u128_val x = S * 2 ^ 127 + 32767 * 2 ^ 112 + m"
      unfolding x_def m_def using val_pack3 [OF s2 _ l, of 32767 "push_bit 60 a"] by (simp add: D(6))
    note T = extend_special [where F = F, OF this]
    have "extenddftf2 a = Some x"
      using 2 z1 e2 unfolding extenddftf2_def x_def l_def by (simp add: Let_def ac_simps or.left_commute)
    then show ?thesis using T 2 m m0 m1 by simp
  next
    case 3
    have d: "unat (drop_bit 1 (push_bit 1 a)) = F" unfolding unat_drop_bit D using 3 by simp
    obtain j where j: "j \<le> 52" "df_adj_loop 53 a 0 = Some j" "2 ^ 52 \<le> F * 2 ^ j" "F * 2 ^ j < 2 ^ (52 + 1)"
      using df_adj_loop_spec [OF d, of 53 0] 3 D(4) by auto
    define l where "l = drop_bit 16 (push_bit 12 (push_bit j a))"
    define e where "e = 15360 - of_nat j + (1 :: 64 word)"
    define x where "x = \<lparr>ux0 = push_bit j (push_bit 60 a), ux1 = push_bit 63 (drop_bit 63 a) OR push_bit 48 e OR l\<rparr>"
    have e: "unat e = 15361 - j"
    proof -
      have "e = of_nat (15361 - j)" using j(1) by (simp add: e_def of_nat_diff)
      then show ?thesis by (simp only:) (rule unat_of_nat_less, simp)
    qed
    have l: "unat l * 2 ^ 64 + unat (push_bit j (push_bit 60 a)) = (F * 2 ^ j - 2 ^ 52) * 2 ^ 60"
    proof -
      have c: "push_bit j (push_bit 60 a) = push_bit 60 (push_bit j a)" by (simp add: add.commute)
      have "unat (push_bit j a) mod 2 ^ 52 = n * 2 ^ j mod 2 ^ 52"
        by (simp add: unat_push_bit n_def mod_mod_cancel)
      also have "n * 2 ^ j = F * 2 ^ j + 2 ^ 52 * (S * 2 ^ 11 * 2 ^ j)" using 3 D(1) by (simp add: algebra_simps)
      also have "\<dots> mod 2 ^ 52 = F * 2 ^ j mod 2 ^ 52" by (rule mod_mult_self2)
      also have "\<dots> = F * 2 ^ j - 2 ^ 52" using j by (subst le_mod_geq) simp_all
      finally show ?thesis using df_frac(1) [of "push_bit j a"] unfolding l_def c by (simp only:)
    qed
    have "unat l < 2 ^ 48" unfolding l_def by (rule df_frac)
    then have "u128_val x = S * 2 ^ 127 + (15360 + 1 - j) * 2 ^ 112 + (F * 2 ^ j - 2 ^ 52) * 2 ^ (112 - 52)"
      unfolding x_def using val_pack3 [OF s2, of e l "push_bit j (push_bit 60 a)"] l j by (simp add: e D(6))
    then have "tf_sign x = S \<and> tf_finite x \<and> tf_mag x = F * df_unit"
      by (rule extend_subnormal [where p = 52 and B = 15360, OF _ _ j(3,4), unfolded unit_eq]) (use j(1) in simp_all)
    moreover have "extenddftf2 a = Some x" using 3 z1 e2 j by (simp add: extenddftf2_def Let_def x_def l_def e_def)
    moreover have "bin_mag 52 11 n = F" using 3 by (simp add: bin_mag_def flip: E_def F_def)
    ultimately show ?thesis using 3 by simp
  next
    case 4
    define l where "l = drop_bit 16 (push_bit 12 a)"
    define e where "e = (drop_bit 52 a AND 2047) + 15360"
    define x where "x = \<lparr>ux0 = push_bit 60 a, ux1 = push_bit 63 (drop_bit 63 a) OR push_bit 48 e OR l\<rparr>"
    have e: "unat e = E + 15360" using D(3,11) by (simp add: e_def unat_word_ariths)
    have l: "unat l * 2 ^ 64 + unat (push_bit 60 a) = F * 2 ^ 60" using df_frac(1) [of a] unfolding l_def n_def [symmetric] D(10) .
    have "unat l < 2 ^ 48" unfolding l_def by (rule df_frac)
    then have "u128_val x = S * 2 ^ 127 + (E + 15360) * 2 ^ 112 + F * 2 ^ (112 - 52)"
      unfolding x_def using val_pack3 [OF s2, of e l "push_bit 60 a"] D(3,4) l by (simp add: e D(6))
    then have "tf_sign x = S \<and> tf_finite x \<and> tf_mag x = (2 ^ 52 + F) * 2 ^ (E - 1) * df_unit"
      by (rule extend_normal [where p = 52 and B = 15360, OF _ _ D(4), unfolded unit_eq]) (use 4 D(3) in simp_all)
    moreover have "extenddftf2 a = Some x" using 4 z1 e2 by (simp add: extenddftf2_def Let_def x_def l_def e_def)
    moreover have "bin_mag 52 11 n = (2 ^ 52 + F) * 2 ^ (E - 1)" using 4 by (simp add: bin_mag_def max_def flip: E_def F_def)
    ultimately show ?thesis using 4 by simp
  qed
  then show ?thesis by (simp only: S_def E_def F_def)
qed

end
