(* ===== verification/SoftFloatTrunc.thy ===== *)
theory SoftFloatTrunc
  imports SoftFloatExtend
begin

text \<open>
  The narrowing conversions \<open>__trunctfsf2\<close> and \<open>__trunctfdf2\<close>: round to nearest, ties to even, with
  overflow to infinity; \<open>bin_enc p N D\<close> is the encoding of N/D with \<open>p\<close> fraction bits.
\<close>

definition trunctfsf2 :: "u128_t \<Rightarrow> 32 word" where
  "trunctfsf2 f =
     (let (sg, ex, mnt) = f3_unpack f;
          s31 = push_bit 31 (word_of_int sg) :: 32 word
      in if ex = 32767 \<and> ux0 mnt OR push_bit 16 (ux1 mnt) \<noteq> 0
         then 0x7fc00000 OR s31 OR ucast (drop_bit 25 (ux1 mnt) AND 0x007fffff)
         else if ex > 16510 then 0x7f800000 OR s31
         else if ex < 16233 then s31
         else
           let ex = ex - 16257;
               x = ucast (drop_bit 23 (ux1 mnt) OR of_bool (ux0 mnt OR push_bit 41 (ux1 mnt) \<noteq> 0)) :: 32 word;
               (x, ex) = (if ex < 0
                          then (drop_bit (nat (- ex)) x OR of_bool (push_bit (nat (32 + ex)) x \<noteq> 0), 0)
                          else (x, ex));
               x = (if x AND 3 = 3 \<or> x AND 7 = 6 then x + 4 else x)
           in (drop_bit 2 x + push_bit 23 (word_of_int ex)) OR s31)"

definition trunctfdf2 :: "u128_t \<Rightarrow> 64 word" where
  "trunctfdf2 f =
     (let (sg, ex, mnt) = f3_unpack f;
          s63 = push_bit 63 (word_of_int sg)
      in if ex = 32767 \<and> ux0 mnt OR push_bit 16 (ux1 mnt) \<noteq> 0
         then 0x7ff8000000000000 OR s63 OR drop_bit 12 (push_bit 16 (ux1 mnt)) OR drop_bit 60 (ux0 mnt)
         else if ex > 17406 then 0x7ff0000000000000 OR s63
         else if ex < 15308 then s63
         else
           let ex = ex - 15361;
               x = push_bit 6 (ux1 mnt) OR drop_bit 58 (ux0 mnt) OR of_bool (push_bit 6 (ux0 mnt) \<noteq> 0);
               (x, ex) = (if ex < 0
                          then (drop_bit (nat (- ex)) x OR of_bool (push_bit (nat (64 + ex)) x \<noteq> 0), 0)
                          else (x, ex));
               x = (if x AND 3 = 3 \<or> x AND 7 = 6 then x + 4 else x)
           in (drop_bit 2 x + push_bit 52 (word_of_int ex)) OR s63)"


lemma sticky_word:
  fixes w :: "'a::len word"
  assumes "s \<le> LENGTH('a)"
  shows "unat (drop_bit s w OR of_bool (push_bit (LENGTH('a) - s) w \<noteq> 0)) = stk s (unat w)"
proof -
  have "push_bit (LENGTH('a) - s) w = 0 \<longleftrightarrow> unat w mod 2 ^ s = 0"
    using mul_mod_pow [of "LENGTH('a) - s" "LENGTH('a)" "unat w"] assms
    by (simp add: word_zero_iff_unat unat_push_bit)
  then show ?thesis by (simp add: unsigned_or_eq unat_drop_bit stk_def)
qed

lemma round_word:
  fixes x :: "'a::len word"
  assumes "unat x + 4 < 2 ^ LENGTH('a)" "3 \<le> LENGTH('a)"
  shows "unat (drop_bit 2 (if x AND 3 = 3 \<or> x AND 7 = 6 then x + 4 else x))
    = unat x div 4 + of_bool (unat x mod 4 = 3 \<or> (unat x mod 4 = 2 \<and> odd (unat x div 4)))"
proof -
  have le: "(2::nat) ^ 3 \<le> 2 ^ LENGTH('a)" using assms(2) by (intro power_increasing) auto
  have m: "x AND 3 = x mod 4" "x AND 7 = x mod 8"
    using take_bit_eq_mask [of 2 x] take_bit_eq_mask [of 3 x] by (simp_all add: take_bit_eq_mod mask_numeral)
  have u: "unat (4 :: 'a word) = 4" "unat (3 :: 'a word) = 3" "unat (6 :: 'a word) = 6"
    "unat (8 :: 'a word) = 8 mod 2 ^ LENGTH('a)"
    using le by (simp_all add: unsigned_numeral take_bit_eq_mod)
  have e: "x AND 3 = 3 \<longleftrightarrow> unat x mod 4 = 3"
    unfolding m word_unat_eq_iff unat_mod u ..
  have "x AND 7 = 6 \<longleftrightarrow> unat (x AND 7) = 6" unfolding word_unat_eq_iff u ..
  also have "unat (x AND 7) = unat x mod 8"
  proof -
    have "x AND 7 = take_bit 3 x" using take_bit_eq_mask [of 3 x] by (simp add: mask_numeral)
    moreover have "unat (take_bit 3 x) = take_bit 3 (unat x)" by (rule unsigned_take_bit_eq)
    ultimately show ?thesis by (simp add: take_bit_eq_mod)
  qed
  also have "unat x mod 8 = 6 \<longleftrightarrow> unat x mod 4 = 2 \<and> odd (unat x div 4)"
  proof -
    have "unat x mod 8 = 4 * (unat x div 4 mod 2) + unat x mod 4" using mod_mult2_eq [of "unat x" 4 2] by simp
    moreover have "unat x mod 4 < 4" by simp
    ultimately show ?thesis by (cases "even (unat x div 4)") (auto simp: odd_iff_mod_2_eq_one)
  qed
  finally have e2: "x AND 7 = 6 \<longleftrightarrow> unat x mod 4 = 2 \<and> odd (unat x div 4)" .
  have "unat (x + 4) = unat x + 4" using assms unfolding unat_word_ariths u by simp
  then show ?thesis by (auto simp: e e2 unat_drop_bit)
qed

lemma trunc_core:
  assumes M: "M < 2 ^ 113" "1 < E \<Longrightarrow> 2 ^ 112 \<le> M" "1 \<le> E" and p: "p \<le> 110" and B: "1 < B"
    and K: "K = 2 ^ (B + 111 - p)"
  defines "Z \<equiv> stk (B - E) (stk (110 - p) M)"
  shows "(E - B) * 2 ^ p + (Z div 4 + of_bool (Z mod 4 = 3 \<or> (Z mod 4 = 2 \<and> odd (Z div 4))))
    = bin_enc p (M * 2 ^ (E - 1)) K"
proof -
  define s where "s = B - E + (110 - p)"
  have Z: "Z = stk s M" unfolding Z_def s_def by (rule stk_stk)
  have r: "Z div 4 + of_bool (Z mod 4 = 3 \<or> (Z mod 4 = 2 \<and> odd (Z div 4))) = rne_div M (2 ^ (s + 2))"
    using rne_sticky [OF rep_exact [of 0 M], of s] unfolding Z mult_1 by (simp only: le0 simp_thms)
  have K0: "0 < K" by (simp add: K)
  have cross: "rne_div M (2 ^ (s + 2)) = rne_div (M * 2 ^ (E - 1)) (K * 2 ^ (E - B))"
  proof (rule rne_div_cross)
    have "B + 111 - p + (E - B) = (E - 1) + (s + 2)" using M(3) p by (simp add: s_def)
    then show "M * (K * 2 ^ (E - B)) = M * 2 ^ (E - 1) * 2 ^ (s + 2)"
      unfolding K mult.assoc power_add [symmetric] by (simp only:)
  qed (use K0 in simp_all)
  have "floorlog 2 (M * 2 ^ (E - 1) div K) - (p + 1) = E - B"
  proof (cases "B \<le> E")
    case True
    have q: "M * 2 ^ (E - 1) div K = M * 2 ^ (E - B) div 2 ^ (112 - p)"
    proof -
      have "E - 1 = (E - B) + (B - 1)" "B + 111 - p = (112 - p) + (B - 1)" using True B p by simp_all
      then show ?thesis by (simp add: K power_add mult.assoc [symmetric])
    qed
    have "floorlog 2 (M * 2 ^ (E - 1) div K) = Suc (p + (E - B))"
    proof (rule floorlog_2_eq)
      have "2 ^ (p + (E - B)) * 2 ^ (112 - p) = (2::nat) ^ 112 * 2 ^ (E - B)"
      proof -
        have "p + (E - B) + (112 - p) = 112 + (E - B)" using p by simp
        then show ?thesis by (simp only: power_add [symmetric])
      qed
      also have "\<dots> \<le> M * 2 ^ (E - B)" using M(2) True B by (intro mult_le_mono1) simp
      finally show "2 ^ (p + (E - B)) \<le> M * 2 ^ (E - 1) div K"
        unfolding q by (simp add: less_eq_div_iff_mult_less_eq)
      have "M * 2 ^ (E - B) < 2 ^ 113 * 2 ^ (E - B)" using M(1) by simp
      also have "\<dots> = 2 ^ Suc (p + (E - B)) * 2 ^ (112 - p)"
      proof -
        have "113 + (E - B) = Suc (p + (E - B)) + (112 - p)" using p by simp
        then show ?thesis by (simp only: power_add [symmetric])
      qed
      finally show "M * 2 ^ (E - 1) div K < 2 ^ Suc (p + (E - B))"
        unfolding q by (simp add: div_less_iff_less_mult)
    qed
    then show ?thesis by simp
  next
    case False
    have "M * 2 ^ (E - 1) < 2 ^ 113 * 2 ^ (B - 2)"
      using M(1) False by (intro mult_less_le_imp_less power_increasing) auto
    also have "\<dots> = 2 ^ p * K"
    proof -
      have "113 + (B - 2) = p + (B + 111 - p)" using p B by simp
      then show ?thesis unfolding K by (simp only: power_add [symmetric])
    qed
    finally have "M * 2 ^ (E - 1) div K < 2 ^ p" using K0 by (simp add: div_less_iff_less_mult)
    then have "floorlog 2 (M * 2 ^ (E - 1) div K) \<le> p" by (rule floorlog_2_le)
    then show ?thesis using False by simp
  qed
  then show ?thesis by (simp only: bin_enc_def Let_def r cross)
qed

lemma trunc_small:
  assumes "M < 2 ^ 113" "1 \<le> E" "p \<le> 110" "E + p + 2 \<le> B"
  defines "Z \<equiv> stk (B - E) (stk (110 - p) M)"
  shows "(E - B) * 2 ^ p + (Z div 4 + of_bool (Z mod 4 = 3 \<or> (Z mod 4 = 2 \<and> odd (Z div 4)))) = 0"
proof -
  define s where "s = B - E + (110 - p)"
  have Z: "Z = stk s M" unfolding Z_def s_def by (rule stk_stk)
  have "112 \<le> s" using assms by (simp add: s_def)
  then have "(2::nat) ^ 113 \<le> 2 ^ Suc s" by (intro power_increasing) auto
  then have "M < 2 ^ Suc s" using assms(1) by linarith
  then have "Z div 2 = 0" unfolding Z stk_div2 by simp
  then have "Z = 0 \<or> Z = 1" by linarith
  then show ?thesis using assms(4) by auto
qed

lemma trunc_large:
  assumes "2 ^ 112 \<le> M" "p \<le> 110" "c \<le> E - B" "B \<le> E"
  defines "Z \<equiv> stk (B - E) (stk (110 - p) M)"
  shows "(c + 1) * 2 ^ p \<le> (E - B) * 2 ^ p + (Z div 4 + of_bool (Z mod 4 = 3 \<or> (Z mod 4 = 2 \<and> odd (Z div 4))))"
proof -
  have "Z = stk (110 - p) M" using assms(4) by (simp add: Z_def)
  then have "Z div 2 = M div 2 ^ Suc (110 - p)" by (simp only: stk_div2)
  then have "Z div 2 div 2 = M div 2 ^ Suc (110 - p) div 2 ^ 1" by simp
  also have "\<dots> = M div 2 ^ (Suc (110 - p) + 1)" by (simp only: power_add div_mult2_eq)
  also have "Suc (110 - p) + 1 = 112 - p" using assms(2) by simp
  finally have q: "Z div 4 = M div 2 ^ (112 - p)" by (simp flip: div_mult2_eq)
  have "2 ^ 112 div 2 ^ (112 - p) \<le> M div 2 ^ (112 - p)" using assms(1) by (rule div_le_mono)
  moreover have "2 ^ 112 div 2 ^ (112 - p) = (2::nat) ^ p"
  proof -
    have e: "2 ^ 112 = 2 ^ p * (2::nat) ^ (112 - p)" using assms(2) by (simp flip: power_add)
    show ?thesis unfolding e by simp
  qed
  ultimately have "2 ^ p \<le> Z div 4" by (simp add: q)
  moreover have "c * 2 ^ p \<le> (E - B) * 2 ^ p" using assms(3) by (rule mult_le_mono1)
  moreover have "(c + 1) * 2 ^ p = c * 2 ^ p + 2 ^ p" by simp
  ultimately show ?thesis by linarith
qed


lemma or_push_zero:
  assumes "k \<le> 64"
  shows "ux0 m OR push_bit (64 - k) (ux1 m) = 0 \<longleftrightarrow> u128_val m mod 2 ^ (64 + k) = 0"
  using mul_mod_pow [of "64 - k" 64 "unat (ux1 m)"] assms
  by (auto simp: val_mod_hi or_eq_0_iff unsigned_or_eq word_zero_iff_unat unat_push_bit)

lemma nan_iff:
  assumes u: "f3_unpack f = (sg, ex, m)"
  shows "ex = 32767 \<and> ux0 m OR push_bit 16 (ux1 m) \<noteq> 0 \<longleftrightarrow> tf_is_nan f"
proof -
  note U = f3_unpackE [OF u]
  have e: "ex = 32767 \<longleftrightarrow> tf_expo f = 32767" by (auto simp: U max_def)
  have "ux0 m OR push_bit 16 (ux1 m) = 0 \<longleftrightarrow> u128_val m mod 2 ^ (64 + 48) = 0"
    using or_push_zero [of 48 m] by simp
  also have "u128_val m mod 2 ^ (64 + 48) = tf_frac f" if "tf_expo f = 32767"
    using that by (simp add: U tf_sig_def tf_frac_def)
  finally show ?thesis using e by (auto simp: tf_is_nan_def)
qed

lemma stk_word_top:
  assumes "p < 64"
  shows "unat (drop_bit p (ux1 m) OR of_bool (ux0 m OR push_bit (64 - p) (ux1 m) \<noteq> 0)) = stk (64 + p) (u128_val m)"
proof -
  have "ux0 m OR push_bit (64 - p) (ux1 m) = 0 \<longleftrightarrow> u128_val m mod 2 ^ (64 + p) = 0"
    using assms by (intro or_push_zero) simp
  then show ?thesis by (simp add: unsigned_or_eq stk_def val_div_hi unat_drop_bit)
qed

lemma stk_less: "v < 2 ^ (n + s) \<Longrightarrow> 1 \<le> n \<Longrightarrow> stk s v < 2 ^ n"
proof -
  assume v: "v < 2 ^ (n + s)" and "1 \<le> n"
  then obtain k where n: "n = Suc k" by (cases n) auto
  have "stk s v div 2 = v div 2 ^ Suc s" by (rule stk_div2)
  also have "\<dots> < 2 ^ k" using v by (simp add: n div_less_iff_less_mult power_add)
  finally show ?thesis by (simp add: n)
qed

lemma stk_less_same: "v < 2 ^ n \<Longrightarrow> 1 \<le> n \<Longrightarrow> stk s v < 2 ^ n"
  by (rule stk_less) (auto simp: power_add intro: less_le_trans)

lemma or_and_absorb: "(c OR w) AND c = c" for c w :: "'a::len word"
  by (rule bit_word_eqI) (auto simp: bit_simps)

lemma unpack_sig_ge: "f3_unpack f = (sg, ex, m) \<Longrightarrow> 1 < tf_expo f \<Longrightarrow> 2 ^ 112 \<le> u128_val m"
  using f3_unpackE(3) [of f sg ex m] by (simp add: tf_sig_def)


lemma sf_unit_K: "sf_unit = 2 ^ (16257 + 111 - 23)" and df_unit_K: "df_unit = 2 ^ (15361 + 111 - 52)"
  unfolding sf_unit_def df_unit_def by (rule arg_cong [of _ _ "power 2"], simp)+

lemma trunctfsf2_spec:
  assumes "\<not> tf_is_nan f"
  shows "unat (trunctfsf2 f) = min (255 * 2 ^ 23) (bin_enc 23 (tf_mag f) sf_unit) + tf_sign f * 2 ^ 31"
proof -
  obtain sg ex m where u: "f3_unpack f = (sg, ex, m)" by (cases "f3_unpack f") auto
  note U = f3_unpackE [OF u]
  define E where "E = max 1 (tf_expo f)"
  define M where "M = u128_val m"
  define Z where "Z = stk (16257 - E) (stk (110 - 23) M)"
  define R where "R = (E - 16257) * 2 ^ 23 + (Z div 4 + of_bool (Z mod 4 = 3 \<or> (Z mod 4 = 2 \<and> odd (Z div 4))))"
  define s31 where "s31 = push_bit 31 (word_of_int sg :: 32 word)"
  have ex: "ex = int E" by (simp add: U E_def)
  have E: "1 \<le> E" "E \<le> 32767" using tf_expo_less [of f] by (auto simp: E_def)
  have M: "M < 2 ^ 113" "1 < E \<Longrightarrow> 2 ^ 112 \<le> M"
    using tf_sig_less [of f] unpack_sig_ge [OF u] by (auto simp: M_def U E_def max_def split: if_splits)
  have mag: "tf_mag f = M * 2 ^ (E - 1)" by (simp add: tf_mag_def M_def U E_def)
  have s31: "unat s31 = tf_sign f * 2 ^ 31"
    using tf_sign_01 [of f] by (auto simp: s31_def U)
  have s31b: "unat (w OR s31) = unat w + tf_sign f * 2 ^ 31" if "unat w < 2 ^ 31" for w
  proof -
    have "w AND s31 = 0"
      by (rule bit_word_eqI) (use bit_unat_less [OF _ that] in \<open>fastforce simp: s31_def bit_simps\<close>)
    then show ?thesis by (simp add: unat_or_disj s31)
  qed
  have enc: "bin_enc 23 (tf_mag f) sf_unit = R"
    unfolding mag R_def Z_def by (rule trunc_core [OF M E(1) _ _ sf_unit_K, symmetric]) simp_all
  have nn: "\<not> (ex = 32767 \<and> ux0 m OR push_bit 16 (ux1 m) \<noteq> 0)" using nan_iff [OF u] assms by simp
  consider "ex > 16510" | "ex < 16233" | "16233 \<le> ex" "ex \<le> 16510" by linarith
  then show ?thesis
  proof cases
    case 1
    then have "trunctfsf2 f = 0x7f800000 OR s31"
      using 1 unfolding trunctfsf2_def u Let_def prod.case if_not_P [OF nn] s31_def by simp
    moreover have "(254 + 1) * 2 ^ 23 \<le> R"
      unfolding R_def Z_def using M E 1 by (intro trunc_large) (auto simp: ex)
    ultimately show ?thesis by (simp add: s31b enc)
  next
    case 2
    then have "trunctfsf2 f = s31"
      using 2 unfolding trunctfsf2_def u Let_def prod.case if_not_P [OF nn] s31_def by simp
    moreover have "R = 0"
      unfolding R_def Z_def using M E 2 by (intro trunc_small) (auto simp: ex)
    ultimately show ?thesis by (simp add: s31 enc)
  next
    case 3
    define x where "x = (ucast (drop_bit 23 (ux1 m) OR of_bool (ux0 m OR push_bit 41 (ux1 m) \<noteq> 0)) :: 32 word)"
    define y where "y = (if ex - 16257 < 0 then drop_bit (nat (- (ex - 16257))) x OR of_bool (push_bit (nat (32 + (ex - 16257))) x \<noteq> 0) else x)"
    define z where "z = drop_bit 2 (if y AND 3 = 3 \<or> y AND 7 = 6 then y + 4 else y)"
    define e where "e = (word_of_int (if ex - 16257 < 0 then 0 else ex - 16257) :: 32 word)"
    have st: "trunctfsf2 f = (z + push_bit 23 e) OR s31"
      using 3 unfolding trunctfsf2_def u Let_def prod.case if_not_P [OF nn] s31_def z_def y_def x_def e_def
      by (cases "ex < 16257") simp_all
    have x: "unat x = stk (110 - 23) M" "stk (110 - 23) M < 2 ^ 26"
    proof -
      show lt: "stk (110 - 23) M < 2 ^ 26" by (rule stk_less) (use M in simp_all)
      show "unat x = stk (110 - 23) M"
        using stk_word_top [of 23 m] lt unfolding x_def M_def
        by (simp add: unsigned_ucast_eq take_bit_nat_eq_self)
    qed
    have y: "unat y = Z"
    proof (cases "E < 16257")
      case True
      then have "y = drop_bit (16257 - E) x OR of_bool (push_bit (32 - (16257 - E)) x \<noteq> 0)"
        using 3 by (simp add: y_def ex nat_diff_distrib' add.commute)
      then show ?thesis using sticky_word [of "16257 - E" x] 3 by (simp add: x Z_def ex)
    qed (simp_all add: y_def ex x Z_def)
    have Zl: "Z < 2 ^ 26"
      unfolding Z_def by (rule stk_less_same [OF x(2)]) simp
    have z: "unat z = Z div 4 + of_bool (Z mod 4 = 3 \<or> (Z mod 4 = 2 \<and> odd (Z div 4)))"
      unfolding z_def y [symmetric] by (rule round_word) (use Zl y in simp_all)
    have e: "unat e = E - 16257" "E - 16257 \<le> 253"
    proof -
      have "(if ex - 16257 < 0 then 0 else ex - 16257) = int (E - 16257)" by (simp add: ex)
      then have "e = of_nat (E - 16257)" unfolding e_def by (simp only: of_int_of_nat_eq)
      moreover show l: "E - 16257 \<le> 253" using 3 by (simp add: ex)
      ultimately show "unat e = E - 16257" by (simp only:) (rule unat_of_nat_less, simp)
    qed
    have Rl: "R \<le> 255 * 2 ^ 23"
    proof -
      have "Z div 4 < 2 ^ 24" using Zl by (simp add: less_mult_imp_div_less)
      then have b: "Z div 4 + of_bool c \<le> 2 ^ 24" for c by (cases c) simp_all
      have "R \<le> 253 * 2 ^ 23 + 2 ^ 24"
        unfolding R_def by (rule add_le_mono [OF mult_le_mono1 [OF e(2)] b])
      then show ?thesis by simp
    qed
    have "unat (z + push_bit 23 e) = R"
      using Rl by (simp add: unat_word_ariths unat_push_bit e z R_def)
    then show ?thesis using Rl by (simp add: st s31b enc)
  qed
qed

lemma stk_word_mid:
  assumes "0 < p" "p < 64" "u128_val m < 2 ^ (64 + p)"
  shows "unat (push_bit (64 - p) (ux1 m) OR drop_bit p (ux0 m) OR of_bool (push_bit (64 - p) (ux0 m) \<noteq> 0)) = stk p (u128_val m)"
proof -
  have "ux1 (f3_sticky_shift (int p) m) = 0"
  proof -
    have "u128_val m div 2 ^ (64 + p) = 0" using assms(3) by simp
    then have "drop_bit p (ux1 m) = 0" by (simp only: val_div_hi unat_drop_bit word_zero_iff_unat)
    then show ?thesis using assms by (simp add: f3_sticky_shift_def)
  qed
  moreover have "ux0 (f3_sticky_shift (int p) m)
      = push_bit (64 - p) (ux1 m) OR drop_bit p (ux0 m) OR of_bool (push_bit (64 - p) (ux0 m) \<noteq> 0)"
    using assms by (simp add: f3_sticky_shift_def nat_diff_distrib' ac_simps)
  ultimately show ?thesis
    using val_sticky_shift [of "int p" m] by (simp add: u128_val_def)
qed

lemma trunctfdf2_spec:
  assumes "\<not> tf_is_nan f"
  shows "unat (trunctfdf2 f) = min (2047 * 2 ^ 52) (bin_enc 52 (tf_mag f) df_unit) + tf_sign f * 2 ^ 63"
proof -
  obtain sg ex m where u: "f3_unpack f = (sg, ex, m)" by (cases "f3_unpack f") auto
  note U = f3_unpackE [OF u]
  define E where "E = max 1 (tf_expo f)"
  define M where "M = u128_val m"
  define Z where "Z = stk (15361 - E) (stk (110 - 52) M)"
  define R where "R = (E - 15361) * 2 ^ 52 + (Z div 4 + of_bool (Z mod 4 = 3 \<or> (Z mod 4 = 2 \<and> odd (Z div 4))))"
  define s63 where "s63 = push_bit 63 (word_of_int sg :: 64 word)"
  have ex: "ex = int E" by (simp add: U E_def)
  have E: "1 \<le> E" "E \<le> 32767" using tf_expo_less [of f] by (auto simp: E_def)
  have M: "M < 2 ^ 113" "1 < E \<Longrightarrow> 2 ^ 112 \<le> M"
    using tf_sig_less [of f] unpack_sig_ge [OF u] by (auto simp: M_def U E_def max_def split: if_splits)
  have mag: "tf_mag f = M * 2 ^ (E - 1)" by (simp add: tf_mag_def M_def U E_def)
  have s63: "unat s63 = tf_sign f * 2 ^ 63"
    using tf_sign_01 [of f] by (auto simp: s63_def U)
  have s63b: "unat (w OR s63) = unat w + tf_sign f * 2 ^ 63" if "unat w < 2 ^ 63" for w
  proof -
    have "w AND s63 = 0"
      by (rule bit_word_eqI) (use bit_unat_less [OF _ that] in \<open>fastforce simp: s63_def bit_simps\<close>)
    then show ?thesis by (simp add: unat_or_disj s63)
  qed
  have enc: "bin_enc 52 (tf_mag f) df_unit = R"
    unfolding mag R_def Z_def by (rule trunc_core [OF M E(1) _ _ df_unit_K, symmetric]) simp_all
  have nn: "\<not> (ex = 32767 \<and> ux0 m OR push_bit 16 (ux1 m) \<noteq> 0)" using nan_iff [OF u] assms by simp
  consider "ex > 17406" | "ex < 15308" | "15308 \<le> ex" "ex \<le> 17406" by linarith
  then show ?thesis
  proof cases
    case 1
    then have "trunctfdf2 f = 0x7ff0000000000000 OR s63"
      using 1 unfolding trunctfdf2_def u Let_def prod.case if_not_P [OF nn] s63_def by simp
    moreover have "(2046 + 1) * 2 ^ 52 \<le> R"
      unfolding R_def Z_def using M E 1 by (intro trunc_large) (auto simp: ex)
    ultimately show ?thesis by (simp add: s63b enc)
  next
    case 2
    then have "trunctfdf2 f = s63"
      using 2 unfolding trunctfdf2_def u Let_def prod.case if_not_P [OF nn] s63_def by simp
    moreover have "R = 0"
      unfolding R_def Z_def using M E 2 by (intro trunc_small) (auto simp: ex)
    ultimately show ?thesis by (simp add: s63 enc)
  next
    case 3
    define x where "x = push_bit 6 (ux1 m) OR drop_bit 58 (ux0 m) OR of_bool (push_bit 6 (ux0 m) \<noteq> 0)"
    define y where "y = (if ex - 15361 < 0 then drop_bit (nat (- (ex - 15361))) x OR of_bool (push_bit (nat (64 + (ex - 15361))) x \<noteq> 0) else x)"
    define z where "z = drop_bit 2 (if y AND 3 = 3 \<or> y AND 7 = 6 then y + 4 else y)"
    define e where "e = (word_of_int (if ex - 15361 < 0 then 0 else ex - 15361) :: 64 word)"
    have st: "trunctfdf2 f = (z + push_bit 52 e) OR s63"
      using 3 unfolding trunctfdf2_def u Let_def prod.case if_not_P [OF nn] s63_def z_def y_def x_def e_def
      by (cases "ex < 15361") simp_all
    have x: "unat x = stk (110 - 52) M" "stk (110 - 52) M < 2 ^ 55"
    proof -
      show lt: "stk (110 - 52) M < 2 ^ 55" by (rule stk_less) (use M in simp_all)
      show "unat x = stk (110 - 52) M"
        using stk_word_mid [of 58 m] M(1) unfolding x_def M_def by simp
    qed
    have y: "unat y = Z"
    proof (cases "E < 15361")
      case True
      then have "y = drop_bit (15361 - E) x OR of_bool (push_bit (64 - (15361 - E)) x \<noteq> 0)"
        using 3 by (simp add: y_def ex nat_diff_distrib' add.commute)
      then show ?thesis using sticky_word [of "15361 - E" x] 3 by (simp add: x Z_def ex)
    qed (simp_all add: y_def ex x Z_def)
    have Zl: "Z < 2 ^ 55"
      unfolding Z_def by (rule stk_less_same [OF x(2)]) simp
    have z: "unat z = Z div 4 + of_bool (Z mod 4 = 3 \<or> (Z mod 4 = 2 \<and> odd (Z div 4)))"
      unfolding z_def y [symmetric] by (rule round_word) (use Zl y in simp_all)
    have e: "unat e = E - 15361" "E - 15361 \<le> 2045"
    proof -
      have "(if ex - 15361 < 0 then 0 else ex - 15361) = int (E - 15361)" by (simp add: ex)
      then have "e = of_nat (E - 15361)" unfolding e_def by (simp only: of_int_of_nat_eq)
      moreover show l: "E - 15361 \<le> 2045" using 3 by (simp add: ex)
      ultimately show "unat e = E - 15361" by (simp only:) (rule unat_of_nat_less, simp)
    qed
    have Rl: "R \<le> 2047 * 2 ^ 52"
    proof -
      have "Z div 4 < 2 ^ 53" using Zl by (simp add: less_mult_imp_div_less)
      then have b: "Z div 4 + of_bool c \<le> 2 ^ 53" for c by (cases c) simp_all
      have "R \<le> 2045 * 2 ^ 52 + 2 ^ 53"
        unfolding R_def by (rule add_le_mono [OF mult_le_mono1 [OF e(2)] b])
      then show ?thesis by simp
    qed
    have "unat (z + push_bit 52 e) = R"
      using Rl by (simp add: unat_word_ariths unat_push_bit e z R_def)
    then show ?thesis using Rl by (simp add: st s63b enc)
  qed
qed

lemma trunc_nan:
  assumes "tf_is_nan f"
  shows "trunctfsf2 f AND 0x7fc00000 = 0x7fc00000" "trunctfdf2 f AND 0x7ff8000000000000 = 0x7ff8000000000000"
proof -
  obtain sg ex m where u: "f3_unpack f = (sg, ex, m)" by (cases "f3_unpack f") auto
  note N = iffD2 [OF nan_iff [OF u] assms]
  show "trunctfsf2 f AND 0x7fc00000 = 0x7fc00000" "trunctfdf2 f AND 0x7ff8000000000000 = 0x7ff8000000000000"
    unfolding trunctfsf2_def trunctfdf2_def u Let_def prod.case if_P [OF N]
    by (simp_all only: or.assoc or_and_absorb)
qed

end
