(* ===== verification/SoftFloatInt.thy ===== *)
theory SoftFloatInt
  imports SoftFloatTrunc
begin

text \<open>
  Conversions between integers and binary128: truncation towards zero with saturation, and the exact
  conversions of 32-bit and 64-bit integers.
\<close>

definition fixtfsi :: "u128_t \<Rightarrow> 32 word" where
  "fixtfsi fa =
     (let (a_sgn, a_exp, a) = f3_unpack fa in
      if a_exp < 16369 then 0
      else if a_exp > 16413 then (if a_sgn \<noteq> 0 then - 0x80000000 else 0x7fffffff)
      else let x = ucast (drop_bit (nat (16431 - a_exp)) (ux1 a)) :: 32 word in
           if a_sgn \<noteq> 0 then - x else x)"

definition fixtfdi :: "u128_t \<Rightarrow> 64 word" where
  "fixtfdi fa =
     (let (a_sgn, a_exp, a) = f3_unpack fa in
      if a_exp < 16383 then 0
      else if a_exp > 16445 then (if a_sgn \<noteq> 0 then - 0x8000000000000000 else 0x7fffffffffffffff)
      else let x = drop_bit (nat (16446 - a_exp)) (push_bit 15 (ux1 a) OR drop_bit 49 (ux0 a)) in
           if a_sgn \<noteq> 0 then - x else x)"

definition fixunstfsi :: "u128_t \<Rightarrow> 32 word" where
  "fixunstfsi fa =
     (let (a_sgn, a_exp, a) = f3_unpack fa in
      if a_sgn \<noteq> 0 \<or> a_exp < 16369 then 0
      else if a_exp > 16414 then - 1
      else ucast (drop_bit (nat (16431 - a_exp)) (ux1 a)))"

definition fixunstfdi :: "u128_t \<Rightarrow> 64 word" where
  "fixunstfdi fa =
     (let (a_sgn, a_exp, a) = f3_unpack fa in
      if a_sgn \<noteq> 0 \<or> a_exp < 16383 then 0
      else if a_exp > 16446 then - 1
      else drop_bit (nat (16446 - a_exp)) (push_bit 15 (ux1 a) OR drop_bit 49 (ux0 a)))"

text \<open>the normalising loop of the four integer conversions, at the width of its mantissa\<close>

fun tf_int_loop :: "nat \<Rightarrow> int \<Rightarrow> 'a::len word \<Rightarrow> int \<times> 'a word" where
  "tf_int_loop i ex mnt =
     (if i = 0 then (ex, mnt)
      else if drop_bit (LENGTH('a) - i) mnt = 0 then tf_int_loop (i div 2) (ex - int i) (push_bit i mnt)
      else tf_int_loop (i div 2) ex mnt)"

declare tf_int_loop.simps [simp del]

definition floatsitf :: "32 word \<Rightarrow> u128_t" where
  "floatsitf a =
     (if a \<noteq> 0 then
        let (sg, mnt) = (if a <s 0 then (1, - a) else (0, a));
            (ex, mnt) = tf_int_loop 16 16414 mnt
        in \<lparr>ux0 = 0, ux1 = push_bit 63 (word_of_int sg) OR push_bit 48 (word_of_int ex)
               OR push_bit 16 (ucast (push_bit 1 mnt))\<rparr>
      else \<lparr>ux0 = 0, ux1 = 0\<rparr>)"

definition floatditf :: "64 word \<Rightarrow> u128_t" where
  "floatditf a =
     (if a \<noteq> 0 then
        let (sg, mnt) = (if a <s 0 then (1, - a) else (0, a));
            (ex, mnt) = tf_int_loop 32 16446 mnt
        in \<lparr>ux0 = push_bit 49 mnt, ux1 = push_bit 63 (word_of_int sg) OR push_bit 48 (word_of_int ex)
               OR drop_bit 16 (push_bit 1 mnt)\<rparr>
      else \<lparr>ux0 = 0, ux1 = 0\<rparr>)"

definition floatunsitf :: "32 word \<Rightarrow> u128_t" where
  "floatunsitf a =
     (if a \<noteq> 0 then
        let (ex, mnt) = tf_int_loop 16 16414 a
        in \<lparr>ux0 = 0, ux1 = push_bit 48 (word_of_int ex) OR push_bit 16 (ucast (push_bit 1 mnt))\<rparr>
      else \<lparr>ux0 = 0, ux1 = 0\<rparr>)"

definition floatunditf :: "64 word \<Rightarrow> u128_t" where
  "floatunditf a =
     (if a \<noteq> 0 then
        let (ex, mnt) = tf_int_loop 32 16446 a
        in \<lparr>ux0 = push_bit 49 mnt, ux1 = push_bit 48 (word_of_int ex) OR drop_bit 16 (push_bit 1 mnt)\<rparr>
      else \<lparr>ux0 = 0, ux1 = 0\<rparr>)"


text \<open>the integer part of the magnitude\<close>
definition tf_int :: "u128_t \<Rightarrow> nat" where "tf_int f = tf_mag f div tf_one"

lemma tf_int_less: "max 1 (tf_expo f) + 113 \<le> 16495 + n \<Longrightarrow> tf_int f < 2 ^ n"
proof -
  assume a: "max 1 (tf_expo f) + 113 \<le> 16495 + n"
  define E where "E = max 1 (tf_expo f)"
  have "113 + (E - 1) \<le> n + 16494" using a by (simp add: E_def)
  then have "(2::nat) ^ 113 * 2 ^ (E - 1) \<le> 2 ^ n * 2 ^ 16494"
    unfolding power_add [symmetric] by (intro power_increasing) simp_all
  moreover have "tf_mag f < 2 ^ 113 * 2 ^ (E - 1)"
    unfolding tf_mag_def E_def [symmetric] using tf_sig_less by (intro mult_strict_right_mono) simp_all
  ultimately have "tf_mag f < 2 ^ n * 2 ^ 16494" by linarith
  then show ?thesis unfolding tf_int_def tf_one_def by (rule less_mult_imp_div_less)
qed

lemma tf_int_ge: "16495 + n \<le> tf_expo f + 112 \<Longrightarrow> 1 < tf_expo f \<Longrightarrow> 2 ^ n \<le> tf_int f"
proof -
  assume a: "16495 + n \<le> tf_expo f + 112" and e: "1 < tf_expo f"
  have "n + 16494 \<le> 112 + (tf_expo f - 1)" using a e by simp
  then have "(2::nat) ^ n * 2 ^ 16494 \<le> 2 ^ 112 * 2 ^ (tf_expo f - 1)"
    unfolding power_add [symmetric] by (intro power_increasing) simp_all
  also have "2 ^ 112 * 2 ^ (tf_expo f - 1) \<le> tf_mag f"
    unfolding tf_mag_def using e by (intro mult_le_mono) (simp_all add: tf_sig_def max_def)
  finally show ?thesis
    unfolding tf_int_def tf_one_def by (subst less_eq_div_iff_mult_less_eq) (simp_all only: zero_less_power zero_less_numeral)
qed

lemma tf_int_shift: "tf_expo f \<le> 16495 \<Longrightarrow> tf_int f = tf_sig f div 2 ^ (16495 - max 1 (tf_expo f))"
proof -
  assume a: "tf_expo f \<le> 16495"
  define E where "E = max 1 (tf_expo f)"
  have "16494 = (16495 - E) + (E - 1)" using a by (simp add: E_def)
  then have o: "tf_one = 2 ^ (16495 - E) * 2 ^ (E - 1)" unfolding tf_one_def power_add [symmetric] by (simp only:)
  show ?thesis unfolding tf_int_def tf_mag_def E_def [symmetric] o by simp
qed

lemma sint_word_of_int_range:
  "- (2 ^ (LENGTH('a) - 1)) \<le> k \<Longrightarrow> k < 2 ^ (LENGTH('a) - 1) \<Longrightarrow> sint (word_of_int k :: 'a::len word) = k"
  unfolding sint_sbintrunc' by (rule signed_take_bit_int_eq_self)

lemma sint_unat:
  fixes w :: "'a::len word"
  assumes "unat w < 2 ^ (LENGTH('a) - 1)"
  shows "sint w = int (unat w)" "sint (- w) = - int (unat w)"
proof -
  have b: "int (unat w) < 2 ^ (LENGTH('a) - 1)"
    using assms by (metis of_nat_less_iff of_nat_numeral of_nat_power)
  have w: "w = word_of_int (int (unat w))" by simp
  show "sint w = int (unat w)"
    by (subst (1) w, rule sint_word_of_int_range) (use b in \<open>auto intro: order_trans [of _ 0]\<close>)
  have "- w = word_of_int (- int (unat w))" by simp
  then show "sint (- w) = - int (unat w)"
    by (simp only:) (rule sint_word_of_int_range, use b in \<open>auto intro: le_less_trans [of _ 0]\<close>)
qed

lemma fix_shift_32:
  assumes u: "f3_unpack f = (sg, ex, m)" and e: "16369 \<le> ex" "ex \<le> 16431" and t: "tf_int f < 2 ^ 32"
  shows "unat (ucast (drop_bit (nat (16431 - ex)) (ux1 m)) :: 32 word) = tf_int f"
proof -
  note U = f3_unpackE [OF u]
  have "unat (drop_bit (nat (16431 - ex)) (ux1 m)) = u128_val m div 2 ^ (64 + nat (16431 - ex))"
    by (simp only: val_div_hi unat_drop_bit)
  also have "64 + nat (16431 - ex) = 16495 - max 1 (tf_expo f)" using e by (simp add: U nat_diff_distrib')
  also have "u128_val m div 2 ^ (16495 - max 1 (tf_expo f)) = tf_int f"
    using tf_int_shift [of f] e by (simp add: U)
  finally show ?thesis using t by (simp add: unsigned_ucast_eq take_bit_nat_eq_self)
qed

lemma fix_shift_64:
  assumes u: "f3_unpack f = (sg, ex, m)" and e: "16383 \<le> ex" "ex \<le> 16446"
  shows "unat (drop_bit (nat (16446 - ex)) (push_bit 15 (ux1 m) OR drop_bit 49 (ux0 m))) = tf_int f"
proof -
  note U = f3_unpackE [OF u]
  have lt: "u128_val m < 2 ^ (64 + 49)" using tf_sig_less [of f] by (simp add: U)
  have "push_bit 15 (ux1 m) OR drop_bit 49 (ux0 m) = ux0 (u128_shr 49 m)"
    by (simp add: u128_shr_def or.commute)
  moreover have "ux1 (u128_shr 49 m) = 0"
  proof -
    have "u128_val m div 2 ^ (64 + 49) = 0" using lt by simp
    then show ?thesis by (simp only: val_div_hi unat_drop_bit word_zero_iff_unat u128_shr_def u128_t.simps)
  qed
  ultimately have "unat (push_bit 15 (ux1 m) OR drop_bit 49 (ux0 m)) = u128_val m div 2 ^ 49"
    using val_shr [of 49 m] by (simp add: u128_val_def [of "u128_shr 49 m"])
  then have "unat (drop_bit (nat (16446 - ex)) (push_bit 15 (ux1 m) OR drop_bit 49 (ux0 m)))
      = u128_val m div 2 ^ (49 + nat (16446 - ex))"
    by (simp only: unat_drop_bit power_add div_mult2_eq)
  also have "49 + nat (16446 - ex) = 16495 - max 1 (tf_expo f)" using e by (simp add: U nat_diff_distrib')
  also have "u128_val m div 2 ^ (16495 - max 1 (tf_expo f)) = tf_int f"
    using tf_int_shift [of f] e by (simp add: U)
  finally show ?thesis .
qed

lemma fixtfsi_spec:
  "sint (fixtfsi f) = (if tf_sign f = 1 then max (- (2 ^ 31)) (- int (tf_int f)) else min (2 ^ 31 - 1) (int (tf_int f)))"
proof -
  obtain sg ex m where u: "f3_unpack f = (sg, ex, m)" by (cases "f3_unpack f") auto
  note U = f3_unpackE [OF u]
  have sg: "sg \<noteq> 0 \<longleftrightarrow> tf_sign f = 1" using tf_sign_01 [of f] by (auto simp: U)
  consider "ex < 16369" | "ex > 16413" | "16369 \<le> ex" "ex \<le> 16413" by linarith
  then show ?thesis
  proof cases
    case 1
    then have "tf_int f < 2 ^ 0" by (intro tf_int_less) (auto simp: U)
    then show ?thesis using 1 by (simp add: fixtfsi_def u)
  next
    case 2
    then have "2 ^ 31 \<le> tf_int f" by (intro tf_int_ge) (auto simp: U)
    then show ?thesis using 2 by (simp add: fixtfsi_def u sg)
  next
    case 3
    define x where "x = (ucast (drop_bit (nat (16431 - ex)) (ux1 m)) :: 32 word)"
    have t: "tf_int f < 2 ^ 31" using 3 by (intro tf_int_less) (auto simp: U)
    then have "unat x = tf_int f" unfolding x_def using 3 by (intro fix_shift_32 [OF u]) auto
    moreover have "fixtfsi f = (if tf_sign f = 1 then - x else x)"
      using 3 by (simp add: fixtfsi_def u sg x_def)
    ultimately show ?thesis using t sint_unat [of x] by simp
  qed
qed

lemma fixtfdi_spec:
  "sint (fixtfdi f) = (if tf_sign f = 1 then max (- (2 ^ 63)) (- int (tf_int f)) else min (2 ^ 63 - 1) (int (tf_int f)))"
proof -
  obtain sg ex m where u: "f3_unpack f = (sg, ex, m)" by (cases "f3_unpack f") auto
  note U = f3_unpackE [OF u]
  have sg: "sg \<noteq> 0 \<longleftrightarrow> tf_sign f = 1" using tf_sign_01 [of f] by (auto simp: U)
  consider "ex < 16383" | "ex > 16445" | "16383 \<le> ex" "ex \<le> 16445" by linarith
  then show ?thesis
  proof cases
    case 1
    then have "tf_int f < 2 ^ 0" by (intro tf_int_less) (auto simp: U)
    then show ?thesis using 1 by (simp add: fixtfdi_def u)
  next
    case 2
    then have "2 ^ 63 \<le> tf_int f" by (intro tf_int_ge) (auto simp: U)
    then show ?thesis using 2 by (simp add: fixtfdi_def u sg)
  next
    case 3
    define x where "x = drop_bit (nat (16446 - ex)) (push_bit 15 (ux1 m) OR drop_bit 49 (ux0 m))"
    have t: "tf_int f < 2 ^ 63" using 3 by (intro tf_int_less) (auto simp: U)
    have "unat x = tf_int f" unfolding x_def using 3 by (intro fix_shift_64 [OF u]) auto
    moreover have "fixtfdi f = (if tf_sign f = 1 then - x else x)"
      using 3 by (simp add: fixtfdi_def u sg x_def)
    ultimately show ?thesis using t sint_unat [of x] by simp
  qed
qed

lemma fixunstf_spec:
  "unat (fixunstfsi f) = (if tf_sign f = 1 then 0 else min (2 ^ 32 - 1) (tf_int f))"
  "unat (fixunstfdi f) = (if tf_sign f = 1 then 0 else min (2 ^ 64 - 1) (tf_int f))"
proof -
  obtain sg ex m where u: "f3_unpack f = (sg, ex, m)" by (cases "f3_unpack f") auto
  note U = f3_unpackE [OF u]
  have sg: "sg \<noteq> 0 \<longleftrightarrow> tf_sign f = 1" using tf_sign_01 [of f] by (auto simp: U)
  have lo: "ex < 16383 \<Longrightarrow> tf_int f < 2 ^ 0" by (intro tf_int_less) (auto simp: U)
  have hi: "16415 \<le> ex \<Longrightarrow> 2 ^ 32 \<le> tf_int f" "16447 \<le> ex \<Longrightarrow> 2 ^ 64 \<le> tf_int f"
    by (intro tf_int_ge; auto simp: U)+
  have mid: "ex \<le> 16414 \<Longrightarrow> tf_int f < 2 ^ 32" "ex \<le> 16446 \<Longrightarrow> tf_int f < 2 ^ 64"
    by (intro tf_int_less; auto simp: U)+
  have m1: "unat (- 1 :: 32 word) = 2 ^ 32 - 1" "unat (- 1 :: 64 word) = 2 ^ 64 - 1"
    by (simp_all add: unsigned_minus_1_eq_mask mask_eq_exp_minus_1)
  consider "ex < 16369" | "ex > 16414" | "16369 \<le> ex" "ex \<le> 16414" by linarith
  then show "unat (fixunstfsi f) = (if tf_sign f = 1 then 0 else min (2 ^ 32 - 1) (tf_int f))"
  proof cases
    case 1
    then show ?thesis using lo by (simp add: fixunstfsi_def u)
  next
    case 2
    then show ?thesis using hi m1 by (simp add: fixunstfsi_def u sg)
  next
    case 3
    then show ?thesis using fix_shift_32 [OF u] mid by (simp add: fixunstfsi_def u sg)
  qed
  consider "ex < 16383" | "ex > 16446" | "16383 \<le> ex" "ex \<le> 16446" by linarith
  then show "unat (fixunstfdi f) = (if tf_sign f = 1 then 0 else min (2 ^ 64 - 1) (tf_int f))"
  proof cases
    case 1
    then show ?thesis using lo by (simp add: fixunstfdi_def u)
  next
    case 2
    then show ?thesis using hi m1 by (simp add: fixunstfdi_def u sg)
  next
    case 3
    then show ?thesis using fix_shift_64 [OF u] mid by (simp add: fixunstfdi_def u sg)
  qed
qed


lemma tf_int_loop_step:
  fixes w :: "'a::len word"
  assumes "i \<le> LENGTH('a)"
  shows "drop_bit (LENGTH('a) - i) w = 0 \<longleftrightarrow> unat w < 2 ^ (LENGTH('a) - i)"
  by (simp add: word_zero_iff_unat unat_drop_bit div_pow_eq_0)

lemma tf_int_loop_spec:
  fixes w w' :: "'a::len word"
  shows "2 ^ (LENGTH('a) - 2 * 2 ^ k) \<le> unat w \<Longrightarrow> 2 * 2 ^ k \<le> LENGTH('a) \<Longrightarrow> tf_int_loop (2 ^ k) ex w = (ex', w') \<Longrightarrow>
   \<exists>L < 2 * 2 ^ k. unat w' = unat w * 2 ^ L \<and> ex' = ex - int L \<and> 2 ^ (LENGTH('a) - 1) \<le> unat w'"
proof (induction k arbitrary: w ex)
  case 0
  have stop: "tf_int_loop 0 e y = (e, y)" for e and y :: "'a word" by (simp add: tf_int_loop.simps)
  have s: "tf_int_loop (Suc 0) ex w = (if unat w < 2 ^ (LENGTH('a) - 1) then (ex - 1, push_bit 1 w) else (ex, w))"
    using tf_int_loop_step [of 1 w] 0(2) by (simp add: tf_int_loop.simps [of "Suc 0"] stop)
  show ?case
  proof (cases "unat w < 2 ^ (LENGTH('a) - 1)")
    case True
    have "(2::nat) ^ LENGTH('a) = 2 ^ (LENGTH('a) - 1) * 2" using power_minus_mult [of "LENGTH('a)" "2::nat"] by simp
    then have "unat w * 2 ^ 1 < 2 ^ LENGTH('a)" using True by simp
    then have "unat (push_bit 1 w) = unat w * 2 ^ 1" unfolding unat_push_bit by (rule mod_less)
    moreover have "(2::nat) ^ (LENGTH('a) - 1) = 2 * 2 ^ (LENGTH('a) - 2)"
      using 0(2) by (metis Suc_1 Suc_diff_Suc Suc_le_lessD mult.right_neutral power_0 power_Suc diff_Suc_1' One_nat_def)
    ultimately show ?thesis using 0 s True by (intro exI [of _ 1]) auto
  next
    case False
    then show ?thesis using 0 s by (intro exI [of _ 0]) auto
  qed
next
  case (Suc k)
  have sh: "(2::nat) ^ Suc k \<le> LENGTH('a)" "0 < (2::nat) ^ Suc k" "2 ^ Suc k div 2 = (2::nat) ^ k"
    using Suc.prems(2) by auto
  show ?case
  proof (cases "unat w < 2 ^ (LENGTH('a) - 2 ^ Suc k)")
    case True
    let ?w = "push_bit (2 ^ Suc k) w"
    have "(2::nat) ^ (LENGTH('a) - 2 ^ Suc k) * 2 ^ 2 ^ Suc k = 2 ^ LENGTH('a)"
      using sh by (simp flip: power_add)
    with True have "unat w * 2 ^ 2 ^ Suc k < 2 ^ LENGTH('a)"
      by (metis mult_less_cancel2 zero_less_numeral zero_less_power)
    then have v: "unat ?w = unat w * 2 ^ 2 ^ Suc k" by (simp add: unat_push_bit)
    have "(2::nat) ^ (LENGTH('a) - 2 * 2 ^ Suc k) * 2 ^ 2 ^ Suc k = 2 ^ (LENGTH('a) - 2 * 2 ^ k)"
      using Suc.prems(2) by (simp flip: power_add)
    then have "2 ^ (LENGTH('a) - 2 * 2 ^ k) \<le> unat ?w"
      using Suc.prems(1) v by (metis mult_le_mono1)
    moreover have "tf_int_loop (2 ^ k) (ex - int (2 ^ Suc k)) ?w = (ex', w')"
      using Suc.prems(3) tf_int_loop_step [OF sh(1), of w] sh True
      by (simp add: tf_int_loop.simps [of "2 * 2 ^ k"])
    moreover have "2 * 2 ^ k \<le> LENGTH('a)" using Suc.prems(2) by simp
    ultimately obtain L where "L < 2 * 2 ^ k" "unat w' = unat ?w * 2 ^ L" "ex' = ex - int (2 ^ Suc k) - int L"
      "2 ^ (LENGTH('a) - 1) \<le> unat w'"
      using Suc.IH by meson
    then show ?thesis using v by (intro exI [of _ "2 ^ Suc k + L"]) (simp add: power_add)
  next
    case False
    then have "2 ^ (LENGTH('a) - 2 * 2 ^ k) \<le> unat w" by simp
    moreover have "tf_int_loop (2 ^ k) ex w = (ex', w')"
      using Suc.prems(3) tf_int_loop_step [OF sh(1), of w] sh False
      by (simp add: tf_int_loop.simps [of "2 * 2 ^ k"])
    moreover have "2 * 2 ^ k \<le> LENGTH('a)" using Suc.prems(2) by simp
    ultimately obtain L where "L < 2 * 2 ^ k" "unat w' = unat w * 2 ^ L" "ex' = ex - int L" "2 ^ (LENGTH('a) - 1) \<le> unat w'"
      using Suc.IH by meson
    then show ?thesis by (intro exI [of _ L]) simp
  qed
qed

lemma tf_int_loop_len:
  fixes w :: "'a::len word"
  assumes w: "w \<noteq> 0" and l: "LENGTH('a) = 2 * 2 ^ k" and r: "tf_int_loop (2 ^ k) ex w = (ex', w')"
  obtains L where "L < LENGTH('a)" "unat w' = unat w * 2 ^ L" "ex' = ex - int L" "2 ^ (LENGTH('a) - 1) \<le> unat w'"
proof -
  have "1 \<le> unat w" using w by (simp add: word_zero_iff_unat Suc_le_eq)
  then have "2 ^ (LENGTH('a) - 2 * 2 ^ k) \<le> unat w" by (simp add: l)
  from tf_int_loop_spec [OF this _ r] l show ?thesis using that by auto
qed

text \<open>the common shape of the results: a normalised mantissa of p + 1 bits under the exponent of tf_one\<close>

lemma int_to_tf:
  assumes v: "u128_val x = S * 2 ^ 127 + (16383 + p - L) * 2 ^ 112 + (N * 2 ^ L - 2 ^ p) * 2 ^ (112 - p)"
    and r: "p \<le> 112" "L \<le> p" "2 ^ p \<le> N * 2 ^ L" "N * 2 ^ L < 2 ^ (p + 1)"
  shows "tf_sign x = S \<and> tf_finite x \<and> tf_mag x = N * tf_one"
proof -
  have "u128_val x = S * 2 ^ 127 + (16382 + p + 1 - L) * 2 ^ 112 + (N * 2 ^ L - 2 ^ p) * 2 ^ (112 - p)"
    using v by simp
  then have "tf_sign x = S \<and> tf_finite x \<and> tf_mag x = N * 2 ^ (112 - p + (16382 + p))"
    by (rule extend_subnormal) (use r in simp_all)
  moreover have "112 - p + (16382 + p) = 16494" using r(1) by simp
  ultimately show ?thesis unfolding tf_one_def by metis
qed

lemma floatuns_mantissa:
  fixes a :: "32 word" and b :: "64 word" and s :: "64 word"
  assumes s: "unat s < 2"
  shows "a \<noteq> 0 \<Longrightarrow> tf_int_loop 16 16414 a = (ex, mnt) \<Longrightarrow>
      x = \<lparr>ux0 = 0, ux1 = push_bit 63 s OR push_bit 48 (word_of_int ex) OR push_bit 16 (ucast (push_bit 1 mnt))\<rparr> \<Longrightarrow>
      tf_sign x = unat s \<and> tf_finite x \<and> tf_mag x = unat a * tf_one"
    and "b \<noteq> 0 \<Longrightarrow> tf_int_loop 32 16446 b = (ex, mnb) \<Longrightarrow>
      x = \<lparr>ux0 = push_bit 49 mnb, ux1 = push_bit 63 s OR push_bit 48 (word_of_int ex) OR drop_bit 16 (push_bit 1 mnb)\<rparr> \<Longrightarrow>
      tf_sign x = unat s \<and> tf_finite x \<and> tf_mag x = unat b * tf_one"
proof -
  assume a: "a \<noteq> 0" and l: "tf_int_loop 16 16414 a = (ex, mnt)"
    and x: "x = \<lparr>ux0 = 0, ux1 = push_bit 63 s OR push_bit 48 (word_of_int ex) OR push_bit 16 (ucast (push_bit 1 mnt))\<rparr>"
  obtain L where L: "L < 32" "unat mnt = unat a * 2 ^ L" "ex = 16414 - int L" "2 ^ 31 \<le> unat mnt"
    using tf_int_loop_len [OF a, of 4 16414 ex mnt] l by auto
  have e: "unat (word_of_int ex :: 64 word) = 16414 - L"
    using L(1,3) by (subst unat_word_of_int_less) (auto simp: nat_diff_distrib)
  define w where "w = (push_bit 16 (ucast (push_bit 1 mnt)) :: 64 word)"
  have w: "unat w = (unat mnt - 2 ^ 31) * 2 ^ 17"
  proof -
    have "unat (push_bit 1 mnt) = unat mnt * 2 ^ 1 mod 2 ^ 32" unfolding unat_push_bit by simp
    also have "\<dots> = (unat mnt - 2 ^ 31) * 2"
      using mul_mod_pow [of 1 32 "unat mnt"] L(4) unat_lt2p [of mnt] by (simp add: le_mod_geq)
    finally have "unat (ucast (push_bit 1 mnt) :: 64 word) = (unat mnt - 2 ^ 31) * 2"
      using unat_lt2p [of mnt] by (simp add: unsigned_ucast_eq take_bit_nat_eq_self)
    then show ?thesis using unat_lt2p [of mnt] unfolding w_def unat_push_bit by simp
  qed
  have wl: "unat w < 2 ^ 48" using unat_lt2p [of mnt] by (simp add: w)
  have "u128_val x = unat s * 2 ^ 127 + (16383 + 31 - L) * 2 ^ 112 + (unat a * 2 ^ L - 2 ^ 31) * 2 ^ (112 - 31)"
    unfolding x w_def [symmetric] using val_pack3 [OF s _ wl, of "word_of_int ex" 0] L(2) by (simp add: e w)
  then show "tf_sign x = unat s \<and> tf_finite x \<and> tf_mag x = unat a * tf_one"
    by (rule int_to_tf) (use L unat_lt2p [of mnt] in simp_all)
next
  assume b: "b \<noteq> 0" and l: "tf_int_loop 32 16446 b = (ex, mnb)"
    and x: "x = \<lparr>ux0 = push_bit 49 mnb, ux1 = push_bit 63 s OR push_bit 48 (word_of_int ex) OR drop_bit 16 (push_bit 1 mnb)\<rparr>"
  obtain L where L: "L < 64" "unat mnb = unat b * 2 ^ L" "ex = 16446 - int L" "2 ^ 63 \<le> unat mnb"
    using tf_int_loop_len [OF b, of 5 16446 ex mnb] l by auto
  have e: "unat (word_of_int ex :: 64 word) = 16446 - L"
    using L(1,3) by (subst unat_word_of_int_less) (auto simp: nat_diff_distrib)
  define w where "w = drop_bit 16 (push_bit 1 mnb)"
  define F where "F = unat mnb - 2 ^ 63"
  have F: "F < 2 ^ 63" "unat mnb mod 2 ^ 63 = F" "unat mnb = F + 2 ^ 15 * 2 ^ 48"
    using L(4) unat64_less [of mnb] by (simp_all add: F_def le_mod_geq)
  have p1: "unat (push_bit 1 mnb) = F * 2"
  proof -
    have "unat (push_bit 1 mnb) = unat mnb * 2 ^ 1 mod 2 ^ 64" unfolding unat_push_bit by simp
    then show ?thesis using mul_mod_pow [of 1 64 "unat mnb"] F(2) by simp
  qed
  have w: "unat w = F div 2 ^ 15" using mul_div_pow' [of 1 16 F] unfolding w_def unat_drop_bit p1 by simp
  have z: "unat (push_bit 49 mnb) = F mod 2 ^ 15 * 2 ^ 49"
  proof -
    have "unat (push_bit 49 mnb) = unat mnb * 2 ^ 49 mod 2 ^ 64" unfolding unat_push_bit by simp
    also have "\<dots> = unat mnb mod 2 ^ 15 * 2 ^ 49" using mul_mod_pow [of 49 64 "unat mnb"] by simp
    also have "unat mnb mod 2 ^ 15 = F mod 2 ^ 15" unfolding F(3) by (rule mod_mult_self2)
    finally show ?thesis .
  qed
  have wl: "unat w < 2 ^ 48" using F(1) by (simp add: w less_mult_imp_div_less)
  have s1: "F div 2 ^ 15 * 2 ^ 64 + F mod 2 ^ 15 * 2 ^ 49 = F * 2 ^ 49"
  proof -
    have "F div 2 ^ 15 * 2 ^ 64 + F mod 2 ^ 15 * 2 ^ 49 = (F div 2 ^ 15 * 2 ^ 15 + F mod 2 ^ 15) * 2 ^ 49"
      by (simp only: add_mult_distrib mult.assoc power_add [symmetric]) simp
    then show ?thesis by (simp only: div_mult_mod_eq)
  qed
  have "u128_val x = unat s * 2 ^ 127 + (16383 + 63 - L) * 2 ^ 112 + (unat b * 2 ^ L - 2 ^ 63) * 2 ^ (112 - 63)"
    unfolding x w_def [symmetric] using val_pack3 [OF s _ wl, of "word_of_int ex" "push_bit 49 mnb"] s1 unfolding w z
    by (simp add: e F_def L(2))
  then show "tf_sign x = unat s \<and> tf_finite x \<and> tf_mag x = unat b * tf_one"
    by (rule int_to_tf) (use L unat64_less [of mnb] in simp_all)
qed

lemma unat_signed:
  fixes a :: "'a::len word"
  shows "a <s 0 \<Longrightarrow> sint a < 0 \<and> int (unat (- a)) = - sint a" "\<not> a <s 0 \<Longrightarrow> 0 \<le> sint a \<and> int (unat a) = sint a"
proof -
  have L: "(2::int) ^ LENGTH('a) = 2 * 2 ^ (LENGTH('a) - 1)" by (metis len_gt_0 power_Suc Suc_pred')
  have r: "- (2 ^ (LENGTH('a) - 1)) \<le> sint a" "sint a < 2 ^ (LENGTH('a) - 1)"
    using sint_greater_eq [of a] sint_less [of a] by simp_all
  have s: "a <s 0 \<longleftrightarrow> sint a < 0" by (simp add: word_sless_alt)
  have u: "int (unat (word_of_int k :: 'a word)) = k" if "0 \<le> k" "k < 2 ^ LENGTH('a)" for k
    using unat_word_of_int_less [OF that] that(1) by simp
  have pos: "(0::int) < 2 ^ (LENGTH('a) - 1)" by simp
  show "a <s 0 \<Longrightarrow> sint a < 0 \<and> int (unat (- a)) = - sint a"
  proof
    assume n: "a <s 0"
    then show "sint a < 0" using s by simp
    have "- a = word_of_int (- sint a)" by simp
    moreover have "int (unat (word_of_int (- sint a) :: 'a word)) = - sint a"
      using r pos s n by (intro u) (simp, unfold L, linarith)
    ultimately show "int (unat (- a)) = - sint a" by (simp only:)
  qed
  show "\<not> a <s 0 \<Longrightarrow> 0 \<le> sint a \<and> int (unat a) = sint a"
  proof
    assume n: "\<not> a <s 0"
    then show "0 \<le> sint a" using s by simp
    have "a = word_of_int (sint a)" by simp
    moreover have "int (unat (word_of_int (sint a) :: 'a word)) = sint a"
      using r pos s n by (intro u) (simp, unfold L, linarith)
    ultimately show "int (unat a) = sint a" by (simp only:)
  qed
qed

lemma tf_zero_fields: "tf_sign \<lparr>ux0 = 0, ux1 = 0\<rparr> = 0 \<and> tf_finite \<lparr>ux0 = 0, ux1 = 0\<rparr> \<and> tf_mag \<lparr>ux0 = 0, ux1 = 0\<rparr> = 0"
  by (simp add: tf_sign_def tf_finite_def tf_mag_def tf_sig_def tf_expo_def tf_frac_def u128_val_def)

lemma floatunsitf_spec:
  "tf_sign (floatunsitf a) = 0 \<and> tf_finite (floatunsitf a) \<and> tf_mag (floatunsitf a) = unat a * tf_one"
proof (cases "a = 0")
  case False
  obtain ex mnt where l: "tf_int_loop 16 16414 a = (ex, mnt)" by fastforce
  have "floatunsitf a = \<lparr>ux0 = 0, ux1 = push_bit 63 0 OR push_bit 48 (word_of_int ex) OR push_bit 16 (ucast (push_bit 1 mnt))\<rparr>"
    using False by (simp add: floatunsitf_def l)
  from floatuns_mantissa(1) [OF _ False l this] show ?thesis by simp
qed (simp add: floatunsitf_def tf_zero_fields)

lemma floatunditf_spec:
  "tf_sign (floatunditf a) = 0 \<and> tf_finite (floatunditf a) \<and> tf_mag (floatunditf a) = unat a * tf_one"
proof (cases "a = 0")
  case False
  obtain ex mnt where l: "tf_int_loop 32 16446 a = (ex, mnt)" by fastforce
  have "floatunditf a = \<lparr>ux0 = push_bit 49 mnt, ux1 = push_bit 63 0 OR push_bit 48 (word_of_int ex) OR drop_bit 16 (push_bit 1 mnt)\<rparr>"
    using False by (simp add: floatunditf_def l)
  from floatuns_mantissa(2) [OF _ False l this] show ?thesis by simp
qed (simp add: floatunditf_def tf_zero_fields)

lemma floatsitf_spec:
  "tf_sign (floatsitf a) = of_bool (sint a < 0) \<and> tf_finite (floatsitf a) \<and> int (tf_mag (floatsitf a)) = \<bar>sint a\<bar> * int tf_one"
proof (cases "a = 0")
  case False
  define sg :: int where "sg = (if a <s 0 then 1 else 0)"
  define m where "m = (if a <s 0 then - a else a)"
  have m: "m \<noteq> 0" using False by (simp add: m_def)
  have s: "unat (word_of_int sg :: 64 word) = of_bool (sint a < 0)" "int (unat m) = \<bar>sint a\<bar>"
    using unat_signed [of a] by (auto simp: sg_def m_def)
  obtain ex mnt where l: "tf_int_loop 16 16414 m = (ex, mnt)" by fastforce
  have "floatsitf a = \<lparr>ux0 = 0, ux1 = push_bit 63 (word_of_int sg) OR push_bit 48 (word_of_int ex) OR push_bit 16 (ucast (push_bit 1 mnt))\<rparr>"
    using False l by (simp add: floatsitf_def sg_def m_def Let_def split: if_splits)
  from floatuns_mantissa(1) [OF _ m l this] have "tf_sign (floatsitf a) = of_bool (sint a < 0) \<and> tf_finite (floatsitf a) \<and> tf_mag (floatsitf a) = unat m * tf_one"
    by (simp add: s)
  then show ?thesis by (simp add: s(2) flip: s(2))
qed (simp add: floatsitf_def tf_zero_fields)

lemma floatditf_spec:
  "tf_sign (floatditf a) = of_bool (sint a < 0) \<and> tf_finite (floatditf a) \<and> int (tf_mag (floatditf a)) = \<bar>sint a\<bar> * int tf_one"
proof (cases "a = 0")
  case False
  define sg :: int where "sg = (if a <s 0 then 1 else 0)"
  define m where "m = (if a <s 0 then - a else a)"
  have m: "m \<noteq> 0" using False by (simp add: m_def)
  have s: "unat (word_of_int sg :: 64 word) = of_bool (sint a < 0)" "int (unat m) = \<bar>sint a\<bar>"
    using unat_signed [of a] by (auto simp: sg_def m_def)
  obtain ex mnt where l: "tf_int_loop 32 16446 m = (ex, mnt)" by fastforce
  have "floatditf a = \<lparr>ux0 = push_bit 49 mnt, ux1 = push_bit 63 (word_of_int sg) OR push_bit 48 (word_of_int ex) OR drop_bit 16 (push_bit 1 mnt)\<rparr>"
    using False l by (simp add: floatditf_def sg_def m_def Let_def split: if_splits)
  from floatuns_mantissa(2) [OF _ m l this] have "tf_sign (floatditf a) = of_bool (sint a < 0) \<and> tf_finite (floatditf a) \<and> tf_mag (floatditf a) = unat m * tf_one"
    by (simp add: s)
  then show ?thesis by (simp add: s(2) flip: s(2))
qed (simp add: floatditf_def tf_zero_fields)

lemma tf_int_one: "tf_mag f = n * tf_one \<Longrightarrow> tf_int f = n"
  by (simp add: tf_int_def)

lemma fix_float_roundtrip:
  "fixtfsi (floatsitf a) = a \<and> fixtfdi (floatditf b) = b \<and> fixunstfsi (floatunsitf a) = a \<and> fixunstfdi (floatunditf b) = b"
proof (intro conjI)
  show "fixunstfsi (floatunsitf a) = a"
    using floatunsitf_spec [of a] fixunstf_spec(1) [of "floatunsitf a"] tf_int_one [of "floatunsitf a" "unat a"] unat_lt2p [of a]
    by (simp add: word_unat_eq_iff)
  show "fixunstfdi (floatunditf b) = b"
    using floatunditf_spec [of b] fixunstf_spec(2) [of "floatunditf b"] tf_int_one [of "floatunditf b" "unat b"] unat_lt2p [of b]
    by (simp add: word_unat_eq_iff)
  have i: "int (tf_int f) = k" if h: "int (tf_mag f) = k * int tf_one" "0 \<le> k" for f k
  proof -
    obtain n where n: "k = int n" using h(2) nonneg_int_cases by blast
    then have "tf_mag f = n * tf_one" using h(1) by (metis of_nat_eq_iff of_nat_mult)
    then show ?thesis by (simp add: tf_int_one n)
  qed
  have "sint (fixtfsi (floatsitf a)) = sint a"
    using floatsitf_spec [of a] fixtfsi_spec [of "floatsitf a"] i [of "floatsitf a" "\<bar>sint a\<bar>"] sint_greater_eq [of a] sint_less [of a]
    by (simp split: if_splits)
  then show "fixtfsi (floatsitf a) = a" by (rule signed_word_eqI)
  have "sint (fixtfdi (floatditf b)) = sint b"
    using floatditf_spec [of b] fixtfdi_spec [of "floatditf b"] i [of "floatditf b" "\<bar>sint b\<bar>"] sint_greater_eq [of b] sint_less [of b]
    by (simp split: if_splits)
  then show "fixtfdi (floatditf b) = b" by (rule signed_word_eqI)
qed

end
