(* ===== verification/SoftFloatCmp.thy ===== *)
theory SoftFloatCmp
  imports SoftFloatInt
begin

text \<open>
  The comparison \<open>f3_cmp\<close> and the six entry points the compiler calls.
\<close>

definition f3_cmp :: "u128_t \<Rightarrow> u128_t \<Rightarrow> int" where
  "f3_cmp a b =
     (if ux0 a OR push_bit 1 (ux1 a) OR ux0 b OR push_bit 1 (ux1 b) = 0 then 0
      else if (drop_bit 49 (push_bit 1 (ux1 a)) = 0x7fff \<and> ux0 a OR push_bit 16 (ux1 a) \<noteq> 0) \<or>
              (drop_bit 49 (push_bit 1 (ux1 b)) = 0x7fff \<and> ux0 b OR push_bit 16 (ux1 b) \<noteq> 0) then 2
      else if drop_bit 63 (ux1 a) \<noteq> drop_bit 63 (ux1 b)
           then uint (drop_bit 63 (ux1 b)) - uint (drop_bit 63 (ux1 a))
      else if ux1 a < ux1 b then uint (push_bit 1 (drop_bit 63 (ux1 a))) - 1
      else if ux1 a > ux1 b then 1 - uint (push_bit 1 (drop_bit 63 (ux1 a)))
      else if ux0 a < ux0 b then uint (push_bit 1 (drop_bit 63 (ux1 a))) - 1
      else if ux0 b < ux0 a then 1 - uint (push_bit 1 (drop_bit 63 (ux1 a)))
      else 0)"

definition eqtf2 :: "u128_t \<Rightarrow> u128_t \<Rightarrow> int" where "eqtf2 a b = of_bool (f3_cmp a b \<noteq> 0)"
definition netf2 :: "u128_t \<Rightarrow> u128_t \<Rightarrow> int" where "netf2 a b = of_bool (f3_cmp a b \<noteq> 0)"
definition lttf2 :: "u128_t \<Rightarrow> u128_t \<Rightarrow> int" where "lttf2 a b = f3_cmp a b"
definition letf2 :: "u128_t \<Rightarrow> u128_t \<Rightarrow> int" where "letf2 a b = f3_cmp a b"
definition gttf2 :: "u128_t \<Rightarrow> u128_t \<Rightarrow> int" where "gttf2 a b = - f3_cmp b a"
definition getf2 :: "u128_t \<Rightarrow> u128_t \<Rightarrow> int" where "getf2 a b = - f3_cmp b a"

text \<open>the order of magnitudes is that of the 127 low bits\<close>

definition tf_low :: "u128_t \<Rightarrow> nat" where "tf_low f = u128_val f mod 2 ^ 127"

lemma tf_low_fields: "tf_low f = tf_expo f * 2 ^ 112 + tf_frac f" "u128_val f = tf_sign f * 2 ^ 127 + tf_low f"
proof -
  have "u128_val f mod 2 ^ (112 + 15) = 2 ^ 112 * (u128_val f div 2 ^ 112 mod 2 ^ 15) + u128_val f mod 2 ^ 112"
    by (simp only: power_add mod_mult2_eq)
  then show "tf_low f = tf_expo f * 2 ^ 112 + tf_frac f" by (simp add: tf_low_def tf_expo_def tf_frac_def)
  show "u128_val f = tf_sign f * 2 ^ 127 + tf_low f"
    unfolding tf_low_def tf_sign_def by (rule div_mult_mod_eq [symmetric])
qed

lemma tf_mag_mono: "tf_low f < tf_low g \<Longrightarrow> tf_mag f < tf_mag g"
proof -
  assume lt: "tf_low f < tf_low g"
  have ff: "tf_frac f < 2 ^ 112" and fg: "tf_frac g < 2 ^ 112" by (simp_all add: tf_frac_def)
  consider (eq) "tf_expo f = tf_expo g" "tf_frac f < tf_frac g" | (less) "tf_expo f < tf_expo g"
  proof -
    have False if "tf_expo g < tf_expo f"
    proof -
      from that have "tf_expo g + 1 \<le> tf_expo f" by simp
      then have "(tf_expo g + 1) * 2 ^ 112 \<le> tf_expo f * 2 ^ 112" by (rule mult_le_mono1)
      with lt fg show False by (simp add: tf_low_fields)
    qed
    moreover have "tf_frac f < tf_frac g" if "tf_expo f = tf_expo g" using lt that by (simp add: tf_low_fields)
    ultimately show ?thesis using that by (meson linorder_neqE_nat)
  qed
  then show ?thesis
  proof cases
    case eq
    then show ?thesis by (simp add: tf_mag_def tf_sig_def)
  next
    case less
    have "tf_mag f < 2 ^ 112 * 2 ^ tf_expo f"
    proof (cases "tf_expo f = 0")
      case False
      then have "tf_mag f < 2 ^ 113 * 2 ^ (tf_expo f - 1)"
        unfolding tf_mag_def using tf_sig_less [of f] by (simp add: max_def)
      also have "\<dots> = 2 ^ 112 * 2 ^ tf_expo f"
      proof -
        have "113 + (tf_expo f - 1) = 112 + tf_expo f" using False by simp
        then show ?thesis by (simp only: power_add [symmetric])
      qed
      finally show ?thesis .
    qed (use ff in \<open>simp add: tf_mag_def tf_sig_def\<close>)
    also have "\<dots> \<le> 2 ^ 112 * 2 ^ (tf_expo g - 1)" using less by (intro mult_le_mono2 power_increasing) simp_all
    also have "\<dots> \<le> tf_mag g" using less by (simp add: tf_mag_def tf_sig_def max_def)
    finally show ?thesis .
  qed
qed

lemma tf_mag_low: "tf_mag f < tf_mag g \<longleftrightarrow> tf_low f < tf_low g" "tf_mag f = tf_mag g \<longleftrightarrow> tf_low f = tf_low g"
proof -
  have eq: "tf_low f = tf_low g \<Longrightarrow> tf_mag f = tf_mag g"
  proof -
    assume e: "tf_low f = tf_low g"
    have x: "tf_low h div 2 ^ 112 = tf_expo h \<and> tf_low h mod 2 ^ 112 = tf_frac h" for h
    proof -
      have f: "tf_frac h < 2 ^ 112" by (simp add: tf_frac_def)
      show ?thesis unfolding tf_low_fields(1) using f by simp
    qed
    have "tf_expo f = tf_expo g" "tf_frac f = tf_frac g" using e x [of f] x [of g] by simp_all
    then show ?thesis by (simp add: tf_mag_def tf_sig_def)
  qed
  show "tf_mag f < tf_mag g \<longleftrightarrow> tf_low f < tf_low g" "tf_mag f = tf_mag g \<longleftrightarrow> tf_low f = tf_low g"
    using eq tf_mag_mono [of f g] tf_mag_mono [of g f] by (cases "tf_low f" "tf_low g" rule: linorder_cases; simp)+
qed

lemma f3_cmp_spec:
  "f3_cmp a b = (if tf_is_nan a \<or> tf_is_nan b then 2
     else if tf_sval a < tf_sval b then - 1 else if tf_sval a = tf_sval b then 0 else 1)"
proof -
  have low: "ux0 x OR push_bit 1 (ux1 x) = 0 \<longleftrightarrow> tf_low x = 0" for x
    using or_push_zero [of 63 x] by (simp add: tf_low_def)
  have z: "ux0 a OR push_bit 1 (ux1 a) OR ux0 b OR push_bit 1 (ux1 b) = 0 \<longleftrightarrow> tf_low a = 0 \<and> tf_low b = 0"
    unfolding low [symmetric] or_eq_0_iff by auto
  have nan: "drop_bit 49 (push_bit 1 (ux1 x)) = 0x7fff \<and> ux0 x OR push_bit 16 (ux1 x) \<noteq> 0 \<longleftrightarrow> tf_is_nan x" for x
  proof -
    have "unat (push_bit 1 (ux1 x)) = unat (ux1 x) * 2 ^ 1 mod 2 ^ 64" unfolding unat_push_bit by simp
    then have "unat (drop_bit 49 (push_bit 1 (ux1 x))) = unat (ux1 x) mod 2 ^ 63 div 2 ^ 48"
      using mul_mod_pow [of 1 64 "unat (ux1 x)"] mul_div_pow' [of 1 49 "unat (ux1 x) mod 2 ^ 63"] by (simp add: unat_drop_bit)
    also have "\<dots> = unat (ux1 x) div 2 ^ 48 mod 2 ^ 15"
      using div_exp_mod_exp_eq [of "unat (ux1 x)" 48 15] by simp
    also have "\<dots> = tf_expo x" using val_div_hi [of x 48] by (simp add: tf_expo_def)
    finally have "drop_bit 49 (push_bit 1 (ux1 x)) = 0x7fff \<longleftrightarrow> tf_expo x = 32767" by (simp add: word_unat_eq_iff)
    moreover have "ux0 x OR push_bit 16 (ux1 x) = 0 \<longleftrightarrow> tf_frac x = 0"
      using or_push_zero [of 48 x] by (simp add: tf_frac_def)
    ultimately show ?thesis by (simp add: tf_is_nan_def)
  qed
  have sg: "uint (drop_bit 63 (ux1 x)) = int (tf_sign x)" for x
    using val_div_hi [of x 63] by (simp only: tf_sign_def uint_int_unat unat_drop_bit) simp
  have sgu: "unat (drop_bit 63 (ux1 x)) = tf_sign x" for x using sg [of x] unfolding uint_int_unat by (simp only: of_nat_eq_iff)
  have sg2: "uint (push_bit 1 (drop_bit 63 (ux1 a))) = 2 * int (tf_sign a)"
    using tf_sign_01 [of a] unfolding uint_int_unat unat_push_bit sgu by auto
  have sge: "drop_bit 63 (ux1 a) = drop_bit 63 (ux1 b) \<longleftrightarrow> tf_sign a = tf_sign b"
    by (simp add: word_unat_eq_iff sgu)
  have cmp: "(if ux1 a < ux1 b then p else if ux1 a > ux1 b then q else if ux0 a < ux0 b then p else if ux0 b < ux0 a then q else r)
      = (if u128_val a < u128_val b then p else if u128_val a = u128_val b then r else q)" for p q r :: int
  proof -
    define a0 a1 b0 b1 where "a0 = unat (ux0 a)" and "a1 = unat (ux1 a)" and "b0 = unat (ux0 b)" and "b1 = unat (ux1 b)"
    have r: "a0 < 2 ^ 64" "b0 < 2 ^ 64" unfolding a0_def b0_def by (rule unat64_less)+
    have "a1 * 2 ^ 64 + a0 < b1 * 2 ^ 64 + b0 \<longleftrightarrow> a1 < b1 \<or> (a1 = b1 \<and> a0 < b0)"
      "a1 * 2 ^ 64 + a0 = b1 * 2 ^ 64 + b0 \<longleftrightarrow> a1 = b1 \<and> a0 = b0"
      using r by (cases a1 b1 rule: linorder_cases; auto)+
    then show ?thesis
      unfolding u128_val_def word_less_nat_alt a0_def [symmetric] b0_def [symmetric] a1_def [symmetric] b1_def [symmetric]
      by (auto simp del: power_numeral)
  qed
  show ?thesis
  proof (cases "tf_low a = 0 \<and> tf_low b = 0")
    case True
    then have "tf_expo a = 0" "tf_frac a = 0" "tf_expo b = 0" "tf_frac b = 0" by (simp_all add: tf_low_fields)
    then show ?thesis using True z by (simp add: f3_cmp_def tf_is_nan_def tf_sval_def tf_mag_def tf_sig_def)
  next
    case nz: False
    show ?thesis
    proof (cases "tf_is_nan a \<or> tf_is_nan b")
      case True
      then show ?thesis using nz z nan by (simp add: f3_cmp_def)
    next
      case nn: False
      have c: "f3_cmp a b = (if tf_sign a \<noteq> tf_sign b then int (tf_sign b) - int (tf_sign a)
          else if u128_val a < u128_val b then 2 * int (tf_sign a) - 1 else if u128_val a = u128_val b then 0 else 1 - 2 * int (tf_sign a))"
        unfolding f3_cmp_def z nan sg sg2 sge cmp if_not_P [OF nz] if_not_P [OF nn] ..
      have pos: "0 < tf_mag a \<or> 0 < tf_mag b"
        using nz tf_mag_low [of \<open>\<lparr>ux0 = 0, ux1 = 0\<rparr>\<close> a] tf_mag_low [of \<open>\<lparr>ux0 = 0, ux1 = 0\<rparr>\<close> b] tf_zero_fields
        by (simp add: tf_low_def [of \<open>\<lparr>ux0 = 0, ux1 = 0\<rparr>\<close>] u128_val_def [of \<open>\<lparr>ux0 = 0, ux1 = 0\<rparr>\<close>])
      have v: "u128_val a < u128_val b \<longleftrightarrow> tf_mag a < tf_mag b" "u128_val a = u128_val b \<longleftrightarrow> tf_mag a = tf_mag b"
        if "tf_sign a = tf_sign b"
        unfolding tf_mag_low tf_low_fields(2) [of a] tf_low_fields(2) [of b] that by simp_all
      consider "tf_sign a = 0" "tf_sign b = 0" | "tf_sign a = 1" "tf_sign b = 1" | "tf_sign a = 0" "tf_sign b = 1"
        | "tf_sign a = 1" "tf_sign b = 0" using tf_sign_01 [of a] tf_sign_01 [of b] by auto
      then show ?thesis
        using nn pos v by cases (simp_all add: c tf_sval_def, linarith+)
    qed
  qed
qed

end
