(* ===== verification/SoftFloatSpec.thy ===== *)
theory SoftFloatSpec
  imports SoftFloatCmp
begin

text \<open>
  What the binary128 runtime promises: results are correctly rounded (nearest representable, ties to
  even, infinity from the overflow threshold on), the special values of IEEE 754, and the conversions.
\<close>

text \<open>The magnitude an unsigned encoding stands for, with exponents of any size.\<close>

definition tf_dec :: "nat \<Rightarrow> nat" where
  "tf_dec n = (if n div 2 ^ 112 = 0 then n else (2 ^ 112 + n mod 2 ^ 112) * 2 ^ (n div 2 ^ 112 - 1))"

lemma tf_dec_low: "tf_mag f = tf_dec (tf_low f)"
proof -
  have f: "tf_frac f < 2 ^ 112" by (simp add: tf_frac_def)
  then have "tf_low f div 2 ^ 112 = tf_expo f" "tf_low f mod 2 ^ 112 = tf_frac f"
    unfolding tf_low_fields(1) by simp_all
  then show ?thesis using f tf_low_fields(1) [of f] by (auto simp: tf_mag_def tf_sig_def tf_dec_def max_def)
qed

lemma rne_div_near:
  assumes "0 < D"
  shows "\<bar>int (rne_div N D) * int D - int N\<bar> \<le> \<bar>k * int D - int N\<bar>"
    and "\<bar>int (rne_div N D) * int D - int N\<bar> = \<bar>k * int D - int N\<bar> \<Longrightarrow> k \<noteq> int (rne_div N D) \<Longrightarrow> even (rne_div N D)"
proof -
  define q r where "q = N div D" and "r = N mod D"
  have N: "int N = int q * int D + int r" unfolding q_def r_def by (metis div_mult_mod_eq of_nat_add of_nat_mult)
  have r: "int r < int D" using assms by (simp add: r_def)
  have lo: "int r \<le> \<bar>k * int D - int N\<bar>" if "k \<le> int q"
  proof -
    have "k * int D \<le> int q * int D" using that by (intro mult_right_mono) simp_all
    then show ?thesis using N by linarith
  qed
  have lo': "int r + int D \<le> \<bar>k * int D - int N\<bar>" if "k \<le> int q - 1"
  proof -
    have "k * int D \<le> (int q - 1) * int D" using that by (intro mult_right_mono) simp_all
    then show ?thesis using N by (simp add: algebra_simps)
  qed
  have hi: "int D - int r \<le> \<bar>k * int D - int N\<bar>" if "int q + 1 \<le> k"
  proof -
    have "(int q + 1) * int D \<le> k * int D" using that by (intro mult_right_mono) simp_all
    then show ?thesis using N by (simp add: algebra_simps)
  qed
  have hi': "2 * int D - int r \<le> \<bar>k * int D - int N\<bar>" if "int q + 2 \<le> k"
  proof -
    have "(int q + 2) * int D \<le> k * int D" using that by (intro mult_right_mono) simp_all
    then show ?thesis using N by (simp add: algebra_simps)
  qed
  define up where "up = (2 * r > D \<or> (2 * r = D \<and> odd q))"
  have R: "rne_div N D = q + of_bool up" by (simp add: rne_div_def Let_def q_def r_def up_def)
  have dist: "\<bar>int (rne_div N D) * int D - int N\<bar> = (if up then int D - int r else int r)"
    using N r by (simp add: R algebra_simps)
  have up: "up \<Longrightarrow> int D \<le> 2 * int r" "\<not> up \<Longrightarrow> 2 * int r \<le> int D" by (auto simp: up_def)
  consider "k \<le> int q" | "int q + 1 \<le> k" by linarith
  then show "\<bar>int (rne_div N D) * int D - int N\<bar> \<le> \<bar>k * int D - int N\<bar>"
    using lo hi up unfolding dist by cases auto
  assume eq: "\<bar>int (rne_div N D) * int D - int N\<bar> = \<bar>k * int D - int N\<bar>" and ne: "k \<noteq> int (rne_div N D)"
  have D0: "0 < int D" using assms by simp
  show "even (rne_div N D)"
  proof (cases up)
    case True
    then have "\<not> int q + 2 \<le> k" using eq hi' r D0 dist by auto
    moreover have "k \<noteq> int q + 1" using True ne by (simp add: R)
    ultimately have "k \<le> int q" by linarith
    then have "int r \<le> int D - int r" using lo eq True unfolding dist by simp
    then have "2 * r = D" using up True by simp
    then show ?thesis using True by (auto simp: R up_def)
  next
    case False
    then have "\<not> k \<le> int q - 1" using eq lo' r D0 dist by auto
    moreover have "k \<noteq> int q" using False ne by (simp add: R)
    ultimately have "int q + 1 \<le> k" by linarith
    then have "int D - int r \<le> int r" using hi eq False unfolding dist by simp
    then have "2 * r = D" using up False by simp
    then show ?thesis using False by (auto simp: R up_def)
  qed
qed

lemma tf_dec_binade:
  assumes "r \<le> 2 ^ 113" "0 < e \<Longrightarrow> 2 ^ 112 \<le> r"
  shows "tf_dec (e * 2 ^ 112 + r) = r * 2 ^ e"
proof -
  consider "r < 2 ^ 112" | "2 ^ 112 \<le> r" "r < 2 ^ 113" | "r = 2 ^ 113" using assms(1) by linarith
  then show ?thesis
  proof cases
    case 1
    then show ?thesis using assms(2) by (cases "e = 0") (simp_all add: tf_dec_def)
  next
    case 2
    then have "(e * 2 ^ 112 + r) div 2 ^ 112 = e + 1" "(e * 2 ^ 112 + r) mod 2 ^ 112 = r - 2 ^ 112"
      by (simp_all add: div_nat_eqI le_mod_geq)
    then show ?thesis using 2 by (simp add: tf_dec_def)
  next
    case 3
    then have "(e * 2 ^ 112 + r) div 2 ^ 112 = e + 2" "(e * 2 ^ 112 + r) mod 2 ^ 112 = 0" by simp_all
    then show ?thesis using 3 by (simp add: tf_dec_def)
  qed
qed

lemma tf_dec_cases:
  obtains (grid) k where "tf_dec m = k * 2 ^ e" | (small) "0 < e" "tf_dec m < 2 ^ 112 * 2 ^ e"
proof (cases "e = 0 \<or> e < m div 2 ^ 112")
  case True
  have "\<exists>k. tf_dec m = k * 2 ^ e"
  proof (cases "e = 0")
    case False
    then have "e \<le> m div 2 ^ 112 - 1" "m div 2 ^ 112 \<noteq> 0" using True by auto
    then obtain j where "m div 2 ^ 112 - 1 = e + j" using le_Suc_ex by blast
    then show ?thesis using \<open>m div 2 ^ 112 \<noteq> 0\<close>
      by (intro exI [of _ "(2 ^ 112 + m mod 2 ^ 112) * 2 ^ j"]) (simp add: tf_dec_def power_add mult_ac)
  qed auto
  then show ?thesis using that by blast
next
  case False
  then have e: "0 < e" "m div 2 ^ 112 \<le> e" by auto
  have "tf_dec m < 2 ^ 112 * 2 ^ e"
  proof (cases "m div 2 ^ 112 = 0")
    case True
    then have "m < 2 ^ 112 * 1" by (simp add: div_pow_eq_0)
    also have "\<dots> \<le> 2 ^ 112 * 2 ^ e" by (rule mult_le_mono2) simp
    finally show ?thesis using True by (simp add: tf_dec_def)
  next
    case False
    have "m mod 2 ^ 112 < 2 ^ 112" by simp
    then have "(2 ^ 112 + m mod 2 ^ 112) * 2 ^ (m div 2 ^ 112 - 1) < 2 ^ 113 * 2 ^ (m div 2 ^ 112 - 1)" by simp
    also have "\<dots> \<le> 2 ^ 113 * 2 ^ (e - 1)" using e by (intro mult_le_mono2 power_increasing) simp_all
    also have "\<dots> = 2 ^ 112 * 2 ^ e"
    proof -
      have "113 + (e - 1) = 112 + e" using e by simp
      then show ?thesis by (simp only: power_add [symmetric])
    qed
    finally show ?thesis using False by (simp add: tf_dec_def)
  qed
  then show ?thesis using e(1) that by blast
qed

lemma tf_enc_parts:
  fixes N D :: nat
  assumes D: "0 < D"
  defines "e \<equiv> floorlog 2 (N div D) - 113"
  defines "D' \<equiv> D * 2 ^ e"
  defines "r \<equiv> rne_div N D'"
  shows "tf_enc N D = e * 2 ^ 112 + r" "N div D' < 2 ^ 113" "0 < e \<Longrightarrow> 2 ^ 112 \<le> N div D'"
    "0 < e \<Longrightarrow> 2 ^ 112 \<le> r" "r \<le> 2 ^ 113"
proof -
  show "tf_enc N D = e * 2 ^ 112 + r" by (simp add: tf_enc_def Let_def e_def r_def D'_def)
  have d: "N div D' = N div D div 2 ^ e" by (simp add: D'_def div_mult2_eq)
  have ub: "N div D < 2 ^ floorlog 2 (N div D)"
    using floorlog_bounds [of "N div D" 2] by (cases "N div D = 0") auto
  also have "\<dots> \<le> 2 ^ (113 + e)" by (intro power_increasing) (simp_all add: e_def)
  finally show q1: "N div D' < 2 ^ 113" unfolding d by (simp add: div_less_iff_less_mult power_add)
  show q2: "2 ^ 112 \<le> N div D'" if "0 < e"
  proof -
    have "0 < N div D" using that by (cases "N div D = 0") (simp_all add: e_def floorlog_def)
    then have "2 ^ (floorlog 2 (N div D) - 1) \<le> N div D" using floorlog_bounds [of "N div D" 2] by simp
    moreover have "floorlog 2 (N div D) - 1 = 112 + e" using that by (simp add: e_def)
    ultimately show "2 ^ 112 \<le> N div D'" unfolding d by (simp add: less_eq_div_iff_mult_less_eq power_add)
  qed
  show "0 < e \<Longrightarrow> 2 ^ 112 \<le> r" "r \<le> 2 ^ 113"
    using q1 q2 by (auto simp: r_def rne_div_def Let_def)
qed

lemma tf_enc_nearest:
  fixes N D m :: nat
  assumes D: "0 < D"
  defines "x \<equiv> tf_enc N D"
  shows "\<bar>int (tf_dec x) * int D - int N\<bar> \<le> \<bar>int (tf_dec m) * int D - int N\<bar> \<and>
    (\<bar>int (tf_dec x) * int D - int N\<bar> = \<bar>int (tf_dec m) * int D - int N\<bar> \<longrightarrow> tf_dec m = tf_dec x \<or> even x)"
proof -
  define e where "e = floorlog 2 (N div D) - 113"
  define D' where "D' = D * 2 ^ e"
  define r where "r = rne_div N D'"
  have D': "0 < D'" using D by (simp add: D'_def)
  note F = tf_enc_parts [OF D, of N, folded e_def, folded D'_def, folded r_def]
  have x: "x = e * 2 ^ 112 + r" unfolding x_def by (rule F)
  note q = F(2,3) and r = F(5,4)
  have dx: "tf_dec x = r * 2 ^ e" unfolding x using r by (rule tf_dec_binade)
  have ix: "int (tf_dec x) * int D = int r * int D'" by (simp add: dx D'_def mult_ac)
  have ev: "even x \<longleftrightarrow> even r" by (simp add: x)
  note near = rne_div_near [OF D', of N, folded r_def]
  show ?thesis
  proof (cases rule: tf_dec_cases [of m e])
    case (grid k)
    then have im: "int (tf_dec m) * int D = int k * int D'" by (simp add: D'_def mult_ac)
    show ?thesis using near(1) [of "int k"] near(2) [of "int k"] dx grid unfolding ix im ev by auto
  next
    case small
    have "2 ^ 112 * D' \<le> N" using q(2) [OF small(1)] D' by (simp add: less_eq_div_iff_mult_less_eq)
    then have g: "int (2 ^ 112) * int D' \<le> int N" by (metis of_nat_le_iff of_nat_mult)
    have "tf_dec m * D < 2 ^ 112 * 2 ^ e * D" using small(2) D by (intro mult_less_mono1)
    then have "tf_dec m * D < 2 ^ 112 * D'" by (simp only: D'_def mult_ac)
    then have "int (tf_dec m) * int D < int (2 ^ 112) * int D'" by (metis of_nat_less_iff of_nat_mult)
    then have "\<bar>int (2 ^ 112) * int D' - int N\<bar> < \<bar>int (tf_dec m) * int D - int N\<bar>" using g by linarith
    then show ?thesis using near(1) [of "int (2 ^ 112)"] unfolding ix by linarith
  qed
qed

lemma quiet_nanI: "ux1 f AND 0x7fff800000000000 = 0x7fff800000000000 \<Longrightarrow> tf_quiet_nan f"
proof -
  assume a: "ux1 f AND 0x7fff800000000000 = 0x7fff800000000000"
  have "drop_bit 47 (ux1 f AND 0x7fff800000000000) = 0xffff" unfolding a by simp
  then have "drop_bit 47 (ux1 f) AND 0xffff = 0xffff" by (simp add: drop_bit_and)
  moreover have "drop_bit 47 (ux1 f) AND 0xffff = take_bit 16 (drop_bit 47 (ux1 f))"
    using take_bit_eq_mask [of 16 "drop_bit 47 (ux1 f)"] by (simp add: mask_numeral)
  ultimately have t: "take_bit 16 (drop_bit 47 (ux1 f)) = 0xffff" by simp
  have "unat (take_bit 16 (drop_bit 47 (ux1 f))) = unat (ux1 f) div 2 ^ 47 mod 2 ^ 16"
    unfolding unsigned_take_bit_eq unat_drop_bit unfolding take_bit_eq_mod ..
  then have q: "unat (ux1 f) div 2 ^ 47 mod 2 ^ 16 = 65535" using t by simp
  define w where "w = unat (ux1 f) div 2 ^ 47"
  define k where "k = w div 2 ^ 16"
  have w: "w = 65535 + 65536 * k"
    using q div_mult_mod_eq [of w "2 ^ 16"] by (simp add: w_def k_def)
  have "u128_val f div 2 ^ 112 mod 2 ^ 15 = w div 2 mod 2 ^ 15"
    using val_div_hi [of f 48] by (simp add: w_def flip: div_mult2_eq)
  also have "w div 2 = 32767 + 2 ^ 15 * k" unfolding w by simp
  also have "\<dots> mod 2 ^ 15 = 32767" by simp
  finally have e: "tf_expo f = 32767" by (simp add: tf_expo_def)
  have "u128_val f mod 2 ^ 112 div 2 ^ 111 = u128_val f div 2 ^ 111 mod 2"
    using div_exp_mod_exp_eq [of "u128_val f" 111 1] by simp
  also have "u128_val f div 2 ^ 111 = w" using val_div_hi [of f 47] by (simp add: w_def)
  also have "w = 1 + 2 * (32767 + 32768 * k)" unfolding w by simp
  also have "(1 + 2 * (32767 + 32768 * k)) mod 2 = (1 :: nat)" by (rule mod_mult_self2 [THEN trans]) simp
  finally have "tf_frac f div 2 ^ 111 = 1" by (simp add: tf_frac_def)
  then have "2 ^ 111 \<le> tf_frac f" by (metis div_less less_irrefl not_le zero_neq_one)
  then show ?thesis using e by (simp add: tf_quiet_nan_def)
qed

lemma quiet_convert: "tf_quiet_nan (fp3_convert_NaN s m)"
proof (rule quiet_nanI)
  have "ux1 (fp3_convert_NaN s m) = 0x7fff800000000000 OR (ux1 m OR push_bit 63 (word_of_int s))"
    by (simp add: fp3_convert_NaN_def ac_simps)
  then show "ux1 (fp3_convert_NaN s m) AND 0x7fff800000000000 = 0x7fff800000000000"
    by (simp only: or_and_absorb)
qed

lemma quiet_f3_NaN: "tf_quiet_nan f3_NaN"
  by (rule quiet_nanI) (simp add: f3_NaN_def)

lemma detect_some:
  assumes ua: "f3_unpack fa = (sa, ea, a)" and ub: "f3_unpack fb = (sb, eb, b)"
  shows "tf_is_nan fa \<or> tf_is_nan fb \<Longrightarrow> \<exists>f. fp3_detect_NaNs sa ea a sb eb b = Some f \<and> tf_quiet_nan f"
    and "\<not> tf_is_nan fa \<Longrightarrow> \<not> tf_is_nan fb \<Longrightarrow> fp3_detect_NaNs sa ea a sb eb b = None"
  unfolding fp3_detect_NaNs_def nan_iff [OF ua] nan_iff [OF ub] conj_assoc [symmetric]
  by (auto simp: quiet_convert)

lemma arith_nan:
  assumes "tf_is_nan fa \<or> tf_is_nan fb"
  shows "tf_quiet_nan (addtf3 fa fb) \<and> tf_quiet_nan (subtf3 fa fb) \<and> tf_quiet_nan (multf3 fa fb) \<and> tf_quiet_nan (divtf3 fa fb)"
proof -
  obtain sa ea a where ua: "f3_unpack fa = (sa, ea, a)" by (cases "f3_unpack fa") auto
  obtain sb eb b where ub: "f3_unpack fb = (sb, eb, b)" by (cases "f3_unpack fb") auto
  obtain f where "fp3_detect_NaNs sa ea a sb eb b = Some f" "tf_quiet_nan f"
    using detect_some(1) [OF ua ub assms] by blast
  then show ?thesis by (simp add: addtf3_def subtf3_def f3_add_def multf3_def divtf3_def ua ub)
qed

lemma unpack_inf: "f3_unpack f = (s, e, m) \<Longrightarrow> e = 32767 \<longleftrightarrow> tf_expo f = 32767"
  using f3_unpackE(2) [of f s e m] by (auto simp: max_def)

text \<open>infinities and zeroes, with the sign of the result\<close>

definition sgn_of :: "u128_t \<Rightarrow> int" where "sgn_of f = int (tf_sign f)"

lemma if_chain:
  assumes "t = (if c1 then x1 else if c2 then x2 else if c3 then x3 else x4)"
  shows "c1 \<Longrightarrow> t = x1" "\<not> c1 \<Longrightarrow> c2 \<Longrightarrow> t = x2" "\<not> c1 \<Longrightarrow> \<not> c2 \<Longrightarrow> c3 \<Longrightarrow> t = x3"
  using assms by auto

lemma arith_special:
  assumes nn: "\<not> tf_is_nan fa" "\<not> tf_is_nan fb"
  defines "s \<equiv> sgn_of fa XOR sgn_of fb"
  shows "tf_is_inf fa \<Longrightarrow> tf_is_inf fb \<Longrightarrow>
      addtf3 fa fb = (if tf_sign fa = tf_sign fb then f3_infinity (sgn_of fa) else f3_NaN) \<and>
      subtf3 fa fb = (if tf_sign fa = tf_sign fb then f3_NaN else f3_infinity (sgn_of fa)) \<and>
      multf3 fa fb = f3_infinity s \<and> divtf3 fa fb = f3_NaN"
    and "tf_is_inf fa \<Longrightarrow> tf_finite fb \<Longrightarrow>
      addtf3 fa fb = f3_infinity (sgn_of fa) \<and> subtf3 fa fb = f3_infinity (sgn_of fa) \<and>
      multf3 fa fb = (if tf_mag fb = 0 then f3_NaN else f3_infinity s) \<and> divtf3 fa fb = f3_infinity s"
    and "tf_finite fa \<Longrightarrow> tf_is_inf fb \<Longrightarrow>
      addtf3 fa fb = f3_infinity (sgn_of fb) \<and> subtf3 fa fb = f3_infinity (sgn_of fb XOR 1) \<and>
      multf3 fa fb = (if tf_mag fa = 0 then f3_NaN else f3_infinity s) \<and> divtf3 fa fb = f3_zero s"
    and "tf_finite fa \<Longrightarrow> tf_finite fb \<Longrightarrow> tf_mag fb = 0 \<Longrightarrow>
      divtf3 fa fb = (if tf_mag fa = 0 then f3_NaN else f3_infinity s)"
proof -
  obtain sa ea a where ua: "f3_unpack fa = (sa, ea, a)" by (cases "f3_unpack fa") auto
  obtain sb eb b where ub: "f3_unpack fb = (sb, eb, b)" by (cases "f3_unpack fb") auto
  note Ua = f3_unpackE [OF ua] and Ub = f3_unpackE [OF ub]
  note det = detect_some(2) [OF ua ub nn]
  have sg: "sa = sgn_of fa" "sb = sgn_of fb" by (simp_all add: Ua Ub sgn_of_def)
  have ne: "\<And>f. tf_expo f = 32767 \<Longrightarrow> tf_mag f \<noteq> 0"
  proof -
    have "0 < tf_sig f \<Longrightarrow> 0 < tf_mag f" for f unfolding tf_mag_def by (intro mult_pos_pos zero_less_power) simp_all
    then show "tf_expo f = 32767 \<Longrightarrow> tf_mag f \<noteq> 0" for f by (metis add_gr_0 less_numeral_extra(3) tf_sig_def zero_less_numeral zero_less_power zero_neq_numeral)
  qed
  have x: "sgn_of fa = sgn_of fb XOR 1 \<longleftrightarrow> tf_sign fa \<noteq> tf_sign fb" "sgn_of fa = sgn_of fb \<longleftrightarrow> tf_sign fa = tf_sign fb"
    using tf_sign_01 [of fa] tf_sign_01 [of fb] by (auto simp: sgn_of_def)
  note A = if_chain [OF f3_add_def [of fa fb 0, unfolded ua ub Let_def [of "(sa, ea, a)"] Let_def [of "(sb, eb, b)"]
      prod.case det option.case Let_def [of "sb XOR 0"]]]
    if_chain [OF f3_add_def [of fa fb 1, unfolded ua ub Let_def [of "(sa, ea, a)"] Let_def [of "(sb, eb, b)"]
      prod.case det option.case Let_def [of "sb XOR 1"]]]
  note M = if_chain [OF multf3_def [of fa fb, unfolded ua ub Let_def [of "(sa, ea, a)"] Let_def [of "(sb, eb, b)"]
      prod.case det option.case or_zero_val]]
  note V = if_chain [OF divtf3_def [of fa fb, unfolded ua ub Let_def [of "(sa, ea, a)"] Let_def [of "(sb, eb, b)"]
      prod.case det option.case or_zero_val]]
  have ie: "tf_is_inf fa \<Longrightarrow> ea = 32767 \<and> u128_val a \<noteq> 0" "tf_is_inf fb \<Longrightarrow> eb = 32767 \<and> u128_val b \<noteq> 0"
    "tf_finite fa \<Longrightarrow> ea \<noteq> 32767" "tf_finite fb \<Longrightarrow> eb \<noteq> 32767"
    using unpack_inf [OF ua] unpack_inf [OF ub] mag_zero [OF ua] mag_zero [OF ub] ne [of fa] ne [of fb]
    by (auto simp: tf_is_inf_def tf_finite_def)
  note Z = mag_zero [OF ua, symmetric] mag_zero [OF ub, symmetric] s_def sg [symmetric]
  show "tf_is_inf fa \<Longrightarrow> tf_is_inf fb \<Longrightarrow>
      addtf3 fa fb = (if tf_sign fa = tf_sign fb then f3_infinity (sgn_of fa) else f3_NaN) \<and>
      subtf3 fa fb = (if tf_sign fa = tf_sign fb then f3_NaN else f3_infinity (sgn_of fa)) \<and>
      multf3 fa fb = f3_infinity s \<and> divtf3 fa fb = f3_NaN"
    using ie x unfolding addtf3_def subtf3_def Z by (intro conjI; simp add: A M V)
  show "tf_is_inf fa \<Longrightarrow> tf_finite fb \<Longrightarrow>
      addtf3 fa fb = f3_infinity (sgn_of fa) \<and> subtf3 fa fb = f3_infinity (sgn_of fa) \<and>
      multf3 fa fb = (if tf_mag fb = 0 then f3_NaN else f3_infinity s) \<and> divtf3 fa fb = f3_infinity s"
    using ie unfolding addtf3_def subtf3_def Z by (intro conjI; simp add: A M V)
  show "tf_finite fa \<Longrightarrow> tf_is_inf fb \<Longrightarrow>
      addtf3 fa fb = f3_infinity (sgn_of fb) \<and> subtf3 fa fb = f3_infinity (sgn_of fb XOR 1) \<and>
      multf3 fa fb = (if tf_mag fa = 0 then f3_NaN else f3_infinity s) \<and> divtf3 fa fb = f3_zero s"
    using ie unfolding addtf3_def subtf3_def Z by (intro conjI; simp add: A M V)
  show "tf_finite fa \<Longrightarrow> tf_finite fb \<Longrightarrow> tf_mag fb = 0 \<Longrightarrow>
      divtf3 fa fb = (if tf_mag fa = 0 then f3_NaN else f3_infinity s)"
    using ie unfolding Z by (simp add: V)
qed

text \<open>round trips through the wider format\<close>

lemma rne_div_mult: "0 < D \<Longrightarrow> rne_div (n * D) D = n"
  by (simp add: rne_div_def)

lemma bin_enc_mag:
  assumes "bin_frac p n = F" "F < 2 ^ p" "0 < U"
  shows "bin_enc p (bin_mag p w n * U) U = bin_expo p w n * 2 ^ p + F"
proof -
  define E where "E = bin_expo p w n"
  show ?thesis
  proof (cases "E = 0")
    case True
    then have m: "bin_mag p w n = F" by (simp add: bin_mag_def assms flip: E_def)
    have "floorlog 2 F \<le> p" using assms(2) by (rule floorlog_2_le)
    then show ?thesis using True assms(3) by (simp add: bin_enc_def m rne_div_mult flip: E_def)
  next
    case False
    then have m: "bin_mag p w n = (2 ^ p + F) * 2 ^ (E - 1)" by (simp add: bin_mag_def assms max_def flip: E_def)
    have fl: "floorlog 2 ((2 ^ p + F) * 2 ^ (E - 1)) = Suc (p + (E - 1))"
      using assms(2) by (intro floorlog_2_eq) (simp_all add: power_add)
    have "rne_div ((2 ^ p + F) * 2 ^ (E - 1) * U) (U * 2 ^ (E - 1)) = 2 ^ p + F"
      using rne_div_mult [of "U * 2 ^ (E - 1)" "2 ^ p + F"] assms(3) by (simp add: mult_ac)
    moreover have "(E - 1) * 2 ^ p + (2 ^ p + F) = E * 2 ^ p + F" using False by (cases E) auto
    moreover have "Suc (p + (E - 1)) - (p + 1) = E - 1" by simp
    moreover have "(2 ^ p + F) * 2 ^ (E - 1) * U div U = (2 ^ p + F) * 2 ^ (E - 1)" using assms(3) by simp
    ultimately show ?thesis unfolding bin_enc_def m E_def [symmetric] Let_def by (simp only: fl)
  qed
qed

lemma enc_large:
  assumes M: "2 ^ 112 \<le> M" "M < 2 ^ 113"
  shows "16511 \<le> E \<Longrightarrow> 255 * 2 ^ 23 \<le> bin_enc 23 (M * 2 ^ (E - 1)) sf_unit"
    and "17407 \<le> E \<Longrightarrow> 2047 * 2 ^ 52 \<le> bin_enc 52 (M * 2 ^ (E - 1)) df_unit"
proof -
  assume "16511 \<le> E"
  then have "(254 + 1) * 2 ^ 23 \<le> bin_enc 23 (M * 2 ^ (E - 1)) sf_unit"
    using trunc_core [of M E 23 16257, OF M(2) M(1) _ _ _ sf_unit_K] trunc_large [OF M(1), of 23 254 E 16257] by simp
  then show "255 * 2 ^ 23 \<le> bin_enc 23 (M * 2 ^ (E - 1)) sf_unit" by simp
next
  assume "17407 \<le> E"
  then have "(2046 + 1) * 2 ^ 52 \<le> bin_enc 52 (M * 2 ^ (E - 1)) df_unit"
    using trunc_core [of M E 52 15361, OF M(2) M(1) _ _ _ df_unit_K] trunc_large [OF M(1), of 52 2046 E 15361] by simp
  then show "2047 * 2 ^ 52 \<le> bin_enc 52 (M * 2 ^ (E - 1)) df_unit" by simp
qed

lemma enc_inf:
  assumes "tf_is_inf f"
  shows "255 * 2 ^ 23 \<le> bin_enc 23 (tf_mag f) sf_unit" "2047 * 2 ^ 52 \<le> bin_enc 52 (tf_mag f) df_unit"
proof -
  have "16511 \<le> max 1 (tf_expo f)" "17407 \<le> max 1 (tf_expo f)" "2 ^ 112 \<le> tf_sig f"
    using assms by (simp_all add: tf_is_inf_def tf_sig_def)
  then show "255 * 2 ^ 23 \<le> bin_enc 23 (tf_mag f) sf_unit" "2047 * 2 ^ 52 \<le> bin_enc 52 (tf_mag f) df_unit"
    unfolding tf_mag_def by (blast intro: enc_large tf_sig_less)+
qed

lemma trunc_extend_sf:
  assumes "bin_expo 23 8 (unat a) \<noteq> 255 \<or> bin_frac 23 (unat a) = 0"
  shows "map_option trunctfsf2 (extendsftf2 a) = Some a"
proof -
  define n where "n = unat a"
  note D = sf_fields [of a, folded n_def]
  obtain x where x: "extendsftf2 a = Some x" and sx: "tf_sign x = bin_sign 23 8 n"
    and fx: "if bin_expo 23 8 n = 255 then tf_is_inf x else tf_finite x \<and> tf_mag x = bin_mag 23 8 n * sf_unit"
    using extendsftf2_spec [of a] assms unfolding n_def by (metis (no_types, lifting))
  have nn: "\<not> tf_is_nan x" using fx by (auto simp: tf_is_nan_def tf_is_inf_def tf_finite_def split: if_splits)
  have "min (255 * 2 ^ 23) (bin_enc 23 (tf_mag x) sf_unit) = bin_expo 23 8 n * 2 ^ 23 + bin_frac 23 n"
  proof (cases "bin_expo 23 8 n = 255")
    case True
    then have "tf_is_inf x" using fx by simp
    then have "255 * 2 ^ 23 \<le> bin_enc 23 (tf_mag x) sf_unit" by (rule enc_inf)
    then show ?thesis using True assms by (simp add: n_def)
  next
    case False
    then have "bin_enc 23 (tf_mag x) sf_unit = bin_expo 23 8 n * 2 ^ 23 + bin_frac 23 n"
      using fx bin_enc_mag [OF refl D(4) unit_pos(1), of 8] by simp
    moreover have "bin_expo 23 8 n \<le> 254" using False D(3) by simp
    then have "bin_expo 23 8 n * 2 ^ 23 \<le> 254 * 2 ^ 23" by (rule mult_le_mono1)
    ultimately show ?thesis using D(4) by simp
  qed
  then have "unat (trunctfsf2 x) = n" using trunctfsf2_spec [OF nn] D(1) sx by simp
  then show ?thesis by (simp add: x n_def word_unat_eq_iff)
qed

lemma trunc_extend_df:
  assumes "bin_expo 52 11 (unat a) \<noteq> 2047 \<or> bin_frac 52 (unat a) = 0"
  shows "map_option trunctfdf2 (extenddftf2 a) = Some a"
proof -
  define n where "n = unat a"
  note D = df_fields [of a, folded n_def]
  obtain x where x: "extenddftf2 a = Some x" and sx: "tf_sign x = bin_sign 52 11 n"
    and fx: "if bin_expo 52 11 n = 2047 then tf_is_inf x else tf_finite x \<and> tf_mag x = bin_mag 52 11 n * df_unit"
    using extenddftf2_spec [of a] assms unfolding n_def by (metis (no_types, lifting))
  have nn: "\<not> tf_is_nan x" using fx by (auto simp: tf_is_nan_def tf_is_inf_def tf_finite_def split: if_splits)
  have "min (2047 * 2 ^ 52) (bin_enc 52 (tf_mag x) df_unit) = bin_expo 52 11 n * 2 ^ 52 + bin_frac 52 n"
  proof (cases "bin_expo 52 11 n = 2047")
    case True
    then have "tf_is_inf x" using fx by simp
    then have "2047 * 2 ^ 52 \<le> bin_enc 52 (tf_mag x) df_unit" by (rule enc_inf(2))
    then show ?thesis using True assms by (simp add: n_def)
  next
    case False
    then have "bin_enc 52 (tf_mag x) df_unit = bin_expo 52 11 n * 2 ^ 52 + bin_frac 52 n"
      using fx bin_enc_mag [OF refl D(4) unit_pos(2), of 11] by simp
    moreover have "bin_expo 52 11 n \<le> 2046" using False D(3) by simp
    then have "bin_expo 52 11 n * 2 ^ 52 \<le> 2046 * 2 ^ 52" by (rule mult_le_mono1)
    ultimately show ?thesis using D(4) by simp
  qed
  then have "unat (trunctfdf2 x) = n" using trunctfdf2_spec [OF nn] D(1) sx by simp
  then show ?thesis by (simp add: x n_def word_unat_eq_iff)
qed


text \<open>correct rounding of the four operations\<close>

definition tf_nearest :: "u128_t \<Rightarrow> int \<Rightarrow> nat \<Rightarrow> bool" where
  "tf_nearest x N D \<longleftrightarrow> (\<forall>y. tf_finite y \<longrightarrow>
     \<bar>tf_sval x * int D - N\<bar> \<le> \<bar>tf_sval y * int D - N\<bar> \<and>
     (\<bar>tf_sval x * int D - N\<bar> = \<bar>tf_sval y * int D - N\<bar> \<longrightarrow> tf_sval y = tf_sval x \<or> even (tf_frac x)))"

lemma enc_nearest:
  assumes v: "u128_val x = min (32767 * 2 ^ 112) (tf_enc N D) + s * 2 ^ 127" and s: "s \<le> 1"
    and f: "tf_finite x" and D: "0 < D"
  shows "tf_nearest x ((if s = 1 then - 1 else 1) * int N) D"
proof -
  have lt: "min (32767 * 2 ^ 112) (tf_enc N D) < 2 ^ 127" by (rule min.strict_coboundedI1) simp
  have low: "tf_low x = min (32767 * 2 ^ 112) (tf_enc N D)" and sg: "tf_sign x = s"
    unfolding tf_low_def tf_sign_def v using lt by simp_all
  have "tf_low x \<noteq> 32767 * 2 ^ 112"
  proof
    assume a: "tf_low x = 32767 * 2 ^ 112"
    have "tf_low x div 2 ^ 112 = tf_expo x" unfolding tf_low_fields(1) by (simp add: tf_frac_def)
    then show False using f by (simp add: a tf_finite_def)
  qed
  then have enc: "tf_low x = tf_enc N D" using low by linarith
  have mx: "tf_mag x = tf_dec (tf_enc N D)" by (simp only: tf_dec_low enc)
  have ev: "even (tf_enc N D) \<longleftrightarrow> even (tf_frac x)" unfolding enc [symmetric] tf_low_fields(1) by simp
  have D0: "0 \<le> int (tf_mag y) * int D" for y by simp
  show ?thesis unfolding tf_nearest_def
  proof (intro allI impI)
    fix y
    define p where "p = (if s = 1 then - 1 else (1::int))"
    have xs: "tf_sval x * int D = p * (int (tf_mag x) * int D)"
      using s sg by (auto simp: tf_sval_def p_def)
    have ax: "\<bar>tf_sval x * int D - p * int N\<bar> = \<bar>int (tf_mag x) * int D - int N\<bar>"
      unfolding xs by (auto simp: p_def abs_if)
    note near = tf_enc_nearest [OF D, of N "tf_low y", folded mx tf_dec_low]
    have "(\<bar>int (tf_mag x) * int D - int N\<bar> \<le> \<bar>tf_sval y * int D - p * int N\<bar>) \<and>
        (\<bar>int (tf_mag x) * int D - int N\<bar> = \<bar>tf_sval y * int D - p * int N\<bar> \<longrightarrow> tf_sval y = tf_sval x \<or> even (tf_frac x))"
    proof (cases "tf_sign y = s")
      case True
      then have ys: "tf_sval y * int D = p * (int (tf_mag y) * int D)"
        using s by (auto simp: tf_sval_def p_def)
      have ay: "\<bar>tf_sval y * int D - p * int N\<bar> = \<bar>int (tf_mag y) * int D - int N\<bar>"
        unfolding ys by (auto simp: p_def abs_if)
      have "tf_mag y = tf_mag x \<Longrightarrow> tf_sval y = tf_sval x" using True sg by (simp add: tf_sval_def)
      then show ?thesis using near ev unfolding ay by blast
    next
      case False
      then have ys: "tf_sval y * int D = - p * (int (tf_mag y) * int D)"
        using s tf_sign_01 [of y] by (auto simp: tf_sval_def p_def)
      have ay: "\<bar>tf_sval y * int D - p * int N\<bar> = int (tf_mag y) * int D + int N"
      proof -
        have "tf_sval y * int D - p * int N = - p * (int (tf_mag y) * int D + int N)" unfolding ys by (simp add: algebra_simps)
        moreover have "\<bar>p\<bar> = 1" by (simp add: p_def)
        moreover have "\<bar>int (tf_mag y) * int D + int N\<bar> = int (tf_mag y) * int D + int N"
          using D0 [of y] by (intro abs_of_nonneg) simp
        ultimately show ?thesis by (simp only: abs_mult abs_minus_cancel mult_1)
      qed
      have z: "\<bar>int (tf_mag x) * int D - int N\<bar> \<le> int N"
        using tf_enc_nearest [OF D, of N 0] unfolding mx by (simp add: tf_dec_def)
      have ze: "\<bar>int (tf_mag x) * int D - int N\<bar> = int N \<Longrightarrow> tf_mag x = 0 \<or> even (tf_frac x)"
        using tf_enc_nearest [OF D, of N 0] ev unfolding mx by (simp add: tf_dec_def)
      show ?thesis unfolding ay
      proof (intro conjI impI)
        show "\<bar>int (tf_mag x) * int D - int N\<bar> \<le> int (tf_mag y) * int D + int N" using z D0 [of y] by linarith
        assume eq: "\<bar>int (tf_mag x) * int D - int N\<bar> = int (tf_mag y) * int D + int N"
        then have "int (tf_mag y) * int D = 0" using z D0 [of y] by linarith
        then have y0: "tf_mag y = 0" using D by simp
        then have "tf_mag x = 0 \<or> even (tf_frac x)" using eq ze by simp
        then show "tf_sval y = tf_sval x \<or> even (tf_frac x)" using y0 by (auto simp: tf_sval_def)
      qed
    qed
    then show "\<bar>tf_sval x * int D - (if s = 1 then - 1 else 1) * int N\<bar> \<le> \<bar>tf_sval y * int D - (if s = 1 then - 1 else 1) * int N\<bar> \<and>
        (\<bar>tf_sval x * int D - (if s = 1 then - 1 else 1) * int N\<bar> = \<bar>tf_sval y * int D - (if s = 1 then - 1 else 1) * int N\<bar>
         \<longrightarrow> tf_sval y = tf_sval x \<or> even (tf_frac x))"
      unfolding p_def [symmetric] ax .
  qed
qed

definition tf_huge :: nat where "tf_huge = 2 ^ 32765"

lemma tf_huge_pos [simp]: "0 < tf_huge" unfolding tf_huge_def by (rule zero_less_power) simp

text \<open>N/D lies at or beyond the midpoint between the largest finite magnitude and the next power of two\<close>

definition tf_overflows :: "nat \<Rightarrow> nat \<Rightarrow> bool" where
  "tf_overflows N D \<longleftrightarrow> (2 ^ 114 - 1) * tf_huge * D \<le> 2 * N"

lemma rne_top: "0 < D \<Longrightarrow> odd m \<Longrightarrow> m \<le> N div D \<Longrightarrow> m + 1 \<le> rne_div N D \<longleftrightarrow> (2 * m + 1) * D \<le> 2 * N"
proof -
  assume D: "0 < D" and m: "odd m" "m \<le> N div D"
  define q r where "q = N div D" and "r = N mod D"
  have N: "N = q * D + r" and r: "r < D" unfolding q_def r_def using D by simp_all
  show ?thesis
  proof (cases "m = q")
    case True
    have "(2 * m + 1) * D \<le> 2 * N \<longleftrightarrow> D \<le> 2 * r" by (simp add: N True algebra_simps)
    moreover have "m + 1 \<le> rne_div N D \<longleftrightarrow> D \<le> 2 * r"
      using m(1) True by (auto simp: rne_div_def Let_def simp flip: q_def r_def)
    ultimately show ?thesis by simp
  next
    case False
    then have "m + 1 \<le> q" using m(2) by (simp add: q_def)
    then have "(m + 1) * D \<le> q * D" by (rule mult_le_mono1)
    then have "(2 * m + 1) * D \<le> 2 * N" by (simp add: N algebra_simps)
    moreover have "m + 1 \<le> rne_div N D" using \<open>m + 1 \<le> q\<close> by (simp add: rne_div_def Let_def flip: q_def)
    ultimately show ?thesis by simp
  qed
qed

lemma tf_enc_overflow:
  fixes N D :: nat
  assumes D: "0 < D"
  shows "32767 * 2 ^ 112 \<le> tf_enc N D \<longleftrightarrow> tf_overflows N D"
proof -
  define e where "e = floorlog 2 (N div D) - 113"
  define D' where "D' = D * 2 ^ e"
  define r where "r = rne_div N D'"
  note F = tf_enc_parts [OF D, of N, folded e_def, folded D'_def, folded r_def]
  have D': "0 < D'" using D by (simp add: D'_def)
  consider "32766 \<le> e" | "e = 32765" | "e < 32765" by linarith
  then show ?thesis
  proof cases
    case 1
    then have "0 < e" by simp
    then have "32767 * 2 ^ 112 \<le> tf_enc N D"
      using 1 F(4) mult_le_mono1 [of 32766 e "2 ^ 112"] unfolding F(1) by linarith
    moreover have "tf_overflows N D"
    proof -
      have "2 ^ 112 * D' \<le> N" using F(3) [OF \<open>0 < e\<close>] D' by (simp add: less_eq_div_iff_mult_less_eq)
      moreover have "2 * tf_huge \<le> 2 ^ e"
        unfolding tf_huge_def power_Suc [symmetric] using 1 by (intro power_increasing) simp_all
      then have "2 ^ 112 * (2 * tf_huge * D) \<le> 2 ^ 112 * D'" unfolding D'_def by (simp add: mult.commute)
      ultimately have "2 ^ 114 * tf_huge * D \<le> 2 * N" by simp
      moreover have "(2 ^ 114 - 1) * tf_huge * D \<le> 2 ^ 114 * tf_huge * D" by (intro mult_le_mono1) simp
      ultimately show ?thesis unfolding tf_overflows_def by linarith
    qed
    ultimately show ?thesis by simp
  next
    case 2
    have "32767 * 2 ^ 112 \<le> tf_enc N D \<longleftrightarrow> 2 ^ 113 \<le> r" unfolding F(1) 2 by simp
    also have "\<dots> \<longleftrightarrow> (2 * (2 ^ 113 - 1) + 1) * D' \<le> 2 * N"
    proof (cases "2 ^ 113 - 1 \<le> N div D'")
      case True
      have "odd (2 ^ 113 - 1 :: nat)" by simp
      from rne_top [OF D' this True] show ?thesis by (simp add: r_def)
    next
      case False
      then have q: "N div D' + 1 \<le> 2 ^ 113 - 1" by simp
      have "N < (N div D' + 1) * D'" using D' by (simp add: dividend_less_div_times)
      also have "\<dots> \<le> (2 ^ 113 - 1) * D'" using q by (rule mult_le_mono1)
      finally have "2 * N < (2 * (2 ^ 113 - 1) + 1) * D'" by simp
      moreover have "r \<le> N div D' + 1" by (simp add: r_def rne_div_def Let_def)
      ultimately show ?thesis using q by linarith
    qed
    also have "\<dots> \<longleftrightarrow> tf_overflows N D" 
    proof -
      have "2 * (2 ^ 113 - 1) + 1 = (2 ^ 114 - 1 :: nat)" by simp
      then show ?thesis unfolding tf_overflows_def D'_def 2 tf_huge_def by (simp only: mult_ac)
    qed
    finally show ?thesis .
  next
    case 3
    have "e * 2 ^ 112 \<le> 32764 * 2 ^ 112" using 3 by (intro mult_le_mono1) simp
    then have "tf_enc N D < 32767 * 2 ^ 112" using F(5) unfolding F(1) by simp
    moreover have "\<not> tf_overflows N D"
    proof -
      have "N < 2 ^ 113 * D'" using F(2) D' by (simp add: div_less_iff_less_mult)
      also have "\<dots> \<le> 2 ^ 112 * (tf_huge * D)"
      proof -
        have "2 * 2 ^ e \<le> tf_huge" unfolding tf_huge_def power_Suc [symmetric] using 3 by (intro power_increasing) simp_all
        then have "2 ^ 112 * (2 * 2 ^ e * D) \<le> 2 ^ 112 * (tf_huge * D)" by simp
        then show ?thesis by (simp add: D'_def mult_ac)
      qed
      also have "2 * (2 ^ 112 * (tf_huge * D)) \<le> (2 ^ 114 - 1) * tf_huge * D" by (simp add: mult_le_mono1 flip: mult.assoc)
      finally show ?thesis by (simp add: tf_overflows_def)
    qed
    ultimately show ?thesis by simp
  qed
qed


text \<open>N/D rounded to binary128: infinity from the overflow threshold on, else a nearest finite number, ties to even\<close>

definition tf_rounded :: "u128_t \<Rightarrow> int \<Rightarrow> nat \<Rightarrow> bool" where
  "tf_rounded x N D \<longleftrightarrow>
     (if tf_overflows (nat \<bar>N\<bar>) D then tf_is_inf x \<and> (tf_sign x = 1 \<longleftrightarrow> N < 0)
      else tf_finite x \<and> tf_nearest x N D)"

lemma enc_rounded:
  assumes v: "u128_val x = min (32767 * 2 ^ 112) (tf_enc N D) + s * 2 ^ 127" and s: "s \<le> 1" and D: "0 < D"
  shows "tf_rounded x ((if s = 1 then - 1 else 1) * int N) D"
proof -
  have lt: "min (32767 * 2 ^ 112) (tf_enc N D) < 2 ^ 127" by (rule min.strict_coboundedI1) simp
  have low: "tf_low x = min (32767 * 2 ^ 112) (tf_enc N D)" and sg: "tf_sign x = s"
    unfolding tf_low_def tf_sign_def v using lt by simp_all
  have ex: "tf_low x div 2 ^ 112 = tf_expo x" "tf_low x mod 2 ^ 112 = tf_frac x"
    unfolding tf_low_fields(1) by (simp_all add: tf_frac_def)
  have a: "nat \<bar>(if s = 1 then - 1 else 1) * int N\<bar> = N" by simp
  show ?thesis
  proof (cases "32767 * 2 ^ 112 \<le> tf_enc N D")
    case True
    then have l: "tf_low x = 32767 * 2 ^ 112" unfolding low by (rule min.absorb1)
    have o: "tf_overflows N D" using True tf_enc_overflow [OF D] by simp
    then have "0 < N" using D tf_huge_pos by (cases "N = 0") (auto simp: tf_overflows_def)
    then show ?thesis using o ex s unfolding tf_rounded_def a by (auto simp: l sg tf_is_inf_def)
  next
    case False
    then have "tf_expo x \<noteq> 32767"
      using ex(1) by (simp add: low min_def)
    then have "tf_finite x" by (simp add: tf_finite_def)
    then show ?thesis using False tf_enc_overflow [OF D] enc_nearest [OF v s _ D] unfolding tf_rounded_def a by simp
  qed
qed

lemma mult_rounded:
  assumes "tf_finite a" "tf_finite b"
  shows "tf_rounded (multf3 a b) (tf_sval a * tf_sval b) tf_one"
proof -
  define s where "s = (if tf_sign a = tf_sign b then 0 else (1::nat))"
  have "u128_val (multf3 a b) = min (32767 * 2 ^ 112) (tf_enc (tf_mag a * tf_mag b) tf_one) + s * 2 ^ 127"
    using multf3_finite [OF assms(1,2)] by (simp add: s_def)
  then have "tf_rounded (multf3 a b) ((if s = 1 then - 1 else 1) * int (tf_mag a * tf_mag b)) tf_one"
    by (rule enc_rounded) (simp_all add: s_def)
  moreover have "(if s = 1 then - 1 else 1) * int (tf_mag a * tf_mag b) = tf_sval a * tf_sval b"
    using tf_sign_01 [of a] tf_sign_01 [of b] by (auto simp: s_def tf_sval_def)
  ultimately show ?thesis by (simp only:)
qed

lemma div_rounded:
  assumes "tf_finite a" "tf_finite b" "tf_mag b \<noteq> 0"
  shows "tf_rounded (divtf3 a b) (sgn (tf_sval b) * tf_sval a * int tf_one) (tf_mag b)"
proof -
  define s where "s = (if tf_sign a = tf_sign b then 0 else (1::nat))"
  have "u128_val (divtf3 a b) = min (32767 * 2 ^ 112) (tf_enc (tf_mag a * tf_one) (tf_mag b)) + s * 2 ^ 127"
    using divtf3_finite [OF assms] by (simp add: s_def)
  then have "tf_rounded (divtf3 a b) ((if s = 1 then - 1 else 1) * int (tf_mag a * tf_one)) (tf_mag b)"
    by (rule enc_rounded) (use assms(3) in \<open>simp_all add: s_def\<close>)
  moreover have "(if s = 1 then - 1 else 1) * int (tf_mag a * tf_one) = sgn (tf_sval b) * tf_sval a * int tf_one"
    using tf_sign_01 [of a] tf_sign_01 [of b] assms(3) by (auto simp: s_def tf_sval_def)
  ultimately show ?thesis by (simp only:)
qed

lemma add_rounded:
  assumes "tf_finite a" "tf_finite b" "n = 0 \<or> n = 1"
  shows "tf_rounded (f3_add a b n) (tf_sval a + (if n = 1 then - tf_sval b else tf_sval b)) 1"
proof -
  define S where "S = tf_sval a + (if n = 1 then - tf_sval b else tf_sval b)"
  define s where "s = (if S < 0 \<or> (S = 0 \<and> tf_sign a = 1 \<and> (tf_sign b = 1) \<noteq> (n = 1)) then 1 else (0::nat))"
  have "u128_val (f3_add a b n) = min (32767 * 2 ^ 112) (tf_enc (nat \<bar>S\<bar>) 1) + s * 2 ^ 127"
    using f3_add_finite [OF assms] by (simp add: s_def S_def)
  then have "tf_rounded (f3_add a b n) ((if s = 1 then - 1 else 1) * int (nat \<bar>S\<bar>)) 1"
    by (rule enc_rounded) (simp_all add: s_def)
  moreover have "(if s = 1 then - 1 else 1) * int (nat \<bar>S\<bar>) = S" by (auto simp: s_def)
  ultimately show ?thesis by (simp only: S_def)
qed

end
