(* ===== verification/SoftFloatProps.thy ===== *)
theory SoftFloatProps
  imports SoftFloatSpec
begin

text \<open>
  The properties of the binary128 runtime, each with an application to concrete numbers.
  \<open>tf_of hi lo\<close> is the number with the given high and low words.
\<close>

definition tf_of :: "64 word \<Rightarrow> 64 word \<Rightarrow> u128_t" where
  "tf_of hi lo = \<lparr>ux0 = lo, ux1 = hi\<rparr>"

lemma tf_of_fields:
  "tf_expo (tf_of hi lo) = unat hi div 2 ^ 48 mod 2 ^ 15" "tf_sign (tf_of hi lo) = unat hi div 2 ^ 63"
  "tf_frac (tf_of hi lo) = unat hi mod 2 ^ 48 * 2 ^ 64 + unat lo"
  using val_div_hi [of "tf_of hi lo" 48] val_div_hi [of "tf_of hi lo" 63] val_mod_hi [of "tf_of hi lo" 48]
  by (simp_all add: tf_expo_def tf_sign_def tf_frac_def tf_of_def)

lemma tf_of_finite: "unat hi div 2 ^ 48 mod 2 ^ 15 < 32767 \<Longrightarrow> tf_finite (tf_of hi lo)"
  by (simp add: tf_finite_def tf_of_fields)

lemma tf_of_mag: "0 < unat hi div 2 ^ 48 mod 2 ^ 15 \<Longrightarrow> tf_mag (tf_of hi lo) \<noteq> 0"
  unfolding tf_mag_def tf_sig_def by (simp add: tf_of_fields)

text \<open>
  C1. Addition, subtraction and multiplication of finite binary128 numbers are correctly rounded: the
  result is the representable number nearest to the exact result (ties to the even significand), or
  the infinity of the right sign exactly when the exact result reaches the overflow threshold.
\<close>

theorem arith_correctly_rounded:
  assumes "tf_finite a" "tf_finite b"
  shows "tf_rounded (addtf3 a b) (tf_sval a + tf_sval b) 1 \<and>
    tf_rounded (subtf3 a b) (tf_sval a - tf_sval b) 1 \<and>
    tf_rounded (multf3 a b) (tf_sval a * tf_sval b) tf_one"
  using add_rounded [OF assms, of 0] add_rounded [OF assms, of 1] mult_rounded [OF assms]
  by (simp add: addtf3_def subtf3_def)

theorem arith_correctly_rounded_witness:
  "tf_rounded (addtf3 (tf_of 0x4000000000000000 0) (tf_of 0xc000800000000000 7))
     (tf_sval (tf_of 0x4000000000000000 0) + tf_sval (tf_of 0xc000800000000000 7)) 1"
  by (rule conjunct1 [OF arith_correctly_rounded]) (rule tf_of_finite, simp)+

text \<open>
  C2. Division of a finite number by a finite non-zero number is correctly rounded in the same sense.
\<close>

theorem div_correctly_rounded:
  assumes "tf_finite a" "tf_finite b" "tf_mag b \<noteq> 0"
  shows "tf_rounded (divtf3 a b) (sgn (tf_sval b) * tf_sval a * int tf_one) (tf_mag b)"
  using assms by (rule div_rounded)

theorem div_correctly_rounded_witness:
  "tf_rounded (divtf3 (tf_of 0x4000000000000000 0) (tf_of 0xc000800000000000 7))
     (sgn (tf_sval (tf_of 0xc000800000000000 7)) * tf_sval (tf_of 0x4000000000000000 0) * int tf_one)
     (tf_mag (tf_of 0xc000800000000000 7))"
  by (rule div_correctly_rounded) (rule tf_of_finite tf_of_mag, simp)+

text \<open>
  C3. The bits of every result with finite operands: the encoding of the rounded magnitude, saturated at
  infinity, and the sign, including the sign of a zero sum (negative only when both operands are).
\<close>

theorem arith_encoding:
  assumes "tf_finite a" "tf_finite b"
  defines "S \<equiv> tf_sval a + tf_sval b"
  shows "u128_val (addtf3 a b) = min (32767 * 2 ^ 112) (tf_enc (nat \<bar>S\<bar>) 1)
      + (if S < 0 \<or> (S = 0 \<and> tf_sign a = 1 \<and> tf_sign b = 1) then 2 ^ 127 else 0) \<and>
    u128_val (multf3 a b) = min (32767 * 2 ^ 112) (tf_enc (tf_mag a * tf_mag b) tf_one)
      + (if tf_sign a = tf_sign b then 0 else 2 ^ 127)"
  using f3_add_finite [OF assms(1,2), of 0] multf3_finite [OF assms(1,2)]
  by (simp add: addtf3_def S_def)

theorem arith_encoding_witness:
  "u128_val (multf3 (tf_of 0x4000000000000000 0) (tf_of 0xc000800000000000 0))
     = min (32767 * 2 ^ 112) (tf_enc (tf_mag (tf_of 0x4000000000000000 0) * tf_mag (tf_of 0xc000800000000000 0)) tf_one) + 2 ^ 127"
proof -
  have "tf_sign (tf_of 0x4000000000000000 0) \<noteq> tf_sign (tf_of 0xc000800000000000 0)"
    by (simp add: tf_of_fields)
  moreover have "tf_finite (tf_of 0x4000000000000000 0)" "tf_finite (tf_of 0xc000800000000000 0)"
    by (rule tf_of_finite, simp)+
  ultimately show ?thesis
    using arith_encoding [of "tf_of 0x4000000000000000 0" "tf_of 0xc000800000000000 0"] by (simp only: if_False)
qed

text \<open>
  C4. An operation with a NaN operand returns a quiet NaN.
\<close>

theorem arith_nan_propagates:
  assumes "tf_is_nan a \<or> tf_is_nan b"
  shows "tf_quiet_nan (addtf3 a b) \<and> tf_quiet_nan (subtf3 a b) \<and> tf_quiet_nan (multf3 a b) \<and> tf_quiet_nan (divtf3 a b)"
  using assms by (rule arith_nan)

theorem arith_nan_propagates_witness:
  "tf_quiet_nan (multf3 (tf_of 0x4000000000000000 0) (tf_of 0x7fff000000000000 1))"
  using arith_nan_propagates [of "tf_of 0x4000000000000000 0" "tf_of 0x7fff000000000000 1"]
  by (simp add: tf_is_nan_def tf_of_fields)

text \<open>
  Infinite operands: opposite infinities add to NaN, infinity times zero and infinity over infinity
  are NaN, a finite number over infinity is a signed zero, everything else an infinity of the right
  sign; a non-zero finite number over zero is a signed infinity and zero over zero is NaN.
\<close>

theorem arith_infinities:
  assumes "\<not> tf_is_nan a" "\<not> tf_is_nan b"
  defines "s \<equiv> sgn_of a XOR sgn_of b"
  shows "(tf_is_inf a \<and> tf_is_inf b \<longrightarrow>
      addtf3 a b = (if tf_sign a = tf_sign b then f3_infinity (sgn_of a) else f3_NaN) \<and>
      multf3 a b = f3_infinity s \<and> divtf3 a b = f3_NaN) \<and>
    (tf_is_inf a \<and> tf_finite b \<longrightarrow> addtf3 a b = f3_infinity (sgn_of a) \<and>
      multf3 a b = (if tf_mag b = 0 then f3_NaN else f3_infinity s) \<and> divtf3 a b = f3_infinity s) \<and>
    (tf_finite a \<and> tf_is_inf b \<longrightarrow> addtf3 a b = f3_infinity (sgn_of b) \<and>
      multf3 a b = (if tf_mag a = 0 then f3_NaN else f3_infinity s) \<and> divtf3 a b = f3_zero s) \<and>
    (tf_finite a \<and> tf_finite b \<and> tf_mag b = 0 \<longrightarrow> divtf3 a b = (if tf_mag a = 0 then f3_NaN else f3_infinity s))"
  using arith_special [OF assms(1,2)] by (simp add: s_def)

theorem arith_infinities_witness:
  "divtf3 (tf_of 0x4000000000000000 0) (tf_of 0xffff000000000000 0) = f3_zero 1"
  using arith_infinities [of "tf_of 0x4000000000000000 0" "tf_of 0xffff000000000000 0"]
  by (simp add: tf_is_nan_def tf_is_inf_def tf_finite_def tf_of_fields sgn_of_def)

text \<open>
  C5. The widening conversions always return, and exactly: sign and value are those of the argument,
  infinities stay infinities and NaNs become quiet NaNs.
\<close>

theorem extend_exact:
  "\<exists>x y. extendsftf2 a = Some x \<and> extenddftf2 b = Some y \<and>
    tf_sign x = bin_sign 23 8 (unat a) \<and> tf_sign y = bin_sign 52 11 (unat b) \<and>
    (if bin_expo 23 8 (unat a) = 255 then (if bin_frac 23 (unat a) = 0 then tf_is_inf x else tf_quiet_nan x)
     else tf_finite x \<and> tf_mag x = bin_mag 23 8 (unat a) * sf_unit) \<and>
    (if bin_expo 52 11 (unat b) = 2047 then (if bin_frac 52 (unat b) = 0 then tf_is_inf y else tf_quiet_nan y)
     else tf_finite y \<and> tf_mag y = bin_mag 52 11 (unat b) * df_unit)"
  using extendsftf2_spec [of a] extenddftf2_spec [of b] by blast

text \<open>
  C6. The narrowing conversions round to nearest, ties to even, and overflow to infinity; the sign is kept.
\<close>

theorem trunc_rounds:
  assumes "\<not> tf_is_nan f"
  shows "unat (trunctfsf2 f) = min (255 * 2 ^ 23) (bin_enc 23 (tf_mag f) sf_unit) + tf_sign f * 2 ^ 31 \<and>
    unat (trunctfdf2 f) = min (2047 * 2 ^ 52) (bin_enc 52 (tf_mag f) df_unit) + tf_sign f * 2 ^ 63"
  using trunctfsf2_spec [OF assms] trunctfdf2_spec [OF assms] by blast

theorem trunc_rounds_witness:
  "unat (trunctfsf2 (tf_of 0xbfff000001000000 0))
     = min (255 * 2 ^ 23) (bin_enc 23 (tf_mag (tf_of 0xbfff000001000000 0)) sf_unit) + 2 ^ 31 \<and>
   trunctfsf2 (tf_of 0xbfff000001000000 0) = 0xbf800000"
proof
  show "unat (trunctfsf2 (tf_of 0xbfff000001000000 0))
     = min (255 * 2 ^ 23) (bin_enc 23 (tf_mag (tf_of 0xbfff000001000000 0)) sf_unit) + 2 ^ 31"
    using trunc_rounds [of "tf_of 0xbfff000001000000 0"] by (simp add: tf_is_nan_def tf_of_fields)
  show "trunctfsf2 (tf_of 0xbfff000001000000 0) = 0xbf800000" by code_simp
qed

text \<open>
  C7. Narrowing undoes widening, on every binary32 and binary64 number that is not a NaN.
\<close>

theorem trunc_extend:
  assumes "bin_expo 23 8 (unat a) \<noteq> 255 \<or> bin_frac 23 (unat a) = 0"
    and "bin_expo 52 11 (unat b) \<noteq> 2047 \<or> bin_frac 52 (unat b) = 0"
  shows "map_option trunctfsf2 (extendsftf2 a) = Some a \<and> map_option trunctfdf2 (extenddftf2 b) = Some b"
  using trunc_extend_sf [OF assms(1)] trunc_extend_df [OF assms(2)] by blast

theorem trunc_extend_witness:
  "map_option trunctfsf2 (extendsftf2 0x00000001) = Some 0x00000001 \<and>
   map_option trunctfdf2 (extenddftf2 0x7fefffffffffffff) = Some 0x7fefffffffffffff"
  by (rule trunc_extend) (simp_all add: bin_expo_def)

text \<open>
  C8. Conversion to an integer truncates towards zero and saturates at the ends of the type.
\<close>

theorem fix_saturates:
  "sint (fixtfsi f) = (if tf_sign f = 1 then max (- (2 ^ 31)) (- int (tf_int f)) else min (2 ^ 31 - 1) (int (tf_int f))) \<and>
   sint (fixtfdi f) = (if tf_sign f = 1 then max (- (2 ^ 63)) (- int (tf_int f)) else min (2 ^ 63 - 1) (int (tf_int f))) \<and>
   unat (fixunstfsi f) = (if tf_sign f = 1 then 0 else min (2 ^ 32 - 1) (tf_int f)) \<and>
   unat (fixunstfdi f) = (if tf_sign f = 1 then 0 else min (2 ^ 64 - 1) (tf_int f))"
  using fixtfsi_spec [of f] fixtfdi_spec [of f] fixunstf_spec [of f] by blast

text \<open>
  C9. Integers of 32 and 64 bits, signed and unsigned, convert to binary128 exactly and back unchanged.
\<close>

theorem float_exact_roundtrip:
  "tf_sval (floatsitf a) = sint a * int tf_one \<and> tf_sval (floatditf b) = sint b * int tf_one \<and>
   tf_sval (floatunsitf a) = uint a * int tf_one \<and> tf_sval (floatunditf b) = uint b * int tf_one \<and>
   fixtfsi (floatsitf a) = a \<and> fixtfdi (floatditf b) = b \<and>
   fixunstfsi (floatunsitf a) = a \<and> fixunstfdi (floatunditf b) = b"
  using floatsitf_spec [of a] floatditf_spec [of b] floatunsitf_spec [of a] floatunditf_spec [of b]
    fix_float_roundtrip [of a b]
  by (auto simp: tf_sval_def)

text \<open>
  C10. The six comparison routines decide the order of the values (with -0 = +0); a NaN operand makes
  every relation except "not equal" false.
\<close>

theorem compare_orders:
  "(eqtf2 a b = 0) = (\<not> (tf_is_nan a \<or> tf_is_nan b) \<and> tf_sval a = tf_sval b) \<and>
   (netf2 a b = 0) = (\<not> (tf_is_nan a \<or> tf_is_nan b) \<and> tf_sval a = tf_sval b) \<and>
   (lttf2 a b < 0) = (\<not> (tf_is_nan a \<or> tf_is_nan b) \<and> tf_sval a < tf_sval b) \<and>
   (letf2 a b \<le> 0) = (\<not> (tf_is_nan a \<or> tf_is_nan b) \<and> tf_sval a \<le> tf_sval b) \<and>
   (gttf2 a b > 0) = (\<not> (tf_is_nan a \<or> tf_is_nan b) \<and> tf_sval a > tf_sval b) \<and>
   (getf2 a b \<ge> 0) = (\<not> (tf_is_nan a \<or> tf_is_nan b) \<and> tf_sval a \<ge> tf_sval b)"
  by (intro conjI; simp add: eqtf2_def netf2_def lttf2_def letf2_def gttf2_def getf2_def f3_cmp_spec; linarith?)

end
