(* ===== verification/WordFields.thy ===== *)
theory WordFields
  imports Prelude
begin

text \<open>
  Fields of machine words. Instruction words are built by or-ing shifted fields and read by shifting and
  truncating; the collection \<open>fields\<close> turns a read of a built word into the field itself. A mask written
  in the code as a number is read as \<open>take_bit\<close> by the rules of the collection \<open>masks\<close>.
\<close>

unbundle bit_operations_syntax

named_theorems masks \<open>conjunction with a number of the form 2 ^ n - 1\<close>
named_theorems fields \<open>reading the field of a word built from fields\<close>

lemma mask_literals [masks]:
  fixes x :: "'a::len word"
  shows "x AND 1 = take_bit 1 x" "x AND 3 = take_bit 2 x" "x AND 7 = take_bit 3 x"
    "x AND 15 = take_bit 4 x" "x AND 31 = take_bit 5 x" "x AND 63 = take_bit 6 x"
    "x AND 127 = take_bit 7 x" "x AND 255 = take_bit 8 x" "x AND 1023 = take_bit 10 x"
    "x AND 4095 = take_bit 12 x" "x AND 65535 = take_bit 16 x" "x AND 1048575 = take_bit 20 x"
  by (simp_all add: take_bit_eq_mask mask_numeral mask_Suc_0)

lemma field_or [fields]:
  "(ucast (drop_bit k (a OR b)) :: 'b::len word) = ucast (drop_bit k a) OR ucast (drop_bit k b)"
  for a b :: "'a::len word"
  by (intro bit_word_eqI) (auto simp: bit_simps dest: bit_imp_le_length)

lemma field_or_0 [fields]: "(ucast (a OR b) :: 'b::len word) = ucast a OR ucast b" for a b :: "'a::len word"
  by (intro bit_word_eqI) (auto simp: bit_simps dest: bit_imp_le_length)

lemma field_push_same [fields]:
  "j + LENGTH('b) \<le> LENGTH('a) \<Longrightarrow>
    (ucast (drop_bit j (push_bit j a)) :: 'b::len word) = ucast a" for a :: "'a::len word"
  by (intro bit_word_eqI) (auto simp: bit_simps dest: bit_imp_le_length)

lemma field_push_above [fields]:
  "k + LENGTH('b) \<le> j \<Longrightarrow> (ucast (drop_bit k (push_bit j a)) :: 'b::len word) = 0"
  for a :: "'a::len word"
  by (intro bit_word_eqI) (auto simp: bit_simps)

lemma field_push_above_0 [fields]:
  "LENGTH('b) \<le> j \<Longrightarrow> (ucast (push_bit j a) :: 'b::len word) = 0" for a :: "'a::len word"
  by (intro bit_word_eqI) (auto simp: bit_simps)

lemma field_push_below [fields]:
  "j + m \<le> k \<Longrightarrow> drop_bit k (push_bit j (take_bit m a)) = 0" for a :: "'a::len word"
  by (intro bit_word_eqI) (auto simp: bit_simps)

lemma field_drop_take [fields]: "m \<le> k \<Longrightarrow> drop_bit k (take_bit m a) = 0" for a :: "'a::len word"
  by (intro bit_word_eqI) (auto simp: bit_simps)

lemma field_take [fields]:
  "LENGTH('b) \<le> m \<Longrightarrow> (ucast (take_bit m a) :: 'b::len word) = ucast a" for a :: "'a::len word"
  by (intro bit_word_eqI) (auto simp: bit_simps dest: bit_imp_le_length)

lemma ucast_ucast_down [fields]:
  "LENGTH('c) \<le> LENGTH('b) \<Longrightarrow> (ucast (ucast a :: 'b::len word) :: 'c::len word) = ucast a"
  for a :: "'a::len word"
  by (intro bit_word_eqI) (auto simp: bit_simps dest: bit_imp_le_length)

lemma drop_ucast [fields]: "LENGTH('b) \<le> n \<Longrightarrow> drop_bit n (ucast x :: 'a::len word) = 0" for x :: "'b::len word"
  by (intro bit_word_eqI) (auto simp: bit_simps dest: bit_imp_le_length)

text \<open>Rules of the simplifier turn the mask 1 and shifts by 1 into arithmetic.\<close>

lemma word_mod2: "x mod 2 = x AND 1" for x :: "'a::len word"
  by (simp add: and_one_eq)

lemma field_mod2 [fields]:
  "(ucast (x mod 2) :: 1 word) = ucast x"
  "0 < k \<Longrightarrow> drop_bit k (x mod 2) = 0"
  "j < k \<Longrightarrow> drop_bit k (push_bit j (x mod 2)) = 0" for x :: "'a::len word"
  unfolding word_mod2 by (auto intro!: bit_word_eqI simp: bit_simps bit_1_iff)

lemma bit_times2: "bit (a * 2) n \<longleftrightarrow> 0 < n \<and> n < LENGTH('a) \<and> bit a (n - 1)" for a :: "'a::len word"
  using bit_double_iff [of a n] by (auto simp: mult.commute)

lemma u32_u64 [fields]: "u32 (u64 x) = x" for x :: "32 word"
  by (simp add: fields)

lemma u32_push [fields]: "u32 (push_bit n v) = push_bit n (u32 v)" for v :: "64 word"
  by (intro bit_word_eqI) (auto simp: bit_simps)

lemma ucast_small:
  "v < 2 ^ LENGTH('b) \<Longrightarrow> LENGTH('b) \<le> LENGTH('a) \<Longrightarrow> ucast (ucast v :: 'b::len word) = v"
  for v :: "'a::len word"
proof -
  assume v: "v < 2 ^ LENGTH('b)" and l: "LENGTH('b) \<le> LENGTH('a)"
  have "ucast (ucast v :: 'b word) = take_bit LENGTH('b) v"
    by (intro bit_word_eqI) (auto simp: bit_simps dest: bit_imp_le_length)
  also have "\<dots> = v" using v by (simp add: take_bit_eq_mask less_mask_eq)
  finally show ?thesis .
qed

section \<open>Truncation of values that fit\<close>

lemma sint_ucast_fits:
  fixes x :: "'a::len word"
  assumes "LENGTH('b::len) \<le> LENGTH('a)" "- (2 ^ (LENGTH('b) - 1)) \<le> sint x" "sint x < 2 ^ (LENGTH('b) - 1)"
  shows "sint (ucast x :: 'b word) = sint x"
proof -
  have "sint (ucast x :: 'b word) = signed_take_bit (LENGTH('b) - 1) (sint x)"
    using assms(1) by (simp add: signed_ucast_eq sint_uint [of x])
  also have "\<dots> = sint x" using assms(2,3) by (simp add: signed_take_bit_int_eq_self)
  finally show ?thesis .
qed

lemma scast_ucast_fits:
  fixes x :: "'a::len word"
  assumes "LENGTH('b::len) \<le> LENGTH('a)" "- (2 ^ (LENGTH('b) - 1)) \<le> sint x" "sint x < 2 ^ (LENGTH('b) - 1)"
  shows "scast (ucast x :: 'b word) = x"
  using sint_ucast_fits [OF assms] by (metis of_int_sint scast_id)

section \<open>Comparing words bit by bit\<close>

lemma bits_eqI: "list_all (\<lambda>n. bit a n = bit b n) [0..<LENGTH('a)] \<Longrightarrow> a = b" for a b :: "'a::len word"
  by (rule bit_word_eqI) (auto simp: list_all_iff)

lemma all_upt_numeral: "2 < (numeral k :: nat) \<Longrightarrow> list_all P [0..<numeral k] \<longleftrightarrow> P 0 \<and> P 1 \<and> list_all P [2..<numeral k]"
proof -
  assume "2 < (numeral k :: nat)"
  then have "0 < (numeral k :: nat)" "Suc 0 < numeral k" by linarith+
  then have "[0..<numeral k] = 0 # Suc 0 # [Suc (Suc 0)..<numeral k]" by (simp only: upt_conv_Cons)
  then show ?thesis by (simp only: list.pred_inject One_nat_def numeral_2_eq_2)
qed

lemma bit_beyond: "LENGTH('a::len) \<le> n \<Longrightarrow> bit (w :: 'a word) n = False"
  by (auto dest: bit_imp_le_length)

lemmas each_bit = all_upt_numeral upt_rec_numeral bit_simps bit_times2 bit_1_iff word_mod2

end
