(* ===== verification/TccMem.thy ===== *)
theory TccMem
  imports WordFields
begin

text \<open>
  Bytes in sections: the little-endian accessors of \<open>tcc.h\<close> (\<open>read16le\<close> to \<open>add64le\<close>) and the growing
  of a section's buffer in \<open>tccelf.c\<close>. A section's \<open>data\<close> pointer is the list of its allocated bytes.
  The locale \<open>le_access\<close> is the interface the code generator, the assembler and the linker use: what a
  read returns after a write, and that a write leaves the other bytes alone.
\<close>

unbundle bit_operations_syntax

section \<open>Little-endian accessors\<close>

definition read16le :: "8 word list \<Rightarrow> nat \<Rightarrow> 16 word" where
  "read16le p i = u16 (p ! i) OR push_bit 8 (u16 (p ! (i + 1)))"

definition write16le :: "8 word list \<Rightarrow> nat \<Rightarrow> 16 word \<Rightarrow> 8 word list" where
  "write16le p i x =
    (p[i := u8 (x AND 255)])[i + 1 := u8 (drop_bit 8 x AND 255)]"

definition read32le :: "8 word list \<Rightarrow> nat \<Rightarrow> 32 word" where
  "read32le p i = u32 (read16le p i) OR push_bit 16 (u32 (read16le p (i + 2)))"

definition write32le :: "8 word list \<Rightarrow> nat \<Rightarrow> 32 word \<Rightarrow> 8 word list" where
  "write32le p i x =
    write16le (write16le p i (u16 x)) (i + 2) (u16 (drop_bit 16 x))"

definition add32le :: "8 word list \<Rightarrow> nat \<Rightarrow> 32 word \<Rightarrow> 8 word list" where
  "add32le p i x = write32le p i (read32le p i + x)"

definition read64le :: "8 word list \<Rightarrow> nat \<Rightarrow> 64 word" where
  "read64le p i = u64 (read32le p i) OR push_bit 32 (u64 (read32le p (i + 4)))"

definition write64le :: "8 word list \<Rightarrow> nat \<Rightarrow> 64 word \<Rightarrow> 8 word list" where
  "write64le p i x =
    write32le (write32le p i (u32 x)) (i + 4) (u32 (drop_bit 32 x))"

definition add64le :: "8 word list \<Rightarrow> nat \<Rightarrow> 64 word \<Rightarrow> 8 word list" where
  "add64le p i x = write64le p i (read64le p i + x)"

section \<open>The interface\<close>

locale le_access =
  fixes rd :: "8 word list \<Rightarrow> nat \<Rightarrow> 'w::len word"
    and wr :: "8 word list \<Rightarrow> nat \<Rightarrow> 'w word \<Rightarrow> 8 word list"
    and size :: nat
  assumes rd_wr: "i + size \<le> length p \<Longrightarrow> rd (wr p i x) i = x"
    and length_wr: "length (wr p i x) = length p"
    and nth_wr: "j < i \<or> i + size \<le> j \<Longrightarrow> wr p i x ! j = p ! j"
    and rd_cong: "(\<And>j. i \<le> j \<Longrightarrow> j < i + size \<Longrightarrow> p ! j = q ! j) \<Longrightarrow> rd p i = rd q i"
begin

lemma rd_wr_other: "i + size \<le> j \<or> j + size \<le> i \<Longrightarrow> rd (wr p i x) j = rd p j"
  by (rule rd_cong) (auto intro!: nth_wr)

lemma rd_append: "i + size \<le> length p \<Longrightarrow> rd (p @ q) i = rd p i"
  by (rule rd_cong) (simp add: nth_append)

lemma take_wr: "n \<le> i \<Longrightarrow> take n (wr p i x) = take n p"
  by (rule nth_equalityI) (auto simp: length_wr nth_wr)

lemma drop_wr: "i + size \<le> n \<Longrightarrow> drop n (wr p i x) = drop n p"
  by (rule nth_equalityI) (auto simp: length_wr nth_wr)

lemma modify: "i + size \<le> length p \<Longrightarrow> rd (wr p i (f (rd p i))) i = f (rd p i)"
  by (rule rd_wr)

end

lemma word_split:
  "ucast (ucast x :: 'b word) OR push_bit LENGTH('b) (ucast (ucast (drop_bit LENGTH('b) x) :: 'b word)) = x"
  if "LENGTH('a) = 2 * LENGTH('b::len)" for x :: "'a::len word"
  using that by (intro bit_word_eqI) (auto simp: bit_simps)

interpretation le16: le_access read16le write16le 2
proof
  fix i x and p :: "8 word list"
  assume "i + 2 \<le> length p"
  then show "read16le (write16le p i x) i = x"
    unfolding read16le_def write16le_def
    by (intro bit_word_eqI) (auto simp: masks bit_simps)
qed (auto simp: read16le_def write16le_def)

interpretation le32: le_access read32le write32le 4
proof
  fix i x and p :: "8 word list"
  assume "i + 4 \<le> length p"
  then show "read32le (write32le p i x) i = x"
    unfolding read32le_def write32le_def
    using word_split [where 'a=32 and 'b=16, of x]
    by (simp add: le16.rd_wr le16.rd_wr_other le16.length_wr)
next
  fix i x j and p :: "8 word list"
  show "j < i \<or> i + 4 \<le> j \<Longrightarrow> write32le p i x ! j = p ! j"
    unfolding write32le_def by (subst le16.nth_wr, arith)+ (rule refl)
next
  fix i and p q :: "8 word list"
  assume "\<And>j. i \<le> j \<Longrightarrow> j < i + 4 \<Longrightarrow> p ! j = q ! j"
  then have "read16le p i = read16le q i" "read16le p (i + 2) = read16le q (i + 2)"
    by (auto intro!: le16.rd_cong)
  then show "read32le p i = read32le q i" by (simp add: read32le_def)
qed (simp add: write32le_def le16.length_wr)

interpretation le64: le_access read64le write64le 8
proof
  fix i x and p :: "8 word list"
  assume "i + 8 \<le> length p"
  then show "read64le (write64le p i x) i = x"
    unfolding read64le_def write64le_def
    using word_split [where 'a=64 and 'b=32, of x]
    by (simp add: le32.rd_wr le32.rd_wr_other le32.length_wr)
next
  fix i x j and p :: "8 word list"
  show "j < i \<or> i + 8 \<le> j \<Longrightarrow> write64le p i x ! j = p ! j"
    unfolding write64le_def by (subst le32.nth_wr, arith)+ (rule refl)
next
  fix i and p q :: "8 word list"
  assume "\<And>j. i \<le> j \<Longrightarrow> j < i + 8 \<Longrightarrow> p ! j = q ! j"
  then have "read32le p i = read32le q i" "read32le p (i + 4) = read32le q (i + 4)"
    by (auto intro!: le32.rd_cong)
  then show "read64le p i = read64le q i" by (simp add: read64le_def)
qed (simp add: write64le_def le32.length_wr)

end
