(* ===== verification/Emit.thy ===== *)
theory Emit
  imports TccMem
begin

text \<open>
  Sections and the emission of code. \<open>sec\<close> is the part of \<open>Section\<close> the RISC-V back end uses, with the
  operations of \<open>tccelf.c\<close> that grow it; \<open>cg\<close> holds the globals of the code generator that emission
  reads and writes: \<open>cur_text_section\<close>, \<open>ind\<close>, \<open>nocode_wanted\<close> and the relocations of the text section.
  \<open>o_emit\<close> is \<open>o\<close> of \<open>riscv64-gen.c\<close>; \<open>g\<close>, \<open>gen_le16\<close> and \<open>gen_le32\<close> are those of \<open>riscv64-asm.c\<close>. The locale
  \<open>emitter\<close> states what they share. A call of \<open>tcc_error\<close> or a failed \<open>assert\<close> is a value of \<open>cc_error\<close>.
\<close>

unbundle bit_operations_syntax

section \<open>Errors\<close>

datatype cc_error = TccError string | AssertFailed

type_synonym 'a result = "cc_error + 'a"

definition assert_c :: "bool \<Rightarrow> 's \<Rightarrow> 's result" where
  "assert_c p s = (if p then Inr s else Inl AssertFailed)"

primrec bindr :: "'a result \<Rightarrow> ('a \<Rightarrow> 'b result) \<Rightarrow> 'b result" where
  "bindr (Inl e) f = Inl e"
| "bindr (Inr x) f = f x"

primrec run :: "('s \<Rightarrow> 's result) list \<Rightarrow> 's \<Rightarrow> 's result" where
  "run [] s = Inr s"
| "run (c # cs) s = bindr (c s) (run cs)"

lemma bindr_eq_Inr: "bindr m f = Inr y \<longleftrightarrow> (\<exists>x. m = Inr x \<and> f x = Inr y)"
  by (cases m) auto

lemma bindr_assoc [simp]: "bindr (bindr m f) g = bindr m (\<lambda>x. bindr (f x) g)"
  by (cases m) auto

lemma bindr_Inr [simp]: "bindr m Inr = m"
  by (cases m) auto

lemma run_append: "run (cs @ ds) s = bindr (run cs s) (run ds)"
proof (induction cs arbitrary: s)
  case (Cons c cs)
  then show ?case by (cases "c s") simp_all
qed simp

section \<open>Sections\<close>

record sec =
  sec_data :: "8 word list"
  data_offset :: nat
  data_allocated :: nat
  sh_addralign :: nat
  sh_nobits :: bool

text \<open>The buffer holds \<open>data_allocated\<close> bytes, and a section with contents is used within it.\<close>

definition sec_wf :: "'a sec_scheme \<Rightarrow> bool" where
  "sec_wf s \<longleftrightarrow> length (sec_data s) = data_allocated s \<and> (\<not> sh_nobits s \<longrightarrow> data_offset s \<le> data_allocated s)"

function grow_size :: "nat \<Rightarrow> nat \<Rightarrow> nat" where
  "grow_size sz new_size = (if 0 < sz \<and> sz < new_size then grow_size (sz * 2) new_size else sz)"
  by pat_completeness auto
termination by (relation "measure (\<lambda>(sz, new_size). new_size - sz)") auto

declare grow_size.simps [simp del]

definition section_realloc :: "nat \<Rightarrow> 'a sec_scheme \<Rightarrow> 'a sec_scheme" where
  "section_realloc new_size s =
    (let sz = grow_size (if data_allocated s = 0 then 1 else data_allocated s) new_size
     in s\<lparr>sec_data := sec_data s @ replicate (sz - data_allocated s) 0, data_allocated := sz\<rparr>)"

definition section_add :: "nat \<Rightarrow> nat \<Rightarrow> 'a sec_scheme \<Rightarrow> nat \<times> 'a sec_scheme" where
  "section_add sz align s =
    (let offset = unat ((of_nat (data_offset s) + of_nat align - 1) AND - of_nat align :: 64 word);
         offset1 = offset + sz;
         s1 = (if \<not> sh_nobits s \<and> offset1 > data_allocated s then section_realloc offset1 s else s);
         s2 = s1\<lparr>data_offset := offset1\<rparr>
     in (offset, if align > sh_addralign s then s2\<lparr>sh_addralign := align\<rparr> else s2))"

definition section_ptr_add :: "nat \<Rightarrow> 'a sec_scheme \<Rightarrow> nat \<times> 'a sec_scheme" where
  "section_ptr_add sz s = section_add sz 1 s"

definition section_reserve :: "nat \<Rightarrow> 'a sec_scheme \<Rightarrow> 'a sec_scheme" where
  "section_reserve sz s =
    (let s1 = (if sz > data_allocated s then section_realloc sz s else s)
     in if sz > data_offset s1 then s1\<lparr>data_offset := sz\<rparr> else s1)"

lemma grow_size_ge: "0 < sz \<Longrightarrow> sz \<le> grow_size sz n \<and> n \<le> grow_size sz n"
proof (induction sz n rule: grow_size.induct)
  case (1 sz n)
  show ?case
  proof (cases "sz < n")
    case True
    with 1 have "sz * 2 \<le> grow_size (sz * 2) n \<and> n \<le> grow_size (sz * 2) n" by simp
    with True 1(2) show ?thesis by (subst (1 2) grow_size.simps) auto
  next
    case False
    then show ?thesis by (subst (1 2) grow_size.simps) auto
  qed
qed

text \<open>The buffer never grows beyond twice what was asked for.\<close>

lemma grow_size_less: "0 < sz \<Longrightarrow> sz < n \<Longrightarrow> grow_size sz n < 2 * n"
proof (induction sz n rule: grow_size.induct)
  case (1 sz n)
  show ?case
  proof (cases "sz * 2 < n")
    case True
    with 1 show ?thesis by (subst grow_size.simps) simp
  next
    case False
    with 1(2,3) show ?thesis by (subst grow_size.simps, subst grow_size.simps) simp
  qed
qed

lemma realloc_wf:
  assumes "length (sec_data s) = data_allocated s"
  shows "length (sec_data (section_realloc n s)) = data_allocated (section_realloc n s)"
    and "n \<le> data_allocated (section_realloc n s)"
    and "data_allocated s \<le> data_allocated (section_realloc n s)"
  using assms grow_size_ge [of "if data_allocated s = 0 then 1 else data_allocated s" n]
  by (auto simp: section_realloc_def Let_def split: if_splits)

lemma realloc_keeps [simp]:
  "data_offset (section_realloc n s) = data_offset s"
  "sh_nobits (section_realloc n s) = sh_nobits s"
  "sh_addralign (section_realloc n s) = sh_addralign s"
  by (simp_all add: section_realloc_def Let_def)

lemma realloc_data: "\<exists>m. sec_data (section_realloc n s) = sec_data s @ replicate m 0"
  unfolding section_realloc_def Let_def by (rule exI) simp

section \<open>Code emission\<close>

text \<open>A relocation entry refers to a symbol of the program by its number, to an anonymous label of
  the text section (\<open>put_extern_sym (&label, cur_text_section, ind, 0)\<close>), or, where the code hands \<open>greloca\<close> a null
  pointer, to no symbol: the entry's symbol index is then 0.\<close>

datatype symref = SymRef nat | TextLabel nat | NoSym

record cg =
  cur_text_section :: sec
  ind :: nat
  nocode_wanted :: bool

definition cg_wf :: "'a cg_scheme \<Rightarrow> bool" where
  "cg_wf s \<longleftrightarrow> length (sec_data (cur_text_section s)) = data_allocated (cur_text_section s)"

abbreviation code_of :: "'a cg_scheme \<Rightarrow> 8 word list" where
  "code_of s \<equiv> sec_data (cur_text_section s)"

text \<open>Code is well-formed when the next byte goes at most just behind the buffer.\<close>

definition code_inv :: "'a cg_scheme \<Rightarrow> bool" where
  "code_inv s \<longleftrightarrow> cg_wf s \<and> ind s \<le> length (code_of s)"

definition fit_text :: "nat \<Rightarrow> 'a cg_scheme \<Rightarrow> 'a cg_scheme" where
  "fit_text ind1 s =
    (if ind1 > data_allocated (cur_text_section s)
     then s\<lparr>cur_text_section := section_realloc ind1 (cur_text_section s)\<rparr> else s)"

definition put_code :: "(8 word list \<Rightarrow> 8 word list) \<Rightarrow> nat \<Rightarrow> 'a cg_scheme \<Rightarrow> 'a cg_scheme" where
  "put_code f ind1 s =
    s\<lparr>cur_text_section := (cur_text_section s)\<lparr>sec_data := f (code_of s)\<rparr>, ind := ind1\<rparr>"

definition o_emit :: "32 word \<Rightarrow> 'a cg_scheme \<Rightarrow> 'a cg_scheme" where
  "o_emit c s =
    (let ind1 = ind s + 4
     in if nocode_wanted s then s
        else put_code (\<lambda>d. write32le d (ind s) c) ind1 (fit_text ind1 s))"

definition g :: "32 word \<Rightarrow> 'a cg_scheme \<Rightarrow> 'a cg_scheme" where
  "g c s =
    (if nocode_wanted s then s
     else let ind1 = ind s + 1 in put_code (\<lambda>d. d[ind s := u8 c]) ind1 (fit_text ind1 s))"

definition gen_le16 :: "32 word \<Rightarrow> 'a cg_scheme \<Rightarrow> 'a cg_scheme" where
  "gen_le16 i s = g (signed_drop_bit 8 i) (g i s)"

definition gen_le32 :: "32 word \<Rightarrow> 'a cg_scheme \<Rightarrow> 'a cg_scheme" where
  "gen_le32 i s =
    (if nocode_wanted s then s
     else let ind1 = ind s + 4; k = ind s
          in put_code (\<lambda>d. d[k := u8 (i AND 0xFF), k + 1 := u8 (signed_drop_bit 8 i AND 0xFF),
                            k + 2 := u8 (signed_drop_bit 16 i AND 0xFF),
                            k + 3 := u8 (signed_drop_bit 24 i AND 0xFF)]) ind1 (fit_text ind1 s))"

lemma fit_text_keeps [simp]:
  "ind (fit_text n s) = ind s" "nocode_wanted (fit_text n s) = nocode_wanted s"
  "cg.more (fit_text n s) = cg.more s"
  by (simp_all add: fit_text_def)

lemma fit_text_data: "\<exists>m. code_of (fit_text n s) = code_of s @ replicate m 0"
  using realloc_data [of n "cur_text_section s"] by (auto simp: fit_text_def intro: exI [of _ 0])

lemma fit_text_wf: "cg_wf s \<Longrightarrow> cg_wf (fit_text n s) \<and> n \<le> length (code_of (fit_text n s))"
  using realloc_wf [of "cur_text_section s" n] by (auto simp: fit_text_def cg_wf_def)

lemma put_code_simps [simp]:
  "ind (put_code f n s) = n" "code_of (put_code f n s) = f (code_of s)"
  "nocode_wanted (put_code f n s) = nocode_wanted s" "cg.more (put_code f n s) = cg.more s"
  by (simp_all add: put_code_def)

text \<open>What every emitter of a word guarantees: nothing happens when no code is wanted; otherwise the word
  stands at the old \<open>ind\<close>, which moves past it, and the code before is untouched.\<close>

locale emitter = le_access rd wr sz
  for rd :: "8 word list \<Rightarrow> nat \<Rightarrow> 'w::len word" and wr sz +
  fixes emit :: "'w word \<Rightarrow> 'a cg_scheme \<Rightarrow> 'a cg_scheme"
  assumes emit_eq: "cg_wf s \<Longrightarrow> emit c s =
    (if nocode_wanted s then s
     else put_code (\<lambda>d. wr d (ind s) c) (ind s + sz) (fit_text (ind s + sz) s))"
begin

lemma emit_nocode: "cg_wf s \<Longrightarrow> nocode_wanted s \<Longrightarrow> emit c s = s"
  by (simp add: emit_eq)

lemma emit_wf: "cg_wf s \<Longrightarrow> cg_wf (emit c s)"
  using fit_text_wf [of s "ind s + sz"] by (simp add: emit_eq cg_wf_def length_wr put_code_def)

lemma emit_ind: "cg_wf s \<Longrightarrow> \<not> nocode_wanted s \<Longrightarrow> ind (emit c s) = ind s + sz"
  by (simp add: emit_eq)

lemma emit_more: "cg_wf s \<Longrightarrow> cg.more (emit c s) = cg.more s \<and> nocode_wanted (emit c s) = nocode_wanted s"
  by (simp add: emit_eq)

lemma emit_in_bounds:
  "cg_wf s \<Longrightarrow> \<not> nocode_wanted s \<Longrightarrow> ind (emit c s) \<le> length (code_of (emit c s))"
  using fit_text_wf [of s "ind s + sz"] by (simp add: emit_eq length_wr)

lemma emit_code:
  "cg_wf s \<Longrightarrow> \<not> nocode_wanted s \<Longrightarrow> rd (code_of (emit c s)) (ind s) = c"
  using fit_text_wf [of s "ind s + sz"] by (simp add: emit_eq rd_wr)

lemma emit_before:
  assumes "cg_wf s" "ind s \<le> length (code_of s)"
  shows "take (ind s) (code_of (emit c s)) = take (ind s) (code_of s)"
  using assms fit_text_data [of "ind s + sz" s] by (auto simp: emit_eq take_wr)

lemma emit_keeps_word:
  assumes "cg_wf s" "ind s \<le> length (code_of s)" "i + sz \<le> ind s"
  shows "rd (code_of (emit c s)) i = rd (code_of s) i"
proof (rule rd_cong)
  fix j assume "i \<le> j" "j < i + sz"
  then have "j < ind s" using assms(3) by simp
  moreover have "length (code_of s) \<le> length (code_of (emit c s))"
    using fit_text_data [of "ind s + sz" s] assms(1) by (auto simp: emit_eq length_wr)
  ultimately show "code_of (emit c s) ! j = code_of s ! j"
    using emit_before [OF assms(1,2), of c] assms(2) by (metis nth_take)
qed

lemma emit_inv: "code_inv s \<Longrightarrow> code_inv (emit c s)"
  using emit_wf [of s c] emit_in_bounds [of s c] emit_nocode [of s c]
  by (cases "nocode_wanted s") (simp_all add: code_inv_def)

text \<open>Words written one after the other.\<close>

lemma emit_words:
  assumes "code_inv s" "\<not> nocode_wanted s"
  shows "code_inv (fold emit ws s) \<and> ind (fold emit ws s) = ind s + sz * length ws \<and>
    cg.more (fold emit ws s) = cg.more s \<and> \<not> nocode_wanted (fold emit ws s) \<and>
    take (ind s) (code_of (fold emit ws s)) = take (ind s) (code_of s)"
  using assms
proof (induction ws arbitrary: s)
  case (Cons w ws)
  then have s: "cg_wf s" "ind s \<le> length (code_of s)" by (simp_all add: code_inv_def)
  note one = emit_inv [OF Cons.prems(1), of w] emit_ind [OF s(1) Cons.prems(2), of w] emit_more [OF s(1), of w]
    emit_before [OF s, of w]
  have n: "\<not> nocode_wanted (emit w s)" using one(3) Cons.prems(2) by simp
  note IH = Cons.IH [OF one(1) n]
  have "take (ind s) (take (ind s + sz) (code_of (fold emit ws (emit w s)))) = take (ind s) (take (ind s + sz) (code_of (emit w s)))"
    using IH one(2) by simp
  then have "take (ind s) (code_of (fold emit ws (emit w s))) = take (ind s) (code_of s)"
    using one(4) by (simp add: min_def)
  with IH one show ?case by simp
qed simp

lemma emit_words_code:
  assumes "code_inv s" "\<not> nocode_wanted s" "k < length ws"
  shows "rd (code_of (fold emit ws s)) (ind s + sz * k) = ws ! k"
  using assms
proof (induction ws arbitrary: s k)
  case (Cons w ws)
  then have s: "cg_wf s" "ind s \<le> length (code_of s)" by (simp_all add: code_inv_def)
  note one = emit_inv [OF Cons.prems(1), of w] emit_ind [OF s(1) Cons.prems(2), of w] emit_more [OF s(1), of w]
    emit_code [OF s(1) Cons.prems(2), of w]
  have n: "\<not> nocode_wanted (emit w s)" using one(3) Cons.prems(2) by simp
  show ?case
  proof (cases k)
    case 0
    let ?d = "code_of (emit w s)" and ?e = "code_of (fold emit ws (emit w s))"
    have t: "take (ind s + sz) ?e = take (ind s + sz) ?d" and l: "ind s + sz \<le> length ?e" "ind s + sz \<le> length ?d"
      using emit_words [OF one(1) n, of ws] one(1,2) by (simp_all add: code_inv_def)
    have "rd ?e (ind s) = rd ?d (ind s)"
    proof (rule rd_cong)
      fix j assume "ind s \<le> j" "j < ind s + sz"
      then show "?e ! j = ?d ! j" using t by (metis nth_take)
    qed
    with 0 one(4) show ?thesis by simp
  next
    case (Suc j)
    with Cons.IH [OF one(1) n, of j] Cons.prems(3) one(2) show ?thesis by (simp add: algebra_simps)
  qed
qed simp

end

lemma gen_le32_bytes: "d[k := u8 (i AND 0xFF), k + 1 := u8 (signed_drop_bit 8 i AND 0xFF),
    k + 2 := u8 (signed_drop_bit 16 i AND 0xFF), k + 3 := u8 (signed_drop_bit 24 i AND 0xFF)] = write32le d k i"
proof -
  have "u8 (i AND 0xFF) = u8 (u16 i AND 255)"
    "u8 (signed_drop_bit 8 i AND 0xFF) = u8 (drop_bit 8 (u16 i) AND 255)"
    "u8 (signed_drop_bit 16 i AND 0xFF) = u8 (u16 (drop_bit 16 i) AND 255)"
    "u8 (signed_drop_bit 24 i AND 0xFF) = u8 (drop_bit 8 (u16 (drop_bit 16 i)) AND 255)"
    by (auto intro!: bit_word_eqI simp: masks bit_simps min_def)
  then show ?thesis by (simp add: write32le_def write16le_def numeral_3_eq_3)
qed

lemma gen_le16_bytes: "d[k := u8 i, k + 1 := u8 (signed_drop_bit 8 i)] = write16le d k (u16 i)" for i :: "32 word"
proof -
  have "u8 i = u8 (u16 i AND 255)" "u8 (signed_drop_bit 8 i) = u8 (drop_bit 8 (u16 i) AND 255)"
    by (auto intro!: bit_word_eqI simp: masks bit_simps min_def)
  then show ?thesis by (simp add: write16le_def)
qed

interpretation oemit: emitter read32le write32le 4 o_emit
  by unfold_locales (simp add: o_emit_def Let_def)

interpretation gen32: emitter read32le write32le 4 gen_le32
  by unfold_locales (simp add: gen_le32_def Let_def gen_le32_bytes [simplified])

text \<open>Both word emitters are the same operation.\<close>

lemma gen_le32_eq_o_emit: "gen_le32 c s = o_emit c s"
  by (simp add: gen_le32_def o_emit_def Let_def gen_le32_bytes [simplified])

lemma grow_size_double: "0 < sz \<Longrightarrow> sz < n \<Longrightarrow> grow_size sz n = grow_size (sz * 2) n"
  by (subst grow_size.simps) simp

lemma grow_size_twice:
  "0 < sz \<Longrightarrow> n \<le> m \<Longrightarrow> grow_size (grow_size sz n) m = grow_size sz m"
proof (induction sz n rule: grow_size.induct)
  case (1 sz n)
  show ?case
  proof (cases "sz < n")
    case True
    with 1 show ?thesis by (simp add: grow_size_double)
  next
    case False
    then have "grow_size sz n = sz" by (subst grow_size.simps) simp
    then show ?thesis by simp
  qed
qed

lemma section_realloc_eq:
  assumes "a = (if data_allocated s = 0 then 1 else data_allocated s)"
  shows "section_realloc n s = s\<lparr>sec_data := sec_data s @ replicate (grow_size a n - data_allocated s) 0,
    data_allocated := grow_size a n\<rparr>"
  by (simp add: section_realloc_def assms Let_def)

lemma realloc_twice:
  assumes "n \<le> m"
  shows "section_realloc m (section_realloc n s) = section_realloc m s"
proof -
  define a where "a = (if data_allocated s = 0 then 1 else data_allocated s)"
  have a: "0 < a" "data_allocated s \<le> a" by (auto simp: a_def)
  have ge: "a \<le> grow_size a n" "grow_size a n \<le> grow_size a m"
    using grow_size_ge [OF a(1), of n] grow_size_ge [of "grow_size a n" m] a(1) grow_size_twice [OF a(1) assms]
    by auto
  have "grow_size a n = (if data_allocated (section_realloc n s) = 0 then 1 else data_allocated (section_realloc n s))"
    using ge a by (simp add: section_realloc_eq [OF a_def])
  from section_realloc_eq [OF this, of m] ge a show ?thesis
    by (simp add: section_realloc_eq [OF a_def] grow_size_twice [OF a(1) assms] flip: replicate_add)
qed

lemma realloc_update:
  assumes "k < length (sec_data s)"
  shows "section_realloc m (s\<lparr>sec_data := (sec_data s)[k := x]\<rparr>) =
    (section_realloc m s)\<lparr>sec_data := (sec_data (section_realloc m s))[k := x]\<rparr>"
  using assms by (simp add: section_realloc_def Let_def list_update_append1)

lemma realloc_id: "n \<le> data_allocated s \<Longrightarrow> 0 < data_allocated s \<Longrightarrow> section_realloc n s = s"
  by (simp add: section_realloc_def Let_def grow_size.simps)

lemma gen_le16_eq:
  assumes "cg_wf s"
  shows "gen_le16 i s = (if nocode_wanted s then s
     else put_code (\<lambda>d. write16le d (ind s) (u16 i)) (ind s + 2) (fit_text (ind s + 2) s))"
proof (cases "nocode_wanted s")
  case True
  then show ?thesis by (simp add: gen_le16_def g_def)
next
  case False
  let ?t = "cur_text_section s" and ?k = "ind s"
  have l: "length (sec_data ?t) = data_allocated ?t" using assms by (simp add: cg_wf_def)
  note bytes = gen_le16_bytes [of _ ?k i, simplified]
  consider "?k + 2 \<le> data_allocated ?t" | "?k + 1 = data_allocated ?t" | "data_allocated ?t < ?k + 1" by linarith
  then show ?thesis
  proof cases
    case 1
    with False show ?thesis
      by (simp add: gen_le16_def g_def Let_def put_code_def fit_text_def bytes)
  next
    case 2
    with l have "?k < length (sec_data ?t)" by simp
    with False 2 [symmetric] show ?thesis
      by (simp add: gen_le16_def g_def Let_def put_code_def fit_text_def realloc_update bytes)
  next
    case 3
    with realloc_wf [OF l, of "?k + 1"] have "?k < length (sec_data (section_realloc (Suc ?k) ?t))"
      "Suc ?k \<le> data_allocated (section_realloc (Suc ?k) ?t)" by auto
    have r: "section_realloc (Suc (Suc ?k)) ((section_realloc (Suc ?k) ?t)\<lparr>sec_data := (sec_data (section_realloc (Suc ?k) ?t))[?k := x]\<rparr>)
      = (section_realloc (Suc (Suc ?k)) ?t)\<lparr>sec_data := (sec_data (section_realloc (Suc (Suc ?k)) ?t))[?k := x]\<rparr>" for x
      using realloc_update [OF \<open>?k < length (sec_data (section_realloc (Suc ?k) ?t))\<close>] by (simp add: realloc_twice)
    show ?thesis
    proof (cases "Suc (Suc ?k) \<le> data_allocated (section_realloc (Suc ?k) ?t)")
      case True
      then have "section_realloc (Suc (Suc ?k)) ?t = section_realloc (Suc ?k) ?t"
        using realloc_id [OF True] realloc_twice [of "Suc ?k" "Suc (Suc ?k)" ?t] by simp
      with False True 3 show ?thesis
        by (simp add: gen_le16_def g_def Let_def put_code_def fit_text_def bytes)
    next
      case grow: False
      with False 3 show ?thesis
        by (simp add: gen_le16_def g_def Let_def put_code_def fit_text_def r bytes)
    qed
  qed
qed

lemma gen_le16_cong: "u16 i = u16 j \<Longrightarrow> cg_wf s \<Longrightarrow> gen_le16 i s = gen_le16 j s"
  by (simp add: gen_le16_eq)

interpretation gen16: emitter read16le write16le 2 "\<lambda>c. gen_le16 (ucast c)"
  by unfold_locales (simp add: gen_le16_eq fields)

end
