(* ===== verification/AsmTok.thy ===== *)
theory AsmTok
  imports Emit
begin

text \<open>
  The tokens of the RISC-V assembler (\<open>riscv64-tok.h\<close>). A token \<open>TOK_ASM_x\<close> is the string \<open>x\<close>; its number is
  its place in the file, since the code compares token numbers and subtracts them. \<open>token\<close> is what the
  preprocessor hands to the assembler.
\<close>

section \<open>The token table\<close>

definition reg_toks :: "string list" where
  "reg_toks = [''x0'', ''x1'', ''x2'', ''x3'', ''x4'', ''x5'', ''x6'', ''x7'', ''x8'', ''x9'', ''x10'',
    ''x11'', ''x12'', ''x13'', ''x14'', ''x15'', ''x16'', ''x17'', ''x18'', ''x19'', ''x20'',
    ''x21'', ''x22'', ''x23'', ''x24'', ''x25'', ''x26'', ''x27'', ''x28'', ''x29'', ''x30'',
    ''x31'', ''f0'', ''f1'', ''f2'', ''f3'', ''f4'', ''f5'', ''f6'', ''f7'', ''f8'', ''f9'',
    ''f10'', ''f11'', ''f12'', ''f13'', ''f14'', ''f15'', ''f16'', ''f17'', ''f18'', ''f19'',
    ''f20'', ''f21'', ''f22'', ''f23'', ''f24'', ''f25'', ''f26'', ''f27'', ''f28'', ''f29'',
    ''f30'', ''f31'']"

definition abi_toks :: "string list" where
  "abi_toks = [''zero'', ''ra'', ''sp'', ''gp'', ''tp'', ''t0'', ''t1'', ''t2'', ''s0'', ''s1'', ''a0'',
    ''a1'', ''a2'', ''a3'', ''a4'', ''a5'', ''a6'', ''a7'', ''s2'', ''s3'', ''s4'', ''s5'',
    ''s6'', ''s7'', ''s8'', ''s9'', ''s10'', ''s11'', ''t3'', ''t4'', ''t5'', ''t6'', ''ft0'',
    ''ft1'', ''ft2'', ''ft3'', ''ft4'', ''ft5'', ''ft6'', ''ft7'', ''fs0'', ''fs1'', ''fa0'',
    ''fa1'', ''fa2'', ''fa3'', ''fa4'', ''fa5'', ''fa6'', ''fa7'', ''fs2'', ''fs3'', ''fs4'',
    ''fs5'', ''fs6'', ''fs7'', ''fs8'', ''fs9'', ''fs10'', ''fs11'', ''ft8'', ''ft9'', ''ft10'',
    ''ft11'', ''pc'']"

definition base_toks :: "string list" where
  "base_toks = [''lb'', ''lh'', ''lw'', ''lbu'', ''lhu'', ''ld'', ''lwu'', ''sb'', ''sh'', ''sw'', ''sd'',
    ''sll'', ''srl'', ''sra'', ''slli'', ''srli'', ''sllw'', ''slliw'', ''srlw'', ''srliw'',
    ''srai'', ''sraw'', ''sraiw'', ''add'', ''addi'', ''sub'', ''lui'', ''auipc'', ''addw'',
    ''addiw'', ''subw'', ''xor'', ''xori'', ''or'', ''ori'', ''and'', ''andi'', ''slt'', ''slti'',
    ''sltu'', ''sltiu'', ''beq'', ''bne'', ''blt'', ''bge'', ''bltu'', ''bgeu'', ''jal'',
    ''jalr'', ''fence'', ''fence_i'', ''ecall'', ''ebreak'', ''rdcycle'', ''rdcycleh'',
    ''rdtime'', ''rdtimeh'', ''rdinstret'', ''rdinstreth'']"

definition mul_toks :: "string list" where
  "mul_toks = [''mul'', ''mulh'', ''mulhsu'', ''mulhu'', ''div'', ''divu'', ''rem'', ''remu'', ''mulw'',
    ''divw'', ''divuw'', ''remw'', ''remuw'']"

definition c_toks :: "string list" where
  "c_toks = [''c_nop'', ''c_li'', ''c_lw'', ''c_lwsp'', ''c_flw'', ''c_flwsp'', ''c_fld'', ''c_fldsp'',
    ''c_ld'', ''c_ldsp'', ''c_sw'', ''c_sd'', ''c_swsp'', ''c_sdsp'', ''c_fsw'', ''c_fswsp'',
    ''c_fsd'', ''c_fsdsp'', ''c_slli'', ''c_srli'', ''c_srai'', ''c_add'', ''c_addi'',
    ''c_addi16sp'', ''c_addi4spn'', ''c_lui'', ''c_sub'', ''c_mv'', ''c_addw'', ''c_addiw'',
    ''c_subw'', ''c_xor'', ''c_or'', ''c_and'', ''c_andi'', ''c_beqz'', ''c_bnez'', ''c_j'',
    ''c_jr'', ''c_jal'', ''c_jalr'', ''c_ebreak'']"

definition csr_toks :: "string list" where
  "csr_toks = [''csrrw'', ''csrrs'', ''csrrc'', ''csrrwi'', ''csrrsi'', ''csrrci'', ''cycle'', ''fcsr'',
    ''fflags'', ''frm'', ''instret'', ''time'', ''cycleh'', ''instreth'', ''timeh'', ''csrc'',
    ''csrci'', ''csrr'', ''csrs'', ''csrsi'', ''csrw'', ''csrwi'', ''frcsr'', ''frflags'',
    ''frrm'', ''fscsr'', ''fsflags'', ''fsrm'', ''mrts'', ''mrth'', ''hrts'', ''wfi'']"

definition pseudo_toks :: "string list" where
  "pseudo_toks = [''beqz'', ''bgez'', ''bgt'', ''bgtu'', ''bgtz'', ''ble'', ''bleu'', ''blez'', ''bltz'',
    ''bnez'', ''call'', ''fabs_d'', ''fabs_s'', ''fld'', ''flw'', ''fmv_d'', ''fmv_s'',
    ''fneg_d'', ''fneg_s'', ''fsd'', ''fsw'', ''j'', ''jump'', ''jr'', ''la'', ''li'', ''lla'',
    ''mv'', ''neg'', ''negw'', ''nop'', ''not'', ''ret'', ''seqz'', ''sext_w'', ''sgtz'',
    ''sltz'', ''snez'', ''tail'', ''arch'', ''rvc'', ''norvc'', ''pic'', ''nopic'', ''relax'',
    ''norelax'', ''push'', ''pop'']"

definition atomic_toks :: "string list" where
  "atomic_toks = [''lr_w'', ''lr_w_aq'', ''lr_w_rl'', ''lr_w_aqrl'', ''lr_d'', ''lr_d_aq'', ''lr_d_rl'',
    ''lr_d_aqrl'', ''sc_w'', ''sc_w_aq'', ''sc_w_rl'', ''sc_w_aqrl'', ''sc_d'', ''sc_d_aq'',
    ''sc_d_rl'', ''sc_d_aqrl'']"

definition fence_toks :: "string list" where
  "fence_toks = [''w_fence'', ''r_fence'', ''rw_fence'', ''o_fence'', ''ow_fence'', ''or_fence'',
    ''orw_fence'', ''i_fence'', ''iw_fence'', ''ir_fence'', ''irw_fence'', ''io_fence'',
    ''iow_fence'', ''ior_fence'', ''iorw_fence'']"

definition riscv64_toks :: "string list" where
  "riscv64_toks = reg_toks @ abi_toks @ base_toks @ mul_toks @ c_toks @ csr_toks @ pseudo_toks @ atomic_toks @ fence_toks"

fun tok_pos :: "string list \<Rightarrow> string \<Rightarrow> nat" where
  "tok_pos [] s = 0"
| "tok_pos (t # ts) s = (if t = s then 0 else Suc (tok_pos ts s))"

text \<open>\<open>TOK_ASM_x - TOK_ASM_x0\<close>.\<close>

definition tok_num :: "string \<Rightarrow> nat" where
  "tok_num s = tok_pos riscv64_toks s"

datatype token =
  TokAsm string
  | TokIdent string
  | TokPpnum string
  | TokChr "64 word"
  | TokPunct char
  | TokShl | TokSar | TokEq | TokNe | TokLt | TokGe | TokLe | TokGt
  | TokLinefeed
  | TokEof

section \<open>Register and CSR names\<close>

definition asm_parse_regvar :: "token \<Rightarrow> int" where
  "asm_parse_regvar tk = (case tk of
     TokAsm s \<Rightarrow>
       (let t = tok_num s
        in if t \<ge> tok_num ''pc'' \<or> t < tok_num ''x0'' then -1
           else if t < tok_num ''f0'' then int t - int (tok_num ''x0'')
           else if t < tok_num ''zero'' then int t - int (tok_num ''f0'') + 32
           else if t < tok_num ''ft0'' then int t - int (tok_num ''zero'')
           else int t - int (tok_num ''ft0'') + 32)
   | _ \<Rightarrow> -1)"

definition asm_parse_csrvar :: "token \<Rightarrow> int" where
  "asm_parse_csrvar tk = (case tk of
     TokAsm s \<Rightarrow>
       (if s = ''cycle'' then 0xc00
        else if s = ''fcsr'' then 3
        else if s = ''fflags'' then 1
        else if s = ''frm'' then 2
        else if s = ''instret'' then 0xc02
        else if s = ''time'' then 0xc01
        else if s = ''cycleh'' then 0xc80
        else if s = ''instreth'' then 0xc82
        else if s = ''timeh'' then 0xc81
        else -1)
   | _ \<Rightarrow> -1)"

lemma tok_pos_nth: "distinct ts \<Longrightarrow> i < length ts \<Longrightarrow> tok_pos ts (ts ! i) = i"
  by (induction ts arbitrary: i) (auto simp: nth_Cons split: nat.splits)

lemma tok_pos_append: "tok_pos (ts @ us) s = (if s \<in> set ts then tok_pos ts s else length ts + tok_pos us s)"
  by (induction ts) auto

lemma distinct_reg_toks: "distinct (reg_toks @ abi_toks)"
  by code_simp

lemma length_reg_toks: "length reg_toks = 64" "length abi_toks = 65"
  by code_simp+

lemma tok_num_reg:
  assumes "i < 129"
  shows "tok_num ((reg_toks @ abi_toks) ! i) = i"
proof -
  define rest where "rest = base_toks @ mul_toks @ c_toks @ csr_toks @ pseudo_toks @ atomic_toks @ fence_toks"
  have "(reg_toks @ abi_toks) ! i \<in> set (reg_toks @ abi_toks)"
    using assms by (intro nth_mem) (simp add: length_reg_toks)
  then have "tok_pos ((reg_toks @ abi_toks) @ rest) ((reg_toks @ abi_toks) ! i) = i"
    using tok_pos_nth [OF distinct_reg_toks, of i] assms
    by (simp only: tok_pos_append [of "reg_toks @ abi_toks"] if_True length_append length_reg_toks)
  then show ?thesis by (simp add: tok_num_def riscv64_toks_def rest_def)
qed

lemma tok_num_values:
  "tok_num ''x0'' = 0" "tok_num ''f0'' = 32" "tok_num ''zero'' = 64" "tok_num ''ft0'' = 96" "tok_num ''pc'' = 128"
  by code_simp+

lemma regvar_of_nth:
  assumes "i < 128"
  shows "asm_parse_regvar (TokAsm ((reg_toks @ abi_toks) ! i)) = int (i mod 64)"
proof -
  consider "i < 32" | "32 \<le> i" "i < 64" | "64 \<le> i" "i < 96" | "96 \<le> i" using assms by linarith
  then show ?thesis
    using assms by cases (simp_all add: asm_parse_regvar_def tok_num_reg tok_num_values le_mod_geq)
qed

lemma regvar_range: "asm_parse_regvar t \<in> {-1..63}"
  by (auto simp: asm_parse_regvar_def tok_num_values Let_def split: token.splits)

end
