(* ===== verification/RvSpec.thy ===== *)
theory RvSpec
  imports WordFields
begin

text \<open>
  The target of the compiler, as the RISC-V instruction set manual has it and independent of the
  program: the instructions of RV64I with the extensions M, A (load reserved and store conditional), Zicsr,
  Zifencei and the loads, stores and computations of F and D, and their 32-bit encoding, read by \<open>decode\<close>.
  What the assembler, the code generator and the linker write is judged by what these
  definitions read.
\<close>

unbundle bit_operations_syntax

section \<open>Instructions\<close>

datatype width = WByte | WHalf | WWord | WDouble

datatype alu =
  Add | Sub | Sll | Slt | Sltu | Xor | Srl | Sra | Or | And
  | Mul | Mulh | Mulhsu | Mulhu | Div | Divu | Rem | Remu

datatype cond = Beq | Bne | Blt | Bge | Bltu | Bgeu

datatype csrop = Csrrw | Csrrs | Csrrc

datatype insn =
  Lui "5 word" "64 word"
  | Auipc "5 word" "64 word"
  | Jal "5 word" "64 word"
  | Jalr "5 word" "5 word" "64 word"
  | Branch cond "5 word" "5 word" "64 word"
  | Load width bool "5 word" "5 word" "64 word"
  | Store width "5 word" "5 word" "64 word"
  | OpImm alu bool "5 word" "5 word" "64 word"
  | Op alu bool "5 word" "5 word" "5 word"
  | Fence "4 word" "4 word"
  | FenceI | Ecall | Ebreak | Wfi
  | Csr csrop bool "5 word" "12 word" "5 word"
  | LoadReserved width bool bool "5 word" "5 word"
  | StoreCond width bool bool "5 word" "5 word" "5 word"
  | FLoad width "5 word" "5 word" "64 word"
  | FStore width "5 word" "5 word" "64 word"
  | FOp "7 word" "3 word" "5 word" "5 word" "5 word"

section \<open>The 32-bit encoding\<close>

definition rdf :: "32 word \<Rightarrow> 5 word" where "rdf w = ucast (drop_bit 7 w)"
definition rs1f :: "32 word \<Rightarrow> 5 word" where "rs1f w = ucast (drop_bit 15 w)"
definition rs2f :: "32 word \<Rightarrow> 5 word" where "rs2f w = ucast (drop_bit 20 w)"
definition funct3 :: "32 word \<Rightarrow> 3 word" where "funct3 w = ucast (drop_bit 12 w)"
definition funct7 :: "32 word \<Rightarrow> 7 word" where "funct7 w = ucast (drop_bit 25 w)"
definition opcode :: "32 word \<Rightarrow> 7 word" where "opcode w = ucast w"

definition imm_i :: "32 word \<Rightarrow> 64 word" where
  "imm_i w = scast (ucast (drop_bit 20 w) :: 12 word)"

definition imm_s :: "32 word \<Rightarrow> 64 word" where
  "imm_s w = scast (push_bit 5 (ucast (funct7 w)) OR ucast (rdf w) :: 12 word)"

definition imm_b :: "32 word \<Rightarrow> 64 word" where
  "imm_b w = scast (push_bit 12 (ucast (ucast (drop_bit 31 w) :: 1 word)) OR push_bit 11 (ucast (ucast (drop_bit 7 w) :: 1 word))
    OR push_bit 5 (ucast (ucast (drop_bit 25 w) :: 6 word)) OR push_bit 1 (ucast (ucast (drop_bit 8 w) :: 4 word)) :: 13 word)"

definition imm_u :: "32 word \<Rightarrow> 64 word" where
  "imm_u w = scast (push_bit 12 (drop_bit 12 w))"

definition imm_j :: "32 word \<Rightarrow> 64 word" where
  "imm_j w = scast (push_bit 20 (ucast (ucast (drop_bit 31 w) :: 1 word)) OR push_bit 12 (ucast (ucast (drop_bit 12 w) :: 8 word))
    OR push_bit 11 (ucast (ucast (drop_bit 20 w) :: 1 word)) OR push_bit 1 (ucast (ucast (drop_bit 21 w) :: 10 word)) :: 21 word)"

definition width_of :: "3 word \<Rightarrow> width" where
  "width_of f = (if f AND 3 = 0 then WByte else if f AND 3 = 1 then WHalf else if f AND 3 = 2 then WWord else WDouble)"

definition decode_branch :: "3 word \<Rightarrow> cond option" where
  "decode_branch f = (if f = 0 then Some Beq else if f = 1 then Some Bne else if f = 4 then Some Blt
    else if f = 5 then Some Bge else if f = 6 then Some Bltu else if f = 7 then Some Bgeu else None)"

definition decode_op :: "7 word \<Rightarrow> 3 word \<Rightarrow> alu option" where
  "decode_op f7 f =
    (if f7 = 0 then
       Some (if f = 0 then Add else if f = 1 then Sll else if f = 2 then Slt else if f = 3 then Sltu
             else if f = 4 then Xor else if f = 5 then Srl else if f = 6 then Or else And)
     else if f7 = 0x20 then (if f = 0 then Some Sub else if f = 5 then Some Sra else None)
     else if f7 = 1 then
       Some (if f = 0 then Mul else if f = 1 then Mulh else if f = 2 then Mulhsu else if f = 3 then Mulhu
             else if f = 4 then Div else if f = 5 then Divu else if f = 6 then Rem else Remu)
     else None)"

text \<open>The word forms that exist: addition, subtraction, shifts, and the M operations without a high part.\<close>

definition has_word_form :: "alu \<Rightarrow> bool" where
  "has_word_form a \<longleftrightarrow> a \<in> {Add, Sub, Sll, Srl, Sra, Mul, Div, Divu, Rem, Remu}"

text \<open>The register-immediate instructions; the shift amount has 6 bits, in the word forms 5.\<close>

definition decode_opimm :: "bool \<Rightarrow> 32 word \<Rightarrow> insn option" where
  "decode_opimm w32 w =
    (let f = funct3 w; f6 = (ucast (drop_bit 26 w) :: 6 word); sh = (ucast (ucast (drop_bit 20 w) :: 6 word) :: 64 word)
     in if f = 1 \<or> f = 5 then
          if w32 \<and> bit w 25 then None
          else if f6 = 0 then Some (OpImm (if f = 1 then Sll else Srl) w32 (rdf w) (rs1f w) sh)
          else if f6 = 0x10 \<and> f = 5 then Some (OpImm Sra w32 (rdf w) (rs1f w) sh)
          else None
        else if w32 \<and> f \<noteq> 0 then None
        else Some (OpImm (if f = 0 then Add else if f = 2 then Slt else if f = 3 then Sltu
                   else if f = 4 then Xor else if f = 6 then Or else And) w32 (rdf w) (rs1f w) (imm_i w)))"

definition decode_system :: "32 word \<Rightarrow> insn option" where
  "decode_system w =
    (let f = funct3 w
     in if f = 0 then
          if w = 0x73 then Some Ecall else if w = 0x100073 then Some Ebreak
          else if w = 0x10500073 then Some Wfi else None
        else if f = 4 then None
        else Some (Csr (if f AND 3 = 1 then Csrrw else if f AND 3 = 2 then Csrrs else Csrrc) (bit f 2)
                   (rdf w) (ucast (drop_bit 20 w)) (rs1f w)))"

definition decode_amo :: "32 word \<Rightarrow> insn option" where
  "decode_amo w =
    (let f = funct3 w; f5 = (ucast (drop_bit 27 w) :: 5 word)
     in if f \<noteq> 2 \<and> f \<noteq> 3 then None
        else if f5 = 2 then
          (if rs2f w = 0 then Some (LoadReserved (width_of f) (bit w 26) (bit w 25) (rdf w) (rs1f w)) else None)
        else if f5 = 3 then Some (StoreCond (width_of f) (bit w 26) (bit w 25) (rdf w) (rs1f w) (rs2f w))
        else None)"

definition decode :: "32 word \<Rightarrow> insn option" where
  "decode w =
    (let op = opcode w; f = funct3 w
     in if op = 0x37 then Some (Lui (rdf w) (imm_u w))
        else if op = 0x17 then Some (Auipc (rdf w) (imm_u w))
        else if op = 0x6f then Some (Jal (rdf w) (imm_j w))
        else if op = 0x67 then if f = 0 then Some (Jalr (rdf w) (rs1f w) (imm_i w)) else None
        else if op = 0x63 then map_option (\<lambda>c. Branch c (rs1f w) (rs2f w) (imm_b w)) (decode_branch f)
        else if op = 0x03 then if f = 7 then None else Some (Load (width_of f) (bit f 2) (rdf w) (rs1f w) (imm_i w))
        else if op = 0x23 then if f > 3 then None else Some (Store (width_of f) (rs1f w) (rs2f w) (imm_s w))
        else if op = 0x13 then decode_opimm False w
        else if op = 0x1b then decode_opimm True w
        else if op = 0x33 then map_option (\<lambda>a. Op a False (rdf w) (rs1f w) (rs2f w)) (decode_op (funct7 w) f)
        else if op = 0x3b then
          (case decode_op (funct7 w) f of
            Some a \<Rightarrow> if has_word_form a then Some (Op a True (rdf w) (rs1f w) (rs2f w)) else None
          | None \<Rightarrow> None)
        else if op = 0x0f then
          if f = 0 then Some (Fence (ucast (drop_bit 24 w)) (ucast (drop_bit 20 w)))
          else if f = 1 then Some FenceI else None
        else if op = 0x73 then decode_system w
        else if op = 0x2f then decode_amo w
        else if op = 0x07 then if f = 2 \<or> f = 3 then Some (FLoad (width_of f) (rdf w) (rs1f w) (imm_i w)) else None
        else if op = 0x27 then if f = 2 \<or> f = 3 then Some (FStore (width_of f) (rs1f w) (rs2f w) (imm_s w)) else None
        else if op = 0x53 then Some (FOp (funct7 w) f (rdf w) (rs1f w) (rs2f w))
        else None)"

end
