(* ===== verification/AsmEmit.thy ===== *)
theory AsmEmit
  imports AsmTok RvSpec
begin

text \<open>
  Operands of the RISC-V assembler and the emitters of the 32-bit instruction formats
  (\<open>asm_emit_r\<close>, \<open>asm_emit_i\<close>, \<open>asm_emit_s\<close>, \<open>asm_emit_b\<close>, \<open>asm_emit_u\<close>, \<open>asm_emit_j\<close>, \<open>asm_emit_a\<close> of
  \<open>riscv64-asm.c\<close>). An emitter takes the state to the state with the instruction appended or to the error
  it reports. The \<open>union\<close> of \<open>Operand\<close> is its expression; \<open>op_reg\<close> reads the low byte of it.
\<close>

unbundle bit_operations_syntax

section \<open>Operands\<close>

datatype op_kind = OP_NONE | OP_REG | OP_IM12S | OP_IM32

record operand =
  op_type :: op_kind
  op_v :: "64 word"
  op_sym :: "nat option"
  op_pcrel :: bool

definition op_reg :: "operand \<Rightarrow> 8 word" where
  "op_reg op = u8 (op_v op)"

definition reg_operand :: "8 word \<Rightarrow> operand" where
  "reg_operand r = \<lparr>op_type = OP_REG, op_v = u64 r, op_sym = None, op_pcrel = False\<rparr>"

definition imm_operand :: "64 word \<Rightarrow> operand" where
  "imm_operand v = \<lparr>op_type = OP_IM12S, op_v = v, op_sym = None, op_pcrel = False\<rparr>"

definition REG_IS_FLOAT :: "8 word \<Rightarrow> bool" where
  "REG_IS_FLOAT r \<longleftrightarrow> r AND 0x20 \<noteq> 0"

definition REG_VALUE :: "8 word \<Rightarrow> 32 word" where
  "REG_VALUE r = u32 r AND (0x20 - 1)"

definition C_ENCODE_RS1 :: "8 word \<Rightarrow> 32 word" where "C_ENCODE_RS1 r = push_bit 7 (REG_VALUE r)"
definition C_ENCODE_RS2 :: "8 word \<Rightarrow> 32 word" where "C_ENCODE_RS2 r = push_bit 2 (REG_VALUE r)"
definition ENCODE_RD :: "8 word \<Rightarrow> 32 word" where "ENCODE_RD r = push_bit 7 (REG_VALUE r)"
definition ENCODE_RS1 :: "8 word \<Rightarrow> 32 word" where "ENCODE_RS1 r = push_bit 15 (REG_VALUE r)"
definition ENCODE_RS2 :: "8 word \<Rightarrow> 32 word" where "ENCODE_RS2 r = push_bit 20 (REG_VALUE r)"
definition NTH_BIT :: "32 word \<Rightarrow> nat \<Rightarrow> 32 word" where "NTH_BIT b n = drop_bit n b AND 1"

lemmas encode_defs = ENCODE_RD_def ENCODE_RS1_def ENCODE_RS2_def REG_VALUE_def NTH_BIT_def
  C_ENCODE_RS1_def C_ENCODE_RS2_def

section \<open>The formats\<close>

definition asm_emit_opcode :: "32 word \<Rightarrow> 'a cg_scheme \<Rightarrow> 'a cg_scheme result" where
  "asm_emit_opcode opc s = Inr (gen_le32 opc s)"

definition asm_emit_u ::
  "string \<Rightarrow> 32 word \<Rightarrow> operand \<Rightarrow> operand \<Rightarrow> 'a cg_scheme \<Rightarrow> 'a cg_scheme result" where
  "asm_emit_u token opc rd rs2 s =
    (if op_type rd \<noteq> OP_REG then
       Inl (TccError ''Expected destination operand that is a register'')
     else if op_type rs2 \<noteq> OP_IM12S \<and> op_type rs2 \<noteq> OP_IM32 then
       Inl (TccError ''Expected second source operand that is an immediate value'')
     else if op_v rs2 \<ge> 0x100000 then
       Inl (TccError ''Expected second source operand that is an immediate value between 0 and 0xfffff'')
     else Inr (gen_le32 (u32 (u64 (opc OR ENCODE_RD (op_reg rd)) OR push_bit 12 (op_v rs2))) s))"

definition asm_emit_r ::
  "string \<Rightarrow> 32 word \<Rightarrow> operand \<Rightarrow> operand \<Rightarrow> operand \<Rightarrow> 'a cg_scheme \<Rightarrow> 'a cg_scheme result" where
  "asm_emit_r token opc rd rs1 rs2 s =
    (if op_type rd \<noteq> OP_REG then
       Inl (TccError ''Expected destination operand that is a register'')
     else if op_type rs1 \<noteq> OP_REG then
       Inl (TccError ''Expected first source operand that is a register'')
     else if op_type rs2 \<noteq> OP_REG then
       Inl (TccError ''Expected second source operand that is a register or immediate'')
     else Inr (gen_le32 (opc OR ENCODE_RD (op_reg rd) OR ENCODE_RS1 (op_reg rs1) OR ENCODE_RS2 (op_reg rs2)) s))"

definition asm_emit_i ::
  "string \<Rightarrow> 32 word \<Rightarrow> operand \<Rightarrow> operand \<Rightarrow> operand \<Rightarrow> 'a cg_scheme \<Rightarrow> 'a cg_scheme result" where
  "asm_emit_i token opc rd rs1 rs2 s =
    (if op_type rd \<noteq> OP_REG then
       Inl (TccError ''Expected destination operand that is a register'')
     else if op_type rs1 \<noteq> OP_REG then
       Inl (TccError ''Expected first source operand that is a register'')
     else if op_type rs2 \<noteq> OP_IM12S then
       Inl (TccError ''Expected second source operand that is an immediate value between 0 and 8191'')
     else Inr (gen_le32 (u32 (u64 (opc OR ENCODE_RD (op_reg rd) OR ENCODE_RS1 (op_reg rs1)) OR push_bit 20 (op_v rs2))) s))"

definition asm_emit_j ::
  "string \<Rightarrow> 32 word \<Rightarrow> operand \<Rightarrow> operand \<Rightarrow> 'a cg_scheme \<Rightarrow> 'a cg_scheme result" where
  "asm_emit_j token opc rd rs2 s =
    (if op_type rd \<noteq> OP_REG then
       Inl (TccError ''Expected destination operand that is a register'')
     else if op_type rs2 \<noteq> OP_IM12S \<and> op_type rs2 \<noteq> OP_IM32 then
       Inl (TccError ''Expected second source operand that is an immediate value'')
     else
       let imm = u32 (op_v rs2)
       in if sint imm > 2 ^ 20 - 1 \<or> sint imm \<le> - 1 * (2 ^ 20 - 1) then
            Inl (TccError ''Expected second source operand that is an immediate value between 0 and 0x1fffff'')
          else if imm AND 1 \<noteq> 0 then
            Inl (TccError ''Expected second source operand that is an even immediate value'')
          else Inr (gen_le32 (opc OR ENCODE_RD (op_reg rd)
                 OR push_bit 31 (drop_bit 20 imm AND 1) OR push_bit 21 (drop_bit 1 imm AND 0x3ff)
                 OR push_bit 20 (drop_bit 11 imm AND 1) OR push_bit 12 (drop_bit 12 imm AND 0xff)) s))"

definition asm_emit_a ::
  "string \<Rightarrow> 32 word \<Rightarrow> operand \<Rightarrow> operand \<Rightarrow> operand \<Rightarrow> 32 word \<Rightarrow> 32 word \<Rightarrow>
    'a cg_scheme \<Rightarrow> 'a cg_scheme result" where
  "asm_emit_a token opc rd1 rs2 rs1 aq rl s =
    (if op_type rd1 \<noteq> OP_REG then
       Inl (TccError ''Expected first destination operand that is a register'')
     else if op_type rs2 \<noteq> OP_REG then
       Inl (TccError ''Expected second source operand that is a register'')
     else if op_type rs1 \<noteq> OP_REG then
       Inl (TccError ''Expected third source operand that is a register'')
     else Inr (gen_le32 (opc OR ENCODE_RS1 (op_reg rs1) OR ENCODE_RS2 (op_reg rs2) OR ENCODE_RD (op_reg rd1)
            OR push_bit 26 aq OR push_bit 25 rl) s))"

definition asm_emit_s ::
  "string \<Rightarrow> 32 word \<Rightarrow> operand \<Rightarrow> operand \<Rightarrow> operand \<Rightarrow> 'a cg_scheme \<Rightarrow> 'a cg_scheme result" where
  "asm_emit_s token opc rs1 rs2 imm s =
    (if op_type rs1 \<noteq> OP_REG then
       Inl (TccError ''Expected first source operand that is a register'')
     else if op_type rs2 \<noteq> OP_REG then
       Inl (TccError ''Expected second source operand that is a register'')
     else if op_type imm \<noteq> OP_IM12S then
       Inl (TccError ''Expected third operand that is an immediate value between 0 and 8191'')
     else
       let v = u16 (op_v imm)
       in Inr (gen_le32 (opc OR ENCODE_RS1 (op_reg rs1) OR ENCODE_RS2 (op_reg rs2)
            OR push_bit 7 (u32 v AND 0x1F) OR push_bit 25 (drop_bit 5 (u32 v))) s))"

definition asm_emit_b ::
  "string \<Rightarrow> 32 word \<Rightarrow> operand \<Rightarrow> operand \<Rightarrow> operand \<Rightarrow> 'a cg_scheme \<Rightarrow> 'a cg_scheme result" where
  "asm_emit_b token opc rs1 rs2 imm s =
    (if op_type rs1 \<noteq> OP_REG then
       Inl (TccError ''Expected first source operand that is a register'')
     else if op_type rs2 \<noteq> OP_REG then
       Inl (TccError ''Expected destination operand that is a register'')
     else if op_type imm \<noteq> OP_IM12S then
       Inl (TccError ''Expected second source operand that is an immediate value between 0 and 8191'')
     else
       let offset = u32 (op_v imm)
       in asm_emit_opcode (opc OR ENCODE_RS1 (op_reg rs1) OR ENCODE_RS2 (op_reg rs2)
            OR push_bit 8 (drop_bit 1 offset AND 0xF) OR push_bit 25 (drop_bit 5 offset AND 0x1f)
            OR push_bit 7 (drop_bit 11 offset AND 1) OR push_bit 31 (drop_bit 12 offset AND 1)) s)"

end
