(* ===== verification/AsmExpr.thy ===== *)
theory AsmExpr
  imports AsmEmit
begin

text \<open>
  The assembler's state and its expression parser (\<open>tccasm.c\<close>). The state extends the one of code
  emission by the tokens still to be read, the relocations of the text section and the symbols. A
  symbol is its place in \<open>syms\<close>; the chain of \<open>sym_find\<close> and \<open>prev_tok\<close> for an identifier is the list
  \<open>sym_identifier\<close>. The parser is the code's recursive descent: one function and one loop per
  precedence level, with fuel for the nesting; \<open>None\<close> means that the fuel was not enough, which
  \<open>AsmExprProps\<close> excludes.
\<close>

unbundle bit_operations_syntax

section \<open>State\<close>

record elf_sym =
  st_shndx :: nat
  st_value :: "64 word"

record asm_sym =
  sym_extern :: bool
  sym_static :: bool
  sym_is_asm :: bool
  sym_scope :: nat
  sym_elf :: "elf_sym option"

text \<open>The relocation types of \<open>elf.h\<close>.\<close>

datatype rel_type =
  R_RISCV_NONE | R_RISCV_32 | R_RISCV_64 | R_RISCV_RELATIVE | R_RISCV_COPY | R_RISCV_JUMP_SLOT
  | R_RISCV_TLS_DTPMOD32 | R_RISCV_TLS_DTPMOD64 | R_RISCV_TLS_DTPREL32 | R_RISCV_TLS_DTPREL64
  | R_RISCV_TLS_TPREL32 | R_RISCV_TLS_TPREL64 | R_RISCV_BRANCH | R_RISCV_JAL | R_RISCV_CALL | R_RISCV_CALL_PLT
  | R_RISCV_GOT_HI20 | R_RISCV_TLS_GOT_HI20 | R_RISCV_TLS_GD_HI20 | R_RISCV_PCREL_HI20 | R_RISCV_PCREL_LO12_I
  | R_RISCV_PCREL_LO12_S | R_RISCV_HI20 | R_RISCV_LO12_I | R_RISCV_LO12_S | R_RISCV_TPREL_HI20
  | R_RISCV_TPREL_LO12_I | R_RISCV_TPREL_LO12_S | R_RISCV_TPREL_ADD | R_RISCV_ADD8 | R_RISCV_ADD16
  | R_RISCV_ADD32 | R_RISCV_ADD64 | R_RISCV_SUB8 | R_RISCV_SUB16 | R_RISCV_SUB32 | R_RISCV_SUB64
  | R_RISCV_GNU_VTINHERIT | R_RISCV_GNU_VTENTRY | R_RISCV_ALIGN | R_RISCV_RVC_BRANCH | R_RISCV_RVC_JUMP
  | R_RISCV_RVC_LUI | R_RISCV_GPREL_I | R_RISCV_GPREL_S | R_RISCV_TPREL_I | R_RISCV_TPREL_S | R_RISCV_RELAX
  | R_RISCV_SUB6 | R_RISCV_SET6 | R_RISCV_SET8 | R_RISCV_SET16 | R_RISCV_SET32 | R_RISCV_32_PCREL

fun rel_num :: "rel_type \<Rightarrow> nat" where
  "rel_num R_RISCV_NONE = 0" | "rel_num R_RISCV_32 = 1" | "rel_num R_RISCV_64 = 2"
  | "rel_num R_RISCV_RELATIVE = 3" | "rel_num R_RISCV_COPY = 4" | "rel_num R_RISCV_JUMP_SLOT = 5"
  | "rel_num R_RISCV_TLS_DTPMOD32 = 6" | "rel_num R_RISCV_TLS_DTPMOD64 = 7"
  | "rel_num R_RISCV_TLS_DTPREL32 = 8" | "rel_num R_RISCV_TLS_DTPREL64 = 9"
  | "rel_num R_RISCV_TLS_TPREL32 = 10" | "rel_num R_RISCV_TLS_TPREL64 = 11" | "rel_num R_RISCV_BRANCH = 16"
  | "rel_num R_RISCV_JAL = 17" | "rel_num R_RISCV_CALL = 18" | "rel_num R_RISCV_CALL_PLT = 19"
  | "rel_num R_RISCV_GOT_HI20 = 20" | "rel_num R_RISCV_TLS_GOT_HI20 = 21" | "rel_num R_RISCV_TLS_GD_HI20 = 22"
  | "rel_num R_RISCV_PCREL_HI20 = 23" | "rel_num R_RISCV_PCREL_LO12_I = 24"
  | "rel_num R_RISCV_PCREL_LO12_S = 25" | "rel_num R_RISCV_HI20 = 26" | "rel_num R_RISCV_LO12_I = 27"
  | "rel_num R_RISCV_LO12_S = 28" | "rel_num R_RISCV_TPREL_HI20 = 29" | "rel_num R_RISCV_TPREL_LO12_I = 30"
  | "rel_num R_RISCV_TPREL_LO12_S = 31" | "rel_num R_RISCV_TPREL_ADD = 32" | "rel_num R_RISCV_ADD8 = 33"
  | "rel_num R_RISCV_ADD16 = 34" | "rel_num R_RISCV_ADD32 = 35" | "rel_num R_RISCV_ADD64 = 36"
  | "rel_num R_RISCV_SUB8 = 37" | "rel_num R_RISCV_SUB16 = 38" | "rel_num R_RISCV_SUB32 = 39"
  | "rel_num R_RISCV_SUB64 = 40" | "rel_num R_RISCV_GNU_VTINHERIT = 41" | "rel_num R_RISCV_GNU_VTENTRY = 42"
  | "rel_num R_RISCV_ALIGN = 43" | "rel_num R_RISCV_RVC_BRANCH = 44" | "rel_num R_RISCV_RVC_JUMP = 45"
  | "rel_num R_RISCV_RVC_LUI = 46" | "rel_num R_RISCV_GPREL_I = 47" | "rel_num R_RISCV_GPREL_S = 48"
  | "rel_num R_RISCV_TPREL_I = 49" | "rel_num R_RISCV_TPREL_S = 50" | "rel_num R_RISCV_RELAX = 51"
  | "rel_num R_RISCV_SUB6 = 52" | "rel_num R_RISCV_SET6 = 53" | "rel_num R_RISCV_SET8 = 54"
  | "rel_num R_RISCV_SET16 = 55" | "rel_num R_RISCV_SET32 = 56" | "rel_num R_RISCV_32_PCREL = 57"

record reloc =
  r_offset :: nat
  r_type :: rel_type
  r_sym :: symref
  r_addend :: "64 word"

record asm_st = cg +
  toks :: "token list"
  relocs :: "reloc list"
  syms :: "asm_sym list"
  sym_identifier :: "string \<Rightarrow> nat list"
  sec_name :: string
  sh_num :: nat

definition SHN_UNDEF :: nat where "SHN_UNDEF = 0"
definition SHN_ABS :: nat where "SHN_ABS = 0xfff1"

definition tok :: "asm_st \<Rightarrow> token" where
  "tok s = (case toks s of [] \<Rightarrow> TokEof | t # ts \<Rightarrow> t)"

definition next_tok :: "asm_st \<Rightarrow> asm_st" where
  "next_tok s = s\<lparr>toks := tl (toks s)\<rparr>"

definition expect :: "string \<Rightarrow> 'a result" where
  "expect msg = Inl (TccError (msg @ '' expected''))"

definition skip :: "char \<Rightarrow> asm_st \<Rightarrow> asm_st result" where
  "skip c s = (if tok s = TokPunct c then Inr (next_tok s) else expect [c])"

section \<open>Symbols\<close>

definition elfsym :: "asm_st \<Rightarrow> nat option \<Rightarrow> elf_sym option" where
  "elfsym s i = (case i of None \<Rightarrow> None | Some k \<Rightarrow> sym_elf (syms s ! k))"

definition asm_label_find :: "asm_st \<Rightarrow> string \<Rightarrow> nat option" where
  "asm_label_find s v =
    List.find (\<lambda>k. \<not> (sym_scope (syms s ! k) \<noteq> 0 \<and> \<not> sym_static (syms s ! k))) (sym_identifier s v)"

definition prev_tok :: "asm_st \<Rightarrow> string \<Rightarrow> nat \<Rightarrow> nat option" where
  "prev_tok s v k = (case dropWhile (\<lambda>j. j \<noteq> k) (sym_identifier s v) of _ # j # _ \<Rightarrow> Some j | _ \<Rightarrow> None)"

definition global_identifier_push :: "string \<Rightarrow> asm_sym \<Rightarrow> asm_st \<Rightarrow> nat \<times> asm_st" where
  "global_identifier_push v sy s =
    (let k = length (syms s); st = sym_identifier s v; scoped = (\<lambda>j. sym_scope (syms s ! j) \<noteq> 0)
     in (k, s\<lparr>syms := syms s @ [sy],
              sym_identifier := (sym_identifier s)(v := takeWhile scoped st @ [k] @ dropWhile scoped st)\<rparr>))"

definition asm_label_push :: "string \<Rightarrow> asm_st \<Rightarrow> nat \<times> asm_st" where
  "asm_label_push v s = global_identifier_push v
    \<lparr>sym_extern = True, sym_static = True, sym_is_asm = True, sym_scope = 0, sym_elf = None\<rparr> s"

definition get_asm_sym :: "string \<Rightarrow> asm_st \<Rightarrow> nat \<times> asm_st" where
  "get_asm_sym name s = (case asm_label_find s name of Some k \<Rightarrow> (k, s) | None \<Rightarrow> asm_label_push name s)"

definition upd_sym :: "nat \<Rightarrow> (asm_sym \<Rightarrow> asm_sym) \<Rightarrow> asm_st \<Rightarrow> asm_st" where
  "upd_sym k f s = s\<lparr>syms := (syms s)[k := f (syms s ! k)]\<rparr>"

definition asm_new_label1 :: "string \<Rightarrow> nat \<Rightarrow> nat \<Rightarrow> 32 word \<Rightarrow> asm_st \<Rightarrow> (nat \<times> asm_st) result" where
  "asm_new_label1 label is_local shnum val s =
    (let define_at = (\<lambda>(k, s). Inr (k, upd_sym k (\<lambda>sy. sy\<lparr>sym_elf := Some \<lparr>st_shndx = shnum, st_value = scast val\<rparr>,
                         sym_extern := (if is_local \<noteq> 2 then False else sym_extern sy)\<rparr>) s))
     in case asm_label_find s label of
          None \<Rightarrow> define_at (asm_label_push label s)
        | Some k \<Rightarrow>
            (case elfsym s (Some k) of
               Some esym \<Rightarrow>
                 (if st_shndx esym \<noteq> SHN_UNDEF then
                    if sym_is_asm (syms s ! k) \<and> (is_local = 1 \<or> sym_extern (syms s ! k)) then
                      define_at (asm_label_push label s)
                    else if \<not> sym_extern (syms s ! k) then
                      Inl (TccError ''assembler label already defined'')
                    else define_at (k, s)
                  else define_at (k, s))
             | None \<Rightarrow> define_at (k, s)))"

definition asm_new_label :: "string \<Rightarrow> nat \<Rightarrow> asm_st \<Rightarrow> (nat \<times> asm_st) result" where
  "asm_new_label label is_local s = asm_new_label1 label is_local (sh_num s) (of_nat (ind s)) s"

definition asm_section_sym :: "asm_st \<Rightarrow> (nat \<times> asm_st) result" where
  "asm_section_sym s =
    (let label = ''L.'' @ sec_name s
     in case asm_label_find s label of Some k \<Rightarrow> Inr (k, s) | None \<Rightarrow> asm_new_label1 label 1 (sh_num s) 0 s)"

fun show_nat :: "nat \<Rightarrow> string" where
  "show_nat n = (if n < 10 then [char_of (48 + n)] else show_nat (n div 10) @ [char_of (48 + n mod 10)])"

declare show_nat.simps [simp del]

definition asm_get_prefix_name :: "string \<Rightarrow> 32 word \<Rightarrow> string" where
  "asm_get_prefix_name prefix n = prefix @ show_nat (unat n)"

definition asm_get_local_label_name :: "32 word \<Rightarrow> string" where
  "asm_get_local_label_name n = asm_get_prefix_name ''L..'' n"

section \<open>Numbers\<close>

text \<open>\<open>strtoull\<close> of the C library with base 0: the value and the rest of the text.\<close>

definition digit_val :: "char \<Rightarrow> nat option" where
  "digit_val c = (let k = (of_char c :: nat) in
     if 48 \<le> k \<and> k \<le> 57 then Some (k - 48)
     else if 97 \<le> k \<and> k \<le> 122 then Some (k - 87)
     else if 65 \<le> k \<and> k \<le> 90 then Some (k - 55)
     else None)"

fun scan_digits :: "nat \<Rightarrow> nat \<Rightarrow> string \<Rightarrow> nat \<times> string" where
  "scan_digits base acc [] = (acc, [])"
| "scan_digits base acc (c # cs) =
    (case digit_val c of
       Some d \<Rightarrow> if d < base then scan_digits base (acc * base + d) cs else (acc, c # cs)
     | None \<Rightarrow> (acc, c # cs))"

definition strtoull :: "string \<Rightarrow> 64 word \<times> string" where
  "strtoull p =
    (let hex = (case p of a # b # d # _ \<Rightarrow> a = CHR ''0'' \<and> (b = CHR ''x'' \<or> b = CHR ''X'') \<and>
                    (case digit_val d of Some k \<Rightarrow> k < 16 | None \<Rightarrow> False) | _ \<Rightarrow> False);
         (n, rest) = (if hex then scan_digits 16 0 (drop 2 p)
                      else if p \<noteq> [] \<and> hd p = CHR ''0'' then scan_digits 8 0 p
                      else scan_digits 10 0 p)
     in (if n < 2 ^ 64 then of_nat n else - 1, rest))"

section \<open>Expressions\<close>

record expr_value =
  ev_v :: "64 word"
  ev_sym :: "nat option"
  ev_pcrel :: bool

definition ev_num :: "64 word \<Rightarrow> expr_value" where
  "ev_num v = \<lparr>ev_v = v, ev_sym = None, ev_pcrel = False\<rparr>"

definition ev_label :: "nat \<Rightarrow> expr_value" where
  "ev_label k = \<lparr>ev_v = 0, ev_sym = Some k, ev_pcrel = False\<rparr>"

definition bindo :: "'a result option \<Rightarrow> ('a \<Rightarrow> 'b result option) \<Rightarrow> 'b result option" where
  "bindo m f = (case m of None \<Rightarrow> None | Some (Inl e) \<Rightarrow> Some (Inl e) | Some (Inr x) \<Rightarrow> f x)"

definition err_label :: "'a result" where
  "err_label = Inl (TccError ''invalid operation with label'')"

text \<open>A number, or a reference to a local label: \<open>1b\<close> is the last definition of \<open>1:\<close>, \<open>1f\<close> the next.\<close>

definition asm_expr_number :: "string \<Rightarrow> asm_st \<Rightarrow> (expr_value \<times> asm_st) result" where
  "asm_expr_number text s =
    (case strtoull text of (n, rest) \<Rightarrow>
       (case rest of
          [] \<Rightarrow> Inr (ev_num n, next_tok s)
        | c # _ \<Rightarrow>
            if c = CHR ''b'' \<or> c = CHR ''f'' then
              let label = asm_get_local_label_name (u32 n);
                  sym = asm_label_find s label;
                  undefd = (\<lambda>k. case elfsym s (Some k) of None \<Rightarrow> True | Some e \<Rightarrow> st_shndx e = SHN_UNDEF)
              in if c = CHR ''b'' then
                   let sym1 = (case sym of Some k \<Rightarrow> if undefd k then prev_tok s label k else Some k | None \<Rightarrow> None)
                   in (case sym1 of
                         None \<Rightarrow> Inl (TccError ''local label not found backward'')
                       | Some k \<Rightarrow> Inr (ev_label k, next_tok s))
                 else
                   (case sym of
                      Some k \<Rightarrow> if undefd k then Inr (ev_label k, next_tok s)
                                else (case asm_label_push label s of (j, s1) \<Rightarrow> Inr (ev_label j, next_tok s1))
                    | None \<Rightarrow> (case asm_label_push label s of (j, s1) \<Rightarrow> Inr (ev_label j, next_tok s1)))
            else Inl (TccError ''invalid number syntax'')))"

definition asm_expr_ident :: "string \<Rightarrow> asm_st \<Rightarrow> (expr_value \<times> asm_st) result" where
  "asm_expr_ident name s =
    (case get_asm_sym name s of (k, s1) \<Rightarrow>
       (case elfsym s1 (Some k) of
          Some e \<Rightarrow> if st_shndx e = SHN_ABS then Inr (ev_num (st_value e), next_tok s1)
                    else Inr (ev_label k, next_tok s1)
        | None \<Rightarrow> Inr (ev_label k, next_tok s1)))"

definition asm_expr_dot :: "asm_st \<Rightarrow> (expr_value \<times> asm_st) result" where
  "asm_expr_dot s = bindr (asm_section_sym s)
    (\<lambda>(k, s1). Inr (\<lparr>ev_v = of_nat (ind s), ev_sym = Some k, ev_pcrel = False\<rparr>, next_tok s1))"

text \<open>The operators of each level; a shift by 64 or more, which C leaves undefined, takes the count modulo 64.\<close>

definition prod_op :: "token \<Rightarrow> (64 word \<Rightarrow> 64 word \<Rightarrow> 64 word result) option" where
  "prod_op t = (case t of
     TokPunct c \<Rightarrow>
       (if c = CHR ''*'' then Some (\<lambda>a b. Inr (a * b))
        else if c = CHR ''/'' then Some (\<lambda>a b. if b = 0 then Inl (TccError ''division by zero'') else Inr (a div b))
        else if c = CHR ''%'' then Some (\<lambda>a b. if b = 0 then Inl (TccError ''division by zero'') else Inr (a mod b))
        else None)
   | TokShl \<Rightarrow> Some (\<lambda>a b. Inr (push_bit (unat (b AND 63)) a))
   | TokSar \<Rightarrow> Some (\<lambda>a b. Inr (drop_bit (unat (b AND 63)) a))
   | _ \<Rightarrow> None)"

definition logic_op :: "token \<Rightarrow> (64 word \<Rightarrow> 64 word \<Rightarrow> 64 word) option" where
  "logic_op t = (case t of
     TokPunct c \<Rightarrow>
       (if c = CHR ''&'' then Some (\<lambda>a b. a AND b)
        else if c = CHR ''|'' then Some (\<lambda>a b. a OR b)
        else if c = CHR ''^'' then Some (\<lambda>a b. a XOR b)
        else None)
   | _ \<Rightarrow> None)"

definition cmp_op :: "token \<Rightarrow> (64 word \<Rightarrow> 64 word \<Rightarrow> bool) option" where
  "cmp_op t = (case t of
     TokEq \<Rightarrow> Some (\<lambda>a b. a = b)
   | TokNe \<Rightarrow> Some (\<lambda>a b. a \<noteq> b)
   | TokLt \<Rightarrow> Some (\<lambda>a b. sint a < sint b)
   | TokGe \<Rightarrow> Some (\<lambda>a b. sint a \<ge> sint b)
   | TokLe \<Rightarrow> Some (\<lambda>a b. sint a \<le> sint b)
   | TokGt \<Rightarrow> Some (\<lambda>a b. sint a > sint b)
   | _ \<Rightarrow> None)"

text \<open>Sums and differences, where a label may take part.\<close>

definition sum_plus :: "expr_value \<Rightarrow> expr_value \<Rightarrow> expr_value result" where
  "sum_plus e1 e2 =
    (if ev_sym e1 \<noteq> None \<and> ev_sym e2 \<noteq> None then err_label
     else Inr (e1\<lparr>ev_v := ev_v e1 + ev_v e2, ev_sym := (if ev_sym e1 = None then ev_sym e2 else ev_sym e1)\<rparr>))"

definition sum_minus :: "asm_st \<Rightarrow> expr_value \<Rightarrow> expr_value \<Rightarrow> expr_value result" where
  "sum_minus s e1 e2 =
    (let e = e1\<lparr>ev_v := ev_v e1 - ev_v e2\<rparr>
     in if ev_sym e2 = None then Inr e
        else if ev_sym e1 = ev_sym e2 then Inr (e\<lparr>ev_sym := None\<rparr>)
        else (case elfsym s (ev_sym e2) of
                None \<Rightarrow> err_label
              | Some y2 \<Rightarrow>
                  (case elfsym s (ev_sym e1) of
                     Some y1 \<Rightarrow>
                       if st_shndx y1 = st_shndx y2 \<and> st_shndx y1 \<noteq> SHN_UNDEF then
                         Inr (e\<lparr>ev_v := ev_v e + (st_value y1 - st_value y2), ev_sym := None\<rparr>)
                       else if st_shndx y2 = sh_num s then
                         Inr (e\<lparr>ev_v := ev_v e + (0 - st_value y2), ev_pcrel := True\<rparr>)
                       else err_label
                   | None \<Rightarrow>
                       if st_shndx y2 = sh_num s then
                         Inr (e\<lparr>ev_v := ev_v e + (0 - st_value y2), ev_pcrel := True\<rparr>)
                       else err_label)))"

definition no_labels :: "expr_value \<Rightarrow> expr_value \<Rightarrow> bool" where
  "no_labels e1 e2 \<longleftrightarrow> ev_sym e1 = None \<and> ev_sym e2 = None"

fun expr_unary :: "nat \<Rightarrow> asm_st \<Rightarrow> (expr_value \<times> asm_st) result option"
  and expr_prod :: "nat \<Rightarrow> asm_st \<Rightarrow> (expr_value \<times> asm_st) result option"
  and expr_prod_loop :: "nat \<Rightarrow> expr_value \<Rightarrow> asm_st \<Rightarrow> (expr_value \<times> asm_st) result option"
  and expr_logic :: "nat \<Rightarrow> asm_st \<Rightarrow> (expr_value \<times> asm_st) result option"
  and expr_logic_loop :: "nat \<Rightarrow> expr_value \<Rightarrow> asm_st \<Rightarrow> (expr_value \<times> asm_st) result option"
  and expr_sum :: "nat \<Rightarrow> asm_st \<Rightarrow> (expr_value \<times> asm_st) result option"
  and expr_sum_loop :: "nat \<Rightarrow> expr_value \<Rightarrow> asm_st \<Rightarrow> (expr_value \<times> asm_st) result option"
  and expr_cmp :: "nat \<Rightarrow> asm_st \<Rightarrow> (expr_value \<times> asm_st) result option"
  and expr_cmp_loop :: "nat \<Rightarrow> expr_value \<Rightarrow> asm_st \<Rightarrow> (expr_value \<times> asm_st) result option"
where
  "expr_unary 0 s = None"
| "expr_unary (Suc n) s =
    (case tok s of
       TokPpnum text \<Rightarrow> Some (asm_expr_number text s)
     | TokPunct c \<Rightarrow>
         (if c = CHR ''+'' then expr_unary n (next_tok s)
          else if c = CHR ''-'' \<or> c = CHR ''~'' then
            bindo (expr_unary n (next_tok s))
              (\<lambda>(e, s1). if ev_sym e \<noteq> None then Some err_label
                         else Some (Inr (e\<lparr>ev_v := (if c = CHR ''-'' then - ev_v e else NOT (ev_v e))\<rparr>, s1)))
          else if c = CHR ''('' then
            bindo (expr_cmp n (next_tok s)) (\<lambda>(e, s1). Some (bindr (skip CHR '')'' s1) (\<lambda>s2. Inr (e, s2))))
          else if c = CHR ''.'' then Some (asm_expr_dot s)
          else Some (Inl (TccError ''bad expression syntax'')))
     | TokChr v \<Rightarrow> Some (Inr (ev_num v, next_tok s))
     | TokAsm name \<Rightarrow> Some (asm_expr_ident name s)
     | TokIdent name \<Rightarrow> Some (asm_expr_ident name s)
     | _ \<Rightarrow> Some (Inl (TccError ''bad expression syntax'')))"
| "expr_prod 0 s = None"
| "expr_prod (Suc n) s = bindo (expr_unary n s) (\<lambda>(e, s1). expr_prod_loop n e s1)"
| "expr_prod_loop 0 e s = None"
| "expr_prod_loop (Suc n) e s =
    (case prod_op (tok s) of
       None \<Rightarrow> Some (Inr (e, s))
     | Some f \<Rightarrow> bindo (expr_unary n (next_tok s))
         (\<lambda>(e2, s1). if \<not> no_labels e e2 then Some err_label
                     else bindo (Some (f (ev_v e) (ev_v e2))) (\<lambda>v. expr_prod_loop n (e\<lparr>ev_v := v\<rparr>) s1)))"
| "expr_logic 0 s = None"
| "expr_logic (Suc n) s = bindo (expr_prod n s) (\<lambda>(e, s1). expr_logic_loop n e s1)"
| "expr_logic_loop 0 e s = None"
| "expr_logic_loop (Suc n) e s =
    (case logic_op (tok s) of
       None \<Rightarrow> Some (Inr (e, s))
     | Some f \<Rightarrow> bindo (expr_prod n (next_tok s))
         (\<lambda>(e2, s1). if \<not> no_labels e e2 then Some err_label
                     else expr_logic_loop n (e\<lparr>ev_v := f (ev_v e) (ev_v e2)\<rparr>) s1))"
| "expr_sum 0 s = None"
| "expr_sum (Suc n) s = bindo (expr_logic n s) (\<lambda>(e, s1). expr_sum_loop n e s1)"
| "expr_sum_loop 0 e s = None"
| "expr_sum_loop (Suc n) e s =
    (if tok s = TokPunct CHR ''+'' then
       bindo (expr_logic n (next_tok s))
         (\<lambda>(e2, s1). bindo (Some (sum_plus e e2)) (\<lambda>e3. expr_sum_loop n e3 s1))
     else if tok s = TokPunct CHR ''-'' then
       bindo (expr_logic n (next_tok s))
         (\<lambda>(e2, s1). bindo (Some (sum_minus s1 e e2)) (\<lambda>e3. expr_sum_loop n e3 s1))
     else Some (Inr (e, s)))"
| "expr_cmp 0 s = None"
| "expr_cmp (Suc n) s = bindo (expr_sum n s) (\<lambda>(e, s1). expr_cmp_loop n e s1)"
| "expr_cmp_loop 0 e s = None"
| "expr_cmp_loop (Suc n) e s =
    (case cmp_op (tok s) of
       None \<Rightarrow> Some (Inr (e, s))
     | Some f \<Rightarrow> bindo (expr_sum n (next_tok s))
         (\<lambda>(e2, s1). if \<not> no_labels e e2 then Some err_label
                     else expr_cmp_loop n (e\<lparr>ev_v := - of_bool (f (ev_v e) (ev_v e2))\<rparr>) s1))"

end
