(* ===== verification/AsmEmitC.thy ===== *)
theory AsmEmitC
  imports AsmEmit
begin

text \<open>
  The emitters of the compressed formats (\<open>asm_emit_ca\<close> to \<open>asm_emit_css\<close> of \<open>riscv64-asm.c\<close>).
  \<open>gen_le16\<close> takes an \<open>int\<close> and writes its low half.
\<close>

unbundle bit_operations_syntax

definition not_reg :: "operand \<Rightarrow> bool" where "not_reg op \<longleftrightarrow> op_type op \<noteq> OP_REG"
definition not_imm :: "operand \<Rightarrow> bool" where "not_imm op \<longleftrightarrow> op_type op \<noteq> OP_IM12S \<and> op_type op \<noteq> OP_IM32"

definition err_dst :: "'a result" where "err_dst = Inl (TccError ''Expected destination operand that is a register'')"
definition err_src :: "'a result" where "err_src = Inl (TccError ''Expected source operand that is a register'')"
definition err_imm :: "'a result" where "err_imm = Inl (TccError ''Expected source operand that is an immediate value'')"
definition err_dst_c :: "'a result" where
  "err_dst_c = Inl (TccError ''Expected destination operand that is a valid C-extension register'')"
definition err_src_c :: "'a result" where
  "err_src_c = Inl (TccError ''Expected source operand that is a valid C-extension register'')"
definition err_range_c :: "'a result" where
  "err_range_c = Inl (TccError ''Expected source operand that is an immediate value between 0 and 0xff'')"
definition err_div4 :: "'a result" where
  "err_div4 = Inl (TccError ''Expected source operand that is an immediate value divisible by 4'')"
definition err_even :: "'a result" where
  "err_even = Inl (TccError ''Expected source operand that is an even immediate value'')"
definition err_insn :: "'a result" where "err_insn = Inl (TccError ''known instruction expected'')"

lemmas c_errors = err_dst_def err_src_def err_imm_def err_dst_c_def err_src_c_def err_range_c_def err_div4_def
  err_even_def err_insn_def

definition asm_emit_ca ::
  "string \<Rightarrow> 32 word \<Rightarrow> operand \<Rightarrow> operand \<Rightarrow> 'a cg_scheme \<Rightarrow> 'a cg_scheme result" where
  "asm_emit_ca token opc rd rs2 s =
    (if not_reg rd then err_dst
     else if not_reg rs2 then err_src
     else
       let dst = op_reg rd - 8; src = op_reg rs2 - 8
       in if dst > 7 then err_dst_c
          else if src > 7 then err_src_c
          else Inr (gen_le16 (opc OR C_ENCODE_RS2 src OR C_ENCODE_RS1 dst) s))"

definition asm_emit_cb ::
  "string \<Rightarrow> 32 word \<Rightarrow> operand \<Rightarrow> operand \<Rightarrow> 'a cg_scheme \<Rightarrow> 'a cg_scheme result" where
  "asm_emit_cb token opc rs1 imm s =
    (if not_reg rs1 then err_src
     else if not_imm imm then err_imm
     else
       let offset = u32 (op_v imm)
       in if offset AND 1 \<noteq> 0 then err_even
          else
            let src = op_reg rs1 - 8
            in if src > 7 then err_src_c
               else if token = ''c_beqz'' \<or> token = ''c_bnez'' then
                 Inr (gen_le16 (opc OR C_ENCODE_RS1 src
                   OR push_bit 2 (NTH_BIT offset 5 OR push_bit 1 (drop_bit 1 offset AND 3) OR push_bit 3 (drop_bit 6 offset AND 3))
                   OR push_bit 10 ((drop_bit 3 offset AND 3) OR NTH_BIT offset 8)) s)
               else
                 Inr (gen_le16 (opc OR C_ENCODE_RS1 src OR push_bit 2 (offset AND 0x1f)
                   OR push_bit 12 (NTH_BIT offset 5)) s))"

definition asm_emit_ci ::
  "string \<Rightarrow> 32 word \<Rightarrow> operand \<Rightarrow> operand \<Rightarrow> 'a cg_scheme \<Rightarrow> 'a cg_scheme result" where
  "asm_emit_ci token opc rd imm s =
    (if not_reg rd then err_dst
     else if not_imm imm then err_imm
     else
       let immediate = u32 (op_v imm); rdw = ENCODE_RD (op_reg rd)
       in if token = ''c_addi'' \<or> token = ''c_addiw'' \<or> token = ''c_li'' \<or> token = ''c_slli'' then
            Inr (gen_le16 (opc OR push_bit 2 (immediate AND 0x1f) OR rdw OR push_bit 12 (NTH_BIT immediate 5)) s)
          else if token = ''c_addi16sp'' then
            Inr (gen_le16 (opc OR push_bit 2 (NTH_BIT immediate 5) OR push_bit 3 (drop_bit 7 immediate AND 3)
              OR push_bit 5 (NTH_BIT immediate 6) OR push_bit 6 (NTH_BIT immediate 4) OR rdw
              OR push_bit 12 (NTH_BIT immediate 9)) s)
          else if token = ''c_lui'' then
            Inr (gen_le16 (opc OR push_bit 2 (drop_bit 12 immediate AND 0x1f) OR rdw
              OR push_bit 12 (NTH_BIT immediate 17)) s)
          else if token = ''c_fldsp'' \<or> token = ''c_ldsp'' then
            Inr (gen_le16 (opc OR push_bit 2 (drop_bit 6 immediate AND 7) OR push_bit 5 (drop_bit 3 immediate AND 2)
              OR rdw OR push_bit 12 (NTH_BIT immediate 5)) s)
          else if token = ''c_flwsp'' \<or> token = ''c_lwsp'' then
            Inr (gen_le16 (opc OR push_bit 2 (drop_bit 6 immediate AND 3) OR push_bit 4 (drop_bit 2 immediate AND 7)
              OR rdw OR push_bit 12 (NTH_BIT immediate 5)) s)
          else if token = ''c_nop'' then Inr (gen_le16 opc s)
          else err_insn)"

definition asm_emit_ciw ::
  "string \<Rightarrow> 32 word \<Rightarrow> operand \<Rightarrow> operand \<Rightarrow> 'a cg_scheme \<Rightarrow> 'a cg_scheme result" where
  "asm_emit_ciw token opc rd imm s =
    (if not_reg rd then err_dst
     else if not_imm imm then err_imm
     else
       let dst = op_reg rd - 8
       in if dst > 7 then err_dst_c
          else
            let nzuimm = u32 (op_v imm)
            in if nzuimm > 0x3fc then err_range_c
               else if nzuimm AND 3 \<noteq> 0 then err_div4
               else Inr (gen_le16 (opc OR ENCODE_RS2 (op_reg rd)
                 OR push_bit 5 (NTH_BIT nzuimm 3 OR push_bit 1 (NTH_BIT nzuimm 2)
                   OR push_bit 2 (drop_bit 6 nzuimm AND 0xf) OR push_bit 6 (drop_bit 4 nzuimm AND 3))) s))"

definition asm_emit_cj :: "string \<Rightarrow> 32 word \<Rightarrow> operand \<Rightarrow> 'a cg_scheme \<Rightarrow> 'a cg_scheme result" where
  "asm_emit_cj token opc imm s =
    (if op_type imm \<noteq> OP_IM12S then
       Inl (TccError ''Expected source operand that is a 12-bit immediate value'')
     else
       let offset = u32 (op_v imm)
       in if offset AND 1 \<noteq> 0 then err_even
          else Inr (gen_le16 (opc OR push_bit 2 (NTH_BIT offset 5) OR push_bit 3 (drop_bit 1 offset AND 7)
            OR push_bit 6 (NTH_BIT offset 7) OR push_bit 7 (NTH_BIT offset 6) OR push_bit 8 (NTH_BIT offset 10)
            OR push_bit 9 (drop_bit 8 offset AND 3) OR push_bit 11 (NTH_BIT offset 4) OR push_bit 12 (NTH_BIT offset 11)) s))"

definition asm_emit_cl ::
  "string \<Rightarrow> 32 word \<Rightarrow> operand \<Rightarrow> operand \<Rightarrow> operand \<Rightarrow> 'a cg_scheme \<Rightarrow> 'a cg_scheme result" where
  "asm_emit_cl token opc rd rs1 imm s =
    (if not_reg rd then err_dst
     else if not_reg rs1 then err_src
     else if not_imm imm then err_imm
     else
       let dst = op_reg rd - 8; src = op_reg rs1 - 8
       in if dst > 7 then err_dst_c
          else if src > 7 then err_src_c
          else
            let offset = u32 (op_v imm)
            in if offset > 0xff then err_range_c
               else if offset AND 3 \<noteq> 0 then err_div4
               else if token = ''c_flw'' \<or> token = ''c_lw'' then
                 Inr (gen_le16 (opc OR C_ENCODE_RS2 dst OR C_ENCODE_RS1 src OR push_bit 5 (NTH_BIT offset 6)
                   OR push_bit 6 (NTH_BIT offset 2) OR push_bit 10 (drop_bit 3 offset AND 7)) s)
               else if token = ''c_fld'' \<or> token = ''c_ld'' then
                 Inr (gen_le16 (opc OR C_ENCODE_RS2 dst OR C_ENCODE_RS1 src OR push_bit 5 (drop_bit 6 offset AND 3)
                   OR push_bit 10 (drop_bit 3 offset AND 7)) s)
               else err_insn)"

definition asm_emit_cr ::
  "string \<Rightarrow> 32 word \<Rightarrow> operand \<Rightarrow> operand \<Rightarrow> 'a cg_scheme \<Rightarrow> 'a cg_scheme result" where
  "asm_emit_cr token opc rd rs2 s =
    (if not_reg rd then err_dst
     else if not_reg rs2 then err_src
     else Inr (gen_le16 (opc OR C_ENCODE_RS1 (op_reg rd) OR C_ENCODE_RS2 (op_reg rs2)) s))"

definition asm_emit_cs ::
  "string \<Rightarrow> 32 word \<Rightarrow> operand \<Rightarrow> operand \<Rightarrow> operand \<Rightarrow> 'a cg_scheme \<Rightarrow> 'a cg_scheme result" where
  "asm_emit_cs token opc rs2 rs1 imm s =
    (if not_reg rs2 then err_dst
     else if not_reg rs1 then err_src
     else if not_imm imm then err_imm
     else
       let base = op_reg rs1 - 8; src = op_reg rs2 - 8
       in if base > 7 then err_dst_c
          else if src > 7 then err_src_c
          else
            let offset = u32 (op_v imm)
            in if offset > 0xff then err_range_c
               else if offset AND 3 \<noteq> 0 then err_div4
               else if token = ''c_fsw'' \<or> token = ''c_sw'' then
                 Inr (gen_le16 (opc OR C_ENCODE_RS2 base OR C_ENCODE_RS1 src OR push_bit 5 (NTH_BIT offset 6)
                   OR push_bit 6 (NTH_BIT offset 2) OR push_bit 10 (drop_bit 3 offset AND 7)) s)
               else if token = ''c_fsd'' \<or> token = ''c_sd'' then
                 Inr (gen_le16 (opc OR C_ENCODE_RS2 base OR C_ENCODE_RS1 src OR push_bit 5 (drop_bit 6 offset AND 3)
                   OR push_bit 10 (drop_bit 3 offset AND 7)) s)
               else err_insn)"

definition asm_emit_css ::
  "string \<Rightarrow> 32 word \<Rightarrow> operand \<Rightarrow> operand \<Rightarrow> 'a cg_scheme \<Rightarrow> 'a cg_scheme result" where
  "asm_emit_css token opc rs2 imm s =
    (if not_reg rs2 then err_dst
     else if not_imm imm then err_imm
     else
       let offset = u32 (op_v imm)
       in if offset > 0xff then err_range_c
          else if offset AND 3 \<noteq> 0 then err_div4
          else if token = ''c_fswsp'' \<or> token = ''c_swsp'' then
            Inr (gen_le16 (opc OR ENCODE_RS2 (op_reg rs2) OR push_bit 7 (drop_bit 6 offset AND 3)
              OR push_bit 9 (drop_bit 2 offset AND 0xf)) s)
          else if token = ''c_fsdsp'' \<or> token = ''c_sdsp'' then
            Inr (gen_le16 (opc OR ENCODE_RS2 (op_reg rs2) OR push_bit 7 (drop_bit 6 offset AND 7)
              OR push_bit 10 (drop_bit 3 offset AND 7)) s)
          else err_insn)"

end
