(* ===== verification/AsmOpcode.thy ===== *)
theory AsmOpcode
  imports AsmExpr AsmEmitC
begin

text \<open>
  The instructions of the RISC-V assembler (\<open>riscv64-asm.c\<close>): the parsing of operands, one switch for every
  group of mnemonics and the dispatcher \<open>asm_opcode\<close>. A \<open>switch\<close> over tokens is a table of the tokens with
  the call each case makes; the \<open>static const Operand\<close>s are \<open>nil_op\<close>, \<open>zimm\<close> and \<open>ra_op\<close>.
\<close>

unbundle bit_operations_syntax

abbreviation nil_op :: operand where "nil_op \<equiv> reg_operand 0"
abbreviation zimm :: operand where "zimm \<equiv> imm_operand 0"
abbreviation ra_op :: operand where "ra_op \<equiv> reg_operand 1"

type_synonym 's emission = "'s \<Rightarrow> 's result"

definition seq :: "'s emission \<Rightarrow> 's emission \<Rightarrow> 's emission" where
  "seq c d s = bindr (c s) d"

section \<open>The switches\<close>

definition CA :: "32 word" where "CA = 1 OR push_bit 10 3 OR push_bit 13 4"

definition ternary_base :: "operand \<Rightarrow> operand \<Rightarrow> operand \<Rightarrow> (string \<times> 'a cg_scheme emission) list" where
  "ternary_base a b c = [
     (''sll'', asm_emit_r ''sll'' (push_bit 2 0xC OR 3 OR push_bit 12 1) a b c),
     (''slli'', asm_emit_i ''slli'' (push_bit 2 4 OR 3 OR push_bit 12 1) a b c),
     (''srl'', asm_emit_r ''srl'' (push_bit 2 0xC OR 3 OR push_bit 12 4) a b c),
     (''srli'', asm_emit_i ''srli'' (push_bit 2 0x4 OR 3 OR push_bit 12 5) a b c),
     (''sra'', asm_emit_r ''sra'' (push_bit 2 0xC OR 3 OR push_bit 12 5 OR push_bit 25 32) a b c),
     (''srai'', asm_emit_i ''srai'' (push_bit 2 0x4 OR 3 OR push_bit 12 5 OR push_bit 26 16) a b c),
     (''sllw'', asm_emit_r ''sllw'' (push_bit 2 0xE OR 3 OR push_bit 12 1) a b c),
     (''slliw'', asm_emit_i ''slliw'' (push_bit 2 6 OR 3 OR push_bit 12 1) a b c),
     (''srlw'', asm_emit_r ''srlw'' (push_bit 2 0xE OR 3 OR push_bit 12 5) a b c),
     (''srliw'', asm_emit_i ''srliw'' (push_bit 2 0x6 OR 3 OR push_bit 12 5) a b c),
     (''sraw'', asm_emit_r ''sraw'' (push_bit 2 0xE OR 3 OR push_bit 12 5) a b c),
     (''sraiw'', asm_emit_i ''sraiw'' (push_bit 2 0x6 OR 3 OR push_bit 12 5) a b c),
     (''add'', asm_emit_r ''add'' (push_bit 2 0xC OR 3) a b c),
     (''addi'', asm_emit_i ''addi'' (push_bit 2 4 OR 3) a b c),
     (''sub'', asm_emit_r ''sub'' (push_bit 2 0xC OR 3 OR push_bit 25 32) a b c),
     (''addw'', asm_emit_r ''addw'' (push_bit 2 0xE OR 3 OR push_bit 12 0) a b c),
     (''addiw'', asm_emit_i ''addiw'' (push_bit 2 0x6 OR 3 OR push_bit 12 0) a b c),
     (''subw'', asm_emit_r ''subw'' (push_bit 2 0xE OR 3 OR push_bit 12 0 OR push_bit 25 32) a b c),
     (''xor'', asm_emit_r ''xor'' (push_bit 2 0xC OR 3 OR push_bit 12 4) a b c),
     (''xori'', asm_emit_i ''xori'' (push_bit 2 0x4 OR 3 OR push_bit 12 4) a b c),
     (''or'', asm_emit_r ''or'' (push_bit 2 0xC OR 3 OR push_bit 12 6) a b c),
     (''ori'', asm_emit_i ''ori'' (push_bit 2 0x4 OR 3 OR push_bit 12 6) a b c),
     (''and'', asm_emit_r ''and'' (push_bit 2 0xC OR 3 OR push_bit 12 7) a b c),
     (''andi'', asm_emit_i ''andi'' (push_bit 2 0x4 OR 3 OR push_bit 12 7) a b c),
     (''slt'', asm_emit_r ''slt'' (push_bit 2 0xC OR 3 OR push_bit 12 2) a b c),
     (''slti'', asm_emit_i ''slti'' (push_bit 2 0x4 OR 3 OR push_bit 12 2) a b c),
     (''sltu'', asm_emit_r ''sltu'' (push_bit 2 0xC OR 3 OR push_bit 12 3) a b c),
     (''sltiu'', asm_emit_i ''sltiu'' (push_bit 2 0x4 OR 3 OR push_bit 12 3) a b c)]"

definition ternary_mul :: "operand \<Rightarrow> operand \<Rightarrow> operand \<Rightarrow> (string \<times> 'a cg_scheme emission) list" where
  "ternary_mul a b c = [
     (''div'', asm_emit_r ''div'' (0x33 OR push_bit 12 4 OR push_bit 25 1) a b c),
     (''divu'', asm_emit_r ''divu'' (0x33 OR push_bit 12 5 OR push_bit 25 1) a b c),
     (''divuw'', asm_emit_r ''divuw'' (0x3b OR push_bit 12 5 OR push_bit 25 1) a b c),
     (''divw'', asm_emit_r ''divw'' (0x3b OR push_bit 12 4 OR push_bit 25 1) a b c),
     (''mul'', asm_emit_r ''mul'' (0x33 OR push_bit 25 1) a b c),
     (''mulh'', asm_emit_r ''mulh'' (0x33 OR push_bit 12 1 OR push_bit 25 1) a b c),
     (''mulhsu'', asm_emit_r ''mulhsu'' (0x33 OR push_bit 12 2 OR push_bit 25 1) a b c),
     (''mulhu'', asm_emit_r ''mulhu'' (0x33 OR push_bit 12 3 OR push_bit 25 1) a b c),
     (''mulw'', asm_emit_r ''mulw'' (0x3b OR push_bit 25 1) a b c),
     (''rem'', asm_emit_r ''rem'' (0x33 OR push_bit 12 6 OR push_bit 25 1) a b c),
     (''remu'', asm_emit_r ''remu'' (0x33 OR push_bit 12 7 OR push_bit 25 1) a b c),
     (''remuw'', asm_emit_r ''remuw'' (0x3b OR push_bit 12 7 OR push_bit 25 1) a b c),
     (''remw'', asm_emit_r ''remw'' (0x3b OR push_bit 12 6 OR push_bit 25 1) a b c)]"

definition ternary_csr :: "operand \<Rightarrow> operand \<Rightarrow> operand \<Rightarrow> (string \<times> 'a cg_scheme emission) list" where
  "ternary_csr a b c = [
     (''csrrc'', asm_emit_i ''csrrc'' (0x73 OR push_bit 12 3) a c b),
     (''csrrci'', asm_emit_i ''csrrci'' (0x73 OR push_bit 12 7) a (c\<lparr>op_type := OP_REG\<rparr>) b),
     (''csrrs'', asm_emit_i ''csrrs'' (0x73 OR push_bit 12 2) a c b),
     (''csrrsi'', asm_emit_i ''csrrsi'' (0x73 OR push_bit 12 6) a (c\<lparr>op_type := OP_REG\<rparr>) b),
     (''csrrw'', asm_emit_i ''csrrw'' (0x73 OR push_bit 12 1) a c b),
     (''csrrwi'', asm_emit_i ''csrrwi'' (0x73 OR push_bit 12 5) a (c\<lparr>op_type := OP_REG\<rparr>) b)]"

definition ternary_c :: "operand \<Rightarrow> operand \<Rightarrow> operand \<Rightarrow> (string \<times> 'a cg_scheme emission) list" where
  "ternary_c a b c = [
     (''c_fld'', asm_emit_cl ''c_fld'' (push_bit 13 1) a b c),
     (''c_flw'', asm_emit_cl ''c_flw'' (push_bit 13 3) a b c),
     (''c_fsd'', asm_emit_cs ''c_fsd'' (push_bit 13 5) a b c),
     (''c_fsw'', asm_emit_cs ''c_fsw'' (push_bit 13 7) a b c),
     (''c_ld'', asm_emit_cl ''c_ld'' (push_bit 13 3) a b c),
     (''c_lw'', asm_emit_cl ''c_lw'' (push_bit 13 2) a b c),
     (''c_sd'', asm_emit_cs ''c_sd'' (push_bit 13 7) a b c),
     (''c_sw'', asm_emit_cs ''c_sw'' (push_bit 13 6) a b c)]"

definition branch_cases :: "operand \<Rightarrow> operand \<Rightarrow> operand \<Rightarrow> (string \<times> 'a cg_scheme emission) list" where
  "branch_cases a b c = [
     (''beq'', asm_emit_b ''beq'' (0x63 OR push_bit 12 0) a b c),
     (''bne'', asm_emit_b ''bne'' (0x63 OR push_bit 12 1) a b c),
     (''blt'', asm_emit_b ''blt'' (0x63 OR push_bit 12 4) a b c),
     (''bge'', asm_emit_b ''bge'' (0x63 OR push_bit 12 5) a b c),
     (''bltu'', asm_emit_b ''bltu'' (0x63 OR push_bit 12 6) a b c),
     (''bgeu'', asm_emit_b ''bgeu'' (0x63 OR push_bit 12 7) a b c),
     (''bgt'', asm_emit_b ''bgt'' (0x63 OR push_bit 12 4) b a c),
     (''ble'', asm_emit_b ''ble'' (0x63 OR push_bit 12 5) b a c),
     (''bgtu'', asm_emit_b ''bgtu'' (0x63 OR push_bit 12 6) b a c),
     (''bleu'', asm_emit_b ''bleu'' (0x63 OR push_bit 12 7) b a c),
     (''bnez'', asm_emit_b ''bnez'' (0x63 OR push_bit 12 1) a nil_op b),
     (''beqz'', asm_emit_b ''beqz'' (0x63 OR push_bit 12 0) a nil_op b),
     (''blez'', asm_emit_b ''blez'' (0x63 OR push_bit 12 5) a nil_op b),
     (''bgez'', asm_emit_b ''bgez'' (0x63 OR push_bit 12 5) nil_op a b),
     (''bltz'', asm_emit_b ''bltz'' (0x63 OR push_bit 12 4) a nil_op b),
     (''bgtz'', asm_emit_b ''bgtz'' (0x63 OR push_bit 12 4) nil_op a b)]"

definition mem_cases :: "operand \<Rightarrow> operand \<Rightarrow> operand \<Rightarrow> (string \<times> 'a cg_scheme emission) list" where
  "mem_cases a b c = [
     (''lb'', asm_emit_i ''lb'' (push_bit 2 0x0 OR 3) a b c),
     (''lh'', asm_emit_i ''lh'' (push_bit 2 0x0 OR 3 OR push_bit 12 1) a b c),
     (''lw'', asm_emit_i ''lw'' (push_bit 2 0x0 OR 3 OR push_bit 12 2) a b c),
     (''ld'', asm_emit_i ''ld'' (push_bit 2 0x0 OR 3 OR push_bit 12 3) a b c),
     (''lbu'', asm_emit_i ''lbu'' (push_bit 2 0x0 OR 3 OR push_bit 12 4) a b c),
     (''lhu'', asm_emit_i ''lhu'' (push_bit 2 0x0 OR 3 OR push_bit 12 5) a b c),
     (''lwu'', asm_emit_i ''lwu'' (push_bit 2 0x0 OR 3 OR push_bit 12 6) a b c),
     (''sb'', asm_emit_s ''sb'' (push_bit 2 0x8 OR 3 OR push_bit 12 0) b a c),
     (''sh'', asm_emit_s ''sh'' (push_bit 2 0x8 OR 3 OR push_bit 12 1) b a c),
     (''sw'', asm_emit_s ''sw'' (push_bit 2 0x8 OR 3 OR push_bit 12 2) b a c),
     (''sd'', asm_emit_s ''sd'' (push_bit 2 0x8 OR 3 OR push_bit 12 3) b a c)]"

definition binary_upper :: "operand \<Rightarrow> operand \<Rightarrow> (string \<times> 'a cg_scheme emission) list" where
  "binary_upper a b = [
     (''lui'', asm_emit_u ''lui'' (push_bit 2 0xD OR 3) a b),
     (''auipc'', asm_emit_u ''auipc'' (push_bit 2 0x05 OR 3) a b)]"

definition binary_c1 :: "operand \<Rightarrow> operand \<Rightarrow> (string \<times> 'a cg_scheme emission) list" where
  "binary_c1 a b = [
     (''c_add'', asm_emit_cr ''c_add'' (2 OR push_bit 12 9) a b),
     (''c_mv'', asm_emit_cr ''c_mv'' (2 OR push_bit 12 8) a b),
     (''c_addi16sp'', asm_emit_ci ''c_addi16sp'' (1 OR push_bit 13 3) a b),
     (''c_addi'', asm_emit_ci ''c_addi'' 1 a b),
     (''c_addiw'', asm_emit_ci ''c_addiw'' (1 OR push_bit 13 1) a b),
     (''c_fldsp'', asm_emit_ci ''c_fldsp'' (2 OR push_bit 13 1) a b),
     (''c_flwsp'', asm_emit_ci ''c_flwsp'' (2 OR push_bit 13 3) a b),
     (''c_ldsp'', asm_emit_ci ''c_ldsp'' (2 OR push_bit 13 3) a b),
     (''c_li'', asm_emit_ci ''c_li'' (1 OR push_bit 13 2) a b),
     (''c_lui'', asm_emit_ci ''c_lui'' (1 OR push_bit 13 3) a b),
     (''c_lwsp'', asm_emit_ci ''c_lwsp'' (2 OR push_bit 13 2) a b),
     (''c_slli'', asm_emit_ci ''c_slli'' 2 a b),
     (''c_addi4spn'', asm_emit_ciw ''c_addi4spn'' 0 a b)]"

definition binary_c2 :: "operand \<Rightarrow> operand \<Rightarrow> (string \<times> 'a cg_scheme emission) list" where
  "binary_c2 a b = [
     (''c_addw'', asm_emit_ca ''c_addw'' (CA OR push_bit 5 1 OR push_bit 12 1) a b),
     (''c_and'', asm_emit_ca ''c_and'' (CA OR push_bit 5 3) a b),
     (''c_or'', asm_emit_ca ''c_or'' (CA OR push_bit 5 2) a b),
     (''c_sub'', asm_emit_ca ''c_sub'' CA a b),
     (''c_subw'', asm_emit_ca ''c_subw'' (CA OR push_bit 12 1) a b),
     (''c_xor'', asm_emit_ca ''c_xor'' (CA OR push_bit 5 1) a b),
     (''c_andi'', asm_emit_cb ''c_andi'' (1 OR push_bit 10 2 OR push_bit 13 4) a b),
     (''c_beqz'', asm_emit_cb ''c_beqz'' (1 OR push_bit 13 6) a b),
     (''c_bnez'', asm_emit_cb ''c_bnez'' (1 OR push_bit 13 7) a b),
     (''c_srai'', asm_emit_cb ''c_srai'' (1 OR push_bit 10 1 OR push_bit 13 4) a b),
     (''c_srli'', asm_emit_cb ''c_srli'' (1 OR push_bit 13 4) a b),
     (''c_sdsp'', asm_emit_css ''c_sdsp'' (2 OR push_bit 13 7) a b),
     (''c_swsp'', asm_emit_css ''c_swsp'' (2 OR push_bit 13 6) a b),
     (''c_fswsp'', asm_emit_css ''c_fswsp'' (2 OR push_bit 13 7) a b),
     (''c_fsdsp'', asm_emit_css ''c_fsdsp'' (2 OR push_bit 13 5) a b)]"

definition atomic_cases :: "operand \<Rightarrow> operand \<Rightarrow> operand \<Rightarrow> (string \<times> 'a cg_scheme emission) list" where
  "atomic_cases a b c = [
     (''lr_w'', asm_emit_a ''lr_w'' (0x2F OR push_bit 12 0x2 OR push_bit 27 0x2) a b c 0 0),
     (''lr_w_aq'', asm_emit_a ''lr_w_aq'' (0x2F OR push_bit 12 0x2 OR push_bit 27 0x2) a b c 1 0),
     (''lr_w_rl'', asm_emit_a ''lr_w_rl'' (0x2F OR push_bit 12 0x2 OR push_bit 27 0x2) a b c 0 1),
     (''lr_w_aqrl'', asm_emit_a ''lr_w_aqrl'' (0x2F OR push_bit 12 0x2 OR push_bit 27 0x2) a b c 1 1),
     (''lr_d'', asm_emit_a ''lr_d'' (0x2F OR push_bit 12 0x3 OR push_bit 27 0x2) a b c 0 0),
     (''lr_d_aq'', asm_emit_a ''lr_d_aq'' (0x2F OR push_bit 12 0x3 OR push_bit 27 0x2) a b c 1 0),
     (''lr_d_rl'', asm_emit_a ''lr_d_rl'' (0x2F OR push_bit 12 0x3 OR push_bit 27 0x2) a b c 0 1),
     (''lr_d_aqrl'', asm_emit_a ''lr_d_aqrl'' (0x2F OR push_bit 12 0x3 OR push_bit 27 0x2) a b c 1 1),
     (''sc_w'', asm_emit_a ''sc_w'' (0x2F OR push_bit 12 0x2 OR push_bit 27 0x3) a b c 0 0),
     (''sc_w_aq'', asm_emit_a ''sc_w_aq'' (0x2F OR push_bit 12 0x2 OR push_bit 27 0x3) a b c 1 0),
     (''sc_w_rl'', asm_emit_a ''sc_w_rl'' (0x2F OR push_bit 12 0x2 OR push_bit 27 0x3) a b c 0 1),
     (''sc_w_aqrl'', asm_emit_a ''sc_w_aqrl'' (0x2F OR push_bit 12 0x2 OR push_bit 27 0x3) a b c 1 1),
     (''sc_d'', asm_emit_a ''sc_d'' (0x2F OR push_bit 12 0x3 OR push_bit 27 0x3) a b c 0 0),
     (''sc_d_aq'', asm_emit_a ''sc_d_aq'' (0x2F OR push_bit 12 0x3 OR push_bit 27 0x3) a b c 1 0),
     (''sc_d_rl'', asm_emit_a ''sc_d_rl'' (0x2F OR push_bit 12 0x3 OR push_bit 27 0x3) a b c 0 1),
     (''sc_d_aqrl'', asm_emit_a ''sc_d_aqrl'' (0x2F OR push_bit 12 0x3 OR push_bit 27 0x3) a b c 1 1)]"

section \<open>Operands\<close>

text \<open>The parser of expressions with fuel enough for the tokens that are left.\<close>

definition expr_fuel :: "asm_st \<Rightarrow> nat" where
  "expr_fuel s = 10 * length (toks s) + 10"

definition asm_expr :: "asm_st \<Rightarrow> (expr_value \<times> asm_st) result" where
  "asm_expr s = (case expr_cmp (expr_fuel s) s of Some r \<Rightarrow> r | None \<Rightarrow> Inl AssertFailed)"

definition asm_int_expr :: "asm_st \<Rightarrow> (32 word \<times> asm_st) result" where
  "asm_int_expr s = bindr (asm_expr s)
    (\<lambda>(e, s1). if ev_sym e \<noteq> None then expect ''constant'' else Inr (u32 (ev_v e), s1))"

definition set_symbol :: "string \<Rightarrow> asm_st \<Rightarrow> (nat \<times> asm_st) result" where
  "set_symbol label s = bindr (asm_expr (next_tok s))
    (\<lambda>(e, s1). case elfsym s1 (ev_sym e) of
        Some esym \<Rightarrow> asm_new_label1 label 2 (st_shndx esym) (u32 (ev_v e + st_value esym)) s1
      | None \<Rightarrow> asm_new_label1 label 2 SHN_ABS (u32 (ev_v e)) s1)"

definition greloca :: "symref \<Rightarrow> nat \<Rightarrow> rel_type \<Rightarrow> 64 word \<Rightarrow> asm_st \<Rightarrow> asm_st" where
  "greloca y offset type addend s =
    (if nocode_wanted s then s
     else
       let s1 = (case y of
                   SymRef k \<Rightarrow> if sym_elf (syms s ! k) = None
                               then upd_sym k (\<lambda>sy. sy\<lparr>sym_elf := Some \<lparr>st_shndx = SHN_UNDEF, st_value = 0\<rparr>\<rparr>) s else s
                 | TextLabel _ \<Rightarrow> s | NoSym \<Rightarrow> s)
       in s1\<lparr>relocs := relocs s1 @ [\<lparr>r_offset = offset, r_type = type, r_sym = y, r_addend = addend\<rparr>]\<rparr>)"

definition expr_operand :: "op_kind \<Rightarrow> expr_value \<Rightarrow> operand" where
  "expr_operand k e = \<lparr>op_type = k, op_v = ev_v e, op_sym = ev_sym e, op_pcrel = ev_pcrel e\<rparr>"

definition is_im12 :: "64 word \<Rightarrow> bool" where
  "is_im12 v \<longleftrightarrow> sint (u32 v) \<ge> - 0x1000 \<and> sint (u32 v) < 0x1000"

text \<open>The common end of the three operand parsers: \<open>rel\<close> enters the relocations of a symbol.\<close>

definition classify_operand ::
  "(nat \<Rightarrow> asm_st \<Rightarrow> asm_st) \<Rightarrow> expr_value \<Rightarrow> asm_st \<Rightarrow> (operand \<times> asm_st) result" where
  "classify_operand rel e s =
    (case ev_sym e of
       None \<Rightarrow> Inr (expr_operand (if is_im12 (ev_v e) then OP_IM12S else OP_IM32) e, s)
     | Some k \<Rightarrow>
         if sym_extern (syms s ! k) \<or> sym_static (syms s ! k) then
           Inr ((expr_operand OP_IM12S e)\<lparr>op_v := 0\<rparr>, rel k s)
         else expect ''operand'')"

definition pcrel_relocs :: "nat \<Rightarrow> asm_st \<Rightarrow> asm_st" where
  "pcrel_relocs k s =
    greloca (TextLabel (ind s)) (ind s + 4) R_RISCV_PCREL_LO12_I 0
      (greloca (SymRef k) (ind s) (if sym_static (syms s ! k) then R_RISCV_PCREL_HI20 else R_RISCV_GOT_HI20) 0 s)"

definition parse_operand :: "asm_st \<Rightarrow> (operand \<times> asm_st) result" where
  "parse_operand s =
    (let r = asm_parse_regvar (tok s)
     in if r \<noteq> -1 then Inr (reg_operand (word_of_int r), next_tok s)
        else if tok s = TokPunct CHR ''$'' then classify_operand pcrel_relocs (ev_num 0) (next_tok s)
        else if asm_parse_csrvar (tok s) \<noteq> -1 then
          classify_operand pcrel_relocs (ev_num (word_of_int (asm_parse_csrvar (tok s)))) (next_tok s)
        else bindr (asm_expr s) (\<lambda>(e, s1). classify_operand pcrel_relocs e s1))"

definition parse_branch_offset_operand :: "asm_st \<Rightarrow> (operand \<times> asm_st) result" where
  "parse_branch_offset_operand s = bindr (asm_expr s)
    (\<lambda>(e, s1). classify_operand (\<lambda>k s2. greloca (SymRef k) (ind s2) R_RISCV_BRANCH 0 s2) e s1)"

definition parse_jump_offset_operand :: "asm_st \<Rightarrow> (operand \<times> asm_st) result" where
  "parse_jump_offset_operand s = bindr (asm_expr s)
    (\<lambda>(e, s1). classify_operand (\<lambda>k s2. greloca (SymRef k) (ind s2) R_RISCV_JAL 0 s2) e s1)"

primrec parse_operands_more :: "nat \<Rightarrow> asm_st \<Rightarrow> (operand list \<times> asm_st) result" where
  "parse_operands_more 0 s = Inr ([], s)"
| "parse_operands_more (Suc n) s =
    bindr (skip CHR '','' s) (\<lambda>s1. bindr (parse_operand s1)
      (\<lambda>(op, s2). bindr (parse_operands_more n s2) (\<lambda>(ops, s3). Inr (op # ops, s3))))"

definition parse_operands :: "nat \<Rightarrow> asm_st \<Rightarrow> (operand list \<times> asm_st) result" where
  "parse_operands count s =
    (if count = 0 then Inr ([], s)
     else bindr (parse_operand s)
       (\<lambda>(op, s1). bindr (parse_operands_more (count - 1) s1) (\<lambda>(ops, s2). Inr (op # ops, s2))))"

text \<open>What follows the comma in \<open>X, imm(Y)\<close>, \<open>X, (Y)\<close> and \<open>X, Y\<close>: the operands \<open>Y\<close> and \<open>imm\<close>.\<close>

definition parse_base_offset :: "asm_st \<Rightarrow> (operand \<times> operand \<times> asm_st) result" where
  "parse_base_offset s =
    (let parens = (\<lambda>s. bindr (parse_operand (next_tok s))
                     (\<lambda>(op, s1). bindr (skip CHR '')'' s1) (\<lambda>s2. Inr (op, s2))))
     in if tok s = TokPunct CHR ''('' then bindr (parens s) (\<lambda>(op1, s1). Inr (op1, zimm, s1))
        else bindr (parse_operand s)
          (\<lambda>(op2, s1). if tok s1 = TokPunct CHR ''('' then bindr (parens s1) (\<lambda>(op1, s2). Inr (op1, op2, s2))
                       else Inr (op2, zimm, s1)))"

definition parse_mem_access_operands :: "asm_st \<Rightarrow> (operand \<times> operand \<times> operand \<times> asm_st) result" where
  "parse_mem_access_operands s = bindr (parse_operand s)
    (\<lambda>(op0, s1). bindr (skip CHR '','' s1)
      (\<lambda>s2. bindr (parse_base_offset s2) (\<lambda>(op1, op2, s3). Inr (op0, op1, op2, s3))))"

section \<open>The groups of instructions\<close>

definition asm_nullary_opcode :: "string \<Rightarrow> asm_st \<Rightarrow> asm_st result" where
  "asm_nullary_opcode token s =
    (if token = ''fence_i'' then asm_emit_opcode (push_bit 2 0x3 OR 3 OR push_bit 12 1) s
     else if token = ''ecall'' then asm_emit_opcode (push_bit 2 0x1C OR 3 OR push_bit 12 0) s
     else if token = ''ebreak'' then asm_emit_opcode (push_bit 2 0x1C OR 3 OR push_bit 12 0 OR push_bit 20 1) s
     else if token = ''nop'' then asm_emit_i token (push_bit 2 4 OR 3) nil_op nil_op zimm s
     else if token = ''wfi'' then asm_emit_opcode (push_bit 2 0x1C OR 3 OR push_bit 20 0x105) s
     else if token = ''ret'' then asm_emit_opcode (0x67 OR push_bit 12 0 OR ENCODE_RS1 1) s
     else if token = ''c_ebreak'' then asm_emit_cr token (2 OR push_bit 12 9) nil_op nil_op s
     else if token = ''c_nop'' then asm_emit_ci token 1 nil_op zimm s
     else expect ''nullary instruction'')"

definition asm_jal_opcode :: "string \<Rightarrow> asm_st \<Rightarrow> asm_st result" where
  "asm_jal_opcode token s =
    bindr (if token = ''j'' then Inr (nil_op, s)
           else if asm_parse_regvar (tok s) = -1 then Inr (ra_op, s)
           else bindr (parse_operand s) (\<lambda>(op, s1). bindr (skip CHR '','' s1) (\<lambda>s2. Inr (op, s2))))
      (\<lambda>(op0, s3). bindr (parse_jump_offset_operand s3) (\<lambda>(op1, s4). asm_emit_j token 0x6f op0 op1 s4))"

definition asm_jalr_opcode :: "string \<Rightarrow> asm_st \<Rightarrow> asm_st result" where
  "asm_jalr_opcode token s = bindr (parse_operand s)
    (\<lambda>(op0, s1).
       if tok s1 \<noteq> TokPunct CHR '','' then asm_emit_i token (0x67 OR push_bit 12 0) ra_op op0 zimm s1
       else bindr (parse_base_offset (next_tok s1))
         (\<lambda>(op1, op2, s2). asm_emit_i token (0x67 OR push_bit 12 0) op0 op1 op2 s2))"

text \<open>\<open>call\<close> and \<open>tail\<close>: \<open>auipc\<close> into the register, then the jump, with one relocation for the pair. The code does not
  ask whether the operand names a symbol: that of a constant is the null pointer. (For a register the code reads the
  union's \<open>e.sym\<close> without having set it; the model takes it as null.)\<close>

definition operand_sym :: "operand \<Rightarrow> symref" where
  "operand_sym op = (case op_sym op of Some k \<Rightarrow> SymRef k | None \<Rightarrow> NoSym)"

definition asm_call :: "8 word \<Rightarrow> operand \<Rightarrow> asm_st \<Rightarrow> asm_st result" where
  "asm_call r op s =
    seq (asm_emit_opcode (3 OR push_bit 2 5 OR ENCODE_RD r)) (asm_emit_opcode (0x67 OR push_bit 12 0 OR ENCODE_RS1 r))
      (greloca (operand_sym op) (ind s) R_RISCV_CALL 0 s)"

definition asm_unary_switch :: "string \<Rightarrow> operand \<Rightarrow> asm_st \<Rightarrow> asm_st result" where
  "asm_unary_switch token op s =
    (let opc = push_bit 2 0x1C OR 3 OR push_bit 12 2 OR ENCODE_RD (op_reg op)
     in if token = ''rdcycle'' then asm_emit_opcode (opc OR push_bit 20 0xC00) s
        else if token = ''rdcycleh'' then asm_emit_opcode (opc OR push_bit 20 0xC80) s
        else if token = ''rdtime'' then asm_emit_opcode (opc OR push_bit 20 0xC01 OR ENCODE_RD (op_reg op)) s
        else if token = ''rdtimeh'' then asm_emit_opcode (opc OR push_bit 20 0xC81 OR ENCODE_RD (op_reg op)) s
        else if token = ''rdinstret'' then asm_emit_opcode (opc OR push_bit 20 0xC02 OR ENCODE_RD (op_reg op)) s
        else if token = ''rdinstreth'' then asm_emit_opcode (opc OR push_bit 20 0xC82 OR ENCODE_RD (op_reg op)) s
        else if token = ''jr'' then asm_emit_i token (0x67 OR push_bit 12 0) nil_op op zimm s
        else if token = ''call'' then asm_call 1 op s
        else if token = ''tail'' then asm_call 6 op s
        else if token = ''c_j'' then asm_emit_cj token (1 OR push_bit 13 5) op s
        else if token = ''c_jal'' then asm_emit_cj token (1 OR push_bit 13 1) op s
        else if token = ''c_jalr'' then asm_emit_cr token (2 OR push_bit 12 9) op nil_op s
        else if token = ''c_jr'' then asm_emit_cr token (2 OR push_bit 12 8) op nil_op s
        else expect ''unary instruction'')"

definition asm_unary_opcode :: "string \<Rightarrow> asm_st \<Rightarrow> asm_st result" where
  "asm_unary_opcode token s = bindr (parse_operands 1 s) (\<lambda>(ops, s1). asm_unary_switch token (ops ! 0) s1)"

text \<open>The operand of \<open>fence\<close> by its place among the fence tokens; other tokens are out of range.\<close>

definition parse_fence_operand :: "asm_st \<Rightarrow> int \<times> asm_st" where
  "parse_fence_operand s =
    (let t = (if tok s = TokAsm ''or'' then TokAsm ''or_fence'' else tok s)
     in (case t of TokAsm x \<Rightarrow> int (tok_num x) - (int (tok_num ''w_fence'') - 1) | _ \<Rightarrow> -1, next_tok s))"

definition asm_fence_opcode :: "string \<Rightarrow> asm_st \<Rightarrow> asm_st result" where
  "asm_fence_opcode token s =
    (let emit = (\<lambda>pred succ. asm_emit_opcode (push_bit 2 0x3 OR 3 OR push_bit 12 0
                   OR push_bit 20 (word_of_int succ) OR push_bit 24 (word_of_int pred)))
     in if tok s \<noteq> TokLinefeed \<and> tok s \<noteq> TokPunct CHR '';'' \<and> tok s \<noteq> TokEof then
          case parse_fence_operand s of (pred, s1) \<Rightarrow>
            if pred > 0xF \<or> pred < 0 then Inl (TccError ''Expected first operand that is a valid predecessor operand'')
            else bindr (skip CHR '','' s1)
              (\<lambda>s2. case parse_fence_operand s2 of (succ, s3) \<Rightarrow>
                 if succ > 0xF \<or> succ < 0 then Inl (TccError ''Expected second operand that is a valid successor operand'')
                 else emit pred succ s3)
        else emit 0xF 0xF s)"

text \<open>\<open>li\<close>: the upper and the lower half of the constant, shifted into the register piece by piece.\<close>

definition li_pieces :: "64 word \<Rightarrow> 64 word \<times> 64 word \<times> 64 word \<times> 64 word \<times> 64 word" where
  "li_pieces v =
    (let lo = u32 v; hi0 = u32 (signed_drop_bit 32 v);
         hi = (if sint lo < 0 then hi0 + 1 else hi0);
         lo20 = signed_drop_bit 12 (push_bit 12 lo)
     in (u64 (drop_bit 12 ((hi + 0x800) AND 0xfffff000)),
         scast (signed_drop_bit 20 (push_bit 20 hi)),
         scast (signed_drop_bit 20 (lo + push_bit 19 1)),
         scast (signed_drop_bit 8 lo20),
         scast (signed_drop_bit 20 (push_bit 20 (lo20 AND 0xff)))))"

definition asm_li :: "string \<Rightarrow> operand \<Rightarrow> operand \<Rightarrow> asm_st emission" where
  "asm_li token rd op =
    (let addi = (\<lambda>v. asm_emit_i token (3 OR push_bit 2 4) rd rd (imm_operand v));
         slli = (\<lambda>v. asm_emit_i token (push_bit 2 4 OR 3 OR push_bit 12 1) rd rd (imm_operand v))
     in if op_type op \<noteq> OP_IM32 \<and> op_type op \<noteq> OP_IM12S then
          (\<lambda>s. Inl (TccError ''Expected first source operand that is an immediate value''))
        else case li_pieces (op_v op) of (up, lo12, hi12, mid, low) \<Rightarrow>
          run [asm_emit_u token (push_bit 2 0xD OR 3) rd (imm_operand up),
               addi lo12, slli 12, addi hi12, slli 12, addi mid, slli 8, addi low])"

definition binary_pseudo :: "operand \<Rightarrow> operand \<Rightarrow> (string \<times> asm_st emission) list" where
  "binary_pseudo a b = [
     (''la'', seq (asm_emit_u ''la'' (3 OR push_bit 2 5) a b) (asm_emit_i ''la'' (3 OR push_bit 12 2) a a b)),
     (''lla'', seq (asm_emit_u ''lla'' (3 OR push_bit 2 5) a b) (asm_emit_i ''lla'' (3 OR push_bit 2 4) a a b)),
     (''li'', asm_li ''li'' a b),
     (''mv'', asm_emit_i ''mv'' (3 OR push_bit 2 4) a b (imm_operand 0)),
     (''not'', asm_emit_i ''not'' (push_bit 2 0x4 OR 3 OR push_bit 12 4) a b (imm_operand (- 1))),
     (''neg'', asm_emit_i ''neg'' (push_bit 2 0x4 OR 3 OR push_bit 12 4) a nil_op (imm_operand 1)),
     (''negw'', asm_emit_i ''negw'' (push_bit 2 0x4 OR 3 OR push_bit 12 4) a nil_op (imm_operand 1)),
     (''jump'', seq (asm_emit_opcode (3 OR push_bit 2 5 OR ENCODE_RD 5))
        (\<lambda>s. asm_emit_opcode (0x67 OR push_bit 12 0 OR ENCODE_RS1 5)
               (greloca (operand_sym a) (ind s) R_RISCV_CALL 0 s))),
     (''seqz'', asm_emit_i ''seqz'' (push_bit 2 0x4 OR 3 OR push_bit 12 3) a b (imm_operand 1)),
     (''snez'', asm_emit_r ''snez'' (push_bit 2 0xC OR 3 OR push_bit 12 3) a nil_op b),
     (''sltz'', asm_emit_r ''sltz'' (push_bit 2 0xC OR 3 OR push_bit 12 2) a b nil_op),
     (''sgtz'', asm_emit_r ''sgtz'' (push_bit 2 0xC OR 3 OR push_bit 12 2) a nil_op b)]"

definition switch :: "string \<Rightarrow> (string \<times> 's emission) list \<Rightarrow> 's emission \<Rightarrow> 's emission" where
  "switch token cases dflt = (case map_of cases token of Some c \<Rightarrow> c | None \<Rightarrow> dflt)"

definition asm_binary_opcode :: "string \<Rightarrow> asm_st \<Rightarrow> asm_st result" where
  "asm_binary_opcode token s = bindr (parse_operands 2 s)
    (\<lambda>(ops, s1). let a = ops ! 0; b = ops ! 1
       in switch token (binary_upper a b @ binary_c1 a b @ binary_c2 a b @ binary_pseudo a b)
            (\<lambda>s. expect ''binary instruction'') s1)"

text \<open>A load or store of a label goes through \<open>auipc\<close> when the parser left the label as a 32-bit immediate.\<close>

definition asm_mem_access_opcode :: "string \<Rightarrow> asm_st \<Rightarrow> asm_st result" where
  "asm_mem_access_opcode token s = bindr (parse_mem_access_operands s)
    (\<lambda>(op0, op1, op2, s1).
       if op_type op1 = OP_IM32 \<and> (case op_sym op1 of Some k \<Rightarrow> sym_static (syms s1 ! k) | None \<Rightarrow> False) then
         let op2' = op2\<lparr>op_type := OP_IM12S, op_v := 0\<rparr>
         in seq (asm_emit_u token (push_bit 2 0x05 OR 3) op0 op2') (switch token (mem_cases op0 op0 op2') Inr) s1
       else switch token (mem_cases op0 op1 op2) Inr s1)"

definition asm_branch_opcode :: "nat \<Rightarrow> string \<Rightarrow> asm_st \<Rightarrow> asm_st result" where
  "asm_branch_opcode argc token s = bindr (parse_operands (argc - 1) s)
    (\<lambda>(ops, s1). bindr (skip CHR '','' s1)
      (\<lambda>s2. bindr (parse_branch_offset_operand s2)
        (\<lambda>(op, s3). let ops' = ops @ [op, nil_op, nil_op]
           in switch token (branch_cases (ops' ! 0) (ops' ! 1) (ops' ! 2)) Inr s3)))"

definition asm_ternary_opcode :: "string \<Rightarrow> asm_st \<Rightarrow> asm_st result" where
  "asm_ternary_opcode token s = bindr (parse_operands 3 s)
    (\<lambda>(ops, s1). let a = ops ! 0; b = ops ! 1; c = ops ! 2
       in switch token (ternary_base a b c @ ternary_mul a b c @ ternary_csr a b c @ ternary_c a b c)
            (\<lambda>s. expect ''ternary instruction'') s1)"

definition asm_atomic_opcode :: "string \<Rightarrow> asm_st \<Rightarrow> asm_st result" where
  "asm_atomic_opcode token s = bindr (parse_operand s)
    (\<lambda>(op0, s1). bindr (skip CHR '','' s1)
      (\<lambda>s2. bindr (if tok_num token \<le> tok_num ''lr_d_aqrl'' \<and> tok_num token \<ge> tok_num ''lr_w'' then Inr (nil_op, s2)
                   else bindr (parse_operand s2) (\<lambda>(op, s3). bindr (skip CHR '','' s3) (\<lambda>s4. Inr (op, s4))))
        (\<lambda>(op1, s5). bindr (skip CHR ''('' s5)
          (\<lambda>s6. bindr (parse_operand s6)
            (\<lambda>(op2, s7). bindr (skip CHR '')'' s7)
              (\<lambda>s8. switch token (atomic_cases op0 op1 op2) Inr s8))))))"

section \<open>The dispatcher\<close>

definition asm_opcode_base :: "string \<Rightarrow> asm_st \<Rightarrow> asm_st result option" where
  "asm_opcode_base token s =
    (if token \<in> set [''ebreak'', ''ecall'', ''fence_i'', ''hrts'', ''mrth'', ''mrts'', ''wfi''] then Some (asm_nullary_opcode token s)
     else if token \<in> set [''fence''] then Some (asm_fence_opcode token s)
     else if token \<in> set [''rdcycle'', ''rdcycleh'', ''rdtime'', ''rdtimeh'', ''rdinstret'', ''rdinstreth''] then Some (asm_unary_opcode token s)
     else if token \<in> set [''lui'', ''auipc''] then Some (asm_binary_opcode token s)
     else if token \<in> set [''lb'', ''lh'', ''lw'', ''ld'', ''lbu'', ''lhu'', ''lwu'', ''sb'', ''sh'', ''sw'',
        ''sd''] then Some (asm_mem_access_opcode token s)
     else if token \<in> set [''jalr''] then Some (asm_jalr_opcode token s)
     else if token \<in> set [''j''] then Some (asm_jal_opcode token s)
     else if token \<in> set [''jal''] then Some (asm_jal_opcode token s)
     else if token \<in> set [''add'', ''addi'', ''addiw'', ''addw'', ''and'', ''andi'', ''or'', ''ori'', ''sll'',
        ''slli'', ''slliw'', ''sllw'', ''slt'', ''slti'', ''sltiu'', ''sltu'', ''sra'',
        ''srai'', ''sraiw'', ''sraw'', ''srl'', ''srli'', ''srliw'', ''srlw'', ''sub'',
        ''subw'', ''xor'', ''xori'', ''div'', ''divu'', ''divuw'', ''divw'', ''mul'', ''mulh'',
        ''mulhsu'', ''mulhu'', ''mulw'', ''rem'', ''remu'', ''remuw'', ''remw'', ''csrrc'',
        ''csrrci'', ''csrrs'', ''csrrsi'', ''csrrw'', ''csrrwi''] then Some (asm_ternary_opcode token s)
     else if token \<in> set [''beq'', ''bge'', ''bgeu'', ''blt'', ''bltu'', ''bne''] then Some (asm_branch_opcode 3 token s)
     else None)"

definition asm_opcode_ext :: "string \<Rightarrow> asm_st \<Rightarrow> asm_st result" where
  "asm_opcode_ext token s =
    (if token \<in> set [''c_ebreak'', ''c_nop''] then asm_nullary_opcode token s
     else if token \<in> set [''c_j'', ''c_jal'', ''c_jalr'', ''c_jr''] then asm_unary_opcode token s
     else if token \<in> set [''c_add'', ''c_addi16sp'', ''c_addi4spn'', ''c_addi'', ''c_addiw'', ''c_addw'',
        ''c_and'', ''c_andi'', ''c_beqz'', ''c_bnez'', ''c_fldsp'', ''c_flwsp'', ''c_fsdsp'',
        ''c_fswsp'', ''c_ldsp'', ''c_li'', ''c_lui'', ''c_lwsp'', ''c_mv'', ''c_or'',
        ''c_sdsp'', ''c_slli'', ''c_srai'', ''c_srli'', ''c_sub'', ''c_subw'', ''c_swsp'',
        ''c_xor''] then asm_binary_opcode token s
     else if token \<in> set [''c_fld'', ''c_flw'', ''c_fsd'', ''c_fsw'', ''c_ld'', ''c_lw'', ''c_sd'', ''c_sw''] then asm_ternary_opcode token s
     else if token \<in> set [''nop'', ''ret''] then asm_nullary_opcode token s
     else if token \<in> set [''jr'', ''call'', ''tail''] then asm_unary_opcode token s
     else if token \<in> set [''la'', ''lla'', ''li'', ''jump'', ''seqz'', ''snez'', ''sltz'', ''sgtz'', ''mv'',
        ''not'', ''neg'', ''negw''] then asm_binary_opcode token s
     else if token \<in> set [''bnez'', ''beqz'', ''blez'', ''bgez'', ''bltz'', ''bgtz''] then asm_branch_opcode 2 token s
     else if token \<in> set [''bgt'', ''bgtu'', ''ble'', ''bleu''] then asm_branch_opcode 3 token s
     else if token \<in> set [''lr_w'', ''lr_w_aq'', ''lr_w_rl'', ''lr_w_aqrl'', ''lr_d'', ''lr_d_aq'', ''lr_d_rl'',
        ''lr_d_aqrl'', ''sc_w'', ''sc_w_aq'', ''sc_w_rl'', ''sc_w_aqrl'', ''sc_d'',
        ''sc_d_aq'', ''sc_d_rl'', ''sc_d_aqrl''] then asm_atomic_opcode token s
     else expect ''known instruction'')"

definition asm_opcode :: "string \<Rightarrow> asm_st \<Rightarrow> asm_st result" where
  "asm_opcode token s = (case asm_opcode_base token s of Some r \<Rightarrow> r | None \<Rightarrow> asm_opcode_ext token s)"

end
