(* ===== verification/AsmDecode.thy ===== *)
theory AsmDecode
  imports AsmEmit
begin

text \<open>
  What the emitters of the 32-bit formats write, read back by the decoder of \<open>RvSpec\<close>. \<open>emits c i\<close>
  says that a command appends the instruction \<open>i\<close>; there is one lemma for every format and class of opcode.
\<close>

unbundle bit_operations_syntax

section \<open>What the formats decode to\<close>

text \<open>The register an operand names, in the five bits of a register field.\<close>

definition reg5 :: "operand \<Rightarrow> 5 word" where "reg5 op = ucast (op_v op)"

lemma reg_value_field [fields]: "(ucast (REG_VALUE r) :: 5 word) = ucast r"
  by (simp add: REG_VALUE_def masks fields)

lemma reg_value_take: "REG_VALUE r = take_bit 5 (u32 r)"
  by (simp add: REG_VALUE_def masks)

lemma reg5_op_reg [fields]: "(ucast (op_reg op) :: 5 word) = reg5 op"
  by (simp add: op_reg_def reg5_def fields)

text \<open>The immediate of the I format is the low twelve bits, sign-extended.\<close>

definition imm12 :: "64 word \<Rightarrow> 64 word" where "imm12 v = scast (ucast v :: 12 word)"

text \<open>A command emits an instruction: in every state it succeeds and writes one word, which decodes to the
  instruction.\<close>

definition emits :: "('a cg_scheme \<Rightarrow> 'a cg_scheme result) \<Rightarrow> insn \<Rightarrow> bool" where
  "emits c i \<longleftrightarrow> (\<exists>w. decode w = Some i \<and> c = (\<lambda>s. Inr (gen_le32 w s)))"

lemma emitsI: "decode w = Some i \<Longrightarrow> (\<And>s. c s = Inr (gen_le32 w s)) \<Longrightarrow> emits c i"
  by (auto simp: emits_def)

text \<open>The instructions in a run of the code.\<close>

definition decode_at :: "8 word list \<Rightarrow> nat \<Rightarrow> nat \<Rightarrow> insn option list" where
  "decode_at d i n = map (\<lambda>k. decode (read32le d (i + 4 * k))) [0..<n]"

text \<open>What it means that a command has written the instructions \<open>is\<close> and nothing else.\<close>

definition wrote :: "'a cg_scheme \<Rightarrow> insn list \<Rightarrow> 'a cg_scheme \<Rightarrow> bool" where
  "wrote s is s' \<longleftrightarrow> code_inv s' \<and> ind s' = ind s + 4 * length is \<and> cg.more s' = cg.more s \<and>
    take (ind s) (code_of s') = take (ind s) (code_of s) \<and> decode_at (code_of s') (ind s) (length is) = map Some is"

lemma emits_run:
  assumes "list_all2 emits cs is" "code_inv s" "\<not> nocode_wanted s"
  shows "\<exists>s'. run cs s = Inr s' \<and> wrote s is s'"
proof -
  have "\<exists>ws. map decode ws = map Some is \<and> (\<forall>s. run cs s = Inr (fold gen_le32 ws s))"
    using assms(1)
  proof (induction cs "is" rule: list_all2_induct)
    case (Cons c cs i "is")
    then obtain w ws where "decode w = Some i" "c = (\<lambda>s. Inr (gen_le32 w s))"
      "map decode ws = map Some is" "\<forall>s. run cs s = Inr (fold gen_le32 ws s)" by (auto simp: emits_def)
    then show ?case by (intro exI [of _ "w # ws"]) simp
  qed simp
  then obtain ws where ws: "map decode ws = map Some is" "\<And>s. run cs s = Inr (fold gen_le32 ws s)" by blast
  from ws(1) have l: "length ws = length is" by (rule map_eq_imp_length_eq)
  have "map (\<lambda>k. decode (read32le (code_of (fold gen_le32 ws s)) (ind s + 4 * k))) [0..<length ws] = map decode ws"
    using gen32.emit_words_code [OF assms(2,3)] by (intro nth_equalityI) simp_all
  then have "decode_at (code_of (fold gen_le32 ws s)) (ind s) (length is) = map Some is"
    by (simp add: decode_at_def l ws(1))
  with gen32.emit_words [OF assms(2,3), of ws] l ws(2) show ?thesis by (auto simp: wrote_def)
qed

lemma emits_one:
  assumes "emits c i" "code_inv (s :: 'a cg_scheme)" "\<not> nocode_wanted s" shows "\<exists>s'. c s = Inr s' \<and> wrote s [i] s'"
proof -
  have "run [] = (Inr :: 'a cg_scheme \<Rightarrow> _)" by (rule ext) simp
  then show ?thesis using emits_run [of "[c]" "[i]" s] assms by simp
qed

lemma field_simps [fields]:
  "rdf (a OR b) = rdf a OR rdf b" "rs1f (a OR b) = rs1f a OR rs1f b" "rs2f (a OR b) = rs2f a OR rs2f b"
  "funct3 (a OR b) = funct3 a OR funct3 b" "funct7 (a OR b) = funct7 a OR funct7 b"
  "opcode (a OR b) = opcode a OR opcode b"
  by (simp_all add: rdf_def rs1f_def rs2f_def funct3_def funct7_def opcode_def fields)

lemma encode_fields [fields]:
  "rdf (ENCODE_RD r) = ucast r" "rs1f (ENCODE_RD r) = 0" "rs2f (ENCODE_RD r) = 0"
  "funct3 (ENCODE_RD r) = 0" "funct7 (ENCODE_RD r) = 0" "opcode (ENCODE_RD r) = 0"
  "rdf (ENCODE_RS1 r) = 0" "rs1f (ENCODE_RS1 r) = ucast r" "rs2f (ENCODE_RS1 r) = 0"
  "funct3 (ENCODE_RS1 r) = 0" "funct7 (ENCODE_RS1 r) = 0" "opcode (ENCODE_RS1 r) = 0"
  "rdf (ENCODE_RS2 r) = 0" "rs1f (ENCODE_RS2 r) = 0" "rs2f (ENCODE_RS2 r) = ucast r"
  "funct3 (ENCODE_RS2 r) = 0" "funct7 (ENCODE_RS2 r) = 0" "opcode (ENCODE_RS2 r) = 0"
  by (simp_all add: ENCODE_RD_def ENCODE_RS1_def ENCODE_RS2_def reg_value_take
      rdf_def rs1f_def rs2f_def funct3_def funct7_def opcode_def fields)

lemma emits_r:
  assumes "op_type rd = OP_REG" "op_type rs1 = OP_REG" "op_type rs2 = OP_REG"
    and "rdf opc = 0" "rs1f opc = 0" "rs2f opc = 0" "decode_op (funct7 opc) (funct3 opc) = Some x"
  shows "opcode opc = 0x33 \<Longrightarrow> emits (asm_emit_r token opc rd rs1 rs2) (Op x False (reg5 rd) (reg5 rs1) (reg5 rs2))"
    and "opcode opc = 0x3b \<Longrightarrow> has_word_form x \<Longrightarrow>
      emits (asm_emit_r token opc rd rs1 rs2) (Op x True (reg5 rd) (reg5 rs1) (reg5 rs2))"
  by (rule emitsI; simp add: asm_emit_r_def assms fields decode_def)+

text \<open>The I format: the top twelve bits are the immediate, below them the fields of the R format.\<close>

definition top12 :: "32 word \<Rightarrow> 12 word" where "top12 w = ucast (drop_bit 20 w)"

lemma imm_i_top12: "imm_i w = scast (top12 w)"
  by (simp add: imm_i_def top12_def)

lemma top12_fields [fields]:
  "top12 (a OR b) = top12 a OR top12 b" "top12 (ENCODE_RD r) = 0" "top12 (ENCODE_RS1 r) = 0"
  "top12 (push_bit 20 (u32 v)) = ucast v" for v :: "64 word"
  by (simp_all add: top12_def ENCODE_RD_def ENCODE_RS1_def reg_value_take fields)

lemma push20_fields [fields]:
  "rdf (push_bit 20 x) = 0" "rs1f (push_bit 20 x) = 0" "funct3 (push_bit 20 x) = 0" "opcode (push_bit 20 x) = 0"
  by (simp_all add: rdf_def rs1f_def funct3_def opcode_def fields)

lemma emits_load:
  assumes "op_type rd = OP_REG" "op_type rs1 = OP_REG" "op_type imm = OP_IM12S"
    and "opcode opc = 3" "funct3 opc = f" "f \<noteq> 7" "rdf opc = 0" "rs1f opc = 0" "top12 opc = 0"
  shows "emits (asm_emit_i token opc rd rs1 imm) (Load (width_of f) (bit f 2) (reg5 rd) (reg5 rs1) (imm12 (op_v imm)))"
  by (rule emitsI) (simp_all add: asm_emit_i_def assms fields decode_def imm_i_top12 imm12_def)

lemma emits_jalr:
  assumes "op_type rd = OP_REG" "op_type rs1 = OP_REG" "op_type imm = OP_IM12S"
    and "opcode opc = 0x67" "funct3 opc = 0" "rdf opc = 0" "rs1f opc = 0" "top12 opc = 0"
  shows "emits (asm_emit_i token opc rd rs1 imm) (Jalr (reg5 rd) (reg5 rs1) (imm12 (op_v imm)))"
  by (rule emitsI) (simp_all add: asm_emit_i_def assms fields decode_def imm_i_top12 imm12_def)

lemma emits_opimm:
  assumes "op_type rd = OP_REG" "op_type rs1 = OP_REG" "op_type imm = OP_IM12S"
    and "funct3 opc = f" "f \<noteq> 1" "f \<noteq> 5" "rdf opc = 0" "rs1f opc = 0" "top12 opc = 0"
    and "opcode opc = 0x13 \<and> \<not> w \<or> opcode opc = 0x1b \<and> w \<and> f = 0"
    and "x = (if f = 0 then Add else if f = 2 then Slt else if f = 3 then Sltu
                   else if f = 4 then Xor else if f = 6 then Or else And)"
  shows "emits (asm_emit_i token opc rd rs1 imm) (OpImm x w (reg5 rd) (reg5 rs1) (imm12 (op_v imm)))"
  using assms(10) by (intro emitsI) (auto simp add: asm_emit_i_def assms(1-9,11) fields decode_def decode_opimm_def Let_def imm_i_top12 imm12_def)

lemma shift_fields:
  "(ucast (drop_bit 26 w) :: 6 word) = ucast (drop_bit 6 (top12 w))"
  "(ucast (drop_bit 20 w) :: 6 word) = ucast (top12 w)" "bit w 25 = bit (top12 w) 5"
  unfolding top12_def by (auto intro!: bit_word_eqI simp: bit_simps)

lemma emits_shift_imm:
  assumes "op_type rd = OP_REG" "op_type rs1 = OP_REG" "op_type imm = OP_IM12S"
    and "rdf opc = 0" "rs1f opc = 0"
    and t: "top12 opc = 0 \<and> (funct3 opc = 1 \<and> x = Sll \<or> funct3 opc = 5 \<and> x = Srl) \<or> top12 opc = 0x400 \<and> funct3 opc = 5 \<and> x = Sra"
    and w: "opcode opc = 0x13 \<and> \<not> w \<and> op_v imm < 64 \<or> opcode opc = 0x1b \<and> w \<and> op_v imm < 32"
  shows "emits (asm_emit_i token opc rd rs1 imm) (OpImm x w (reg5 rd) (reg5 rs1) (op_v imm))"
proof -
  define sh :: "6 word" where "sh = ucast (op_v imm)"
  have "op_v imm < 64" using w by (auto elim: order_less_trans)
  then have v: "op_v imm = ucast sh" using ucast_small [where 'b=6, of "op_v imm"] by (simp add: sh_def)
  have z: "(1024 :: 6 word) = 0" by simp
  have top: "(ucast (top12 opc OR ucast sh) :: 6 word) = sh"
    "(ucast (drop_bit 6 (top12 opc OR ucast sh)) :: 6 word) = (if x = Sra then 0x10 else 0)"
    using t by (auto simp: fields z)
  have "w \<Longrightarrow> unat (op_v imm) < 2 ^ 5" using w by (simp add: word_less_nat_alt)
  then have "w \<Longrightarrow> \<not> bit sh 5"
    using bit_unat_less [of "op_v imm" 5 5] by (auto simp: sh_def bit_simps)
  moreover have "\<not> bit (top12 opc) 5" using t by auto
  ultimately have b5: "w \<Longrightarrow> \<not> bit (top12 opc OR ucast sh) 5"
    by (simp add: bit_simps)
  let ?w = "(opc OR ENCODE_RD (op_reg rd) OR ENCODE_RS1 (op_reg rs1)) OR push_bit 20 (u32 (op_v imm))"
  define T where "T = top12 ?w"
  have T: "T = top12 opc OR ucast sh"
    by (simp only: T_def fields assms(4,5)) (simp add: v fields)
  have f: "opcode ?w = opcode opc" "funct3 ?w = funct3 opc" "rdf ?w = reg5 rd" "rs1f ?w = reg5 rs1"
    by (simp_all only: fields assms(4,5)) (simp_all add: v fields)
  have s: "(ucast (drop_bit 26 ?w) :: 6 word) = (if x = Sra then 0x10 else 0)"
    "(ucast (drop_bit 20 ?w) :: 6 word) = sh" "w \<Longrightarrow> \<not> bit ?w 25"
    by (simp_all only: shift_fields T_def [symmetric] T top b5 simp_thms)
  have x: "funct3 opc = 1 \<and> x = Sll \<or> funct3 opc = 5 \<and> x = Srl \<or> funct3 opc = 5 \<and> x = Sra"
    and o: "opcode opc = 0x13 \<and> \<not> w \<or> opcode opc = 0x1b \<and> w" using t w by auto
  have "decode_opimm w ?w = Some (OpImm x w (reg5 rd) (reg5 rs1) (op_v imm))"
    unfolding decode_opimm_def Let_def f s(1,2) v [symmetric] using x s(3) by (elim disjE conjE) simp_all
  then have "decode ?w = Some (OpImm x w (reg5 rd) (reg5 rs1) (op_v imm))"
    unfolding decode_def Let_def f using o by auto
  then show ?thesis by (rule emitsI) (simp add: asm_emit_i_def assms(1-3) fields)
qed

lemma emits_csr:
  assumes "op_type rd = OP_REG" "op_type rs1 = OP_REG" "op_type csr = OP_IM12S"
    and "rdf opc = 0" "rs1f opc = 0" "top12 opc = 0" "opcode opc = 0x73"
    and "funct3 opc = f" "f \<noteq> 0" "f \<noteq> 4"
    and "x = (if f AND 3 = 1 then Csrrw else if f AND 3 = 2 then Csrrs else Csrrc)"
  shows "emits (asm_emit_i token opc rd rs1 csr) (Csr x (bit f 2) (reg5 rd) (ucast (op_v csr)) (reg5 rs1))"
  by (rule emitsI) (simp_all add: asm_emit_i_def assms fields decode_def decode_system_def Let_def flip: top12_def)

lemma upper_fields [fields]:
  "drop_bit 12 (push_bit 12 (u32 v)) = take_bit 20 (u32 v)" for v :: "64 word"
  by (intro bit_word_eqI) (auto simp: bit_simps)

lemma push_take: "push_bit 12 (take_bit 20 x) = push_bit 12 x" for x :: "32 word"
  by (intro bit_word_eqI) (auto simp: bit_simps)

lemma drop12_fields [fields]: "drop_bit 12 (ENCODE_RD r) = 0"
  by (simp add: ENCODE_RD_def reg_value_take fields)

lemma emits_u:
  assumes "op_type rd = OP_REG" "op_type imm = OP_IM12S \<or> op_type imm = OP_IM32" "op_v imm < 0x100000"
    and "rdf opc = 0" "drop_bit 12 opc = 0"
  shows "opcode opc = 0x37 \<Longrightarrow>
      emits (asm_emit_u token opc rd imm :: 'a cg_scheme \<Rightarrow> _) (Lui (reg5 rd) (scast (push_bit 12 (u32 (op_v imm)))))"
    and "opcode opc = 0x17 \<Longrightarrow>
      emits (asm_emit_u token opc rd imm :: 'a cg_scheme \<Rightarrow> _) (Auipc (reg5 rd) (scast (push_bit 12 (u32 (op_v imm)))))"
proof -
  define w where "w = (opc OR ENCODE_RD (op_reg rd)) OR push_bit 12 (u32 (op_v imm))"
  have u: "push_bit 12 (drop_bit 12 w) = push_bit 12 (u32 (op_v imm))"
    by (simp only: w_def drop_bit_or assms(5) drop12_fields upper_fields or.left_neutral push_take)
  have f: "rdf w = reg5 rd" "opcode w = opcode opc"
    by (simp_all add: w_def assms(4) fields) (simp_all add: rdf_def opcode_def fields)
  have e: "asm_emit_u token opc rd imm s = Inr (gen_le32 w s)" for s :: "'a cg_scheme"
    using assms(2) by (auto simp add: asm_emit_u_def assms(1) linorder_not_le assms(3) fields w_def)
  show "opcode opc = 0x37 \<Longrightarrow> emits (asm_emit_u token opc rd imm :: 'a cg_scheme \<Rightarrow> _) (Lui (reg5 rd) (scast (push_bit 12 (u32 (op_v imm)))))"
    "opcode opc = 0x17 \<Longrightarrow> emits (asm_emit_u token opc rd imm :: 'a cg_scheme \<Rightarrow> _) (Auipc (reg5 rd) (scast (push_bit 12 (u32 (op_v imm)))))"
    by (rule emitsI [OF _ e], simp add: decode_def f imm_u_def u)+
qed

lemma emits_s:
  assumes "op_type rs1 = OP_REG" "op_type rs2 = OP_REG" "op_type imm = OP_IM12S"
    and "rdf opc = 0" "rs1f opc = 0" "rs2f opc = 0" "funct7 opc = 0" "opcode opc = 0x23" "funct3 opc \<le> 3"
  shows "emits (asm_emit_s token opc rs1 rs2 imm)
    (Store (width_of (funct3 opc)) (reg5 rs1) (reg5 rs2) (imm12 (op_v imm)))"
proof -
  let ?v = "u32 (u16 (op_v imm))"
  define w where "w = opc OR ENCODE_RS1 (op_reg rs1) OR ENCODE_RS2 (op_reg rs2) OR push_bit 7 (take_bit 5 ?v) OR push_bit 25 (drop_bit 5 ?v)"
  have f: "rs1f w = reg5 rs1" "rs2f w = reg5 rs2" "opcode w = 0x23" "funct3 w = funct3 opc"
    "rdf w = ucast (op_v imm)" "funct7 w = ucast (drop_bit 5 (op_v imm))"
    by (simp_all only: w_def fields assms)
      (simp_all add: rdf_def opcode_def rs1f_def rs2f_def funct3_def funct7_def fields,
       auto intro!: bit_word_eqI simp: bit_simps)
  have "push_bit 5 (ucast (funct7 w)) OR ucast (rdf w) = (ucast (op_v imm) :: 12 word)"
    unfolding f by (auto intro!: bit_word_eqI simp: bit_simps)
  then have "imm_s w = imm12 (op_v imm)" by (simp add: imm_s_def imm12_def)
  then have "decode w = Some (Store (width_of (funct3 opc)) (reg5 rs1) (reg5 rs2) (imm12 (op_v imm)))"
    using assms(9) by (simp add: decode_def Let_def f)
  then show ?thesis by (rule emitsI) (simp add: asm_emit_s_def Let_def assms(1-3) masks w_def)
qed

text \<open>The J format: all twenty bits of an even offset in range are kept.\<close>

lemma scast_ucast_21:
  assumes "- (2 ^ 20) \<le> sint x" "sint x < 2 ^ 20"
  shows "(scast (ucast (x :: 32 word) :: 21 word) :: 64 word) = scast x"
proof -
  have "sint (ucast x :: 21 word) = signed_take_bit 20 (sint x)"
    by (simp add: signed_ucast_eq sint_uint [of x])
  also have "\<dots> = sint x" using assms by (simp add: signed_take_bit_int_eq_self)
  finally have "(of_int (sint (ucast x :: 21 word)) :: 64 word) = of_int (sint x)" by (rule arg_cong)
  then show ?thesis by (simp only: of_int_sint)
qed

lemma j_imm_bits:
  fixes x :: "32 word"
  assumes "\<not> bit x 0"
  shows "push_bit 20 (ucast (ucast (drop_bit 20 x) :: 1 word)) OR push_bit 12 (ucast (ucast (drop_bit 12 x) :: 8 word))
    OR push_bit 11 (ucast (ucast (drop_bit 11 x) :: 1 word)) OR push_bit 1 (ucast (ucast (drop_bit 1 x) :: 10 word))
    = (ucast x :: 21 word)"
proof (rule bit_word_eqI)
  fix n assume "n < LENGTH(21)"
  then consider "n = 0" | "1 \<le> n" "n < 11" | "n = 11" | "12 \<le> n" "n < 20" | "n = 20" by fastforce
  then show "bit (push_bit 20 (ucast (ucast (drop_bit 20 x) :: 1 word)) OR push_bit 12 (ucast (ucast (drop_bit 12 x) :: 8 word))
    OR push_bit 11 (ucast (ucast (drop_bit 11 x) :: 1 word)) OR push_bit 1 (ucast (ucast (drop_bit 1 x) :: 10 word)) :: 21 word) n
    = bit (ucast x :: 21 word) n"
    using assms by cases (auto simp: bit_simps bit_times2)
qed

lemma emits_j:
  assumes "op_type rd = OP_REG" "op_type imm = OP_IM12S \<or> op_type imm = OP_IM32"
    and r: "- (2 ^ 20) + 1 < sint (u32 (op_v imm))" "sint (u32 (op_v imm)) < 2 ^ 20" and even: "\<not> bit (op_v imm) 0"
  shows "emits (asm_emit_j token 0x6f rd imm) (Jal (reg5 rd) (scast (u32 (op_v imm))))"
proof -
  define x where "x = u32 (op_v imm)"
  define w where "w = 0x6f OR ENCODE_RD (op_reg rd)
    OR push_bit 31 (drop_bit 20 x AND 1) OR push_bit 21 (drop_bit 1 x AND 0x3ff)
    OR push_bit 20 (drop_bit 11 x AND 1) OR push_bit 12 (drop_bit 12 x AND 0xff)"
  have x0: "\<not> bit x 0" using even by (simp add: x_def bit_simps)
  have f: "rdf w = reg5 rd" "opcode w = 0x6f"
    "(ucast (drop_bit 31 w) :: 1 word) = ucast (drop_bit 20 x)" "(ucast (drop_bit 12 w) :: 8 word) = ucast (drop_bit 12 x)"
    "(ucast (drop_bit 20 w) :: 1 word) = ucast (drop_bit 11 x)" "(ucast (drop_bit 21 w) :: 10 word) = ucast (drop_bit 1 x)"
    by (simp_all add: w_def rdf_def opcode_def ENCODE_RD_def reg_value_take masks fields)
  have "imm_j w = scast x"
    unfolding imm_j_def f j_imm_bits [OF x0] using r by (intro scast_ucast_21) (simp_all add: x_def)
  then have "decode w = Some (Jal (reg5 rd) (scast x))" by (simp add: decode_def Let_def f)
  moreover have "asm_emit_j token 0x6f rd imm s = Inr (gen_le32 w s)" for s :: "'b cg_scheme"
  proof -
    have "x AND 1 = 0" using x0 by (simp add: and_one_eq bit_0 even_iff_mod_2_eq_zero)
    then show ?thesis using assms by (auto simp: asm_emit_j_def Let_def w_def x_def [symmetric])
  qed
  ultimately show ?thesis unfolding x_def by (rule emitsI)
qed

text \<open>The B format: of the offset only bits 1 to 9, 11 and 12 reach the instruction.\<close>

lemma emits_b:
  assumes "op_type rs1 = OP_REG" "op_type rs2 = OP_REG" "op_type imm = OP_IM12S"
    and "rdf opc = 0" "rs1f opc = 0" "rs2f opc = 0" "funct7 opc = 0" "opcode opc = 0x63"
    and c: "decode_branch (funct3 opc) = Some c"
  shows "emits (asm_emit_b token opc rs1 rs2 imm)
    (Branch c (reg5 rs1) (reg5 rs2) (scast (ucast (op_v imm) AND NOT 0x401 :: 13 word)))"
proof -
  define x where "x = u32 (op_v imm)"
  define w where "w = opc OR ENCODE_RS1 (op_reg rs1) OR ENCODE_RS2 (op_reg rs2)
            OR push_bit 8 (drop_bit 1 x AND 0xF) OR push_bit 25 (drop_bit 5 x AND 0x1f)
            OR push_bit 7 (drop_bit 11 x AND 1) OR push_bit 31 (drop_bit 12 x AND 1)"
  have f: "rs1f w = reg5 rs1" "rs2f w = reg5 rs2" "opcode w = 0x63" "funct3 w = funct3 opc"
    by (simp_all only: w_def fields assms)
      (simp_all add: rdf_def opcode_def rs1f_def rs2f_def funct3_def funct7_def masks fields)
  have r: "rdf w = push_bit 1 (ucast (take_bit 4 (drop_bit 1 x))) OR ucast (drop_bit 11 x AND 1)"
    "funct7 w = ucast (take_bit 5 (drop_bit 5 x)) OR push_bit 6 (ucast (drop_bit 12 x AND 1))"
    by (simp_all only: w_def fields assms)
      (simp_all only: rdf_def funct7_def masks, auto intro!: bit_word_eqI simp: bit_simps bit_times2)
  have "imm_b w = scast (push_bit 12 (ucast (ucast (drop_bit 6 (funct7 w)) :: 1 word)) OR push_bit 11 (ucast (ucast (rdf w) :: 1 word))
    OR push_bit 5 (ucast (ucast (funct7 w) :: 6 word)) OR push_bit 1 (ucast (ucast (drop_bit 1 (rdf w)) :: 4 word)) :: 13 word)"
    unfolding imm_b_def rdf_def funct7_def
    by (intro arg_cong [where f = scast] arg_cong2 [where f = "(OR)"] arg_cong [where f = "push_bit _"] arg_cong [where f = ucast])
      (auto intro!: bit_word_eqI simp: bit_simps)
  also have "\<dots> = scast (ucast (op_v imm) AND NOT 0x401 :: 13 word)"
  proof (rule arg_cong [where f = scast], rule bit_word_eqI)
    fix n assume "n < LENGTH(13)"
    then have "n = 12 \<or> n = 0 \<or> n = 11 \<or> n = 10 \<or> n = 1 \<or> n = 4 \<or> n = 3 \<or> n = 2 \<or> n = 9 \<or> n = 8 \<or> n = 7 \<or> n = 6 \<or> n = 5"
      by simp arith
    then show "bit (push_bit 12 (ucast (ucast (drop_bit 6 (funct7 w)) :: 1 word)) OR push_bit 11 (ucast (ucast (rdf w) :: 1 word))
      OR push_bit 5 (ucast (ucast (funct7 w) :: 6 word)) OR push_bit 1 (ucast (ucast (drop_bit 1 (rdf w)) :: 4 word)) :: 13 word) n
      = bit (ucast (op_v imm) AND NOT 0x401 :: 13 word) n"
      unfolding r x_def
      by (elim disjE) (simp_all only:, simp_all add: bit_simps bit_times2 bit_1_iff word_mod2, simp_all add: eval_nat_numeral)
  qed
  finally have "imm_b w = scast (ucast (op_v imm) AND NOT 0x401 :: 13 word)" .
  then have "decode w = Some (Branch c (reg5 rs1) (reg5 rs2) (scast (ucast (op_v imm) AND NOT 0x401 :: 13 word)))"
    using c by (simp add: decode_def Let_def f)
  then show ?thesis by (rule emitsI) (simp add: asm_emit_b_def asm_emit_opcode_def assms(1-3) w_def x_def Let_def)
qed

definition amo_word :: "32 word \<Rightarrow> operand \<Rightarrow> operand \<Rightarrow> operand \<Rightarrow> bool \<Rightarrow> bool \<Rightarrow> 32 word" where
  "amo_word opc rd rs2 rs1 aq rl = opc OR ENCODE_RS1 (op_reg rs1) OR ENCODE_RS2 (op_reg rs2) OR ENCODE_RD (op_reg rd)
     OR push_bit 26 (of_bool aq) OR push_bit 25 (of_bool rl)"

lemma amo_fields:
  assumes "rdf opc = 0" "rs1f opc = 0" "rs2f opc = 0" "\<not> bit opc 25" "\<not> bit opc 26"
  shows "rdf (amo_word opc rd rs2 rs1 aq rl) = reg5 rd" "rs1f (amo_word opc rd rs2 rs1 aq rl) = reg5 rs1"
    "rs2f (amo_word opc rd rs2 rs1 aq rl) = reg5 rs2"
    "funct3 (amo_word opc rd rs2 rs1 aq rl) = funct3 opc" "opcode (amo_word opc rd rs2 rs1 aq rl) = opcode opc"
    "(ucast (drop_bit 27 (amo_word opc rd rs2 rs1 aq rl)) :: 5 word) = ucast (drop_bit 27 opc)"
    "bit (amo_word opc rd rs2 rs1 aq rl) 26 = aq" "bit (amo_word opc rd rs2 rs1 aq rl) 25 = rl"
  unfolding amo_word_def fields assms(1-3)
  by (simp_all add: rdf_def rs1f_def rs2f_def funct3_def opcode_def fields)
    (simp_all add: ENCODE_RD_def ENCODE_RS1_def ENCODE_RS2_def reg_value_take assms bit_simps fields)

lemma emits_amo:
  assumes "op_type rd = OP_REG" "op_type rs2 = OP_REG" "op_type rs1 = OP_REG"
    and "rdf opc = 0" "rs1f opc = 0" "rs2f opc = 0" "\<not> bit opc 25" "\<not> bit opc 26"
    and "opcode opc = 0x2f" "funct3 opc = 2 \<or> funct3 opc = 3"
  shows "(ucast (drop_bit 27 opc) :: 5 word) = 3 \<Longrightarrow>
      emits (asm_emit_a token opc rd rs2 rs1 (of_bool aq) (of_bool rl) :: 'a cg_scheme \<Rightarrow> _)
       (StoreCond (width_of (funct3 opc)) aq rl (reg5 rd) (reg5 rs1) (reg5 rs2))"
    and "(ucast (drop_bit 27 opc) :: 5 word) = 2 \<Longrightarrow> reg5 rs2 = 0 \<Longrightarrow>
      emits (asm_emit_a token opc rd rs2 rs1 (of_bool aq) (of_bool rl) :: 'a cg_scheme \<Rightarrow> _)
       (LoadReserved (width_of (funct3 opc)) aq rl (reg5 rd) (reg5 rs1))"
proof -
  have e: "asm_emit_a token opc rd rs2 rs1 (of_bool aq) (of_bool rl) s = Inr (gen_le32 (amo_word opc rd rs2 rs1 aq rl) s)"
    for s :: "'b cg_scheme"
    unfolding asm_emit_a_def amo_word_def using assms(1-3) by simp
  note d = decode_def decode_amo_def Let_def amo_fields [OF assms(4-8)] assms(9)
  show "(ucast (drop_bit 27 opc) :: 5 word) = 3 \<Longrightarrow>
      emits (asm_emit_a token opc rd rs2 rs1 (of_bool aq) (of_bool rl) :: 'a cg_scheme \<Rightarrow> _)
       (StoreCond (width_of (funct3 opc)) aq rl (reg5 rd) (reg5 rs1) (reg5 rs2))"
    using assms(10) by (intro emitsI [OF _ e]) (auto simp: d)
  show "(ucast (drop_bit 27 opc) :: 5 word) = 2 \<Longrightarrow> reg5 rs2 = 0 \<Longrightarrow>
      emits (asm_emit_a token opc rd rs2 rs1 (of_bool aq) (of_bool rl) :: 'a cg_scheme \<Rightarrow> _)
       (LoadReserved (width_of (funct3 opc)) aq rl (reg5 rd) (reg5 rs1))"
    using assms(10) by (intro emitsI [OF _ e]) (auto simp: d)
qed

end
