(* ===== verification/AsmParse.thy ===== *)
theory AsmParse
  imports AsmOpcode AsmDecode
begin

text \<open>
  How operands in source form are read: register names, decimal constants with a sign, and lists of
  registers. Every statement says which tokens are consumed and that nothing else of the state changes.
\<close>

section \<open>Registers\<close>

definition reg_name :: "nat \<Rightarrow> string" where
  "reg_name i = (reg_toks @ abi_toks) ! i"

abbreviation comma :: token where "comma \<equiv> TokPunct CHR '',''"

lemma parse_reg:
  assumes "i < 128" "toks s = TokAsm (reg_name i) # ts"
  shows "parse_operand s = Inr (reg_operand (of_nat (i mod 64)), s\<lparr>toks := ts\<rparr>)"
  using assms regvar_of_nth [OF assms(1)]
  by (simp add: parse_operand_def tok_def next_tok_def reg_name_def)

lemma skip_char: "toks s = TokPunct c # ts \<Longrightarrow> skip c s = Inr (s\<lparr>toks := ts\<rparr>)"
  by (simp add: skip_def tok_def next_tok_def)

lemma parse_regs3:
  assumes "i < 128" "j < 128" "k < 128"
    and "toks s = TokAsm (reg_name i) # comma # TokAsm (reg_name j) # comma # TokAsm (reg_name k) # ts"
  shows "parse_operands 3 s = Inr ([reg_operand (of_nat (i mod 64)), reg_operand (of_nat (j mod 64)),
    reg_operand (of_nat (k mod 64))], s\<lparr>toks := ts\<rparr>)"
  using assms by (simp add: parse_operands_def parse_reg skip_char numeral_2_eq_2)

lemma reg5_reg_operand: "reg5 (reg_operand (of_nat (i mod 64))) = of_nat i"
proof -
  have "i mod 64 < 2 ^ LENGTH(8)" by (rule less_trans [OF mod_less_divisor]) simp_all
  then have "unat (of_nat (i mod 64) :: 8 word) = i mod 64"
    by (rule unat_of_nat_less)
  then have "(ucast (of_nat (i mod 64) :: 8 word) :: 5 word) = of_nat (i mod 64)"
    by (metis of_nat_unat)
  also have "\<dots> = of_nat i"
    by (simp add: word_of_nat_eq_iff take_bit_eq_mod mod_mod_cancel)
  finally show ?thesis by (simp add: reg5_def reg_operand_def fields)
qed

section \<open>Numbers\<close>

lemma digit_val_digit: "m < 10 \<Longrightarrow> digit_val (char_of (48 + m)) = Some m"
  by (simp add: digit_val_def)

lemma scan_digits_show_nat:
  "scan_digits 10 acc (show_nat n @ cs) = scan_digits 10 (acc * 10 ^ length (show_nat n) + n) cs"
proof (induction n arbitrary: acc cs rule: show_nat.induct)
  case (1 n)
  show ?case
  proof (cases "n < 10")
    case True
    then show ?thesis by (simp add: show_nat.simps digit_val_digit del: char_of_eq_iff)
  next
    case False
    have "show_nat n = show_nat (n div 10) @ [char_of (48 + n mod 10)]"
      using False by (subst show_nat.simps) simp
    with 1 [OF False] show ?thesis
      by (simp add: digit_val_digit algebra_simps)
  qed
qed

lemma show_nat_hd: "0 < n \<Longrightarrow> \<exists>(d::nat) cs. show_nat n = char_of (48 + d) # cs \<and> 0 < d \<and> d < 10"
proof (induction n rule: show_nat.induct)
  case (1 n)
  show ?case
  proof (cases "n < 10")
    case True
    with 1(2) show ?thesis by (subst show_nat.simps) (auto intro: exI [of _ n])
  next
    case False
    from False have "0 < n div 10" by simp
    with 1(1) [OF False] obtain d :: nat and cs where "show_nat (n div 10) = char_of (48 + d) # cs" "0 < d" "d < 10" by blast
    with False show ?thesis by (subst show_nat.simps) (auto intro: exI [of _ d])
  qed
qed

lemma strtoull_show_nat:
  assumes "n < 2 ^ 64" shows "strtoull (show_nat n) = (of_nat n, [])"
proof (cases "n = 0")
  case True
  then show ?thesis by (simp add: show_nat.simps [of 0] strtoull_def digit_val_def)
next
  case False
  with show_nat_hd obtain d :: nat and cs where d: "show_nat n = char_of (48 + d) # cs" "0 < d" "d < 10" by blast
  have "(char_of (48 + d) :: char) \<noteq> CHR ''0''"
  proof
    assume "(char_of (48 + d) :: char) = CHR ''0''"
    then have "of_char (char_of (48 + d) :: char) = (of_char (CHR ''0'') :: nat)" by (simp only:)
    with d(2,3) show False by simp
  qed
  with d scan_digits_show_nat [of 0 n "[]"] assms show ?thesis
    by (simp add: strtoull_def split: list.split)
qed

end
