(* ===== verification/AsmExprProps.thy ===== *)
theory AsmExprProps
  imports AsmParse
begin

text \<open>
  The expression parser of the assembler: fuel never changes a result, \<open>expr_fuel\<close> is always enough, and
  the tokens of an expression, printed with the brackets the precedences need, evaluate as the
  expression does.
\<close>

section \<open>Fuel\<close>

lemmas expr_steps = expr_unary.simps(2) expr_prod.simps(2) expr_prod_loop.simps(2) expr_logic.simps(2)
  expr_logic_loop.simps(2) expr_sum.simps(2) expr_sum_loop.simps(2) expr_cmp.simps(2) expr_cmp_loop.simps(2)

declare expr_steps [simp del]

lemma bindo_mono:
  assumes "bindo m f = Some r" "\<And>x. m = Some x \<Longrightarrow> m' = Some x" "\<And>x y. f x = Some y \<Longrightarrow> f' x = Some y"
  shows "bindo m' f' = Some r"
  using assms by (cases m) (auto simp: bindo_def split: sum.splits)

lemma bindo_not_None:
  "bindo m f \<noteq> None \<longleftrightarrow> m \<noteq> None \<and> (\<forall>x. m = Some (Inr x) \<longrightarrow> f x \<noteq> None)"
  by (auto simp: bindo_def split: option.splits sum.splits)

lemma bindo_some:
  "m \<noteq> None \<Longrightarrow> (\<And>e s1. m = Some (Inr (e, s1)) \<Longrightarrow> f e s1 \<noteq> None) \<Longrightarrow> bindo m (\<lambda>(e, s1). f e s1) \<noteq> None"
  by (simp only: bindo_not_None split_paired_all split_conv) simp

lemma bindo_eq_Inr: "bindo m f = Some (Inr y) \<longleftrightarrow> (\<exists>x. m = Some (Inr x) \<and> f x = Some (Inr y))"
  by (auto simp: bindo_def split: option.splits sum.splits)

definition fuel_mono :: "nat \<Rightarrow> bool" where
  "fuel_mono n \<longleftrightarrow>
    (\<forall>s r. expr_unary n s = Some r \<longrightarrow> expr_unary (Suc n) s = Some r) \<and>
    (\<forall>s r. expr_prod n s = Some r \<longrightarrow> expr_prod (Suc n) s = Some r) \<and>
    (\<forall>e s r. expr_prod_loop n e s = Some r \<longrightarrow> expr_prod_loop (Suc n) e s = Some r) \<and>
    (\<forall>s r. expr_logic n s = Some r \<longrightarrow> expr_logic (Suc n) s = Some r) \<and>
    (\<forall>e s r. expr_logic_loop n e s = Some r \<longrightarrow> expr_logic_loop (Suc n) e s = Some r) \<and>
    (\<forall>s r. expr_sum n s = Some r \<longrightarrow> expr_sum (Suc n) s = Some r) \<and>
    (\<forall>e s r. expr_sum_loop n e s = Some r \<longrightarrow> expr_sum_loop (Suc n) e s = Some r) \<and>
    (\<forall>s r. expr_cmp n s = Some r \<longrightarrow> expr_cmp (Suc n) s = Some r) \<and>
    (\<forall>e s r. expr_cmp_loop n e s = Some r \<longrightarrow> expr_cmp_loop (Suc n) e s = Some r)"

lemma fuel_mono_unary:
  assumes IH: "\<And>s r. expr_unary n s = Some r \<Longrightarrow> expr_unary (Suc n) s = Some r"
    "\<And>s r. expr_cmp n s = Some r \<Longrightarrow> expr_cmp (Suc n) s = Some r"
    and r: "expr_unary (Suc n) s = Some r"
  shows "expr_unary (Suc (Suc n)) s = Some r"
proof (cases "tok s")
  case (TokPunct c)
  consider "c = CHR ''+''" | "c = CHR ''-''" | "c = CHR ''~''" | "c = CHR ''(''"
    | "c \<notin> {CHR ''+'', CHR ''-'', CHR ''~'', CHR ''(''}" by auto
  then show ?thesis
    using r [unfolded expr_unary.simps(2)] unfolding expr_unary.simps(2) [of "Suc n"] by cases (auto simp: TokPunct IH(1) elim!: bindo_mono intro: IH)
qed (use r [unfolded expr_unary.simps(2)] in \<open>simp_all add: expr_unary.simps(2) [of "Suc n"]\<close>)

lemma fuel_mono_all: "fuel_mono n"
proof (induction n)
  case 0
  show ?case by (simp add: fuel_mono_def)
next
  case (Suc n)
  then have IH: "\<And>s r. expr_unary n s = Some r \<Longrightarrow> expr_unary (Suc n) s = Some r"
    "\<And>s r. expr_prod n s = Some r \<Longrightarrow> expr_prod (Suc n) s = Some r"
    "\<And>e s r. expr_prod_loop n e s = Some r \<Longrightarrow> expr_prod_loop (Suc n) e s = Some r"
    "\<And>s r. expr_logic n s = Some r \<Longrightarrow> expr_logic (Suc n) s = Some r"
    "\<And>e s r. expr_logic_loop n e s = Some r \<Longrightarrow> expr_logic_loop (Suc n) e s = Some r"
    "\<And>s r. expr_sum n s = Some r \<Longrightarrow> expr_sum (Suc n) s = Some r"
    "\<And>e s r. expr_sum_loop n e s = Some r \<Longrightarrow> expr_sum_loop (Suc n) e s = Some r"
    "\<And>s r. expr_cmp n s = Some r \<Longrightarrow> expr_cmp (Suc n) s = Some r"
    "\<And>e s r. expr_cmp_loop n e s = Some r \<Longrightarrow> expr_cmp_loop (Suc n) e s = Some r"
    by (simp_all add: fuel_mono_def)
  have l_prod: "expr_prod (Suc n) s = Some r \<Longrightarrow> expr_prod (Suc (Suc n)) s = Some r" for s r
    unfolding expr_prod.simps(2) by (auto elim!: bindo_mono intro: IH)
  have l_logic: "expr_logic (Suc n) s = Some r \<Longrightarrow> expr_logic (Suc (Suc n)) s = Some r" for s r
    unfolding expr_logic.simps(2) by (auto elim!: bindo_mono intro: IH)
  have l_sum: "expr_sum (Suc n) s = Some r \<Longrightarrow> expr_sum (Suc (Suc n)) s = Some r" for s r
    unfolding expr_sum.simps(2) by (auto elim!: bindo_mono intro: IH)
  have l_cmp: "expr_cmp (Suc n) s = Some r \<Longrightarrow> expr_cmp (Suc (Suc n)) s = Some r" for s r
    unfolding expr_cmp.simps(2) by (auto elim!: bindo_mono intro: IH)
  have p: "expr_prod_loop (Suc n) e s = Some r \<Longrightarrow> expr_prod_loop (Suc (Suc n)) e s = Some r" for e s r
    unfolding expr_prod_loop.simps(2) [of n e s] expr_prod_loop.simps(2) [of "Suc n" e s]
    by (cases "prod_op (tok s)") (auto elim!: bindo_mono intro: IH split: if_splits)
  have g: "expr_logic_loop (Suc n) e s = Some r \<Longrightarrow> expr_logic_loop (Suc (Suc n)) e s = Some r" for e s r
    unfolding expr_logic_loop.simps(2) [of n e s] expr_logic_loop.simps(2) [of "Suc n" e s]
    by (cases "logic_op (tok s)") (auto elim!: bindo_mono intro: IH split: if_splits)
  have c: "expr_cmp_loop (Suc n) e s = Some r \<Longrightarrow> expr_cmp_loop (Suc (Suc n)) e s = Some r" for e s r
    unfolding expr_cmp_loop.simps(2) [of n e s] expr_cmp_loop.simps(2) [of "Suc n" e s]
    by (cases "cmp_op (tok s)") (auto elim!: bindo_mono simp: IH split: if_splits)
  have m: "expr_sum_loop (Suc n) e s = Some r \<Longrightarrow> expr_sum_loop (Suc (Suc n)) e s = Some r" for e s r
    unfolding expr_sum_loop.simps(2) [of n e s] expr_sum_loop.simps(2) [of "Suc n" e s]
    by (auto elim!: bindo_mono intro: IH split: if_splits)
  show ?case
    unfolding fuel_mono_def using fuel_mono_unary [OF IH(1,8)] l_prod l_logic l_sum l_cmp p g c m by blast
qed


lemma fuel_enough_mono:
  assumes "n \<le> m"
  shows "expr_unary n s = Some r \<Longrightarrow> expr_unary m s = Some r"
    and "expr_prod n s = Some r \<Longrightarrow> expr_prod m s = Some r"
    and "expr_prod_loop n e s = Some r \<Longrightarrow> expr_prod_loop m e s = Some r"
    and "expr_logic n s = Some r \<Longrightarrow> expr_logic m s = Some r"
    and "expr_logic_loop n e s = Some r \<Longrightarrow> expr_logic_loop m e s = Some r"
    and "expr_sum n s = Some r \<Longrightarrow> expr_sum m s = Some r"
    and "expr_sum_loop n e s = Some r \<Longrightarrow> expr_sum_loop m e s = Some r"
    and "expr_cmp n s = Some r \<Longrightarrow> expr_cmp m s = Some r"
    and "expr_cmp_loop n e s = Some r \<Longrightarrow> expr_cmp_loop m e s = Some r"
  using assms by (induction rule: dec_induct) (insert fuel_mono_all, auto simp: fuel_mono_def)

section \<open>Tokens are consumed\<close>

abbreviation ntoks :: "asm_st \<Rightarrow> nat" where "ntoks s \<equiv> length (toks s)"

lemma ntoks_next [simp]: "ntoks (next_tok s) = ntoks s - 1"
  by (simp add: next_tok_def)

lemma ntoks_pos: "tok s \<noteq> TokEof \<Longrightarrow> 0 < ntoks s"
  by (auto simp: tok_def)

lemma toks_label_push: "asm_label_push v s = (k, s') \<Longrightarrow> toks s' = toks s"
  by (auto simp: asm_label_push_def global_identifier_push_def Let_def)

lemma toks_get_sym: "get_asm_sym v s = (k, s') \<Longrightarrow> toks s' = toks s"
  by (auto simp: get_asm_sym_def dest: toks_label_push split: option.splits)

lemma toks_new_label1: "asm_new_label1 l i n v s = Inr (k, s') \<Longrightarrow> toks s' = toks s"
  by (auto simp: asm_new_label1_def Let_def upd_sym_def dest: toks_label_push split: option.splits if_splits prod.splits)

lemma toks_section_sym: "asm_section_sym s = Inr (k, s') \<Longrightarrow> toks s' = toks s"
  by (auto simp: asm_section_sym_def Let_def toks_new_label1 split: option.splits)

lemma toks_atoms:
  "asm_expr_number t s = Inr (e, s') \<Longrightarrow> toks s' = tl (toks s)"
  "asm_expr_ident t s = Inr (e, s') \<Longrightarrow> toks s' = tl (toks s)"
  "asm_expr_dot s = Inr (e, s') \<Longrightarrow> toks s' = tl (toks s)"
  by (auto simp: asm_expr_number_def asm_expr_ident_def asm_expr_dot_def Let_def next_tok_def bindr_eq_Inr
      dest: toks_get_sym toks_section_sym toks_label_push split: prod.splits list.splits if_splits option.splits)


definition consumes :: "nat \<Rightarrow> bool" where
  "consumes n \<longleftrightarrow>
    (\<forall>s e s'. expr_unary n s = Some (Inr (e, s')) \<longrightarrow> ntoks s' < ntoks s) \<and>
    (\<forall>s e s'. expr_prod n s = Some (Inr (e, s')) \<longrightarrow> ntoks s' < ntoks s) \<and>
    (\<forall>e0 s e s'. expr_prod_loop n e0 s = Some (Inr (e, s')) \<longrightarrow> ntoks s' \<le> ntoks s) \<and>
    (\<forall>s e s'. expr_logic n s = Some (Inr (e, s')) \<longrightarrow> ntoks s' < ntoks s) \<and>
    (\<forall>e0 s e s'. expr_logic_loop n e0 s = Some (Inr (e, s')) \<longrightarrow> ntoks s' \<le> ntoks s) \<and>
    (\<forall>s e s'. expr_sum n s = Some (Inr (e, s')) \<longrightarrow> ntoks s' < ntoks s) \<and>
    (\<forall>e0 s e s'. expr_sum_loop n e0 s = Some (Inr (e, s')) \<longrightarrow> ntoks s' \<le> ntoks s) \<and>
    (\<forall>s e s'. expr_cmp n s = Some (Inr (e, s')) \<longrightarrow> ntoks s' < ntoks s) \<and>
    (\<forall>e0 s e s'. expr_cmp_loop n e0 s = Some (Inr (e, s')) \<longrightarrow> ntoks s' \<le> ntoks s)"

lemma consumes_unary:
  assumes IH: "\<And>s e s'. expr_unary n s = Some (Inr (e, s')) \<Longrightarrow> ntoks s' < ntoks s"
    "\<And>s e s'. expr_cmp n s = Some (Inr (e, s')) \<Longrightarrow> ntoks s' < ntoks s"
    and r: "expr_unary (Suc n) s = Some (Inr (e, s'))"
  shows "ntoks s' < ntoks s"
proof -
  have "tok s \<noteq> TokEof" using r by (auto simp: expr_unary.simps(2))
  then have pos: "0 < ntoks s" by (rule ntoks_pos)
  show ?thesis
  proof (cases "tok s")
    case (TokPunct c)
    consider "c = CHR ''+''" | "c = CHR ''-'' \<or> c = CHR ''~''" | "c = CHR ''(''" | "c = CHR ''.''"
      | "c \<notin> {CHR ''+'', CHR ''-'', CHR ''~'', CHR ''('', CHR ''.''}" by auto
    then show ?thesis
    proof cases
      case 1
      with r TokPunct IH(1) [of "next_tok s" e s'] show ?thesis by (simp add: expr_unary.simps(2))
    next
      case 2
      with r TokPunct obtain e1 where "expr_unary n (next_tok s) = Some (Inr (e1, s'))"
        by (auto simp: expr_unary.simps(2) bindo_eq_Inr err_label_def split: if_splits)
      from IH(1) [OF this] show ?thesis by simp
    next
      case 3
      with r TokPunct obtain s1 where "expr_cmp n (next_tok s) = Some (Inr (e, s1))" "skip CHR '')'' s1 = Inr s'"
        by (auto simp: expr_unary.simps(2) bindo_eq_Inr bindr_eq_Inr)
      with IH(2) [OF this(1)] show ?thesis by (auto simp: skip_def expect_def split: if_splits)
    next
      case 4
      with r TokPunct pos show ?thesis by (auto simp: expr_unary.simps(2) dest: toks_atoms)
    next
      case 5
      with r TokPunct show ?thesis by (simp add: expr_unary.simps(2))
    qed
  qed (use r pos in \<open>auto simp: expr_unary.simps(2) dest: toks_atoms\<close>)
qed

lemma prod_op_tok: "prod_op (tok s) \<noteq> None \<Longrightarrow> 0 < ntoks s"
  and logic_op_tok: "logic_op (tok s) \<noteq> None \<Longrightarrow> 0 < ntoks s"
  and cmp_op_tok: "cmp_op (tok s) \<noteq> None \<Longrightarrow> 0 < ntoks s"
  by (rule ntoks_pos; auto simp: prod_op_def logic_op_def cmp_op_def)+

lemma consumes_all: "consumes n"
proof (induction n)
  case 0
  show ?case by (simp add: consumes_def)
next
  case (Suc n)
  then have IH: "\<And>s e s'. expr_unary n s = Some (Inr (e, s')) \<Longrightarrow> ntoks s' < ntoks s"
    "\<And>s e s'. expr_prod n s = Some (Inr (e, s')) \<Longrightarrow> ntoks s' < ntoks s"
    "\<And>e0 s e s'. expr_prod_loop n e0 s = Some (Inr (e, s')) \<Longrightarrow> ntoks s' \<le> ntoks s"
    "\<And>s e s'. expr_logic n s = Some (Inr (e, s')) \<Longrightarrow> ntoks s' < ntoks s"
    "\<And>e0 s e s'. expr_logic_loop n e0 s = Some (Inr (e, s')) \<Longrightarrow> ntoks s' \<le> ntoks s"
    "\<And>s e s'. expr_sum n s = Some (Inr (e, s')) \<Longrightarrow> ntoks s' < ntoks s"
    "\<And>e0 s e s'. expr_sum_loop n e0 s = Some (Inr (e, s')) \<Longrightarrow> ntoks s' \<le> ntoks s"
    "\<And>s e s'. expr_cmp n s = Some (Inr (e, s')) \<Longrightarrow> ntoks s' < ntoks s"
    "\<And>e0 s e s'. expr_cmp_loop n e0 s = Some (Inr (e, s')) \<Longrightarrow> ntoks s' \<le> ntoks s"
    by (simp_all add: consumes_def)
  have l: "expr_prod (Suc n) s = Some (Inr (e, s')) \<Longrightarrow> ntoks s' < ntoks s"
    "expr_logic (Suc n) s = Some (Inr (e, s')) \<Longrightarrow> ntoks s' < ntoks s"
    "expr_sum (Suc n) s = Some (Inr (e, s')) \<Longrightarrow> ntoks s' < ntoks s"
    "expr_cmp (Suc n) s = Some (Inr (e, s')) \<Longrightarrow> ntoks s' < ntoks s" for s e s'
    unfolding expr_steps by (auto simp: bindo_eq_Inr dest!: IH)
  have p: "expr_prod_loop (Suc n) e0 s = Some (Inr (e, s')) \<Longrightarrow> ntoks s' \<le> ntoks s" for e0 s e s'
    unfolding expr_prod_loop.simps(2) [of n e0 s]
    by (cases "prod_op (tok s)") (auto simp: bindo_eq_Inr err_label_def split: if_splits dest!: IH)
  have g: "expr_logic_loop (Suc n) e0 s = Some (Inr (e, s')) \<Longrightarrow> ntoks s' \<le> ntoks s" for e0 s e s'
    unfolding expr_logic_loop.simps(2) [of n e0 s]
    by (cases "logic_op (tok s)") (auto simp: bindo_eq_Inr err_label_def split: if_splits dest!: IH)
  have c: "expr_cmp_loop (Suc n) e0 s = Some (Inr (e, s')) \<Longrightarrow> ntoks s' \<le> ntoks s" for e0 s e s'
    unfolding expr_cmp_loop.simps(2) [of n e0 s]
    by (cases "cmp_op (tok s)") (auto simp: bindo_eq_Inr err_label_def split: if_splits dest!: IH)
  have m: "expr_sum_loop (Suc n) e0 s = Some (Inr (e, s')) \<Longrightarrow> ntoks s' \<le> ntoks s" for e0 s e s'
    unfolding expr_sum_loop.simps(2) [of n e0 s]
    by (auto simp: bindo_eq_Inr split: if_splits dest!: IH)
  show ?case
    unfolding consumes_def
    by (auto intro: consumes_unary [OF IH(1,8)] l p g c m)
qed


lemma expr_unary_consumes: "expr_unary n s = Some (Inr (e, s')) \<Longrightarrow> ntoks s' < ntoks s"
  using consumes_all [of n] by (auto simp: consumes_def)

lemma expr_prod_consumes: "expr_prod n s = Some (Inr (e, s')) \<Longrightarrow> ntoks s' < ntoks s"
  using consumes_all [of n] by (auto simp: consumes_def)

lemma expr_logic_consumes: "expr_logic n s = Some (Inr (e, s')) \<Longrightarrow> ntoks s' < ntoks s"
  using consumes_all [of n] by (auto simp: consumes_def)

lemma expr_sum_consumes: "expr_sum n s = Some (Inr (e, s')) \<Longrightarrow> ntoks s' < ntoks s"
  using consumes_all [of n] by (auto simp: consumes_def)

lemma expr_cmp_consumes: "expr_cmp n s = Some (Inr (e, s')) \<Longrightarrow> ntoks s' < ntoks s"
  using consumes_all [of n] by (auto simp: consumes_def)

section \<open>The fuel is enough\<close>

definition enough :: "nat \<Rightarrow> bool" where
  "enough n \<longleftrightarrow>
    (\<forall>s. 10 * ntoks s + 1 \<le> n \<longrightarrow> expr_unary n s \<noteq> None) \<and>
    (\<forall>s. 10 * ntoks s + 2 \<le> n \<longrightarrow> expr_prod n s \<noteq> None) \<and>
    (\<forall>e s. 10 * ntoks s + 2 \<le> n \<longrightarrow> expr_prod_loop n e s \<noteq> None) \<and>
    (\<forall>s. 10 * ntoks s + 3 \<le> n \<longrightarrow> expr_logic n s \<noteq> None) \<and>
    (\<forall>e s. 10 * ntoks s + 3 \<le> n \<longrightarrow> expr_logic_loop n e s \<noteq> None) \<and>
    (\<forall>s. 10 * ntoks s + 4 \<le> n \<longrightarrow> expr_sum n s \<noteq> None) \<and>
    (\<forall>e s. 10 * ntoks s + 4 \<le> n \<longrightarrow> expr_sum_loop n e s \<noteq> None) \<and>
    (\<forall>s. 10 * ntoks s + 5 \<le> n \<longrightarrow> expr_cmp n s \<noteq> None) \<and>
    (\<forall>e s. 10 * ntoks s + 5 \<le> n \<longrightarrow> expr_cmp_loop n e s \<noteq> None)"

lemma fuel_next:
  assumes "0 < ntoks s" "10 * ntoks s + 1 \<le> Suc n" shows "10 * ntoks (next_tok s) + 5 \<le> n"
proof -
  obtain k where k: "ntoks s = Suc k" using assms(1) by (metis gr0_implies_Suc)
  show ?thesis using assms(2) by (simp only: ntoks_next k) arith
qed

lemma enough_all: "enough n"
proof (induction n)
  case 0
  show ?case by (simp add: enough_def)
next
  case (Suc n)
  then have IH: "\<And>s. 10 * ntoks s + 1 \<le> n \<Longrightarrow> expr_unary n s \<noteq> None"
    "\<And>s. 10 * ntoks s + 2 \<le> n \<Longrightarrow> expr_prod n s \<noteq> None"
    "\<And>e s. 10 * ntoks s + 2 \<le> n \<Longrightarrow> expr_prod_loop n e s \<noteq> None"
    "\<And>s. 10 * ntoks s + 3 \<le> n \<Longrightarrow> expr_logic n s \<noteq> None"
    "\<And>e s. 10 * ntoks s + 3 \<le> n \<Longrightarrow> expr_logic_loop n e s \<noteq> None"
    "\<And>s. 10 * ntoks s + 4 \<le> n \<Longrightarrow> expr_sum n s \<noteq> None"
    "\<And>e s. 10 * ntoks s + 4 \<le> n \<Longrightarrow> expr_sum_loop n e s \<noteq> None"
    "\<And>s. 10 * ntoks s + 5 \<le> n \<Longrightarrow> expr_cmp n s \<noteq> None"
    "\<And>e s. 10 * ntoks s + 5 \<le> n \<Longrightarrow> expr_cmp_loop n e s \<noteq> None"
    by (simp_all add: enough_def)
  have u: "expr_unary (Suc n) s \<noteq> None" if n: "10 * ntoks s + 1 \<le> Suc n" for s
  proof (cases "tok s")
    case (TokPunct c)
    then have "0 < ntoks s" by (intro ntoks_pos) simp
    with n have t: "10 * ntoks (next_tok s) + 5 \<le> n" by (intro fuel_next)
    then have "10 * ntoks (next_tok s) + 1 \<le> n" by linarith
    then have u1: "expr_unary n (next_tok s) \<noteq> None" by (rule IH(1))
    from t have u2: "expr_cmp n (next_tok s) \<noteq> None" by (rule IH(8))
    have "bindo (expr_unary n (next_tok s)) f \<noteq> None" if "\<And>x. f x \<noteq> None" for f :: "_ \<Rightarrow> (expr_value \<times> asm_st) result option"
      using u1 that by (simp add: bindo_not_None del: not_None_eq)
    moreover have "bindo (expr_cmp n (next_tok s)) f \<noteq> None" if "\<And>x. f x \<noteq> None" for f :: "_ \<Rightarrow> (expr_value \<times> asm_st) result option"
      using u2 that by (simp add: bindo_not_None del: not_None_eq)
    ultimately show ?thesis
      using u1 unfolding expr_unary.simps(2) TokPunct token.case by (simp add: split_def del: not_None_eq ntoks_next)
  qed (simp_all add: expr_unary.simps(2))
  have l1: "expr_prod (Suc n) s \<noteq> None" if n: "10 * ntoks s + 2 \<le> Suc n" for s
    unfolding expr_prod.simps(2)
  proof (rule bindo_some)
    show "expr_unary n s \<noteq> None" using n by (intro IH(1)) simp
    show "expr_prod_loop n e s1 \<noteq> None" if "expr_unary n s = Some (Inr (e, s1))" for e s1
      using n expr_unary_consumes [OF that] by (intro IH(3)) simp
  qed
  have l2: "expr_logic (Suc n) s \<noteq> None" if n: "10 * ntoks s + 3 \<le> Suc n" for s
    unfolding expr_logic.simps(2)
  proof (rule bindo_some)
    show "expr_prod n s \<noteq> None" using n by (intro IH(2)) simp
    show "expr_logic_loop n e s1 \<noteq> None" if "expr_prod n s = Some (Inr (e, s1))" for e s1
      using n expr_prod_consumes [OF that] by (intro IH(5)) simp
  qed
  have l3: "expr_sum (Suc n) s \<noteq> None" if n: "10 * ntoks s + 4 \<le> Suc n" for s
    unfolding expr_sum.simps(2)
  proof (rule bindo_some)
    show "expr_logic n s \<noteq> None" using n by (intro IH(4)) simp
    show "expr_sum_loop n e s1 \<noteq> None" if "expr_logic n s = Some (Inr (e, s1))" for e s1
      using n expr_logic_consumes [OF that] by (intro IH(7)) simp
  qed
  have l4: "expr_cmp (Suc n) s \<noteq> None" if n: "10 * ntoks s + 5 \<le> Suc n" for s
    unfolding expr_cmp.simps(2)
  proof (rule bindo_some)
    show "expr_sum n s \<noteq> None" using n by (intro IH(6)) simp
    show "expr_cmp_loop n e s1 \<noteq> None" if "expr_sum n s = Some (Inr (e, s1))" for e s1
      using n expr_sum_consumes [OF that] by (intro IH(9)) simp
  qed
  have tl: "10 * ntoks (next_tok s) + 5 \<le> n" if "0 < ntoks s" "10 * ntoks s + 2 \<le> Suc n" for s
    using that by (intro fuel_next) linarith+
  have p: "expr_prod_loop (Suc n) e s \<noteq> None" if s: "10 * ntoks s + 2 \<le> Suc n" for e s
  proof (cases "prod_op (tok s)")
    case (Some f)
    then have t: "10 * ntoks (next_tok s) + 5 \<le> n" using s prod_op_tok [of s] by (intro tl) auto
    have "expr_prod_loop n (e\<lparr>ev_v := v\<rparr>) s1 \<noteq> None" if "expr_unary n (next_tok s) = Some (Inr (e2, s1))" for e2 s1 v
      using expr_unary_consumes [OF that] t by (intro IH) simp
    moreover have "expr_unary n (next_tok s) \<noteq> None" using t by (intro IH(1)) linarith
    ultimately show ?thesis
      unfolding expr_prod_loop.simps(2) [of n e s] Some option.case
      by (intro bindo_some) (simp_all add: bindo_not_None del: not_None_eq)
  qed (simp add: expr_prod_loop.simps(2))
  have g: "expr_logic_loop (Suc n) e s \<noteq> None" if s: "10 * ntoks s + 3 \<le> Suc n" for e s
  proof (cases "logic_op (tok s)")
    case (Some f)
    then have t: "10 * ntoks (next_tok s) + 5 \<le> n" using s logic_op_tok [of s] by (intro tl) auto
    have "expr_logic_loop n (e\<lparr>ev_v := v\<rparr>) s1 \<noteq> None" if "expr_prod n (next_tok s) = Some (Inr (e2, s1))" for e2 s1 v
      using expr_prod_consumes [OF that] t by (intro IH) simp
    moreover have "expr_prod n (next_tok s) \<noteq> None" using t by (intro IH(2)) linarith
    ultimately show ?thesis
      unfolding expr_logic_loop.simps(2) [of n e s] Some option.case
      by (intro bindo_some) (simp_all add: bindo_not_None del: not_None_eq)
  qed (simp add: expr_logic_loop.simps(2))
  have c: "expr_cmp_loop (Suc n) e s \<noteq> None" if s: "10 * ntoks s + 5 \<le> Suc n" for e s
  proof (cases "cmp_op (tok s)")
    case (Some f)
    then have t: "10 * ntoks (next_tok s) + 5 \<le> n" using s cmp_op_tok [of s] by (intro tl) auto
    have "expr_cmp_loop n (e\<lparr>ev_v := v\<rparr>) s1 \<noteq> None" if "expr_sum n (next_tok s) = Some (Inr (e2, s1))" for e2 s1 v
      using expr_sum_consumes [OF that] t by (intro IH) simp
    moreover have "expr_sum n (next_tok s) \<noteq> None" using t by (intro IH(6)) linarith
    ultimately show ?thesis
      unfolding expr_cmp_loop.simps(2) [of n e s] Some option.case
      by (intro bindo_some) (simp_all add: bindo_not_None del: not_None_eq)
  qed (simp add: expr_cmp_loop.simps(2))
  have m: "expr_sum_loop (Suc n) e s \<noteq> None" if s: "10 * ntoks s + 4 \<le> Suc n" for e s
  proof (cases "tok s = TokPunct CHR ''+'' \<or> tok s = TokPunct CHR ''-''")
    case True
    then have t: "10 * ntoks (next_tok s) + 5 \<le> n" using s ntoks_pos [of s] by (intro tl) auto
    have "expr_sum_loop n e3 s1 \<noteq> None" if "expr_logic n (next_tok s) = Some (Inr (e2, s1))" for e2 s1 e3
      using expr_logic_consumes [OF that] t by (intro IH) simp
    moreover have "expr_logic n (next_tok s) \<noteq> None" using t by (intro IH(4)) linarith
    ultimately have "bindo (expr_logic n (next_tok s)) (\<lambda>(e2, s1). bindo (Some (h e2 s1)) (\<lambda>e3. expr_sum_loop n e3 s1)) \<noteq> None" for h
      by (intro bindo_some) (simp_all add: bindo_not_None del: not_None_eq)
    with True show ?thesis
      unfolding expr_sum_loop.simps(2) [of n e s] by (auto simp del: not_None_eq)
  qed (simp add: expr_sum_loop.simps(2))
  show ?case
    unfolding enough_def using u l1 l2 l3 l4 p g c m by (simp del: not_None_eq)
qed

lemma expr_cmp_enough: "expr_cmp (expr_fuel s) s \<noteq> None"
  using enough_all [of "expr_fuel s"] by (simp add: enough_def expr_fuel_def del: not_None_eq)

lemma asm_expr_eq: "expr_cmp n s = Some r \<Longrightarrow> asm_expr s = r"
proof -
  assume r: "expr_cmp n s = Some r"
  obtain r' where r': "expr_cmp (expr_fuel s) s = Some r'" using expr_cmp_enough by blast
  have "Some r = Some r'"
    using fuel_enough_mono(8) [OF max.cobounded1 r, of "expr_fuel s"]
      fuel_enough_mono(8) [OF max.cobounded2 r', of n] by simp
  with r' show "asm_expr s = r" by (simp add: asm_expr_def)
qed

end
