(* ===== verification/AsmFrame.thy ===== *)
theory AsmFrame
  imports AsmExprProps AsmDecode
begin

text \<open>
  What no instruction of the assembler ever does. The locales list the primitive steps from which the
  assembler is built (consuming a token, entering a symbol, adding a relocation, emitting code); a
  relation that all of them respect is respected by the whole of \<open>asm_opcode\<close>, also when operands are
  parsed before an error is found.
\<close>

section \<open>Expressions\<close>

locale expr_frame =
  fixes R :: "asm_st \<Rightarrow> asm_st \<Rightarrow> bool"
  assumes R_refl: "R s s"
    and R_trans: "R s1 s2 \<Longrightarrow> R s2 s3 \<Longrightarrow> R s1 s3"
    and R_next: "R s (next_tok s)"
    and R_push: "R s (snd (asm_label_push v s))"
    and R_upd: "R s (upd_sym k f s)"
begin

lemma R_step3: "R (next_tok s) s1 \<Longrightarrow> R s1 s' \<Longrightarrow> R s s'"
  using R_trans R_next by blast

lemma R_next': "R s1 s2 \<Longrightarrow> R s1 (next_tok s2)"
  using R_trans R_next by blast

lemma R_push': "asm_label_push v s = (k, s') \<Longrightarrow> R s s'"
  using R_push [of s v] by simp

lemma R_skip: "skip c s = Inr s' \<Longrightarrow> R s s'"
  by (auto simp: skip_def expect_def R_next split: if_splits)

lemma R_get_sym: "get_asm_sym v s = (k, s') \<Longrightarrow> R s s'"
  by (auto simp: get_asm_sym_def R_refl intro: R_push' split: option.splits)

lemma R_new_label1:
  assumes "asm_new_label1 l i n v s = Inr (k, s')" shows "R s s'"
proof -
  obtain k1 s1 f where "s' = upd_sym k1 f s1" "s1 = s \<or> (k1, s1) = asm_label_push l s"
    using assms by (auto simp: asm_new_label1_def Let_def split: option.splits if_splits prod.splits)
  then show ?thesis using R_refl R_upd R_push' R_trans by metis
qed

lemma R_section_sym: "asm_section_sym s = Inr (k, s') \<Longrightarrow> R s s'"
  by (auto simp: asm_section_sym_def Let_def R_refl intro: R_new_label1 split: option.splits)

lemma R_number: "asm_expr_number t s = Inr (e, s') \<Longrightarrow> R s s'"
  by (auto simp: asm_expr_number_def Let_def R_next intro: R_next' R_push'
      split: prod.splits list.splits if_splits option.splits)

lemma R_ident: "asm_expr_ident t s = Inr (e, s') \<Longrightarrow> R s s'"
  by (auto simp: asm_expr_ident_def intro: R_next' R_get_sym split: prod.splits if_splits option.splits)

lemma R_dot: "asm_expr_dot s = Inr (e, s') \<Longrightarrow> R s s'"
  by (auto simp: asm_expr_dot_def bindr_eq_Inr intro: R_next' R_section_sym)

lemma R_unary:
  assumes IH: "\<And>s e s'. expr_unary n s = Some (Inr (e, s')) \<Longrightarrow> R s s'"
    "\<And>s e s'. expr_cmp n s = Some (Inr (e, s')) \<Longrightarrow> R s s'"
    and r: "expr_unary (Suc n) s = Some (Inr (e, s'))"
  shows "R s s'"
proof (cases "tok s")
  case (TokPunct c)
  consider "c = CHR ''+''" | "c = CHR ''-'' \<or> c = CHR ''~''" | "c = CHR ''(''" | "c = CHR ''.''"
    | "c \<notin> {CHR ''+'', CHR ''-'', CHR ''~'', CHR ''('', CHR ''.''}" by auto
  then show ?thesis
  proof cases
    case 1
    with r TokPunct show ?thesis by (auto simp: expr_unary.simps(2) dest!: IH(1) intro: R_trans [OF R_next])
  next
    case 2
    with r TokPunct obtain e1 where "expr_unary n (next_tok s) = Some (Inr (e1, s'))"
      by (auto simp: expr_unary.simps(2) bindo_eq_Inr err_label_def split: if_splits)
    then show ?thesis by (rule R_trans [OF R_next IH(1)])
  next
    case 3
    with r TokPunct obtain s1 where "expr_cmp n (next_tok s) = Some (Inr (e, s1))" "skip CHR '')'' s1 = Inr s'"
      by (auto simp: expr_unary.simps(2) bindo_eq_Inr bindr_eq_Inr)
    then show ?thesis using R_trans [OF R_next [of s] R_trans [OF IH(2) R_skip]] by blast
  next
    case 4
    with r TokPunct show ?thesis by (auto simp: expr_unary.simps(2) intro: R_dot)
  next
    case 5
    with r TokPunct show ?thesis by (simp add: expr_unary.simps(2))
  qed
qed (use r in \<open>auto simp: expr_unary.simps(2) R_next intro: R_number R_ident\<close>)

lemma R_exprs:
  "(\<forall>s e s'. expr_unary n s = Some (Inr (e, s')) \<longrightarrow> R s s') \<and>
   (\<forall>s e s'. expr_prod n s = Some (Inr (e, s')) \<longrightarrow> R s s') \<and>
   (\<forall>e0 s e s'. expr_prod_loop n e0 s = Some (Inr (e, s')) \<longrightarrow> R s s') \<and>
   (\<forall>s e s'. expr_logic n s = Some (Inr (e, s')) \<longrightarrow> R s s') \<and>
   (\<forall>e0 s e s'. expr_logic_loop n e0 s = Some (Inr (e, s')) \<longrightarrow> R s s') \<and>
   (\<forall>s e s'. expr_sum n s = Some (Inr (e, s')) \<longrightarrow> R s s') \<and>
   (\<forall>e0 s e s'. expr_sum_loop n e0 s = Some (Inr (e, s')) \<longrightarrow> R s s') \<and>
   (\<forall>s e s'. expr_cmp n s = Some (Inr (e, s')) \<longrightarrow> R s s') \<and>
   (\<forall>e0 s e s'. expr_cmp_loop n e0 s = Some (Inr (e, s')) \<longrightarrow> R s s')"
proof (induction n)
  case 0
  show ?case by simp
next
  case (Suc n)
  then have IH: "\<And>s e s'. expr_unary n s = Some (Inr (e, s')) \<Longrightarrow> R s s'"
    "\<And>s e s'. expr_prod n s = Some (Inr (e, s')) \<Longrightarrow> R s s'"
    "\<And>e0 s e s'. expr_prod_loop n e0 s = Some (Inr (e, s')) \<Longrightarrow> R s s'"
    "\<And>s e s'. expr_logic n s = Some (Inr (e, s')) \<Longrightarrow> R s s'"
    "\<And>e0 s e s'. expr_logic_loop n e0 s = Some (Inr (e, s')) \<Longrightarrow> R s s'"
    "\<And>s e s'. expr_sum n s = Some (Inr (e, s')) \<Longrightarrow> R s s'"
    "\<And>e0 s e s'. expr_sum_loop n e0 s = Some (Inr (e, s')) \<Longrightarrow> R s s'"
    "\<And>s e s'. expr_cmp n s = Some (Inr (e, s')) \<Longrightarrow> R s s'"
    "\<And>e0 s e s'. expr_cmp_loop n e0 s = Some (Inr (e, s')) \<Longrightarrow> R s s'"
    by simp_all
  have l: "expr_prod (Suc n) s = Some (Inr (e, s')) \<Longrightarrow> R s s'"
    "expr_logic (Suc n) s = Some (Inr (e, s')) \<Longrightarrow> R s s'"
    "expr_sum (Suc n) s = Some (Inr (e, s')) \<Longrightarrow> R s s'"
    "expr_cmp (Suc n) s = Some (Inr (e, s')) \<Longrightarrow> R s s'" for s e s'
    unfolding expr_steps by (auto simp: bindo_eq_Inr elim: R_trans dest!: IH)
  have p: "expr_prod_loop (Suc n) e0 s = Some (Inr (e, s')) \<Longrightarrow> R s s'" for e0 s e s'
    unfolding expr_prod_loop.simps(2) [of n e0 s]
    by (cases "prod_op (tok s)")
      (auto simp: bindo_eq_Inr err_label_def R_refl elim: R_step3 split: if_splits dest!: IH)
  have g: "expr_logic_loop (Suc n) e0 s = Some (Inr (e, s')) \<Longrightarrow> R s s'" for e0 s e s'
    unfolding expr_logic_loop.simps(2) [of n e0 s]
    by (cases "logic_op (tok s)")
      (auto simp: bindo_eq_Inr err_label_def R_refl elim: R_step3 split: if_splits dest!: IH)
  have c: "expr_cmp_loop (Suc n) e0 s = Some (Inr (e, s')) \<Longrightarrow> R s s'" for e0 s e s'
    unfolding expr_cmp_loop.simps(2) [of n e0 s]
    by (cases "cmp_op (tok s)")
      (auto simp: bindo_eq_Inr err_label_def R_refl elim: R_step3 split: if_splits dest!: IH)
  have m: "expr_sum_loop (Suc n) e0 s = Some (Inr (e, s')) \<Longrightarrow> R s s'" for e0 s e s'
    unfolding expr_sum_loop.simps(2) [of n e0 s]
    by (auto simp: bindo_eq_Inr R_refl elim: R_step3 split: if_splits dest!: IH)
  show ?case
    by (auto intro: R_unary [OF IH(1,8)] l p g c m)
qed

lemma R_expr: "asm_expr s = Inr (e, s') \<Longrightarrow> R s s'"
  using R_exprs [of "expr_fuel s"] by (auto simp: asm_expr_def split: option.splits)

lemma R_int_expr: "asm_int_expr s = Inr (e, s') \<Longrightarrow> R s s'"
  by (auto simp: asm_int_expr_def bindr_eq_Inr expect_def R_expr split: if_splits)

lemma R_set_symbol: "set_symbol l s = Inr (k, s') \<Longrightarrow> R s s'"
  by (auto simp: set_symbol_def bindr_eq_Inr split: option.splits
      intro: R_trans [OF R_next R_trans [OF R_expr R_new_label1]])

end

section \<open>Operands\<close>

locale reloc_frame = expr_frame +
  assumes R_greloca: "R s (greloca y i t a s)"
begin

lemma R_greloca': "R s1 s2 \<Longrightarrow> R s1 (greloca y i t a s2)"
  using R_trans R_greloca by blast

lemma R_classify:
  "(\<And>k s. R s (rel k s)) \<Longrightarrow> classify_operand rel e s = Inr (op, s') \<Longrightarrow> R s s'"
  by (auto simp: classify_operand_def expect_def R_refl split: option.splits if_splits)

lemma R_pcrel: "R s (pcrel_relocs k s)"
  by (simp add: pcrel_relocs_def R_greloca R_greloca')

lemma R_operand:
  assumes "parse_operand s = Inr (op, s')" shows "R s s'"
proof -
  have c: "classify_operand pcrel_relocs e s1 = Inr (op, s') \<Longrightarrow> R s1 s'" for e s1
    by (rule R_classify [OF R_pcrel])
  show ?thesis
    using assms R_trans [OF R_expr c] R_trans [OF R_next c]
    by (auto simp: parse_operand_def Let_def bindr_eq_Inr R_next split: if_splits)
qed

lemma R_offsets:
  "parse_branch_offset_operand s = Inr (op, s') \<Longrightarrow> R s s'"
  "parse_jump_offset_operand s = Inr (op, s') \<Longrightarrow> R s s'"
  by (auto simp: parse_branch_offset_operand_def parse_jump_offset_operand_def bindr_eq_Inr
      intro!: R_trans [OF R_expr R_classify [OF R_greloca]])

lemma R_operands_more: "parse_operands_more n s = Inr (ops, s') \<Longrightarrow> R s s'"
proof (induction n arbitrary: s ops)
  case (Suc n)
  then obtain s1 op s2 ops1 where "skip CHR '','' s = Inr s1" "parse_operand s1 = Inr (op, s2)"
    "parse_operands_more n s2 = Inr (ops1, s')"
    by (auto simp: bindr_eq_Inr)
  with Suc.IH show ?case using R_trans [OF R_skip R_trans [OF R_operand]] by metis
qed (simp add: R_refl)

lemma R_operands: "parse_operands n s = Inr (ops, s') \<Longrightarrow> R s s'"
  by (auto simp: parse_operands_def bindr_eq_Inr R_refl split: if_splits
      intro: R_trans [OF R_operand R_operands_more])

lemma R_parens:
  "bindr (parse_operand (next_tok s)) (\<lambda>(op, s1). bindr (skip CHR '')'' s1) (\<lambda>s2. Inr (op, s2))) = Inr (op', s') \<Longrightarrow> R s s'"
  by (auto simp: bindr_eq_Inr intro!: R_trans [OF R_next R_trans [OF R_operand R_skip]])

lemma R_base_offset:
  assumes "parse_base_offset s = Inr (op1, op2, s')" shows "R s s'"
proof (cases "tok s = TokPunct CHR ''(''")
  case True
  with assms show ?thesis
    by (auto simp: parse_base_offset_def Let_def bindr_eq_Inr
        intro!: R_trans [OF R_next R_trans [OF R_operand R_skip]])
next
  case False
  with assms obtain s1 where "parse_operand s = Inr (op2, s1) \<and> R s1 s' \<or> parse_operand s = Inr (op1, s1) \<and> s' = s1"
    by (auto simp: parse_base_offset_def Let_def bindr_eq_Inr split: if_splits
        intro!: R_trans [OF R_next R_trans [OF R_operand R_skip]])
  then show ?thesis using R_operand R_trans by metis
qed

lemma R_mem_operands:
  assumes "parse_mem_access_operands s = Inr (op0, op1, op2, s')" shows "R s s'"
proof -
  obtain s1 s2 where "parse_operand s = Inr (op0, s1)" "skip CHR '','' s1 = Inr s2" "parse_base_offset s2 = Inr (op1, op2, s')"
    using assms by (auto simp: parse_mem_access_operands_def bindr_eq_Inr)
  then show ?thesis using R_trans [OF R_operand R_trans [OF R_skip R_base_offset]] by metis
qed

end

section \<open>Instructions\<close>

lemma no_result:
  "err_dst = Inr x \<Longrightarrow> P" "err_src = Inr x \<Longrightarrow> P" "err_imm = Inr x \<Longrightarrow> P" "err_dst_c = Inr x \<Longrightarrow> P"
  "err_src_c = Inr x \<Longrightarrow> P" "err_range_c = Inr x \<Longrightarrow> P" "err_div4 = Inr x \<Longrightarrow> P" "err_even = Inr x \<Longrightarrow> P"
  "err_insn = Inr x \<Longrightarrow> P" "expect m = Inr x \<Longrightarrow> P" "Inl e = Inr x \<Longrightarrow> P"
  by (simp_all add: c_errors expect_def)

lemma if_Some:
  "(if P then Some m1 else m2) = Some (Inr x) \<Longrightarrow> (m1 = Inr x \<Longrightarrow> Q) \<Longrightarrow> (m2 = Some (Inr x) \<Longrightarrow> Q) \<Longrightarrow> Q"
  by (auto split: if_splits)

lemma no_None: "None = Some x \<Longrightarrow> P"
  by simp

definition keeps :: "('s \<Rightarrow> 's \<Rightarrow> bool) \<Rightarrow> 's emission \<Rightarrow> bool" where
  "keeps R c \<longleftrightarrow> (\<forall>s s'. c s = Inr s' \<longrightarrow> R s s')"

lemma keeps_switch:
  "\<forall>p\<in>set cases. keeps R (snd p) \<Longrightarrow> keeps R dflt \<Longrightarrow> keeps R (switch t cases dflt)"
  by (force simp: switch_def split: option.split dest: map_of_SomeD)

lemmas tables = ternary_base_def ternary_mul_def ternary_csr_def ternary_c_def branch_cases_def mem_cases_def
  binary_upper_def binary_c1_def binary_c2_def binary_pseudo_def atomic_cases_def

locale code_frame = reloc_frame +
  assumes R_gen32: "R s (gen_le32 c s)"
    and R_gen16: "R s (gen_le16 c s)"
begin

lemma R_if:
  "(if P then m1 else m2) = Inr s' \<Longrightarrow> (m1 = Inr s' \<Longrightarrow> R s s') \<Longrightarrow> (m2 = Inr s' \<Longrightarrow> R s s') \<Longrightarrow> R s s'"
  by (auto split: if_splits)

lemma R_gen16': "Inr (gen_le16 c s) = (Inr s' :: asm_st result) \<Longrightarrow> R s s'"
  using R_gen16 by auto

lemma R_emit32:
  "asm_emit_opcode opc s = Inr s' \<Longrightarrow> R s s'"
  "asm_emit_u t opc a b s = Inr s' \<Longrightarrow> R s s'"
  "asm_emit_r t opc a b c s = Inr s' \<Longrightarrow> R s s'"
  "asm_emit_i t opc a b c s = Inr s' \<Longrightarrow> R s s'"
  "asm_emit_j t opc a b s = Inr s' \<Longrightarrow> R s s'"
  "asm_emit_a t opc a b c aq rl s = Inr s' \<Longrightarrow> R s s'"
  "asm_emit_s t opc a b c s = Inr s' \<Longrightarrow> R s s'"
  "asm_emit_b t opc a b c s = Inr s' \<Longrightarrow> R s s'"
  by (auto simp: asm_emit_opcode_def asm_emit_u_def asm_emit_r_def asm_emit_i_def asm_emit_j_def asm_emit_a_def
      asm_emit_s_def asm_emit_b_def Let_def R_gen32 split: if_splits)

lemma R_emit16:
  "asm_emit_ca t o16 a b s = Inr s' \<Longrightarrow> R s s'"
  "asm_emit_cb t o16 a b s = Inr s' \<Longrightarrow> R s s'"
  "asm_emit_ci t o16 a b s = Inr s' \<Longrightarrow> R s s'"
  "asm_emit_ciw t o16 a b s = Inr s' \<Longrightarrow> R s s'"
  "asm_emit_cj t o16 a s = Inr s' \<Longrightarrow> R s s'"
  "asm_emit_cl t o16 a b c s = Inr s' \<Longrightarrow> R s s'"
  "asm_emit_cr t o16 a b s = Inr s' \<Longrightarrow> R s s'"
  "asm_emit_cs t o16 a b c s = Inr s' \<Longrightarrow> R s s'"
  "asm_emit_css t o16 a b s = Inr s' \<Longrightarrow> R s s'"
  unfolding asm_emit_ca_def asm_emit_cb_def asm_emit_ci_def asm_emit_ciw_def asm_emit_cj_def asm_emit_cl_def
    asm_emit_cr_def asm_emit_cs_def asm_emit_css_def Let_def
  by (elim R_if R_gen16' no_result; assumption)+

lemma keeps_emit:
  "keeps R (asm_emit_opcode opc)" "keeps R (asm_emit_u t opc a b)" "keeps R (asm_emit_r t opc a b c)"
  "keeps R (asm_emit_i t opc a b c)" "keeps R (asm_emit_j t opc a b)" "keeps R (asm_emit_a t opc a b c aq rl)"
  "keeps R (asm_emit_s t opc a b c)" "keeps R (asm_emit_b t opc a b c)"
  "keeps R (asm_emit_ca t opc a b)" "keeps R (asm_emit_cb t opc a b)" "keeps R (asm_emit_ci t opc a b)"
  "keeps R (asm_emit_ciw t opc a b)" "keeps R (asm_emit_cj t opc a)" "keeps R (asm_emit_cl t opc a b c)"
  "keeps R (asm_emit_cr t opc a b)" "keeps R (asm_emit_cs t opc a b c)" "keeps R (asm_emit_css t opc a b)"
  unfolding keeps_def by (intro allI impI, erule R_emit32 R_emit16)+

lemma keeps_seq: "keeps R c \<Longrightarrow> keeps R d \<Longrightarrow> keeps R (seq c d)"
  unfolding keeps_def seq_def bindr_eq_Inr using R_trans by blast

lemma keeps_run: "(\<And>c. c \<in> set cs \<Longrightarrow> keeps R c) \<Longrightarrow> keeps R (run cs)"
proof (induction cs)
  case Nil
  show ?case by (simp add: keeps_def R_refl)
next
  case (Cons c cs)
  then have "keeps R c" "keeps R (run cs)" by simp_all
  then show ?case unfolding keeps_def run.simps bindr_eq_Inr using R_trans by blast
qed

lemma keeps_err: "keeps R (\<lambda>s. expect m)" "keeps R (\<lambda>s. Inl e)"
  by (simp_all add: keeps_def expect_def)

lemma keeps_Inr: "keeps R Inr"
  by (simp add: keeps_def R_refl)

lemma keeps_call: "keeps R (asm_call r op)"
  unfolding asm_call_def
  using keeps_seq [OF keeps_emit(1) keeps_emit(1)] R_trans [OF R_greloca]
  unfolding keeps_def by blast

lemma keeps_li: "keeps R (asm_li t a b)"
  unfolding asm_li_def Let_def
  by (auto simp: keeps_err keeps_emit split: prod.split intro!: keeps_run)

lemma keeps_jump:
  "keeps R (\<lambda>s. asm_emit_opcode opc (greloca y (ind s) t a s))"
  using keeps_emit(1) R_trans [OF R_greloca]
  unfolding keeps_def by blast

lemma keeps_tables:
  "\<forall>p\<in>set (ternary_base a b c @ ternary_mul a b c @ ternary_csr a b c @ ternary_c a b c). keeps R (snd p)"
  "\<forall>p\<in>set (branch_cases a b c). keeps R (snd p)"
  "\<forall>p\<in>set (mem_cases a b c). keeps R (snd p)"
  "\<forall>p\<in>set (binary_upper a b @ binary_c1 a b @ binary_c2 a b @ binary_pseudo a b). keeps R (snd p)"
  "\<forall>p\<in>set (atomic_cases a b c). keeps R (snd p)"
  unfolding tables
  by (simp_all add: keeps_emit keeps_seq keeps_li keeps_jump)

lemma R_via: "R s1 s2 \<Longrightarrow> keeps R c \<Longrightarrow> c s2 = Inr s3 \<Longrightarrow> R s1 s3"
  unfolding keeps_def using R_trans by blast

lemma keepsD: "keeps R c \<Longrightarrow> c s = Inr s' \<Longrightarrow> R s s'"
  by (simp add: keeps_def)

lemma keeps_cases:
  "keeps R (switch t (ternary_base a b c @ ternary_mul a b c @ ternary_csr a b c @ ternary_c a b c) (\<lambda>s. expect m))"
  "keeps R (switch t (branch_cases a b c) Inr)"
  "keeps R (switch t (mem_cases a b c) Inr)"
  "keeps R (switch t (binary_upper a b @ binary_c1 a b @ binary_c2 a b @ binary_pseudo a b) (\<lambda>s. expect m))"
  "keeps R (switch t (atomic_cases a b c) Inr)"
  by (rule keeps_switch [OF keeps_tables(1) keeps_err(1)] keeps_switch [OF keeps_tables(2) keeps_Inr]
      keeps_switch [OF keeps_tables(3) keeps_Inr] keeps_switch [OF keeps_tables(4) keeps_err(1)]
      keeps_switch [OF keeps_tables(5) keeps_Inr])+

lemma R_nullary: "asm_nullary_opcode t s = Inr s' \<Longrightarrow> R s s'"
  unfolding asm_nullary_opcode_def
  by (elim R_if no_result keepsD [OF keeps_emit(1)] keepsD [OF keeps_emit(4)] keepsD [OF keeps_emit(15)] keepsD [OF keeps_emit(11)])

lemma R_jal:
  assumes "asm_jal_opcode t s = Inr s'" shows "R s s'"
proof -
  obtain op0 s3 op1 s4 where a: "(if t = ''j'' then Inr (nil_op, s)
      else if asm_parse_regvar (tok s) = -1 then Inr (ra_op, s)
      else bindr (parse_operand s) (\<lambda>(op, s1). bindr (skip CHR '','' s1) (\<lambda>s2. Inr (op, s2)))) = Inr (op0, s3)"
    and b: "parse_jump_offset_operand s3 = Inr (op1, s4)" "asm_emit_j t 0x6f op0 op1 s4 = Inr s'"
    using assms by (auto simp: asm_jal_opcode_def bindr_eq_Inr)
  from a have "R s s3"
    by (auto simp: bindr_eq_Inr R_refl intro: R_trans [OF R_operand R_skip] split: if_splits)
  with R_offsets(2) [OF b(1)] keepsD [OF keeps_emit(5) b(2)] show ?thesis using R_trans by blast
qed

lemma R_jalr:
  assumes "asm_jalr_opcode t s = Inr s'" shows "R s s'"
proof -
  obtain op0 s1 where a: "parse_operand s = Inr (op0, s1)"
    and b: "asm_emit_i t (0x67 OR push_bit 12 0) ra_op op0 zimm s1 = Inr s' \<or>
      (\<exists>op1 op2 s2. parse_base_offset (next_tok s1) = Inr (op1, op2, s2) \<and> asm_emit_i t (0x67 OR push_bit 12 0) op0 op1 op2 s2 = Inr s')"
    using assms by (auto simp: asm_jalr_opcode_def bindr_eq_Inr split: if_splits)
  from b have "R s1 s'"
    using keepsD [OF keeps_emit(4)] R_trans [OF R_next R_trans [OF R_base_offset]] by blast
  with R_operand [OF a] show ?thesis by (rule R_trans)
qed

lemma R_unary_opcode:
  assumes "asm_unary_opcode t s = Inr s'" shows "R s s'"
proof -
  have sw: "asm_unary_switch t op s1 = Inr s' \<Longrightarrow> R s1 s'" for op s1
    unfolding asm_unary_switch_def Let_def
    by (elim R_if no_result keepsD [OF keeps_emit(1)] keepsD [OF keeps_emit(4)] keepsD [OF keeps_emit(15)]
        keepsD [OF keeps_emit(13)] keepsD [OF keeps_call])
  obtain ops s1 where "parse_operands 1 s = Inr (ops, s1)" "asm_unary_switch t (ops ! 0) s1 = Inr s'"
    using assms unfolding asm_unary_opcode_def by (auto simp: bindr_eq_Inr)
  then show ?thesis using R_trans [OF R_operands sw] by blast
qed

lemma R_fence_operand: "R s (snd (parse_fence_operand s))"
  by (simp add: parse_fence_operand_def Let_def R_next)

lemma R_fence:
  assumes "asm_fence_opcode t s = Inr s'" shows "R s s'"
proof -
  have "(\<exists>opc. asm_emit_opcode opc s = Inr s') \<or>
      (\<exists>s2 opc. skip CHR '','' (snd (parse_fence_operand s)) = Inr s2 \<and>
        asm_emit_opcode opc (snd (parse_fence_operand s2)) = Inr s')"
    using assms unfolding asm_fence_opcode_def Let_def split_beta by (auto simp: bindr_eq_Inr split: if_splits)
  then show ?thesis
    using keepsD [OF keeps_emit(1)]
      R_trans [OF R_fence_operand R_trans [OF R_skip R_trans [OF R_fence_operand keepsD [OF keeps_emit(1)]]]]
    by blast
qed

lemma R_binary:
  assumes "asm_binary_opcode t s = Inr s'" shows "R s s'"
proof -
  obtain ops s1 where "parse_operands 2 s = Inr (ops, s1)"
    "switch t (binary_upper (ops ! 0) (ops ! 1) @ binary_c1 (ops ! 0) (ops ! 1) @ binary_c2 (ops ! 0) (ops ! 1)
       @ binary_pseudo (ops ! 0) (ops ! 1)) (\<lambda>s. expect ''binary instruction'') s1 = Inr s'"
    using assms unfolding asm_binary_opcode_def Let_def by (auto simp: bindr_eq_Inr)
  then show ?thesis using R_via [OF R_operands keeps_cases(4)] by blast
qed

lemma R_ternary:
  assumes "asm_ternary_opcode t s = Inr s'" shows "R s s'"
proof -
  obtain ops s1 where o: "parse_operands 3 s = Inr (ops, s1)"
    and e: "switch t (ternary_base (ops ! 0) (ops ! 1) (ops ! 2) @ ternary_mul (ops ! 0) (ops ! 1) (ops ! 2)
       @ ternary_csr (ops ! 0) (ops ! 1) (ops ! 2) @ ternary_c (ops ! 0) (ops ! 1) (ops ! 2)) (\<lambda>s. expect ''ternary instruction'') s1 = Inr s'"
    using assms unfolding asm_ternary_opcode_def Let_def by (auto simp: bindr_eq_Inr)
  show ?thesis by (rule R_via [OF R_operands [OF o] keeps_cases(1) e])
qed

lemma R_mem:
  assumes "asm_mem_access_opcode t s = Inr s'" shows "R s s'"
proof -
  obtain op0 op1 op2 s1 where o: "parse_mem_access_operands s = Inr (op0, op1, op2, s1)"
    and e: "seq (asm_emit_u t (push_bit 2 0x05 OR 3) op0 (op2\<lparr>op_type := OP_IM12S, op_v := 0\<rparr>))
        (switch t (mem_cases op0 op0 (op2\<lparr>op_type := OP_IM12S, op_v := 0\<rparr>)) Inr) s1 = Inr s' \<or>
      switch t (mem_cases op0 op1 op2) Inr s1 = Inr s'"
    using assms unfolding asm_mem_access_opcode_def Let_def by (auto simp: bindr_eq_Inr split: if_splits)
  have "R s1 s'"
    using e keepsD [OF keeps_seq [OF keeps_emit(2) keeps_cases(3)]] keepsD [OF keeps_cases(3)] by blast
  with R_mem_operands [OF o] show ?thesis by (rule R_trans)
qed

lemma R_branch:
  assumes "asm_branch_opcode n t s = Inr s'" shows "R s s'"
proof -
  obtain ops s1 s2 op s3 where o: "parse_operands (n - 1) s = Inr (ops, s1)" "skip CHR '','' s1 = Inr s2"
      "parse_branch_offset_operand s2 = Inr (op, s3)"
    and e: "switch t (branch_cases ((ops @ [op, nil_op, nil_op]) ! 0) ((ops @ [op, nil_op, nil_op]) ! 1)
      ((ops @ [op, nil_op, nil_op]) ! 2)) Inr s3 = Inr s'"
    using assms unfolding asm_branch_opcode_def Let_def by (auto simp: bindr_eq_Inr)
  show ?thesis
    by (rule R_via [OF R_trans [OF R_operands [OF o(1)] R_trans [OF R_skip [OF o(2)] R_offsets(1) [OF o(3)]]] keeps_cases(2) e])
qed

lemma R_atomic:
  assumes "asm_atomic_opcode t s = Inr s'" shows "R s s'"
proof -
  obtain op0 s1 s2 op1 s5 s6 op2 s7 s8 where o: "parse_operand s = Inr (op0, s1)" "skip CHR '','' s1 = Inr s2"
    and m: "(if tok_num t \<le> tok_num ''lr_d_aqrl'' \<and> tok_num t \<ge> tok_num ''lr_w'' then Inr (nil_op, s2)
        else bindr (parse_operand s2) (\<lambda>(op, s3). bindr (skip CHR '','' s3) (\<lambda>s4. Inr (op, s4)))) = Inr (op1, s5)"
    and p: "skip CHR ''('' s5 = Inr s6" "parse_operand s6 = Inr (op2, s7)" "skip CHR '')'' s7 = Inr s8"
    and e: "switch t (atomic_cases op0 op1 op2) Inr s8 = Inr s'"
    using assms unfolding asm_atomic_opcode_def by (auto simp: bindr_eq_Inr)
  from m have "R s2 s5"
    by (auto simp: bindr_eq_Inr R_refl intro: R_trans [OF R_operand R_skip] split: if_splits)
  then have "R s s5" by (rule R_trans [OF R_trans [OF R_operand [OF o(1)] R_skip [OF o(2)]]])
  from R_trans [OF this R_trans [OF R_skip [OF p(1)] R_trans [OF R_operand [OF p(2)] R_skip [OF p(3)]]]]
  show ?thesis by (rule R_via [OF _ keeps_cases(5) e])
qed

text \<open>Every line of assembly keeps what the primitive steps keep.\<close>

theorem R_opcode:
  assumes "asm_opcode t s = Inr s'" shows "R s s'"
proof -
  have ext: "asm_opcode_ext t s = Inr s' \<Longrightarrow> R s s'"
    unfolding asm_opcode_ext_def
    by (elim R_if no_result R_nullary R_unary_opcode R_binary R_ternary R_branch R_atomic)
  have base: "asm_opcode_base t s = Some (Inr s') \<Longrightarrow> R s s'"
    unfolding asm_opcode_base_def
    by (elim if_Some no_None R_nullary R_fence R_unary_opcode R_binary R_mem R_jalr R_jal R_ternary R_branch)
  show ?thesis
    using assms ext base by (auto simp: asm_opcode_def split: option.splits)
qed

end

end
