(* ===== verification/AsmAexp.thy ===== *)
theory AsmAexp
  imports AsmExprProps
begin

text \<open>
  Constant expressions as trees: their value, and their tokens with only the brackets that the
  assembler's precedences need (a product binds tighter than the bitwise operations, those tighter
  than a sum, a sum tighter than a comparison; operators of one level associate to the left). The
  parser of \<open>tccasm.c\<close> reads the tokens of an expression as its value, and stops at the first
  error in evaluation order.
\<close>

unbundle bit_operations_syntax

section \<open>Trees\<close>

datatype binop = OMul | ODiv | ORem | OShl | OShr | OAnd | OOr | OXor | OAdd | OSub | OEq | ONe | OLt | OGe | OLe | OGt

datatype aexp = ANum nat | ANeg aexp | ACompl aexp | ABin binop aexp aexp

definition truth :: "bool \<Rightarrow> 64 word" where
  "truth b = (if b then - 1 else 0)"

fun binop_sem :: "binop \<Rightarrow> 64 word \<Rightarrow> 64 word \<Rightarrow> 64 word result" where
  "binop_sem OMul a b = Inr (a * b)"
| "binop_sem ODiv a b = (if b = 0 then Inl (TccError ''division by zero'') else Inr (a div b))"
| "binop_sem ORem a b = (if b = 0 then Inl (TccError ''division by zero'') else Inr (a mod b))"
| "binop_sem OShl a b = Inr (push_bit (unat (b AND 63)) a)"
| "binop_sem OShr a b = Inr (drop_bit (unat (b AND 63)) a)"
| "binop_sem OAnd a b = Inr (a AND b)"
| "binop_sem OOr a b = Inr (a OR b)"
| "binop_sem OXor a b = Inr (a XOR b)"
| "binop_sem OAdd a b = Inr (a + b)"
| "binop_sem OSub a b = Inr (a - b)"
| "binop_sem OEq a b = Inr (truth (a = b))"
| "binop_sem ONe a b = Inr (truth (a \<noteq> b))"
| "binop_sem OLt a b = Inr (truth (a <s b))"
| "binop_sem OGe a b = Inr (truth (b \<le>s a))"
| "binop_sem OLe a b = Inr (truth (a \<le>s b))"
| "binop_sem OGt a b = Inr (truth (b <s a))"

fun aeval :: "aexp \<Rightarrow> 64 word result" where
  "aeval (ANum n) = Inr (of_nat n)"
| "aeval (ANeg a) = bindr (aeval a) (\<lambda>v. Inr (- v))"
| "aeval (ACompl a) = bindr (aeval a) (\<lambda>v. Inr (NOT v))"
| "aeval (ABin f a b) = bindr (aeval a) (\<lambda>v. bindr (aeval b) (\<lambda>w. binop_sem f v w))"

fun aexp_ok :: "aexp \<Rightarrow> bool" where
  "aexp_ok (ANum n) \<longleftrightarrow> n < 2 ^ 64"
| "aexp_ok (ANeg a) \<longleftrightarrow> aexp_ok a"
| "aexp_ok (ACompl a) \<longleftrightarrow> aexp_ok a"
| "aexp_ok (ABin f a b) \<longleftrightarrow> aexp_ok a \<and> aexp_ok b"

section \<open>Tokens\<close>

fun op_tok :: "binop \<Rightarrow> token" where
  "op_tok OMul = TokPunct CHR ''*''" | "op_tok ODiv = TokPunct CHR ''/''" | "op_tok ORem = TokPunct CHR ''%''"
| "op_tok OShl = TokShl" | "op_tok OShr = TokSar"
| "op_tok OAnd = TokPunct CHR ''&''" | "op_tok OOr = TokPunct CHR ''|''" | "op_tok OXor = TokPunct CHR ''^''"
| "op_tok OAdd = TokPunct CHR ''+''" | "op_tok OSub = TokPunct CHR ''-''"
| "op_tok OEq = TokEq" | "op_tok ONe = TokNe" | "op_tok OLt = TokLt" | "op_tok OGe = TokGe"
| "op_tok OLe = TokLe" | "op_tok OGt = TokGt"

fun op_level :: "binop \<Rightarrow> nat" where
  "op_level OMul = 3" | "op_level ODiv = 3" | "op_level ORem = 3" | "op_level OShl = 3" | "op_level OShr = 3"
| "op_level OAnd = 2" | "op_level OOr = 2" | "op_level OXor = 2"
| "op_level OAdd = 1" | "op_level OSub = 1"
| "op_level OEq = 0" | "op_level ONe = 0" | "op_level OLt = 0" | "op_level OGe = 0" | "op_level OLe = 0" | "op_level OGt = 0"

definition all_ops :: "binop list" where
  "all_ops = [OMul, ODiv, ORem, OShl, OShr, OAnd, OOr, OXor, OAdd, OSub, OEq, ONe, OLt, OGe, OLe, OGt]"

lemma all_ops: "f \<in> set all_ops"
  by (cases f) (simp_all add: all_ops_def)

fun atoks :: "nat \<Rightarrow> aexp \<Rightarrow> token list" where
  "atoks l (ANum n) = [TokPpnum (show_nat n)]"
| "atoks l (ANeg a) = TokPunct CHR ''-'' # atoks 4 a"
| "atoks l (ACompl a) = TokPunct CHR ''~'' # atoks 4 a"
| "atoks l (ABin f a b) =
    (let k = op_level f; ts = atoks k a @ op_tok f # atoks (Suc k) b
     in if k < l then TokPunct CHR ''('' # ts @ [TokPunct CHR '')''] else ts)"

text \<open>The first token after an expression of level \<open>l\<close> is no operator of a level above \<open>l\<close>.\<close>

definition ends :: "nat \<Rightarrow> token list \<Rightarrow> bool" where
  "ends l ts \<longleftrightarrow> (ts = [] \<or> hd ts \<notin> op_tok ` set (filter (\<lambda>f. l \<le> op_level f) all_ops))"

section \<open>The parser, level by level\<close>

definition pfun :: "nat \<Rightarrow> nat \<Rightarrow> asm_st \<Rightarrow> (expr_value \<times> asm_st) result option" where
  "pfun l = [expr_cmp, expr_sum, expr_logic, expr_prod, expr_unary] ! l"

definition lfun :: "nat \<Rightarrow> nat \<Rightarrow> expr_value \<Rightarrow> asm_st \<Rightarrow> (expr_value \<times> asm_st) result option" where
  "lfun l = [expr_cmp_loop, expr_sum_loop, expr_logic_loop, expr_prod_loop] ! l"

lemma level_cases: "l < (4::nat) \<Longrightarrow> (l = 0 \<Longrightarrow> P) \<Longrightarrow> (l = 1 \<Longrightarrow> P) \<Longrightarrow> (l = 2 \<Longrightarrow> P) \<Longrightarrow> (l = 3 \<Longrightarrow> P) \<Longrightarrow> P"
  by linarith

lemma op_level_less: "op_level f < 4"
  by (cases f) simp_all

lemma pfun_mono: "l \<le> 4 \<Longrightarrow> n \<le> m \<Longrightarrow> pfun l n s = Some r \<Longrightarrow> pfun l m s = Some r"
proof -
  assume l: "l \<le> 4" and r: "n \<le> m" "pfun l n s = Some r"
  show ?thesis
  proof (cases "l = 4")
    case False
    with l have "l < 4" by simp
    then show ?thesis using r by (elim level_cases [of l]) (auto simp: pfun_def intro: fuel_enough_mono)
  qed (use r in \<open>auto simp: pfun_def intro: fuel_enough_mono\<close>)
qed

lemma lfun_mono: "l < 4 \<Longrightarrow> n \<le> m \<Longrightarrow> lfun l n e s = Some r \<Longrightarrow> lfun l m e s = Some r"
  by (elim level_cases [of l]) (auto simp: lfun_def intro: fuel_enough_mono)

lemma pfun_Suc: "l < 4 \<Longrightarrow> pfun l (Suc n) s = bindo (pfun (Suc l) n s) (\<lambda>(e, s1). lfun l n e s1)"
  by (elim level_cases [of l]) (simp_all add: pfun_def lfun_def expr_steps eval_nat_numeral)

definition parses :: "nat \<Rightarrow> asm_st \<Rightarrow> (expr_value \<times> asm_st) result \<Rightarrow> bool" where
  "parses l s r \<longleftrightarrow> (\<exists>n. pfun l n s = Some r)"

definition loops :: "nat \<Rightarrow> expr_value \<Rightarrow> asm_st \<Rightarrow> (expr_value \<times> asm_st) result \<Rightarrow> bool" where
  "loops l e s r \<longleftrightarrow> (if l < 4 then \<exists>n. lfun l n e s = Some r else r = Inr (e, s))"


lemma parses_down:
  assumes "l < 4" "parses (Suc l) s (Inr (e, s1))" "loops l e s1 r"
  shows "parses l s r"
proof -
  obtain n m where "pfun (Suc l) n s = Some (Inr (e, s1))" "lfun l m e s1 = Some r"
    using assms by (auto simp: parses_def loops_def)
  then have "pfun (Suc l) (max n m) s = Some (Inr (e, s1))" "lfun l (max n m) e s1 = Some r"
    using assms(1) pfun_mono [of "Suc l" n "max n m"] lfun_mono [of l m "max n m"] by simp_all
  then have "pfun l (Suc (max n m)) s = Some r"
    using assms(1) by (simp add: pfun_Suc bindo_def)
  then show ?thesis by (auto simp: parses_def)
qed

lemma parses_err: "l < 4 \<Longrightarrow> parses (Suc l) s (Inl x) \<Longrightarrow> parses l s (Inl x)"
  unfolding parses_def using pfun_Suc [of l] by (metis (no_types, lifting) bindo_def option.simps(5) sum.simps(5))

lemma loops_stop:
  assumes "ends l (toks s)" shows "loops l e s (Inr (e, s))"
proof (cases "l < 4")
  case True
  have ne: "tok s \<noteq> op_tok f" if "l \<le> op_level f" for f
  proof (cases "toks s")
    case Nil
    then show ?thesis by (cases f) (simp_all add: tok_def)
  next
    case (Cons t ts)
    with assms have "t \<notin> op_tok ` {f \<in> set all_ops. l \<le> op_level f}" by (simp add: ends_def)
    with that all_ops [of f] Cons show ?thesis by (auto simp: tok_def)
  qed
  have "lfun l (Suc 0) e s = Some (Inr (e, s))"
    using True
  proof (cases rule: level_cases [consumes 1, case_names zero one two three])
    case zero
    with ne [of OEq] ne [of ONe] ne [of OLt] ne [of OGe] ne [of OLe] ne [of OGt] show ?thesis
      by (simp add: lfun_def expr_steps cmp_op_def split: token.split)
  next
    case one
    with ne [of OAdd] ne [of OSub] show ?thesis
      by (simp add: lfun_def expr_steps)
  next
    case two
    with ne [of OAnd] ne [of OOr] ne [of OXor] show ?thesis
      by (auto simp: lfun_def expr_steps logic_op_def split: token.split)
  next
    case three
    with ne [of OMul] ne [of ODiv] ne [of ORem] ne [of OShl] ne [of OShr] show ?thesis
      by (auto simp: lfun_def expr_steps prod_op_def split: token.split)
  qed
  with True show ?thesis by (auto simp: loops_def)
qed (simp add: loops_def)

text \<open>One turn of the loop of the operator's level.\<close>

lemma lfun_step:
  assumes t: "tok s = op_tok f" and e: "pfun (Suc (op_level f)) n (next_tok s) = Some (Inr (ev_num w, s1))"
  shows "lfun (op_level f) (Suc n) (ev_num v) s =
    (case binop_sem f v w of Inl x \<Rightarrow> Some (Inl x) | Inr u \<Rightarrow> lfun (op_level f) n (ev_num u) s1)"
  using t e
  by (cases f) (simp_all add: lfun_def pfun_def expr_steps prod_op_def logic_op_def cmp_op_def bindo_def
    no_labels_def ev_num_def sum_plus_def sum_minus_def truth_def word_sless_alt word_sle_eq eval_nat_numeral)

lemma lfun_err:
  assumes t: "tok s = op_tok f" and e: "pfun (Suc (op_level f)) n (next_tok s) = Some (Inl x)"
  shows "lfun (op_level f) (Suc n) v s = Some (Inl x)"
  using t e
  by (cases f) (simp_all add: lfun_def pfun_def expr_steps prod_op_def logic_op_def cmp_op_def bindo_def eval_nat_numeral)


section \<open>Reading back\<close>

definition reads :: "nat \<Rightarrow> aexp \<Rightarrow> bool" where
  "reads l e \<longleftrightarrow> (\<forall>s ts. toks s = atoks l e @ ts \<longrightarrow> ends (Suc l) ts \<longrightarrow>
     (\<forall>v r. aeval e = Inr v \<longrightarrow> loops l (ev_num v) (s\<lparr>toks := ts\<rparr>) r \<longrightarrow> parses l s r) \<and>
     (\<forall>x. aeval e = Inl x \<longrightarrow> parses l s (Inl x)))"

lemma ends_mono: "ends l ts \<Longrightarrow> l \<le> m \<Longrightarrow> ends m ts"
  by (auto simp: ends_def)

lemma readsD:
  assumes "reads l e" "toks s = atoks l e @ ts" "ends (Suc l) ts"
  shows "aeval e = Inr v \<Longrightarrow> loops l (ev_num v) (s\<lparr>toks := ts\<rparr>) r \<Longrightarrow> parses l s r"
    and "aeval e = Inl x \<Longrightarrow> parses l s (Inl x)"
  using assms by (auto simp: reads_def)

text \<open>Read at a level whose operators do not follow, an expression is just its value.\<close>

lemma reads_value:
  assumes "reads l e" "toks s = atoks l e @ ts" "ends l ts" "aeval e = Inr v"
  shows "parses l s (Inr (ev_num v, s\<lparr>toks := ts\<rparr>))"
proof -
  have "loops l (ev_num v) (s\<lparr>toks := ts\<rparr>) (Inr (ev_num v, s\<lparr>toks := ts\<rparr>))"
    using assms(3) by (intro loops_stop) simp
  then show ?thesis using readsD(1) [OF assms(1,2) ends_mono [OF assms(3)] assms(4)] by simp
qed

lemma reads_down:
  assumes "l < 4" "reads (Suc l) e" "atoks (Suc l) e = atoks l e"
  shows "reads l e"
  unfolding reads_def
proof (intro allI impI conjI)
  fix s :: asm_st and ts v r
  assume s: "toks s = atoks l e @ ts" "ends (Suc l) ts" "aeval e = Inr v" "loops l (ev_num v) (s\<lparr>toks := ts\<rparr>) r"
  then have "parses (Suc l) s (Inr (ev_num v, s\<lparr>toks := ts\<rparr>))"
    using assms by (intro reads_value) simp_all
  from parses_down [OF assms(1) this s(4)] show "parses l s r" .
next
  fix s :: asm_st and ts x
  assume s: "toks s = atoks l e @ ts" "ends (Suc l) ts" "aeval e = Inl x"
  then have "parses (Suc l) s (Inl x)"
    using assms ends_mono [OF s(2)] by (intro readsD(2) [OF assms(2), of _ ts]) simp_all
  with assms(1) show "parses l s (Inl x)" by (rule parses_err)
qed

lemma reads_below:
  assumes m: "reads m e" "l \<le> m" "m \<le> 4" and same: "\<And>i. l \<le> i \<Longrightarrow> i \<le> m \<Longrightarrow> atoks i e = ts"
  shows "reads l e"
  using m(2) m(1)
proof (induction rule: inc_induct)
  case (step i)
  have "atoks (Suc i) e = ts" "atoks i e = ts" using step.hyps by (simp_all add: same)
  then show ?case using step m(3) by (simp add: reads_down)
qed

lemma parses_4: "parses 4 s r \<longleftrightarrow> (\<exists>n. expr_unary n s = Some r)"
  and parses_0: "parses 0 s r \<longleftrightarrow> (\<exists>n. expr_cmp n s = Some r)"
  by (simp_all add: parses_def pfun_def)

lemma parses_unary:
  assumes "tok s = TokPunct c" "c = CHR ''-'' \<or> c = CHR ''~''"
  shows "parses 4 (next_tok s) (Inr (ev_num v, s1)) \<Longrightarrow>
      parses 4 s (Inr (ev_num (if c = CHR ''-'' then - v else NOT v), s1))"
    and "parses 4 (next_tok s) (Inl x) \<Longrightarrow> parses 4 s (Inl x)"
proof -
  have step: "expr_unary (Suc n) s = bindo (expr_unary n (next_tok s))
      (\<lambda>(e, s1). if ev_sym e \<noteq> None then Some err_label
                 else Some (Inr (e\<lparr>ev_v := (if c = CHR ''-'' then - ev_v e else NOT (ev_v e))\<rparr>, s1)))" for n
    using assms by (auto simp: expr_unary.simps(2))
  have ok: "expr_unary (Suc n) s = Some (Inr (ev_num (if c = CHR ''-'' then - v else NOT v), s1))"
    if "expr_unary n (next_tok s) = Some (Inr (ev_num v, s1))" for n
    by (simp add: step that bindo_def ev_num_def)
  have err: "expr_unary (Suc n) s = Some (Inl x)" if "expr_unary n (next_tok s) = Some (Inl x)" for n
    by (simp add: step that bindo_def)
  show "parses 4 (next_tok s) (Inr (ev_num v, s1)) \<Longrightarrow>
      parses 4 s (Inr (ev_num (if c = CHR ''-'' then - v else NOT v), s1))"
    using ok by (metis parses_4)
  show "parses 4 (next_tok s) (Inl x) \<Longrightarrow> parses 4 s (Inl x)"
    using err by (metis parses_4)
qed

lemma parses_paren:
  assumes "tok s = TokPunct CHR ''(''"
  shows "parses 0 (next_tok s) (Inr (e, s1)) \<Longrightarrow> tok s1 = TokPunct CHR '')'' \<Longrightarrow> parses 4 s (Inr (e, next_tok s1))"
    and "parses 0 (next_tok s) (Inl x) \<Longrightarrow> parses 4 s (Inl x)"
proof -
  have step: "expr_unary (Suc n) s = bindo (expr_cmp n (next_tok s))
      (\<lambda>(e, s1). Some (bindr (skip CHR '')'' s1) (\<lambda>s2. Inr (e, s2))))" for n
    using assms by (simp add: expr_unary.simps(2))
  have ok: "expr_unary (Suc n) s = Some (Inr (e, next_tok s1))"
    if "expr_cmp n (next_tok s) = Some (Inr (e, s1))" "tok s1 = TokPunct CHR '')''" for n
    by (simp add: step that bindo_def skip_def)
  have err: "expr_unary (Suc n) s = Some (Inl x)" if "expr_cmp n (next_tok s) = Some (Inl x)" for n
    by (simp add: step that bindo_def)
  show "parses 0 (next_tok s) (Inr (e, s1)) \<Longrightarrow> tok s1 = TokPunct CHR '')'' \<Longrightarrow> parses 4 s (Inr (e, next_tok s1))"
    using ok by (metis parses_4 parses_0)
  show "parses 0 (next_tok s) (Inl x) \<Longrightarrow> parses 4 s (Inl x)"
    using err by (metis parses_4 parses_0)
qed

lemma loops_step:
  assumes t: "tok s = op_tok f"
  shows "parses (Suc (op_level f)) (next_tok s) (Inr (ev_num w, s1)) \<Longrightarrow> binop_sem f v w = Inr u \<Longrightarrow>
      loops (op_level f) (ev_num u) s1 r \<Longrightarrow> loops (op_level f) (ev_num v) s r"
    and "parses (Suc (op_level f)) (next_tok s) (Inr (ev_num w, s1)) \<Longrightarrow> binop_sem f v w = Inl x \<Longrightarrow>
      loops (op_level f) (ev_num v) s (Inl x)"
    and "parses (Suc (op_level f)) (next_tok s) (Inl x) \<Longrightarrow> loops (op_level f) (ev_num v) s (Inl x)"
proof -
  have lv: "op_level f < 4" "Suc (op_level f) \<le> 4" using op_level_less [of f] by simp_all
  assume p: "parses (Suc (op_level f)) (next_tok s) (Inr (ev_num w, s1))"
  then obtain n where n: "pfun (Suc (op_level f)) n (next_tok s) = Some (Inr (ev_num w, s1))" by (auto simp: parses_def)
  show "binop_sem f v w = Inl x \<Longrightarrow> loops (op_level f) (ev_num v) s (Inl x)"
    using lfun_step [OF t n, of v] lv by (auto simp: loops_def)
  assume u: "binop_sem f v w = Inr u" and "loops (op_level f) (ev_num u) s1 r"
  then obtain m where m: "lfun (op_level f) m (ev_num u) s1 = Some r" using lv by (auto simp: loops_def)
  have "lfun (op_level f) (max n m) (ev_num u) s1 = Some r" using lfun_mono [OF lv(1) _ m] by simp
  moreover have "pfun (Suc (op_level f)) (max n m) (next_tok s) = Some (Inr (ev_num w, s1))"
    using pfun_mono [OF lv(2) _ n] by simp
  ultimately have "lfun (op_level f) (Suc (max n m)) (ev_num v) s = Some r"
    using lfun_step [OF t] u by simp
  then show "loops (op_level f) (ev_num v) s r" using lv by (auto simp: loops_def)
next
  show "parses (Suc (op_level f)) (next_tok s) (Inl x) \<Longrightarrow> loops (op_level f) (ev_num v) s (Inl x)"
    using lfun_err [OF t] op_level_less [of f] by (auto simp: parses_def loops_def)
qed


lemma ends_close: "ends l (TokPunct CHR '')'' # ts)"
  by (auto simp: ends_def all_ops_def)

lemma ends_op: "op_level f < l \<Longrightarrow> ends l (op_tok f # ts)"
  by (cases f) (auto simp: ends_def all_ops_def)

lemma reads_num: "n < 2 ^ 64 \<Longrightarrow> reads 4 (ANum n)"
proof -
  assume n: "n < 2 ^ 64"
  have "parses 4 s (Inr (ev_num (of_nat n), s\<lparr>toks := ts\<rparr>))" if "toks s = TokPpnum (show_nat n) # ts" for s :: asm_st and ts
    unfolding parses_4 using that n
    by (intro exI [of _ "Suc 0"])
      (simp add: expr_unary.simps(2) tok_def asm_expr_number_def strtoull_show_nat next_tok_def)
  then show "reads 4 (ANum n)" by (simp add: reads_def loops_def)
qed

lemma reads_unary:
  assumes e: "reads 4 e" and c: "c = CHR ''-'' \<or> c = CHR ''~''"
    and u: "atoks 4 u = TokPunct c # atoks 4 e"
    "aeval u = bindr (aeval e) (\<lambda>v. Inr (if c = CHR ''-'' then - v else NOT v))"
  shows "reads 4 u"
  unfolding reads_def
proof (intro allI impI conjI)
  fix s :: asm_st and ts v r
  assume s: "toks s = atoks 4 u @ ts" "aeval u = Inr v" "loops 4 (ev_num v) (s\<lparr>toks := ts\<rparr>) r" "ends (Suc 4) ts"
  from s(2) u(2) obtain w where w: "aeval e = Inr w" "v = (if c = CHR ''-'' then - w else NOT w)"
    by (auto simp: bindr_eq_Inr)
  have t: "tok s = TokPunct c" "toks (next_tok s) = atoks 4 e @ ts" using s(1) u(1) by (simp_all add: tok_def next_tok_def)
  have "loops 4 (ev_num w) (next_tok s\<lparr>toks := ts\<rparr>) (Inr (ev_num w, s\<lparr>toks := ts\<rparr>))"
    by (simp add: loops_def next_tok_def)
  from readsD(1) [OF e t(2) s(4) w(1) this] have "parses 4 (next_tok s) (Inr (ev_num w, s\<lparr>toks := ts\<rparr>))" .
  from parses_unary(1) [OF t(1) c this] w(2) s(3) show "parses 4 s r" by (simp add: loops_def)
next
  fix s :: asm_st and ts x
  assume s: "toks s = atoks 4 u @ ts" "aeval u = Inl x" "ends (Suc 4) ts"
  then have t: "tok s = TokPunct c" "toks (next_tok s) = atoks 4 e @ ts" using u(1) by (simp_all add: tok_def next_tok_def)
  from s(2) u(2) have "aeval e = Inl x" by (simp add: bindr_def split: sum.splits)
  from parses_unary(2) [OF t(1) c readsD(2) [OF e t(2) s(3) this]] show "parses 4 s (Inl x)" .
qed

lemma reads_paren:
  assumes "reads 0 e" "atoks 4 e = TokPunct CHR ''('' # atoks 0 e @ [TokPunct CHR '')'']"
  shows "reads 4 e"
  unfolding reads_def
proof (intro allI impI conjI)
  fix s :: asm_st and ts v r
  let ?ts = "TokPunct CHR '')'' # ts"
  assume s: "toks s = atoks 4 e @ ts" "aeval e = Inr v" "loops 4 (ev_num v) (s\<lparr>toks := ts\<rparr>) r"
  then have t: "tok s = TokPunct CHR ''(''" "toks (next_tok s) = atoks 0 e @ ?ts"
    using assms(2) by (simp_all add: tok_def next_tok_def)
  from parses_paren(1) [OF t(1) reads_value [OF assms(1) t(2) ends_close s(2)]] s(3) show "parses 4 s r"
    by (simp add: loops_def tok_def next_tok_def)
next
  fix s :: asm_st and ts x
  let ?ts = "TokPunct CHR '')'' # ts"
  assume s: "toks s = atoks 4 e @ ts" "aeval e = Inl x"
  then have t: "tok s = TokPunct CHR ''(''" "toks (next_tok s) = atoks 0 e @ ?ts"
    using assms(2) by (simp_all add: tok_def next_tok_def)
  from parses_paren(2) [OF t(1) readsD(2) [OF assms(1) t(2) ends_close s(2)]] show "parses 4 s (Inl x)" .
qed

lemma reads_bin:
  fixes f :: binop
  defines "k \<equiv> op_level f"
  assumes a: "reads k a" and b: "reads (Suc k) b"
  shows "reads k (ABin f a b)"
  unfolding reads_def
proof (intro allI impI conjI)
  have k: "Suc k \<le> 4" using op_level_less [of f] by (simp add: k_def)
  fix s :: asm_st and ts v r
  let ?ts = "op_tok f # atoks (Suc k) b @ ts"
  assume s: "toks s = atoks k (ABin f a b) @ ts" "ends (Suc k) ts"
    and v: "aeval (ABin f a b) = Inr v" "loops k (ev_num v) (s\<lparr>toks := ts\<rparr>) r"
  from v obtain va vb where ab: "aeval a = Inr va" "aeval b = Inr vb" "binop_sem f va vb = Inr v"
    by (auto simp: bindr_eq_Inr)
  define s1 where "s1 = s\<lparr>toks := ?ts\<rparr>"
  have t1: "toks s = atoks k a @ ?ts" "ends (Suc k) ?ts" using s(1) by (simp_all add: k_def ends_op Let_def)
  have t2: "tok s1 = op_tok f" "toks (next_tok s1) = atoks (Suc k) b @ ts" "next_tok s1\<lparr>toks := ts\<rparr> = s\<lparr>toks := ts\<rparr>"
    by (simp_all add: s1_def tok_def next_tok_def)
  have "parses (Suc k) (next_tok s1) (Inr (ev_num vb, s\<lparr>toks := ts\<rparr>))"
    using reads_value [OF b t2(2) s(2) ab(2)] t2(3) by simp
  from loops_step(1) [OF t2(1) this [unfolded k_def] ab(3) v(2) [unfolded k_def]]
  show "parses k s r" using readsD(1) [OF a t1 ab(1)] by (simp add: k_def s1_def)
next
  fix s :: asm_st and ts x
  let ?ts = "op_tok f # atoks (Suc k) b @ ts"
  assume s: "toks s = atoks k (ABin f a b) @ ts" "ends (Suc k) ts" and x: "aeval (ABin f a b) = Inl x"
  define s1 where "s1 = s\<lparr>toks := ?ts\<rparr>"
  have t1: "toks s = atoks k a @ ?ts" "ends (Suc k) ?ts" using s(1) by (simp_all add: k_def ends_op Let_def)
  have t2: "tok s1 = op_tok f" "toks (next_tok s1) = atoks (Suc k) b @ ts" "next_tok s1\<lparr>toks := ts\<rparr> = s\<lparr>toks := ts\<rparr>"
    by (simp_all add: s1_def tok_def next_tok_def)
  have val: "parses (Suc k) (next_tok s1) (Inr (ev_num vb, s\<lparr>toks := ts\<rparr>))" if "aeval b = Inr vb" for vb
    using reads_value [OF b t2(2) s(2) that] t2(3) by simp
  have err: "parses (Suc k) (next_tok s1) (Inl x)" if "aeval b = Inl x"
    using readsD(2) [OF b t2(2) ends_mono [OF s(2)] that] by simp
  show "parses k s (Inl x)"
  proof (cases "aeval a")
    case (Inl y)
    with x readsD(2) [OF a t1] show ?thesis by (simp add: bindr_def)
  next
    case (Inr va)
    have "loops k (ev_num va) s1 (Inl x)"
      using x Inr val err loops_step(2,3) [OF t2(1)]
      by (cases "aeval b") (auto simp: bindr_def k_def)
    then show ?thesis using readsD(1) [OF a t1 Inr] by (simp add: s1_def)
  qed
qed

lemma reads_all: "aexp_ok e \<Longrightarrow> l \<le> 4 \<Longrightarrow> reads l e"
proof (induction e arbitrary: l)
  case (ANum n)
  then have "reads 4 (ANum n)" by (intro reads_num) simp
  then show ?case using ANum(2) by (rule reads_below [where ts = "atoks 4 (ANum n)"]) simp_all
next
  case (ANeg e)
  then have "reads 4 (ANeg e)" by (simp add: reads_unary [of e "CHR ''-''"])
  then show ?case using ANeg(3) by (rule reads_below [where ts = "atoks 4 (ANeg e)"]) simp_all
next
  case (ACompl e)
  then have "reads 4 (ACompl e)" by (simp add: reads_unary [of e "CHR ''~''"])
  then show ?case using ACompl(3) by (rule reads_below [where ts = "atoks 4 (ACompl e)"]) simp_all
next
  case (ABin f a b)
  let ?e = "ABin f a b" and ?k = "op_level f"
  have k: "?k < 4" by (rule op_level_less)
  have e: "reads ?k ?e" using ABin k by (intro reads_bin) simp_all
  have low: "reads l ?e" if "l \<le> ?k" for l
    using e that by (rule reads_below [where ts = "atoks ?k ?e"]) (use k in \<open>simp_all add: Let_def\<close>)
  have four: "reads 4 ?e" using low [of 0] k by (intro reads_paren) (simp_all add: Let_def)
  have "reads l ?e" if "?k < l" "l \<le> 4" for l
    using four that(2) by (rule reads_below [where ts = "atoks 4 ?e"]) (use that in \<open>simp_all add: Let_def\<close>)
  with low ABin(4) show ?case by (cases "l \<le> ?k") simp_all
qed

lemma asm_expr_reads:
  assumes "aexp_ok e" "toks s = atoks 0 e @ ts" "ends 0 ts"
  shows "asm_expr s = bindr (aeval e) (\<lambda>v. Inr (ev_num v, s\<lparr>toks := ts\<rparr>))"
proof (cases "aeval e")
  case (Inl x)
  with readsD(2) [OF reads_all [OF assms(1)] assms(2) ends_mono [OF assms(3)], of x]
  obtain n where "expr_cmp n s = Some (Inl x)" by (auto simp: parses_0)
  then show ?thesis using Inl by (simp add: asm_expr_eq bindr_def)
next
  case (Inr v)
  with reads_value [OF reads_all [OF assms(1)] assms(2,3)]
  obtain n where "expr_cmp n s = Some (Inr (ev_num v, s\<lparr>toks := ts\<rparr>))" by (auto simp: parses_0)
  then show ?thesis using Inr by (simp add: asm_expr_eq bindr_def)
qed

end
