(* ===== verification/AsmInvar.thy ===== *)
theory AsmInvar
  imports AsmFrame AsmAexp "HOL-Library.Sublist"
begin

text \<open>
  The frame of \<open>AsmFrame\<close> for the relations that matter: code already emitted stays, tokens are
  consumed from the front, relocations are only added, symbol chains stay within the symbol table.
\<close>

section \<open>Code\<close>

definition code_step :: "'a cg_scheme \<Rightarrow> 'a cg_scheme \<Rightarrow> bool" where
  "code_step s s' \<longleftrightarrow> (code_inv s \<longrightarrow>
    code_inv s' \<and> ind s \<le> ind s' \<and> take (ind s) (code_of s') = take (ind s) (code_of s) \<and>
    nocode_wanted s' = nocode_wanted s \<and>
    (nocode_wanted s \<longrightarrow> cur_text_section s' = cur_text_section s \<and> ind s' = ind s))"

lemma code_step_trans:
  assumes "code_step s1 s2" "code_step s2 s3" shows "code_step s1 s3"
proof -
  have "take (ind s1) (code_of s3) = take (ind s1) (code_of s2)"
    if "ind s1 \<le> ind s2" "take (ind s2) (code_of s3) = take (ind s2) (code_of s2)"
    using that by (metis min.absorb1 take_take)
  with assms show ?thesis unfolding code_step_def by auto
qed

lemma code_step_same:
  "cur_text_section s' = cur_text_section s \<Longrightarrow> ind s' = ind s \<Longrightarrow> nocode_wanted s' = nocode_wanted s \<Longrightarrow> code_step s s'"
  by (simp add: code_step_def code_inv_def cg_wf_def)

context emitter
begin

lemma emit_code_step: "code_step s (emit c s)"
proof (cases "cg_wf s \<and> ind s \<le> length (code_of s)")
  case True
  then show ?thesis
    using emit_wf [of s c] emit_ind [of s c] emit_in_bounds [of s c] emit_before [of s c] emit_more [of s c] emit_nocode [of s c]
    by (cases "nocode_wanted s") (auto simp: code_step_def code_inv_def)
qed (auto simp: code_step_def code_inv_def)

end

lemma gen_le16_step: "code_step s (gen_le16 c s)"
proof (cases "cg_wf s")
  case True
  have "u16 (ucast (u16 c) :: 32 word) = u16 c"
    by (simp add: fields)
  then have e: "gen_le16 (ucast (u16 c)) s = gen_le16 c s" by (rule gen_le16_cong [OF _ True])
  show ?thesis using gen16.emit_code_step [of s "u16 c"] by (simp only: e)
qed (simp add: code_step_def code_inv_def)

lemma label_push_keeps [simp]:
  "cur_text_section (snd (asm_label_push v s)) = cur_text_section s" "ind (snd (asm_label_push v s)) = ind s"
  "nocode_wanted (snd (asm_label_push v s)) = nocode_wanted s" "toks (snd (asm_label_push v s)) = toks s"
  "relocs (snd (asm_label_push v s)) = relocs s"
  by (simp_all add: asm_label_push_def global_identifier_push_def Let_def)

lemma greloca_keeps [simp]:
  "cur_text_section (greloca y i t a s) = cur_text_section s" "ind (greloca y i t a s) = ind s"
  "nocode_wanted (greloca y i t a s) = nocode_wanted s" "toks (greloca y i t a s) = toks s"
  "sym_identifier (greloca y i t a s) = sym_identifier s" "length (syms (greloca y i t a s)) = length (syms s)"
  by (auto simp: greloca_def Let_def upd_sym_def split: symref.split)

lemma upd_sym_keeps [simp]:
  "cur_text_section (upd_sym k f s) = cur_text_section s" "ind (upd_sym k f s) = ind s"
  "nocode_wanted (upd_sym k f s) = nocode_wanted s" "toks (upd_sym k f s) = toks s"
  "relocs (upd_sym k f s) = relocs s" "sym_identifier (upd_sym k f s) = sym_identifier s"
  "length (syms (upd_sym k f s)) = length (syms s)"
  by (simp_all add: upd_sym_def)

interpretation code: code_frame code_step
proof unfold_locales
  show "code_step s1 s2 \<Longrightarrow> code_step s2 s3 \<Longrightarrow> code_step s1 s3" for s1 s2 s3 :: asm_st
    by (rule code_step_trans)
qed (simp_all add: code_step_same gen_le16_step gen32.emit_code_step next_tok_def)

section \<open>Tokens\<close>

definition tok_step :: "asm_st \<Rightarrow> asm_st \<Rightarrow> bool" where
  "tok_step s s' \<longleftrightarrow> suffix (toks s') (toks s)"

lemma gen_more: "cg.more (gen_le32 c s) = cg.more s" "cg.more (gen_le16 c s) = cg.more s"
  by (simp_all add: gen_le32_def gen_le16_def g_def Let_def)

lemma more_keeps:
  assumes "cg.more s' = cg.more (s :: asm_st)"
  shows "toks s' = toks s" "relocs s' = relocs s" "syms s' = syms s" "sym_identifier s' = sym_identifier s"
  using assms by (cases s; cases s'; simp)+

interpretation tokens: code_frame tok_step
  by unfold_locales
    (auto simp: tok_step_def next_tok_def more_keeps [OF gen_more(1)] more_keeps [OF gen_more(2)] suffix_tl
      intro: suffix_order.trans)

section \<open>Relocations\<close>

definition reloc_step :: "asm_st \<Rightarrow> asm_st \<Rightarrow> bool" where
  "reloc_step s s' \<longleftrightarrow> prefix (relocs s) (relocs s') \<and> nocode_wanted s' = nocode_wanted s \<and>
    (nocode_wanted s \<longrightarrow> relocs s' = relocs s)"

lemma gen_nocode: "nocode_wanted (gen_le32 c s) = nocode_wanted s" "nocode_wanted (gen_le16 c s) = nocode_wanted s"
  by (simp_all add: gen_le32_def gen_le16_def g_def Let_def)

lemma greloca_relocs:
  "relocs (greloca y i t a s) =
    relocs s @ (if nocode_wanted s then [] else [\<lparr>r_offset = i, r_type = t, r_sym = y, r_addend = a\<rparr>])"
  by (auto simp: greloca_def Let_def upd_sym_def split: symref.split)

interpretation relocs: code_frame reloc_step
  by unfold_locales
    (auto simp: reloc_step_def next_tok_def more_keeps [OF gen_more(1)] more_keeps [OF gen_more(2)] gen_nocode
      greloca_relocs upd_sym_def intro: prefix_order.trans)

section \<open>Symbols\<close>

text \<open>Every symbol in a chain of \<open>sym_find\<close> is in the table, and the table only grows.\<close>

definition syms_wf :: "asm_st \<Rightarrow> bool" where
  "syms_wf s \<longleftrightarrow> (\<forall>v. set (sym_identifier s v) \<subseteq> {..<length (syms s)} \<and> distinct (sym_identifier s v))"

definition syms_step :: "asm_st \<Rightarrow> asm_st \<Rightarrow> bool" where
  "syms_step s s' \<longleftrightarrow> (syms_wf s \<longrightarrow> syms_wf s' \<and> length (syms s) \<le> length (syms s') \<and>
     (\<forall>v. set (sym_identifier s v) \<subseteq> set (sym_identifier s' v)))"

lemma push_chain:
  assumes "set xs \<subseteq> {..<n::nat}" "distinct xs"
  shows "set (takeWhile P xs @ n # dropWhile P xs) = insert n (set xs)" "distinct (takeWhile P xs @ n # dropWhile P xs)"
proof -
  have s: "set xs = set (takeWhile P xs) \<union> set (dropWhile P xs)"
    by (metis set_append takeWhile_dropWhile_id)
  then show "set (takeWhile P xs @ n # dropWhile P xs) = insert n (set xs)" by auto
  have "distinct (takeWhile P xs @ dropWhile P xs)" using assms(2) by simp
  moreover have "n \<notin> set (takeWhile P xs) \<union> set (dropWhile P xs)" using assms(1) s by auto
  ultimately show "distinct (takeWhile P xs @ n # dropWhile P xs)" by (simp del: takeWhile_dropWhile_id)
qed

lemma push_syms_step: "syms_step s (snd (asm_label_push v s))"
proof -
  have "syms_wf s \<Longrightarrow> set (sym_identifier s v) \<subseteq> {..<length (syms s)}" "syms_wf s \<Longrightarrow> distinct (sym_identifier s v)"
    by (simp_all add: syms_wf_def)
  note push_chain [OF this]
  then show ?thesis
    by (fastforce simp: syms_step_def syms_wf_def asm_label_push_def global_identifier_push_def Let_def)
qed

interpretation symbols: code_frame syms_step
proof unfold_locales
  show "syms_step s1 s2 \<Longrightarrow> syms_step s2 s3 \<Longrightarrow> syms_step s1 s3" for s1 s2 s3
    unfolding syms_step_def by (meson order_trans)
  show "syms_step s (snd (asm_label_push v s))" for s v by (rule push_syms_step)
qed (simp_all add: syms_step_def syms_wf_def next_tok_def more_keeps [OF gen_more(1)] more_keeps [OF gen_more(2)])

end
