(* ===== verification/RvExec.thy ===== *)
theory RvExec
  imports RvSpec "HOL-Library.Signed_Division"
begin

text \<open>
  Execution of the integer instructions of \<open>RvSpec\<close>, after the instruction set manual: register \<open>x0\<close> reads
  as zero, word forms compute on the low 32 bits and sign-extend, division by zero does not trap, memory is
  little-endian. \<open>exec\<close> is \<open>None\<close> for instructions whose effect is not in this state (control registers,
  floating point, environment calls, load reserved and store conditional).
\<close>

unbundle bit_operations_syntax

record rv =
  xregs :: "5 word \<Rightarrow> 64 word"
  pc :: "64 word"
  rmem :: "64 word \<Rightarrow> 8 word"

definition xr :: "rv \<Rightarrow> 5 word \<Rightarrow> 64 word" where
  "xr s r = (if r = 0 then 0 else xregs s r)"

definition set_xr :: "5 word \<Rightarrow> 64 word \<Rightarrow> rv \<Rightarrow> rv" where
  "set_xr r v s = (if r = 0 then s else s\<lparr>xregs := (xregs s)(r := v)\<rparr>)"

fun alu_sem :: "alu \<Rightarrow> 'a::len word \<Rightarrow> 'a word \<Rightarrow> 'a word" where
  "alu_sem Add x y = x + y"
| "alu_sem Sub x y = x - y"
| "alu_sem Sll x y = push_bit (unat y mod LENGTH('a)) x"
| "alu_sem Slt x y = of_bool (x <s y)"
| "alu_sem Sltu x y = of_bool (x < y)"
| "alu_sem Xor x y = x XOR y"
| "alu_sem Srl x y = drop_bit (unat y mod LENGTH('a)) x"
| "alu_sem Sra x y = signed_drop_bit (unat y mod LENGTH('a)) x"
| "alu_sem Or x y = x OR y"
| "alu_sem And x y = x AND y"
| "alu_sem Mul x y = x * y"
| "alu_sem Mulh x y = word_of_int (sint x * sint y div 2 ^ LENGTH('a))"
| "alu_sem Mulhsu x y = word_of_int (sint x * uint y div 2 ^ LENGTH('a))"
| "alu_sem Mulhu x y = word_of_int (uint x * uint y div 2 ^ LENGTH('a))"
| "alu_sem Div x y = (if y = 0 then - 1 else word_of_int (sint x sdiv sint y))"
| "alu_sem Divu x y = (if y = 0 then - 1 else x div y)"
| "alu_sem Rem x y = (if y = 0 then x else word_of_int (sint x smod sint y))"
| "alu_sem Remu x y = (if y = 0 then x else x mod y)"

definition alu_exec :: "alu \<Rightarrow> bool \<Rightarrow> 64 word \<Rightarrow> 64 word \<Rightarrow> 64 word" where
  "alu_exec f w32 x y = (if w32 then scast (alu_sem f (u32 x) (u32 y)) else alu_sem f x y)"

fun cond_sem :: "cond \<Rightarrow> 64 word \<Rightarrow> 64 word \<Rightarrow> bool" where
  "cond_sem Beq x y \<longleftrightarrow> x = y"
| "cond_sem Bne x y \<longleftrightarrow> x \<noteq> y"
| "cond_sem Blt x y \<longleftrightarrow> x <s y"
| "cond_sem Bge x y \<longleftrightarrow> y \<le>s x"
| "cond_sem Bltu x y \<longleftrightarrow> x < y"
| "cond_sem Bgeu x y \<longleftrightarrow> y \<le> x"

fun width_bytes :: "width \<Rightarrow> nat" where
  "width_bytes WByte = 1" | "width_bytes WHalf = 2" | "width_bytes WWord = 4" | "width_bytes WDouble = 8"

fun load_bytes :: "nat \<Rightarrow> 64 word \<Rightarrow> (64 word \<Rightarrow> 8 word) \<Rightarrow> 64 word" where
  "load_bytes 0 a m = 0"
| "load_bytes (Suc n) a m = u64 (m a) OR push_bit 8 (load_bytes n (a + 1) m)"

fun store_bytes :: "nat \<Rightarrow> 64 word \<Rightarrow> 64 word \<Rightarrow> (64 word \<Rightarrow> 8 word) \<Rightarrow> 64 word \<Rightarrow> 8 word" where
  "store_bytes 0 a v m = m"
| "store_bytes (Suc n) a v m = store_bytes n (a + 1) (drop_bit 8 v) (m(a := u8 v))"

definition load_ext :: "width \<Rightarrow> bool \<Rightarrow> 64 word \<Rightarrow> (64 word \<Rightarrow> 8 word) \<Rightarrow> 64 word" where
  "load_ext w u a m =
    (let v = load_bytes (width_bytes w) a m
     in if u then v else signed_take_bit (8 * width_bytes w - 1) v)"

definition next_pc :: "rv \<Rightarrow> rv" where
  "next_pc s = s\<lparr>pc := pc s + 4\<rparr>"

fun exec :: "insn \<Rightarrow> rv \<Rightarrow> rv option" where
  "exec (Lui rd v) s = Some (next_pc (set_xr rd v s))"
| "exec (Auipc rd v) s = Some (next_pc (set_xr rd (pc s + v) s))"
| "exec (Jal rd v) s = Some ((set_xr rd (pc s + 4) s)\<lparr>pc := pc s + v\<rparr>)"
| "exec (Jalr rd rs1 v) s = Some ((set_xr rd (pc s + 4) s)\<lparr>pc := (xr s rs1 + v) AND NOT 1\<rparr>)"
| "exec (Branch c rs1 rs2 v) s = Some (if cond_sem c (xr s rs1) (xr s rs2) then s\<lparr>pc := pc s + v\<rparr> else next_pc s)"
| "exec (Load w u rd rs1 v) s = Some (next_pc (set_xr rd (load_ext w u (xr s rs1 + v) (rmem s)) s))"
| "exec (Store w rs1 rs2 v) s =
    Some (next_pc (s\<lparr>rmem := store_bytes (width_bytes w) (xr s rs1 + v) (xr s rs2) (rmem s)\<rparr>))"
| "exec (OpImm f w rd rs1 v) s = Some (next_pc (set_xr rd (alu_exec f w (xr s rs1) v) s))"
| "exec (Op f w rd rs1 rs2) s = Some (next_pc (set_xr rd (alu_exec f w (xr s rs1) (xr s rs2)) s))"
| "exec (Fence p q) s = Some (next_pc s)"
| "exec FenceI s = Some (next_pc s)"
| "exec _ s = None"

primrec exec_list :: "insn list \<Rightarrow> rv \<Rightarrow> rv option" where
  "exec_list [] s = Some s"
| "exec_list (i # is) s = (case exec i s of None \<Rightarrow> None | Some s' \<Rightarrow> exec_list is s')"

lemma xr_set [simp]: "xr (set_xr r v s) q = (if q = r \<and> r \<noteq> 0 then v else xr s q)"
  by (simp add: xr_def set_xr_def)

lemma xr_next [simp]: "xr (next_pc s) q = xr s q" "xr (s\<lparr>pc := p\<rparr>) q = xr s q" "xr (s\<lparr>rmem := m\<rparr>) q = xr s q"
  by (simp_all add: xr_def next_pc_def)

lemma pc_set [simp]: "pc (set_xr r v s) = pc s" "rmem (set_xr r v s) = rmem s"
  "pc (next_pc s) = pc s + 4" "rmem (next_pc s) = rmem s"
  by (simp_all add: set_xr_def next_pc_def)

lemma exec_list_append: "exec_list (xs @ ys) s = (case exec_list xs s of None \<Rightarrow> None | Some s' \<Rightarrow> exec_list ys s')"
  by (induction xs arbitrary: s) (simp_all split: option.split)

end
