(* ===== verification/AsmLines.thy ===== *)
theory AsmLines
  imports AsmInvar RvExec
begin

text \<open>
  Whole lines of assembly, from their tokens to the words in the text section: what the operands of a
  line are read as, and for every group of mnemonics the instruction it emits. The tables named
  \<open>_spec\<close> pair mnemonics with the instructions of the manual.
\<close>

unbundle bit_operations_syntax

section \<open>Operands\<close>

abbreviation reg_no :: "nat \<Rightarrow> 5 word" where "reg_no \<equiv> of_nat"

abbreviation regtok :: "nat \<Rightarrow> token" where "regtok i \<equiv> TokAsm (reg_name i)"

lemma op_type_reg [simp]: "op_type (reg_operand r) = OP_REG"
  by (simp add: reg_operand_def)

definition const_operand :: "64 word \<Rightarrow> operand" where
  "const_operand v = \<lparr>op_type = (if is_im12 v then OP_IM12S else OP_IM32), op_v = v, op_sym = None, op_pcrel = False\<rparr>"

lemma atoks_hd:
  "\<exists>t r. atoks l e = t # r \<and> asm_parse_regvar t = -1 \<and> t \<noteq> TokPunct CHR ''$'' \<and> asm_parse_csrvar t = -1
    \<and> t \<noteq> TokPunct CHR ''(''  \<or> (\<exists>r. atoks l e = TokPunct CHR ''('' # r)"
proof (induction e arbitrary: l)
  case (ABin f a b)
  obtain t r where "atoks (op_level f) a = t # r" using ABin(1) [of "op_level f"] by blast
  with ABin(1) [of "op_level f"] show ?case by (auto simp: Let_def)
qed (simp_all add: asm_parse_regvar_def asm_parse_csrvar_def)

lemma atoks_first:
  obtains t r where "atoks l e = t # r" "asm_parse_regvar t = -1" "t \<noteq> TokPunct CHR ''$''" "asm_parse_csrvar t = -1"
  using atoks_hd [of l e] by (fastforce simp: asm_parse_regvar_def asm_parse_csrvar_def)

lemma parse_const:
  assumes "aexp_ok e" "toks s = atoks 0 e @ ts" "ends 0 ts" "aeval e = Inr v"
  shows "parse_operand s = Inr (const_operand v, s\<lparr>toks := ts\<rparr>)"
proof -
  obtain t r where t: "atoks 0 e = t # r" "asm_parse_regvar t = -1" "t \<noteq> TokPunct CHR ''$''" "asm_parse_csrvar t = -1"
    by (rule atoks_first)
  then have "tok s = t" using assms(2) by (simp add: tok_def)
  with t asm_expr_reads [OF assms(1-3)] assms(4) show ?thesis
    by (simp add: parse_operand_def Let_def classify_operand_def ev_num_def expr_operand_def const_operand_def)
qed

lemma parse_jump_const:
  assumes "aexp_ok e" "toks s = atoks 0 e @ ts" "ends 0 ts" "aeval e = Inr v"
  shows "parse_jump_offset_operand s = Inr (const_operand v, s\<lparr>toks := ts\<rparr>)"
    and "parse_branch_offset_operand s = Inr (const_operand v, s\<lparr>toks := ts\<rparr>)"
  using asm_expr_reads [OF assms(1-3)] assms(4)
  by (simp_all add: parse_jump_offset_operand_def parse_branch_offset_operand_def classify_operand_def ev_num_def
      expr_operand_def const_operand_def)

lemma parse_reg_reg_const:
  assumes "i < 128" "j < 128" "aexp_ok e" "ends 0 ts" "aeval e = Inr v"
    and "toks s = regtok i # comma # regtok j # comma # atoks 0 e @ ts"
  shows "parse_operands 3 s = Inr ([reg_operand (of_nat (i mod 64)), reg_operand (of_nat (j mod 64)), const_operand v],
    s\<lparr>toks := ts\<rparr>)"
  using assms by (simp add: parse_operands_def parse_reg skip_char numeral_2_eq_2 parse_const)

lemma parse_reg_const:
  assumes "i < 128" "aexp_ok e" "ends 0 ts" "aeval e = Inr v" and "toks s = regtok i # comma # atoks 0 e @ ts"
  shows "parse_operands 2 s = Inr ([reg_operand (of_nat (i mod 64)), const_operand v], s\<lparr>toks := ts\<rparr>)"
  using assms by (simp add: parse_operands_def parse_reg skip_char numeral_2_eq_2 parse_const)

lemma ends_paren: "ends 0 (TokPunct CHR ''('' # ts)"
  by (auto simp: ends_def all_ops_def)

lemma regtok_not_paren: "i < 128 \<Longrightarrow> regtok i \<noteq> TokPunct c"
  by simp

text \<open>A base register with an offset: \<open>imm(rs)\<close>; without one: \<open>(rs)\<close>.\<close>

lemma parse_base_paren:
  assumes "j < 128" "toks s = TokPunct CHR ''('' # regtok j # TokPunct CHR '')'' # ts"
  shows "parse_base_offset s = Inr (reg_operand (of_nat (j mod 64)), zimm, s\<lparr>toks := ts\<rparr>)"
  using assms by (simp add: parse_base_offset_def Let_def tok_def next_tok_def parse_reg skip_char)

lemma parse_base_const:
  assumes j: "j < 128" "aexp_ok e" "aeval e = Inr v" "hd (atoks 0 e) \<noteq> TokPunct CHR ''(''"
    and s: "toks s = atoks 0 e @ TokPunct CHR ''('' # regtok j # TokPunct CHR '')'' # ts"
  shows "parse_base_offset s = Inr (reg_operand (of_nat (j mod 64)), const_operand v, s\<lparr>toks := ts\<rparr>)"
proof -
  obtain t r where t: "atoks 0 e = t # r" by (rule atoks_first)
  have "tok s \<noteq> TokPunct CHR ''(''" using s j(4) by (simp add: t tok_def)
  with parse_const [OF j(2) s ends_paren j(3)] j(1) show ?thesis
    by (simp add: parse_base_offset_def Let_def tok_def next_tok_def parse_reg skip_char)
qed

section \<open>Register-register instructions\<close>

definition r_spec :: "(string \<times> alu \<times> bool) list" where
  "r_spec = [(''sll'', Sll, False), (''sra'', Sra, False), (''sllw'', Sll, True), (''srlw'', Srl, True),
     (''add'', Add, False), (''sub'', Sub, False), (''addw'', Add, True), (''subw'', Sub, True),
     (''xor'', Xor, False), (''or'', Or, False), (''and'', And, False), (''slt'', Slt, False), (''sltu'', Sltu, False),
     (''mul'', Mul, False), (''mulh'', Mulh, False), (''mulhsu'', Mulhsu, False), (''mulhu'', Mulhu, False),
     (''div'', Div, False), (''divu'', Divu, False), (''rem'', Rem, False), (''remu'', Remu, False),
     (''mulw'', Mul, True), (''divw'', Div, True), (''divuw'', Divu, True), (''remw'', Rem, True), (''remuw'', Remu, True)]"

abbreviation ternary_cases :: "operand \<Rightarrow> operand \<Rightarrow> operand \<Rightarrow> (string \<times> asm_st emission) list" where
  "ternary_cases a b c \<equiv> ternary_base a b c @ ternary_mul a b c @ ternary_csr a b c @ ternary_c a b c"

definition r_opc :: "32 word \<Rightarrow> alu \<Rightarrow> bool \<Rightarrow> bool" where
  "r_opc opc f w \<longleftrightarrow> rdf opc = 0 \<and> rs1f opc = 0 \<and> rs2f opc = 0 \<and> decode_op (funct7 opc) (funct3 opc) = Some f \<and>
    (if w then opcode opc = 0x3b \<and> has_word_form f else opcode opc = 0x33)"

lemma emits_r_opc:
  "op_type a = OP_REG \<Longrightarrow> op_type b = OP_REG \<Longrightarrow> op_type c = OP_REG \<Longrightarrow> r_opc opc f w \<Longrightarrow>
    emits (asm_emit_r t opc a b c) (Op f w (reg5 a) (reg5 b) (reg5 c))"
  using emits_r [of a b c opc f t] by (cases w) (simp_all add: r_opc_def)

lemma emits_r_spec:
  assumes "op_type a = OP_REG" "op_type b = OP_REG" "op_type c = OP_REG"
  shows "list_all (\<lambda>(t, f, w). emits (switch t (ternary_cases a b c) d) (Op f w (reg5 a) (reg5 b) (reg5 c))) r_spec"
  unfolding r_spec_def switch_def ternary_base_def ternary_mul_def
  by (simp (no_asm)) (intro conjI; rule emits_r_opc [OF assms]; code_simp)

definition ternary_toks :: "string list" where
  "ternary_toks = [''add'', ''addi'', ''addiw'', ''addw'', ''and'', ''andi'', ''or'', ''ori'', ''sll'',
        ''slli'', ''slliw'', ''sllw'', ''slt'', ''slti'', ''sltiu'', ''sltu'', ''sra'',
        ''srai'', ''sraiw'', ''sraw'', ''srl'', ''srli'', ''srliw'', ''srlw'', ''sub'',
        ''subw'', ''xor'', ''xori'', ''div'', ''divu'', ''divuw'', ''divw'', ''mul'', ''mulh'',
        ''mulhsu'', ''mulhu'', ''mulw'', ''rem'', ''remu'', ''remuw'', ''remw'', ''csrrc'',
        ''csrrci'', ''csrrs'', ''csrrsi'', ''csrrw'', ''csrrwi'']"

lemma ternary_dispatch: "list_all (\<lambda>t. \<forall>s. asm_opcode t s = asm_ternary_opcode t s) ternary_toks"
  unfolding ternary_toks_def asm_opcode_def asm_opcode_base_def by (simp (no_asm))

lemma line_ternary:
  assumes "t \<in> set ternary_toks" "parse_operands 3 s = Inr ([a, b, c], s1)"
  shows "asm_opcode t s = switch t (ternary_cases a b c) (\<lambda>s. expect ''ternary instruction'') s1"
  using ternary_dispatch assms by (simp add: list_all_iff asm_ternary_opcode_def Let_def)

lemma r_spec_ternary: "set (map fst r_spec) \<subseteq> set ternary_toks"
  by code_simp

lemma wrote_toks:
  "wrote ((s :: asm_st)\<lparr>toks := ts\<rparr>) is s' \<Longrightarrow> toks s' = ts \<and> relocs s' = relocs s \<and> syms s' = syms s"
  using more_keeps [of s' "s\<lparr>toks := ts\<rparr>"] by (simp add: wrote_def)

lemma code_inv_toks [simp]: "code_inv (s\<lparr>toks := ts\<rparr>) = code_inv s"
  by (simp add: code_inv_def cg_wf_def)

lemma emits_line:
  assumes "emits c i" "code_inv s" "\<not> nocode_wanted s" "asm_opcode t s = c (s\<lparr>toks := ts\<rparr>)"
  shows "\<exists>s'. asm_opcode t s = Inr s' \<and> wrote (s\<lparr>toks := ts\<rparr>) [i] s'"
  using emits_one [OF assms(1), of "s\<lparr>toks := ts\<rparr>"] assms(2-4) by simp

lemma r_line:
  assumes "(t, f, w) \<in> set r_spec" "i < 128" "j < 128" "k < 128"
    and "toks s = regtok i # comma # regtok j # comma # regtok k # ts" "code_inv s" "\<not> nocode_wanted s"
  shows "\<exists>s'. asm_opcode t s = Inr s' \<and> wrote (s\<lparr>toks := ts\<rparr>) [Op f w (reg_no i) (reg_no j) (reg_no k)] s'"
proof (rule emits_line [OF _ assms(6,7)])
  let ?a = "reg_operand (of_nat (i mod 64))" and ?b = "reg_operand (of_nat (j mod 64))" and ?c = "reg_operand (of_nat (k mod 64))"
  have "t \<in> set ternary_toks" using assms(1) r_spec_ternary by force
  then show "asm_opcode t s = switch t (ternary_cases ?a ?b ?c) (\<lambda>s. expect ''ternary instruction'') (s\<lparr>toks := ts\<rparr>)"
    using parse_regs3 [OF assms(2-5)] by (rule line_ternary)
  show "emits (switch t (ternary_cases ?a ?b ?c) (\<lambda>s. expect ''ternary instruction'')) (Op f w (reg_no i) (reg_no j) (reg_no k))"
    using emits_r_spec [of ?a ?b ?c, OF op_type_reg op_type_reg op_type_reg, unfolded list_all_iff, rule_format, OF assms(1)]
    by (simp add: reg5_reg_operand)
qed

section \<open>Register-immediate instructions\<close>

definition i_spec :: "(string \<times> alu \<times> bool) list" where
  "i_spec = [(''addi'', Add, False), (''addiw'', Add, True), (''xori'', Xor, False), (''ori'', Or, False),
     (''andi'', And, False), (''slti'', Slt, False), (''sltiu'', Sltu, False)]"

definition shift_spec :: "(string \<times> alu \<times> bool) list" where
  "shift_spec = [(''slli'', Sll, False), (''srli'', Srl, False), (''srai'', Sra, False),
     (''slliw'', Sll, True), (''srliw'', Srl, True)]"

definition i_opc :: "32 word \<Rightarrow> alu \<Rightarrow> bool \<Rightarrow> bool" where
  "i_opc opc x w \<longleftrightarrow> funct3 opc \<noteq> 1 \<and> funct3 opc \<noteq> 5 \<and> rdf opc = 0 \<and> rs1f opc = 0 \<and> top12 opc = 0 \<and>
    (opcode opc = 0x13 \<and> \<not> w \<or> opcode opc = 0x1b \<and> w \<and> funct3 opc = 0) \<and>
    x = (if funct3 opc = 0 then Add else if funct3 opc = 2 then Slt else if funct3 opc = 3 then Sltu
         else if funct3 opc = 4 then Xor else if funct3 opc = 6 then Or else And)"

definition sh_opc :: "32 word \<Rightarrow> alu \<Rightarrow> bool \<Rightarrow> bool" where
  "sh_opc opc x w \<longleftrightarrow> rdf opc = 0 \<and> rs1f opc = 0 \<and>
    (top12 opc = 0 \<and> (funct3 opc = 1 \<and> x = Sll \<or> funct3 opc = 5 \<and> x = Srl) \<or> top12 opc = 0x400 \<and> funct3 opc = 5 \<and> x = Sra) \<and>
    opcode opc = (if w then 0x1b else 0x13)"

lemma emits_i_opc:
  "op_type a = OP_REG \<Longrightarrow> op_type b = OP_REG \<Longrightarrow> op_type c = OP_IM12S \<Longrightarrow> i_opc opc f w \<Longrightarrow>
    emits (asm_emit_i t opc a b c) (OpImm f w (reg5 a) (reg5 b) (imm12 (op_v c)))"
  using emits_opimm [of a b c opc "funct3 opc" w f t] by (simp add: i_opc_def)

lemma emits_sh_opc:
  "op_type a = OP_REG \<Longrightarrow> op_type b = OP_REG \<Longrightarrow> op_type c = OP_IM12S \<Longrightarrow> op_v c < (if w then 32 else 64) \<Longrightarrow>
    sh_opc opc f w \<Longrightarrow> emits (asm_emit_i t opc a b c) (OpImm f w (reg5 a) (reg5 b) (op_v c))"
  using emits_shift_imm [of a b c opc f w t] by (cases w) (simp_all add: sh_opc_def)

lemma emits_i_spec:
  assumes "op_type a = OP_REG" "op_type b = OP_REG" "op_type c = OP_IM12S"
  shows "list_all (\<lambda>(t, f, w). emits (switch t (ternary_cases a b c) d) (OpImm f w (reg5 a) (reg5 b) (imm12 (op_v c)))) i_spec"
  unfolding i_spec_def switch_def ternary_base_def ternary_mul_def
  by (simp (no_asm)) (intro conjI; rule emits_i_opc [OF assms]; code_simp)

lemma shift_spec_opc:
  "list_all (\<lambda>(t, f, w). \<exists>opc. sh_opc opc f w \<and> switch t (ternary_cases a b c) d = asm_emit_i t opc a b c) shift_spec"
  unfolding shift_spec_def switch_def ternary_base_def ternary_mul_def
  by (simp (no_asm)) (intro conjI; rule exI, rule conjI [rotated], rule refl, code_simp)

text \<open>A constant that fits the signed twelve bits of the field is the immediate of the instruction.\<close>

definition fits12 :: "64 word \<Rightarrow> bool" where
  "fits12 v \<longleftrightarrow> - 2048 \<le> sint v \<and> sint v < 2048"

lemma imm12_fits: "fits12 v \<Longrightarrow> imm12 v = v"
  unfolding imm12_def fits12_def by (intro scast_ucast_fits) simp_all

lemma fits12_im12: "fits12 v \<Longrightarrow> is_im12 v"
  unfolding is_im12_def fits12_def using sint_ucast_fits [of v, where 'b = 32] by simp

lemma specs_ternary: "set (map fst (i_spec @ shift_spec)) \<subseteq> set ternary_toks" "{''srl'', ''sraw'', ''sraiw''} \<subseteq> set ternary_toks"
  by code_simp+

lemma line_reg_reg_const:
  assumes "t \<in> set ternary_toks" "i < 128" "j < 128" "aexp_ok e" "aeval e = Inr v" "ends 0 ts"
    and "toks s = regtok i # comma # regtok j # comma # atoks 0 e @ ts"
  shows "asm_opcode t s = switch t (ternary_cases (reg_operand (of_nat (i mod 64))) (reg_operand (of_nat (j mod 64)))
    (const_operand v)) (\<lambda>s. expect ''ternary instruction'') (s\<lparr>toks := ts\<rparr>)"
  using assms(1) parse_reg_reg_const [OF assms(2-4,6,5,7)] by (rule line_ternary)

lemma const_fits [simp]: "is_im12 v \<Longrightarrow> op_type (const_operand v) = OP_IM12S" "op_v (const_operand v) = v"
  by (simp_all add: const_operand_def)

lemma i_line:
  assumes "(t, f, w) \<in> set i_spec" "i < 128" "j < 128" "aexp_ok e" "aeval e = Inr v" "is_im12 v" "ends 0 ts"
    and "toks s = regtok i # comma # regtok j # comma # atoks 0 e @ ts" "code_inv s" "\<not> nocode_wanted s"
  shows "\<exists>s'. asm_opcode t s = Inr s' \<and> wrote (s\<lparr>toks := ts\<rparr>) [OpImm f w (reg_no i) (reg_no j) (imm12 v)] s'"
proof (rule emits_line [OF _ assms(9,10)])
  let ?a = "reg_operand (of_nat (i mod 64))" and ?b = "reg_operand (of_nat (j mod 64))" and ?c = "const_operand v"
  have "t \<in> set ternary_toks" using assms(1) specs_ternary by force
  from line_reg_reg_const [OF this assms(2-5,7,8)]
  show "asm_opcode t s = switch t (ternary_cases ?a ?b ?c) (\<lambda>s. expect ''ternary instruction'') (s\<lparr>toks := ts\<rparr>)" .
  show "emits (switch t (ternary_cases ?a ?b ?c) (\<lambda>s. expect ''ternary instruction'')) (OpImm f w (reg_no i) (reg_no j) (imm12 v))"
    using emits_i_spec [of ?a ?b ?c, OF op_type_reg op_type_reg, unfolded list_all_iff, rule_format, OF _ assms(1)] assms(6)
    by (simp add: reg5_reg_operand)
qed

lemma small_im12: "v < 64 \<Longrightarrow> is_im12 v"
proof -
  assume "v < 64"
  then have u: "uint v < 64" by (simp add: word_less_def)
  have "signed_take_bit 63 (uint v) = uint v"
    using u by (intro signed_take_bit_int_eq_self order_trans [OF _ uint_ge_0]) simp_all
  then have "sint v = uint v" by (simp add: sint_uint)
  with u show ?thesis by (intro fits12_im12) (simp add: fits12_def order_trans [OF _ uint_ge_0])
qed

lemma shift_line:
  assumes "(t, f, w) \<in> set shift_spec" "i < 128" "j < 128" "aexp_ok e" "aeval e = Inr v" "v < (if w then 32 else 64)" "ends 0 ts"
    and "toks s = regtok i # comma # regtok j # comma # atoks 0 e @ ts" "code_inv s" "\<not> nocode_wanted s"
  shows "\<exists>s'. asm_opcode t s = Inr s' \<and> wrote (s\<lparr>toks := ts\<rparr>) [OpImm f w (reg_no i) (reg_no j) v] s'"
proof (rule emits_line [OF _ assms(9,10)])
  let ?a = "reg_operand (of_nat (i mod 64))" and ?b = "reg_operand (of_nat (j mod 64))" and ?c = "const_operand v"
  have "t \<in> set ternary_toks" using assms(1) specs_ternary by force
  from line_reg_reg_const [OF this assms(2-5,7,8)]
  show "asm_opcode t s = switch t (ternary_cases ?a ?b ?c) (\<lambda>s. expect ''ternary instruction'') (s\<lparr>toks := ts\<rparr>)" .
  have "v < 64" using assms(6) by (cases w) (auto intro: order_less_trans)
  then have "is_im12 v" by (rule small_im12)
  moreover obtain opc where "sh_opc opc f w"
    "switch t (ternary_cases ?a ?b ?c) (\<lambda>s. expect ''ternary instruction'') = asm_emit_i t opc ?a ?b ?c"
    using shift_spec_opc [of ?a ?b ?c, unfolded list_all_iff] assms(1) by fastforce
  ultimately show "emits (switch t (ternary_cases ?a ?b ?c) (\<lambda>s. expect ''ternary instruction'')) (OpImm f w (reg_no i) (reg_no j) v)"
    using emits_sh_opc [of ?a ?b ?c w opc f t] assms(6) by (simp add: reg5_reg_operand)
qed

section \<open>Mnemonics with the wrong encoding\<close>

lemma wrong_r:
  assumes "op_type a = OP_REG" "op_type b = OP_REG" "op_type c = OP_REG"
  shows "emits (switch ''srl'' (ternary_cases a b c) d) (Op Xor False (reg5 a) (reg5 b) (reg5 c))"
    "emits (switch ''sraw'' (ternary_cases a b c) d) (Op Srl True (reg5 a) (reg5 b) (reg5 c))"
  unfolding switch_def ternary_base_def
  by ((simp (no_asm)), rule emits_r_opc [OF assms], code_simp)+

lemma wrong_sraiw:
  assumes "op_type a = OP_REG" "op_type b = OP_REG" "op_type c = OP_IM12S" "op_v c < 32"
  shows "emits (switch ''sraiw'' (ternary_cases a b c) d) (OpImm Srl True (reg5 a) (reg5 b) (op_v c))"
  unfolding switch_def ternary_base_def
  by ((simp (no_asm)), rule emits_sh_opc [OF assms(1-3), where w = True, simplified if_True, OF assms(4)], code_simp)

lemma sraiw_line:
  assumes "i < 128" "j < 128" "aexp_ok e" "aeval e = Inr v" "v < 32" "ends 0 ts"
    and "toks s = regtok i # comma # regtok j # comma # atoks 0 e @ ts" "code_inv s" "\<not> nocode_wanted s"
  shows "\<exists>s'. asm_opcode ''sraiw'' s = Inr s' \<and> wrote (s\<lparr>toks := ts\<rparr>) [OpImm Srl True (reg_no i) (reg_no j) v] s'"
proof (rule emits_line [OF _ assms(8,9)])
  let ?a = "reg_operand (of_nat (i mod 64))" and ?b = "reg_operand (of_nat (j mod 64))" and ?c = "const_operand v"
  have "''sraiw'' \<in> set ternary_toks" using specs_ternary(2) by simp
  from line_reg_reg_const [OF this assms(1-4,6,7)]
  show "asm_opcode ''sraiw'' s = switch ''sraiw'' (ternary_cases ?a ?b ?c) (\<lambda>s. expect ''ternary instruction'') (s\<lparr>toks := ts\<rparr>)" .
  have "v < 64" using assms(5) by (rule order_less_trans) simp
  then have "is_im12 v" by (rule small_im12)
  with wrong_sraiw [of ?a ?b ?c "\<lambda>s. expect ''ternary instruction''"] assms(5)
  show "emits (switch ''sraiw'' (ternary_cases ?a ?b ?c) (\<lambda>s. expect ''ternary instruction'')) (OpImm Srl True (reg_no i) (reg_no j) v)"
    by (simp add: reg5_reg_operand)
qed

end
