(* ===== verification/AsmJumps.thy ===== *)
theory AsmJumps
  imports AsmLines
begin

text \<open>
  Lines of assembly for memory access, jumps, branches and the pseudoinstruction \<open>li\<close>, whose eight
  instructions are executed.
\<close>

unbundle bit_operations_syntax

section \<open>Loads and stores\<close>

definition load_spec :: "(string \<times> width \<times> bool) list" where
  "load_spec = [(''lb'', WByte, False), (''lh'', WHalf, False), (''lw'', WWord, False), (''ld'', WDouble, False),
     (''lbu'', WByte, True), (''lhu'', WHalf, True), (''lwu'', WWord, True)]"

definition store_spec :: "(string \<times> width) list" where
  "store_spec = [(''sb'', WByte), (''sh'', WHalf), (''sw'', WWord), (''sd'', WDouble)]"

lemma mem_dispatch:
  "list_all (\<lambda>t. \<forall>s. asm_opcode t s = asm_mem_access_opcode t s) (map fst load_spec @ map fst store_spec)"
  unfolding load_spec_def store_spec_def asm_opcode_def asm_opcode_base_def by (simp (no_asm))

definition l_opc :: "32 word \<Rightarrow> width \<Rightarrow> bool \<Rightarrow> bool" where
  "l_opc opc w u \<longleftrightarrow> opcode opc = 3 \<and> funct3 opc \<noteq> 7 \<and> rdf opc = 0 \<and> rs1f opc = 0 \<and> top12 opc = 0 \<and>
    width_of (funct3 opc) = w \<and> bit (funct3 opc) 2 = u"

definition s_opc :: "32 word \<Rightarrow> width \<Rightarrow> bool" where
  "s_opc opc w \<longleftrightarrow> opcode opc = 0x23 \<and> rdf opc = 0 \<and> rs1f opc = 0 \<and> rs2f opc = 0 \<and> funct7 opc = 0 \<and>
    funct3 opc \<le> 3 \<and> width_of (funct3 opc) = w"

lemma load_spec_opc:
  "list_all (\<lambda>(t, w, u). \<exists>opc. l_opc opc w u \<and> switch t (mem_cases a b c) d = asm_emit_i t opc a b c) load_spec"
  unfolding load_spec_def switch_def mem_cases_def
  by (simp (no_asm)) (intro conjI; rule exI, rule conjI [rotated], rule refl, code_simp)

lemma store_spec_opc:
  "list_all (\<lambda>(t, w). \<exists>opc. s_opc opc w \<and> switch t (mem_cases a b c) d = asm_emit_s t opc b a c) store_spec"
  unfolding store_spec_def switch_def mem_cases_def
  by (simp (no_asm)) (intro conjI; rule exI, rule conjI [rotated], rule refl, code_simp)

lemma parse_mem:
  assumes "i < 128" "j < 128" "aexp_ok e" "aeval e = Inr v" "hd (atoks 0 e) \<noteq> TokPunct CHR ''(''"
    and "toks s = regtok i # comma # atoks 0 e @ TokPunct CHR ''('' # regtok j # TokPunct CHR '')'' # ts"
  shows "parse_mem_access_operands s = Inr (reg_operand (of_nat (i mod 64)), reg_operand (of_nat (j mod 64)),
    const_operand v, s\<lparr>toks := ts\<rparr>)"
  using assms by (simp add: parse_mem_access_operands_def parse_reg skip_char parse_base_const)

lemma mem_opcode_reg:
  assumes "parse_mem_access_operands s = Inr (a, b, c, s1)" "op_type b = OP_REG"
  shows "asm_mem_access_opcode t s = switch t (mem_cases a b c) Inr s1"
  using assms by (simp add: asm_mem_access_opcode_def)

lemma load_line:
  assumes t: "(t, w, u) \<in> set load_spec" and a: "i < 128" "j < 128" "aexp_ok e" "aeval e = Inr v" "is_im12 v"
    "hd (atoks 0 e) \<noteq> TokPunct CHR ''(''"
    and s: "toks s = regtok i # comma # atoks 0 e @ TokPunct CHR ''('' # regtok j # TokPunct CHR '')'' # ts"
    "code_inv s" "\<not> nocode_wanted s"
  shows "\<exists>s'. asm_opcode t s = Inr s' \<and> wrote (s\<lparr>toks := ts\<rparr>) [Load w u (reg_no i) (reg_no j) (imm12 v)] s'"
proof (rule emits_line [OF _ s(2,3)])
  let ?a = "reg_operand (of_nat (i mod 64))" and ?b = "reg_operand (of_nat (j mod 64))" and ?c = "const_operand v"
  have "asm_opcode t s = asm_mem_access_opcode t s" using mem_dispatch t by (force simp: list_all_iff)
  then show "asm_opcode t s = switch t (mem_cases ?a ?b ?c) Inr (s\<lparr>toks := ts\<rparr>)"
    using mem_opcode_reg [OF parse_mem [OF a(1-4,6) s(1)]] by simp
  obtain opc where opc: "l_opc opc w u" "switch t (mem_cases ?a ?b ?c) (Inr :: asm_st \<Rightarrow> _) = asm_emit_i t opc ?a ?b ?c"
    using load_spec_opc [of ?a ?b ?c, unfolded list_all_iff] t by fastforce
  have "emits (asm_emit_i t opc ?a ?b ?c :: asm_st \<Rightarrow> _)
      (Load (width_of (funct3 opc)) (bit (funct3 opc) 2) (reg5 ?a) (reg5 ?b) (imm12 (op_v ?c)))"
    using opc(1) a(5) by (intro emits_load) (simp_all add: l_opc_def)
  then show "emits (switch t (mem_cases ?a ?b ?c) (Inr :: asm_st \<Rightarrow> _)) (Load w u (reg_no i) (reg_no j) (imm12 v))"
    using opc by (simp add: l_opc_def reg5_reg_operand)
qed

lemma store_line:
  assumes t: "(t, w) \<in> set store_spec" and a: "i < 128" "j < 128" "aexp_ok e" "aeval e = Inr v" "is_im12 v"
    "hd (atoks 0 e) \<noteq> TokPunct CHR ''(''"
    and s: "toks s = regtok i # comma # atoks 0 e @ TokPunct CHR ''('' # regtok j # TokPunct CHR '')'' # ts"
    "code_inv s" "\<not> nocode_wanted s"
  shows "\<exists>s'. asm_opcode t s = Inr s' \<and> wrote (s\<lparr>toks := ts\<rparr>) [Store w (reg_no j) (reg_no i) (imm12 v)] s'"
proof (rule emits_line [OF _ s(2,3)])
  let ?a = "reg_operand (of_nat (i mod 64))" and ?b = "reg_operand (of_nat (j mod 64))" and ?c = "const_operand v"
  have "asm_opcode t s = asm_mem_access_opcode t s" using mem_dispatch t by (force simp: list_all_iff)
  then show "asm_opcode t s = switch t (mem_cases ?a ?b ?c) Inr (s\<lparr>toks := ts\<rparr>)"
    using mem_opcode_reg [OF parse_mem [OF a(1-4,6) s(1)]] by simp
  obtain opc where opc: "s_opc opc w" "switch t (mem_cases ?a ?b ?c) (Inr :: asm_st \<Rightarrow> _) = asm_emit_s t opc ?b ?a ?c"
    using store_spec_opc [of ?a ?b ?c, unfolded list_all_iff] t by fastforce
  have "emits (asm_emit_s t opc ?b ?a ?c :: asm_st \<Rightarrow> _)
      (Store (width_of (funct3 opc)) (reg5 ?b) (reg5 ?a) (imm12 (op_v ?c)))"
    using opc(1) a(5) by (intro emits_s) (simp_all add: s_opc_def)
  then show "emits (switch t (mem_cases ?a ?b ?c) (Inr :: asm_st \<Rightarrow> _)) (Store w (reg_no j) (reg_no i) (imm12 v))"
    using opc by (simp add: s_opc_def reg5_reg_operand)
qed

section \<open>Jumps and branches\<close>

lemma jal_dispatch: "asm_opcode ''jal'' s = asm_jal_opcode ''jal'' s" "asm_opcode ''j'' s = asm_jal_opcode ''j'' s"
  by (simp_all add: asm_opcode_def asm_opcode_base_def)

text \<open>The offset of \<open>jal\<close>, an even number of 21 bits, is the offset of the instruction.\<close>

definition fits_j :: "64 word \<Rightarrow> bool" where
  "fits_j v \<longleftrightarrow> - (2 ^ 20) + 2 \<le> sint v \<and> sint v < 2 ^ 20 \<and> \<not> bit v 0"

lemma fits_j_u32: "fits_j v \<Longrightarrow> sint (u32 v) = sint v \<and> scast (u32 v) = v"
  unfolding fits_j_def using sint_ucast_fits [of v, where 'b = 32] scast_ucast_fits [of v, where 'b = 32] by simp

lemma const_kind: "op_type (const_operand v) = OP_IM12S \<or> op_type (const_operand v) = OP_IM32"
  by (simp add: const_operand_def)

lemma emits_jal:
  assumes v: "fits_j v" and a: "op_type a = OP_REG"
  shows "emits (asm_emit_j t 0x6f a (const_operand v)) (Jal (reg5 a) v)"
proof -
  have "emits (asm_emit_j t 0x6f a (const_operand v)) (Jal (reg5 a) (scast (u32 (op_v (const_operand v)))))"
    using a const_kind v fits_j_u32 [OF v] by (intro emits_j) (simp_all add: fits_j_def)
  then show ?thesis using fits_j_u32 [OF v] by simp
qed

lemma jal_line:
  assumes "i < 128" "aexp_ok e" "aeval e = Inr v" "fits_j v" "ends 0 ts"
    and "toks s = regtok i # comma # atoks 0 e @ ts" and s: "code_inv s" "\<not> nocode_wanted s"
  shows "\<exists>s'. asm_opcode ''jal'' s = Inr s' \<and> wrote (s\<lparr>toks := ts\<rparr>) [Jal (reg_no i) v] s'"
proof (rule emits_line [OF _ s])
  let ?a = "reg_operand (of_nat (i mod 64))"
  have "asm_parse_regvar (tok s) \<noteq> -1" using assms(1,6) regvar_of_nth by (simp add: tok_def reg_name_def)
  then show "asm_opcode ''jal'' s = asm_emit_j ''jal'' 0x6f ?a (const_operand v) (s\<lparr>toks := ts\<rparr>)"
    unfolding jal_dispatch asm_jal_opcode_def using assms
    by (simp add: parse_reg skip_char parse_jump_const)
  show "emits (asm_emit_j ''jal'' 0x6f ?a (const_operand v)) (Jal (reg_no i) v)"
    using emits_jal [OF assms(4), of ?a "''jal''"] by (simp add: reg5_reg_operand)
qed

lemma j_line:
  assumes "aexp_ok e" "aeval e = Inr v" "fits_j v" "ends 0 ts" "toks s = atoks 0 e @ ts"
    and s: "code_inv s" "\<not> nocode_wanted s"
  shows "\<exists>s'. asm_opcode ''j'' s = Inr s' \<and> wrote (s\<lparr>toks := ts\<rparr>) [Jal 0 v] s'"
    and "\<exists>s'. asm_opcode ''jal'' s = Inr s' \<and> wrote (s\<lparr>toks := ts\<rparr>) [Jal 1 v] s'"
proof -
  show "\<exists>s'. asm_opcode ''j'' s = Inr s' \<and> wrote (s\<lparr>toks := ts\<rparr>) [Jal 0 v] s'"
  proof (rule emits_line [OF _ s])
    show "asm_opcode ''j'' s = asm_emit_j ''j'' 0x6f nil_op (const_operand v) (s\<lparr>toks := ts\<rparr>)"
      using assms by (simp add: jal_dispatch asm_jal_opcode_def parse_jump_const)
    show "emits (asm_emit_j ''j'' 0x6f nil_op (const_operand v)) (Jal 0 v)"
      using emits_jal [OF assms(3), of nil_op "''j''"] by (simp add: reg5_def reg_operand_def)
  qed
  show "\<exists>s'. asm_opcode ''jal'' s = Inr s' \<and> wrote (s\<lparr>toks := ts\<rparr>) [Jal 1 v] s'"
  proof (rule emits_line [OF _ s])
    obtain t r where "atoks 0 e = t # r" "asm_parse_regvar t = -1" by (rule atoks_first)
    then show "asm_opcode ''jal'' s = asm_emit_j ''jal'' 0x6f ra_op (const_operand v) (s\<lparr>toks := ts\<rparr>)"
      using assms by (simp add: jal_dispatch asm_jal_opcode_def parse_jump_const tok_def)
    show "emits (asm_emit_j ''jal'' 0x6f ra_op (const_operand v)) (Jal 1 v)"
      using emits_jal [OF assms(3), of ra_op "''jal''"] by (simp add: reg5_def reg_operand_def)
  qed
qed

section \<open>Branches\<close>

text \<open>The manual's mnemonics: with three operands, and those that compare one register with zero. The flag says that the
  two registers (the register and \<open>zero\<close>) are exchanged.\<close>

definition branch_spec :: "(string \<times> cond \<times> bool) list" where
  "branch_spec = [(''beq'', Beq, False), (''bne'', Bne, False), (''blt'', Blt, False), (''bge'', Bge, False),
     (''bltu'', Bltu, False), (''bgeu'', Bgeu, False), (''bgt'', Blt, True), (''ble'', Bge, True),
     (''bgtu'', Bltu, True), (''bleu'', Bgeu, True)]"

definition branch0_spec :: "(string \<times> cond \<times> bool) list" where
  "branch0_spec = [(''bnez'', Bne, False), (''beqz'', Beq, False), (''blez'', Bge, True), (''bgez'', Bge, False),
     (''bltz'', Blt, False), (''bgtz'', Blt, True)]"

text \<open>The source encodes \<open>blez\<close> as \<open>bge rs, zero\<close> and \<open>bgez\<close> as \<open>bge zero, rs\<close>: each in the place of the other.\<close>

definition exchanged :: "string \<Rightarrow> bool" where
  "exchanged t \<longleftrightarrow> t \<in> set [''blez'', ''bgez'']"

lemma branch_dispatch:
  "list_all (\<lambda>t. \<forall>s. asm_opcode t s = asm_branch_opcode 3 t s) (map fst branch_spec)"
  unfolding branch_spec_def asm_opcode_def asm_opcode_base_def asm_opcode_ext_def by (simp (no_asm))

lemma branch0_dispatch:
  "list_all (\<lambda>t. \<forall>s. asm_opcode t s = asm_branch_opcode 2 t s) (map fst branch0_spec)"
  unfolding branch0_spec_def asm_opcode_def asm_opcode_base_def asm_opcode_ext_def by (simp (no_asm))

definition b_opc :: "32 word \<Rightarrow> cond \<Rightarrow> bool" where
  "b_opc opc c \<longleftrightarrow> opcode opc = 0x63 \<and> rdf opc = 0 \<and> rs1f opc = 0 \<and> rs2f opc = 0 \<and> funct7 opc = 0 \<and>
    decode_branch (funct3 opc) = Some c"

lemma branch_spec_opc:
  "list_all (\<lambda>(t, x, swap). \<exists>opc. b_opc opc x \<and>
    switch t (branch_cases a b c) d = (if swap then asm_emit_b t opc b a c else asm_emit_b t opc a b c)) branch_spec"
  unfolding branch_spec_def switch_def branch_cases_def
  by (simp (no_asm)) (intro conjI; rule exI, rule conjI [rotated], rule refl, code_simp)

lemma branch0_spec_opc:
  "list_all (\<lambda>(t, x, swap). \<exists>opc. b_opc opc x \<and>
    switch t (branch_cases a b c) d =
      (if swap \<noteq> exchanged t then asm_emit_b t opc nil_op a b else asm_emit_b t opc a nil_op b)) branch0_spec"
  unfolding branch0_spec_def switch_def branch_cases_def exchanged_def
  by (simp (no_asm)) (intro conjI; rule exI, rule conjI [rotated], rule refl, code_simp)

text \<open>What \<open>asm_emit_b\<close> makes of a constant offset: bits 0 and 10 are lost.\<close>

definition b_offset :: "64 word \<Rightarrow> 64 word" where
  "b_offset v = scast (ucast v AND NOT 0x401 :: 13 word)"

definition fits_b :: "64 word \<Rightarrow> bool" where
  "fits_b v \<longleftrightarrow> - 4096 \<le> sint v \<and> sint v < 4096 \<and> \<not> bit v 0 \<and> \<not> bit v 10"

lemma b_offset_fits: "fits_b v \<Longrightarrow> b_offset v = v"
proof -
  assume v: "fits_b v"
  have "(ucast v AND NOT 0x401 :: 13 word) = ucast v"
  proof (rule bit_word_eqI)
    fix n assume n: "n < LENGTH(13)"
    have "bit (0x401 :: 13 word) n \<longleftrightarrow> n = 0 \<or> n = 10"
      using n by (auto simp: less_Suc_eq eval_nat_numeral)
    with v n show "bit (ucast v AND NOT 0x401 :: 13 word) n = bit (ucast v :: 13 word) n"
      by (auto simp: bit_simps fits_b_def)
  qed
  moreover have "scast (ucast v :: 13 word) = v" using v by (intro scast_ucast_fits) (simp_all add: fits_b_def)
  ultimately show ?thesis by (simp add: b_offset_def)
qed

lemma emits_branch:
  "b_opc opc x \<Longrightarrow> op_type a = OP_REG \<Longrightarrow> op_type b = OP_REG \<Longrightarrow> op_type op = OP_IM12S \<Longrightarrow>
    emits (asm_emit_b t opc a b op :: asm_st \<Rightarrow> _) (Branch x (reg5 a) (reg5 b) (b_offset (op_v op)))"
  unfolding b_offset_def by (intro emits_b) (simp_all add: b_opc_def)

lemma branch_line_gen:
  assumes t: "(t, x, swap) \<in> set branch_spec" and r: "i < 128" "j < 128"
    and s: "toks s = regtok i # comma # regtok j # comma # us" "code_inv s2" "\<not> nocode_wanted s2"
    and c: "parse_branch_offset_operand (s\<lparr>toks := us\<rparr>) = Inr (op, s2)" "op_type op = OP_IM12S"
  shows "\<exists>s'. asm_opcode t s = Inr s' \<and>
    wrote s2 [Branch x (reg_no (if swap then j else i)) (reg_no (if swap then i else j)) (b_offset (op_v op))] s'"
proof -
  let ?a = "reg_operand (of_nat (i mod 64))" and ?b = "reg_operand (of_nat (j mod 64))"
  have "parse_operands 2 s = Inr ([?a, ?b], s\<lparr>toks := comma # us\<rparr>)"
    using r s(1) by (simp add: parse_operands_def parse_reg skip_char numeral_2_eq_2)
  moreover have "asm_opcode t s = asm_branch_opcode 3 t s" using branch_dispatch t by (force simp: list_all_iff)
  ultimately have e: "asm_opcode t s = switch t (branch_cases ?a ?b op) Inr s2"
    using c(1) by (simp add: asm_branch_opcode_def skip_char)
  obtain opc where opc: "b_opc opc x" "switch t (branch_cases ?a ?b op) (Inr :: asm_st \<Rightarrow> _) =
      (if swap then asm_emit_b t opc ?b ?a op else asm_emit_b t opc ?a ?b op)"
    using branch_spec_opc [of ?a ?b op, unfolded list_all_iff] t by fastforce
  have "emits (switch t (branch_cases ?a ?b op) (Inr :: asm_st \<Rightarrow> _))
      (Branch x (reg_no (if swap then j else i)) (reg_no (if swap then i else j)) (b_offset (op_v op)))"
    using emits_branch [OF opc(1) _ _ c(2)] by (simp add: opc(2) reg5_reg_operand [symmetric])
  from emits_one [OF this s(2,3)] show ?thesis unfolding e .
qed

lemma reg5_nil: "reg5 nil_op = 0"
  by (simp add: reg5_def reg_operand_def)

lemma branch0_line:
  assumes t: "(t, x, swap) \<in> set branch0_spec" and r: "i < 128" and e: "aexp_ok e" "aeval e = Inr v" "is_im12 v" "ends 0 ts"
    and s: "toks s = regtok i # comma # atoks 0 e @ ts" "code_inv s" "\<not> nocode_wanted s"
  shows "\<exists>s'. asm_opcode t s = Inr s' \<and> wrote (s\<lparr>toks := ts\<rparr>)
    [Branch x (if swap \<noteq> exchanged t then 0 else reg_no i) (if swap \<noteq> exchanged t then reg_no i else 0) (b_offset v)] s'"
proof (rule emits_line [OF _ s(2,3)])
  let ?a = "reg_operand (of_nat (i mod 64))" and ?op = "const_operand v"
  have "parse_operands 1 s = Inr ([?a], s\<lparr>toks := comma # atoks 0 e @ ts\<rparr>)"
    using r s(1) by (simp add: parse_operands_def parse_reg)
  moreover have "asm_opcode t s = asm_branch_opcode 2 t s" using branch0_dispatch t by (force simp: list_all_iff)
  ultimately show "asm_opcode t s = switch t (branch_cases ?a ?op nil_op) Inr (s\<lparr>toks := ts\<rparr>)"
    using e by (simp add: asm_branch_opcode_def skip_char parse_jump_const)
  obtain opc where opc: "b_opc opc x" "switch t (branch_cases ?a ?op nil_op) (Inr :: asm_st \<Rightarrow> _) =
      (if swap \<noteq> exchanged t then asm_emit_b t opc nil_op ?a ?op else asm_emit_b t opc ?a nil_op ?op)"
    using branch0_spec_opc [of ?a ?op nil_op, unfolded list_all_iff] t by fastforce
  have "op_type ?op = OP_IM12S" using e(3) by (simp add: const_operand_def)
  from emits_branch [OF opc(1) _ _ this]
  show "emits (switch t (branch_cases ?a ?op nil_op) (Inr :: asm_st \<Rightarrow> _)) (Branch x (if swap \<noteq> exchanged t then 0 else reg_no i)
      (if swap \<noteq> exchanged t then reg_no i else 0) (b_offset v))"
    by (simp add: opc(2) reg5_reg_operand [symmetric] reg5_nil [symmetric])
qed

lemma fits_b_im12: "fits_b v \<Longrightarrow> is_im12 v"
  unfolding is_im12_def fits_b_def using sint_ucast_fits [of v, where 'b = 32] by simp

lemma branch_line:
  assumes "(t, x, swap) \<in> set branch_spec" "i < 128" "j < 128" "aexp_ok e" "aeval e = Inr v" "is_im12 v" "ends 0 ts"
    and "toks s = regtok i # comma # regtok j # comma # atoks 0 e @ ts" "code_inv s" "\<not> nocode_wanted s"
  shows "\<exists>s'. asm_opcode t s = Inr s' \<and> wrote (s\<lparr>toks := ts\<rparr>)
    [Branch x (reg_no (if swap then j else i)) (reg_no (if swap then i else j)) (b_offset v)] s'"
  using branch_line_gen [OF assms(1-3,8), of "s\<lparr>toks := ts\<rparr>" "const_operand v"] assms
  by (simp add: parse_jump_const)

section \<open>Labels\<close>

lemma asm_expr_atom:
  assumes "parses 4 s (Inr (e, s1))" "ends 0 (toks s1)"
  shows "asm_expr s = Inr (e, s1)"
proof -
  have l: "loops l e s1 (Inr (e, s1))" for l using ends_mono [OF assms(2)] by (intro loops_stop) simp
  have down: "parses (Suc l) s (Inr (e, s1)) \<Longrightarrow> l < 4 \<Longrightarrow> parses l s (Inr (e, s1))" for l
    by (rule parses_down [OF _ _ l])
  have "parses 3 s (Inr (e, s1))" using down [of 3] assms(1) by simp
  with down [of 2] have "parses 2 s (Inr (e, s1))" by simp
  with down [of 1] have "parses (Suc 0) s (Inr (e, s1))" by (simp add: Suc_1 [symmetric] del: Suc_1)
  with down [of 0] have "parses 0 s (Inr (e, s1))" by simp
  then show ?thesis by (auto simp: parses_0 intro: asm_expr_eq)
qed

text \<open>A name that is no absolute symbol is read as its symbol, entered when it is new.\<close>

definition label_at :: "string \<Rightarrow> asm_st \<Rightarrow> nat \<Rightarrow> asm_st \<Rightarrow> bool" where
  "label_at l s k s1 \<longleftrightarrow> get_asm_sym l s = (k, s1) \<and> (sym_extern (syms s1 ! k) \<or> sym_static (syms s1 ! k)) \<and>
    (\<forall>e\<in>set_option (sym_elf (syms s1 ! k)). st_shndx e \<noteq> SHN_ABS)"

lemma asm_expr_label:
  assumes "label_at l s k s1" "toks s = TokIdent l # ts" "ends 0 ts"
  shows "asm_expr s = Inr (ev_label k, s1\<lparr>toks := ts\<rparr>)"
proof (rule asm_expr_atom)
  have t: "toks s1 = TokIdent l # ts" using assms by (auto simp: label_at_def dest: toks_get_sym)
  then have "asm_expr_ident l s = Inr (ev_label k, s1\<lparr>toks := ts\<rparr>)"
    using assms(1) by (auto simp: asm_expr_ident_def label_at_def elfsym_def next_tok_def split: option.splits)
  then show "parses 4 s (Inr (ev_label k, s1\<lparr>toks := ts\<rparr>))"
    unfolding parses_4 using assms(2) by (intro exI [of _ "Suc 0"]) (simp add: expr_unary.simps(2) tok_def)
qed (use assms in simp)

lemma parse_branch_label:
  assumes "label_at l s k s1" "toks s = TokIdent l # ts" "ends 0 ts"
  shows "parse_branch_offset_operand s =
      Inr (imm_operand 0\<lparr>op_sym := Some k\<rparr>, greloca (SymRef k) (ind s) R_RISCV_BRANCH 0 (s1\<lparr>toks := ts\<rparr>))"
    and "parse_jump_offset_operand s =
      Inr (imm_operand 0\<lparr>op_sym := Some k\<rparr>, greloca (SymRef k) (ind s) R_RISCV_JAL 0 (s1\<lparr>toks := ts\<rparr>))"
proof -
  have "get_asm_sym l s = (k, s1)" using assms(1) by (simp add: label_at_def)
  then have "ind s1 = ind s"
    by (metis get_asm_sym_def label_push_keeps(2) option.case_eq_if prod.inject snd_conv)
  with assms(1) asm_expr_label [OF assms] show "parse_branch_offset_operand s =
      Inr (imm_operand 0\<lparr>op_sym := Some k\<rparr>, greloca (SymRef k) (ind s) R_RISCV_BRANCH 0 (s1\<lparr>toks := ts\<rparr>))"
    "parse_jump_offset_operand s =
      Inr (imm_operand 0\<lparr>op_sym := Some k\<rparr>, greloca (SymRef k) (ind s) R_RISCV_JAL 0 (s1\<lparr>toks := ts\<rparr>))"
    by (simp_all add: parse_branch_offset_operand_def parse_jump_offset_operand_def classify_operand_def label_at_def
        ev_label_def expr_operand_def imm_operand_def)
qed

end
