(* ===== verification/HiLo.thy ===== *)
theory HiLo
  imports WordFields
begin

text \<open>
  Splitting a word into an upper part and a sign-extended lower part, as instruction sequences that load a
  constant or an address do it: the carry of the lower part is added to the upper one beforehand.
\<close>
unbundle bit_operations_syntax

lemma signed_take_bit_shift_word:
  "signed_take_bit n x = take_bit (Suc n) (x + 2 ^ n) - 2 ^ n" for x :: "'a::len word"
proof -
  have "signed_take_bit n (of_int (sint x) :: 'a word) = of_int (take_bit (Suc n) (sint x + 2 ^ n) - 2 ^ n)"
    by (simp only: signed_take_bit_of_int signed_take_bit_eq_take_bit_shift)
  also have "\<dots> = take_bit (Suc n) (of_int (sint x + 2 ^ n)) - 2 ^ n"
    by (simp only: of_int_diff of_int_power of_int_numeral of_int_take_bit)
  finally show ?thesis by simp
qed

lemma sdrop_push: "n < LENGTH('a) \<Longrightarrow> signed_drop_bit n (push_bit n x) = signed_take_bit (LENGTH('a) - Suc n) x"
  for x :: "'a::len word"
proof (rule bit_word_eqI)
  fix m assume n: "n < LENGTH('a)" and m: "m < LENGTH('a)"
  have "m = LENGTH('a) - Suc n" if "\<not> LENGTH('a) - n \<le> m" "LENGTH('a) - Suc n \<le> m" using that n by linarith
  with n m show "bit (signed_drop_bit n (push_bit n x)) m = bit (signed_take_bit (LENGTH('a) - Suc n) x) m"
    by (auto simp: bit_simps min_def)
qed

lemma upper_bits: "push_bit n (drop_bit n x) = x - take_bit n x" for x :: "'a::len word"
  using bits_ident [of n x] by (metis add_diff_cancel_right')

lemma hi_lo_split: "push_bit (Suc n) (drop_bit (Suc n) (x + 2 ^ n)) + signed_take_bit n x = x" for x :: "'a::len word"
  by (simp add: upper_bits signed_take_bit_shift_word)

lemma and_upper20: "x AND 0xfffff000 = push_bit 12 (drop_bit 12 x)" for x :: "32 word"
proof -
  have m: "(0xfffff000 :: 32 word) = NOT (mask 12)" by (simp add: mask_eq_exp_minus_1)
  show ?thesis unfolding m by (intro bit_word_eqI) (auto simp: bit_simps)
qed

text \<open>A multiple of \<open>2 ^ 32\<close> only depends on the low half.\<close>

lemma push32_cong:
  fixes a b :: "64 word"
  assumes "u32 a = u32 b" shows "push_bit 32 a = push_bit 32 b"
proof (rule bit_word_eqI)
  fix n assume n: "n < LENGTH(64)"
  show "bit (push_bit 32 a) n = bit (push_bit 32 b) n"
  proof (cases "32 \<le> n")
    case True
    then have "n - 32 < 32" using n by simp
    then have "bit a (n - 32) = bit (u32 a) (n - 32)" "bit b (n - 32) = bit (u32 b) (n - 32)" by (simp_all add: bit_simps)
    with assms show ?thesis by (simp add: bit_push_bit_iff)
  qed (simp add: bit_push_bit_iff)
qed

lemma of_int_take: "LENGTH('a::len) \<le> n \<Longrightarrow> (word_of_int (take_bit n k) :: 'a word) = word_of_int k"
  by (simp add: word_of_int_eq_iff min_absorb1)

lemma u32_of_int: "u32 (word_of_int k :: 64 word) = word_of_int k"
  by (simp add: ucast_eq of_int_take uint_word_of_int_eq)

lemma u32_scast: "u32 (scast x :: 64 word) = x" for x :: "32 word"
  using u32_of_int [of "sint x"] by simp

lemma u32_arith: "u32 (a + b) = u32 a + u32 b" "u32 (a - b) = u32 a - u32 b" for a b :: "64 word"
proof -
  have "u32 (a + b) = u32 (word_of_int (uint a + uint b) :: 64 word)" by (simp only: of_int_add of_int_diff word_of_int_uint)
  also have "\<dots> = word_of_int (uint a + uint b)" by (rule u32_of_int)
  also have "\<dots> = u32 a + u32 b" by (simp only: of_int_add ucast_eq)
  finally show "u32 (a + b) = u32 a + u32 b" .
  have "u32 (a - b) = u32 (word_of_int (uint a - uint b) :: 64 word)" by (simp only: of_int_add of_int_diff word_of_int_uint)
  also have "\<dots> = word_of_int (uint a - uint b)" by (rule u32_of_int)
  also have "\<dots> = u32 a - u32 b" by (simp only: of_int_diff ucast_eq)
  finally show "u32 (a - b) = u32 a - u32 b" .
qed

lemma halves: "v = push_bit 32 (drop_bit 32 v) + u64 (u32 v)" for v :: "64 word"
proof -
  have "u64 (u32 v) = take_bit 32 v" by (intro bit_word_eqI) (auto simp: bit_simps)
  then show ?thesis by (simp add: bits_ident)
qed

lemma scast_split: "(scast x :: 64 word) = u64 x - (if sint x < 0 then push_bit 32 1 else 0)" for x :: "32 word"
proof -
  have t: "take_bit 32 (uint x) = uint x" using uint_bounded [of x] by (intro take_bit_int_eq_self) simp_all
  have s: "sint x = uint x - 2 ^ 32 * of_bool (bit (uint x) 31)"
    by (simp add: sint_uint signed_take_bit_eq_take_bit_minus t)
  have "0 \<le> uint x" "uint x < 2 ^ 32" using uint_bounded [of x] by simp_all
  with s have d: "sint x = uint x - 2 ^ 32 * (if sint x < 0 then 1 else 0)"
    by (cases "bit (uint x) 31") simp_all
  have "(scast x :: 64 word) = of_int (uint x - 2 ^ 32 * (if sint x < 0 then 1 else 0))"
    by (simp only: d [symmetric] of_int_sint)
  then show ?thesis by (simp add: push_bit_eq_mult)
qed

lemma sint_signed_take: "n < LENGTH('a) \<Longrightarrow> sint (signed_take_bit n x) = signed_take_bit n (sint x)" for x :: "'a::len word"
proof -
  assume n: "n < LENGTH('a)"
  have "signed_take_bit n x = of_int (signed_take_bit n (sint x))"
    by (metis of_int_signed_take_bit of_int_sint scast_id)
  then have "sint (signed_take_bit n x) = signed_take_bit (LENGTH('a) - Suc 0) (signed_take_bit n (sint x))"
    by (simp add: signed_of_int)
  then show ?thesis using n by (simp add: min_absorb1)
qed

lemma sint_small: "uint w < 2 ^ (LENGTH('a) - 1) \<Longrightarrow> sint w = uint w" for w :: "'a::len word"
proof -
  assume w: "uint w < 2 ^ (LENGTH('a) - 1)"
  have "signed_take_bit (LENGTH('a) - 1) (uint w) = uint w"
    using w by (intro signed_take_bit_int_eq_self order_trans [OF _ uint_ge_0]) simp_all
  then show ?thesis by (simp add: sint_uint)
qed

lemma low_bits_sint: "n < LENGTH('a) \<Longrightarrow> uint (take_bit n w) = sint w mod 2 ^ n" for w :: "'a::len word"
proof -
  assume "n < LENGTH('a)"
  then have "take_bit n (sint w) = take_bit n (uint w)" by (simp add: sint_uint take_bit_signed_take_bit)
  then show ?thesis by (simp only: unsigned_take_bit_eq take_bit_eq_mod [of n "sint w", symmetric])
qed

lemma drop_push_drop: "drop_bit n (push_bit n (drop_bit n x)) = drop_bit n x" for x :: "'a::len word"
  by (intro bit_word_eqI) (auto simp: bit_simps dest: bit_imp_le_length)

text \<open>The signed value of a 32-bit sum that passes the largest one.\<close>

lemma sint_add_wrap:
  fixes x y :: "32 word"
  assumes "0 \<le> sint y"
  shows "sint (x + y) = (if sint x + sint y < 2 ^ 31 then sint x + sint y else sint x + sint y - 2 ^ 32)"
proof -
  let ?k = "sint x + sint y"
  have r: "- (2 ^ 31) \<le> sint x" "sint x < 2 ^ 31" "sint y < 2 ^ 31"
    using sint_range_size [of x] sint_range_size [of y] by (simp_all add: word_size)
  have "sint (x + y) = signed_take_bit 31 ?k" by (simp add: sint_word_ariths)
  then have e: "sint (x + y) = (?k + 2 ^ 31) mod 2 ^ 32 - 2 ^ 31"
    by (simp add: signed_take_bit_eq_take_bit_shift take_bit_eq_mod)
  show ?thesis
  proof (cases "?k < 2 ^ 31")
    case True
    then have "(?k + 2 ^ 31) mod 2 ^ 32 = ?k + 2 ^ 31" using r assms by (intro mod_pos_pos_trivial) simp_all
    with e True show ?thesis by simp
  next
    case False
    have "(?k + 2 ^ 31) mod 2 ^ 32 = (?k + 2 ^ 31 - 2 ^ 32) mod 2 ^ 32" by (simp only: minus_mod_self2)
    also have "\<dots> = ?k + 2 ^ 31 - 2 ^ 32" using False r by (intro mod_pos_pos_trivial) simp_all
    finally show ?thesis using e False by simp
  qed
qed

end
