(* ===== verification/AsmLi.thy ===== *)
theory AsmLi
  imports AsmJumps HiLo
begin

text \<open>
  The pseudoinstruction \<open>li\<close>: the eight instructions that the assembler emits for it are executed, and
  the register holds the constant, except for the constants whose low half the rounding of the code
  carries over the sign.
\<close>

unbundle bit_operations_syntax

section \<open>The pieces\<close>

definition li_upper :: "64 word \<Rightarrow> 32 word" where
  "li_upper v = (if sint (u32 v) < 0 then u32 (signed_drop_bit 32 v) + 1 else u32 (signed_drop_bit 32 v))"

lemma li_pieces_eq:
  "li_pieces v =
    (u64 (drop_bit 12 (li_upper v + 0x800)),
     scast (signed_take_bit 11 (li_upper v)),
     scast (signed_drop_bit 20 (u32 v + 0x80000)),
     scast (signed_drop_bit 8 (signed_take_bit 19 (u32 v))),
     scast (signed_take_bit 11 (take_bit 8 (signed_take_bit 19 (u32 v)))))"
  by (simp add: li_pieces_def Let_def li_upper_def sdrop_push and_upper20 masks drop_push_drop)

lemma li_high:
  "push_bit 32 (scast (push_bit 12 (drop_bit 12 (li_upper v + 0x800))) + scast (signed_take_bit 11 (li_upper v)))
    = push_bit 32 (drop_bit 32 v) + (if sint (u32 v) < 0 then push_bit 32 1 else 0)"
proof -
  have "push_bit 12 (drop_bit 12 (li_upper v + 0x800)) + signed_take_bit 11 (li_upper v) = li_upper v"
    using hi_lo_split [of 11 "li_upper v"] by simp
  moreover have "u32 (signed_drop_bit 32 v) = u32 (drop_bit 32 v)"
    by (intro bit_word_eqI) (auto simp: bit_simps)
  ultimately have "push_bit 32 (scast (push_bit 12 (drop_bit 12 (li_upper v + 0x800))) + scast (signed_take_bit 11 (li_upper v)))
      = push_bit 32 (drop_bit 32 v + (if sint (u32 v) < 0 then 1 else 0))"
    by (intro push32_cong) (simp add: u32_arith u32_scast li_upper_def)
  then show ?thesis by (simp add: push_bit_add)
qed

definition li_overflow :: "64 word \<Rightarrow> bool" where
  "li_overflow v \<longleftrightarrow> 0x7ff80000 \<le> sint (u32 v)"

lemma li_low:
  fixes x :: "32 word"
  shows "sint (signed_drop_bit 20 (x + 0x80000)) * 2 ^ 20 + sint (signed_drop_bit 8 (signed_take_bit 19 x)) * 2 ^ 8
      + sint (signed_take_bit 11 (take_bit 8 (signed_take_bit 19 x)))
    = sint x - (if 0x7ff80000 \<le> sint x then 2 ^ 32 else 0)"
proof -
  let ?l = "sint x" and ?y = "signed_take_bit 19 x"
  have r: "- (2 ^ 31) \<le> ?l" "?l < 2 ^ 31" using sint_range_size [of x] by (simp_all add: word_size)
  have y: "sint ?y = (?l + 2 ^ 19) mod 2 ^ 20 - 2 ^ 19"
    by (simp add: sint_signed_take signed_take_bit_eq_take_bit_shift take_bit_eq_mod)
  have c: "sint (signed_drop_bit 8 ?y) = sint ?y div 2 ^ 8" by (simp add: sint_signed_drop_bit_eq drop_bit_eq_div)
  have "signed_take_bit 11 (take_bit 8 ?y) = take_bit 8 ?y"
    by (intro bit_word_eqI) (auto simp: bit_simps)
  moreover have "uint (take_bit 8 ?y) = sint ?y mod 2 ^ 8"
    by (rule low_bits_sint) simp
  then have "sint (take_bit 8 ?y) = sint ?y mod 2 ^ 8"
    by (subst sint_small) (simp_all add: order_less_trans [OF pos_mod_bound])
  ultimately have d: "sint (signed_take_bit 11 (take_bit 8 ?y)) = sint ?y mod 2 ^ 8" by simp
  have s: "sint (x + 0x80000) = ?l + 2 ^ 19 - (if 0x7ff80000 \<le> ?l then 2 ^ 32 else 0)"
    using sint_add_wrap [of "0x80000" x] by simp
  have b: "sint (signed_drop_bit 20 (x + 0x80000)) = sint (x + 0x80000) div 2 ^ 20"
    by (simp add: sint_signed_drop_bit_eq drop_bit_eq_div)
  have "sint (x + 0x80000) div 2 ^ 20 * 2 ^ 20 = sint (x + 0x80000) - sint (x + 0x80000) mod 2 ^ 20"
    by (simp add: minus_mod_eq_div_mult)
  moreover have "sint (x + 0x80000) mod 2 ^ 20 = sint ?y + 2 ^ 19"
    using mod_mult_self1 [of "?l + 2 ^ 19" "- (2 ^ 12)" "2 ^ 20"] by (simp add: s y)
  moreover have "sint ?y div 2 ^ 8 * 2 ^ 8 + sint ?y mod 2 ^ 8 = sint ?y" by simp
  ultimately show ?thesis unfolding b c d s by simp
qed

lemma li_value:
  "(((scast (push_bit 12 (drop_bit 12 (li_upper v + 0x800))) + scast (signed_take_bit 11 (li_upper v))) * 2 ^ 12
      + scast (signed_drop_bit 20 (u32 v + 0x80000))) * 2 ^ 12
      + scast (signed_drop_bit 8 (signed_take_bit 19 (u32 v)))) * 2 ^ 8
      + scast (signed_take_bit 11 (take_bit 8 (signed_take_bit 19 (u32 v))))
    = v - (if li_overflow v then 2 ^ 32 else 0)" (is "(((?h) * 2 ^ 12 + ?b) * 2 ^ 12 + ?c) * 2 ^ 8 + ?d = _")
proof -
  have "(of_int (sint (signed_drop_bit 20 (u32 v + 0x80000)) * 2 ^ 20 + sint (signed_drop_bit 8 (signed_take_bit 19 (u32 v))) * 2 ^ 8
      + sint (signed_take_bit 11 (take_bit 8 (signed_take_bit 19 (u32 v))))) :: 64 word)
    = of_int (sint (u32 v) - (if 0x7ff80000 \<le> sint (u32 v) then 2 ^ 32 else 0))"
    by (simp only: li_low)
  then have low: "?b * 2 ^ 20 + ?c * 2 ^ 8 + ?d = scast (u32 v) - (if li_overflow v then 2 ^ 32 else 0)"
    by (simp add: li_overflow_def)
  have "((?h * 2 ^ 12 + ?b) * 2 ^ 12 + ?c) * 2 ^ 8 + ?d = push_bit 32 ?h + (?b * 2 ^ 20 + ?c * 2 ^ 8 + ?d)"
    by (simp add: push_bit_eq_mult algebra_simps)
  also have "\<dots> = push_bit 32 (drop_bit 32 v) + (if sint (u32 v) < 0 then push_bit 32 1 else 0)
      + (scast (u32 v) - (if li_overflow v then 2 ^ 32 else 0))"
    by (simp only: low li_high)
  also have "\<dots> = push_bit 32 (drop_bit 32 v) + u64 (u32 v) - (if li_overflow v then 2 ^ 32 else 0)"
    unfolding scast_split by simp
  also have "\<dots> = v - (if li_overflow v then 2 ^ 32 else 0)" by (simp only: halves [symmetric])
  finally show ?thesis .
qed

lemma imm12_scast: "- 2048 \<le> sint y \<Longrightarrow> sint y < 2048 \<Longrightarrow> imm12 (scast y) = scast y" for y :: "32 word"
proof -
  assume y: "- 2048 \<le> sint y" "sint y < 2048"
  have "sint (scast y :: 64 word) = sint y"
    using y by (simp add: signed_scast_eq signed_take_bit_int_eq_self)
  with y show ?thesis by (intro imm12_fits) (simp add: fits12_def)
qed

lemma pieces_imm12:
  "imm12 (scast (signed_take_bit 11 x)) = scast (signed_take_bit 11 x)"
  "imm12 (scast (signed_drop_bit 20 x)) = scast (signed_drop_bit 20 x)"
  "imm12 (scast (signed_drop_bit 8 (signed_take_bit 19 x))) = scast (signed_drop_bit 8 (signed_take_bit 19 x))"
  for x :: "32 word"
proof -
  have "sint (signed_take_bit 11 x) = (sint x + 2 ^ 11) mod 2 ^ 12 - 2 ^ 11" "sint (signed_take_bit 19 x) = (sint x + 2 ^ 19) mod 2 ^ 20 - 2 ^ 19"
    by (simp_all add: sint_signed_take signed_take_bit_eq_take_bit_shift take_bit_eq_mod)
  then have r: "- 2048 \<le> sint (signed_take_bit 11 x)" "sint (signed_take_bit 11 x) < 2048"
    "- (2 ^ 19) \<le> sint (signed_take_bit 19 x)" "sint (signed_take_bit 19 x) < 2 ^ 19"
    using pos_mod_bound [of "2 ^ 12" "sint x + 2 ^ 11"] pos_mod_bound [of "2 ^ 20" "sint x + 2 ^ 19"]
      pos_mod_sign [of "2 ^ 12" "sint x + 2 ^ 11"] pos_mod_sign [of "2 ^ 20" "sint x + 2 ^ 19"] by simp_all
  have x: "- (2 ^ 31) \<le> sint x" "sint x < 2 ^ 31" using sint_range_size [of x] by (simp_all add: word_size)
  show "imm12 (scast (signed_take_bit 11 x)) = scast (signed_take_bit 11 x)" using r by (intro imm12_scast) simp_all
  show "imm12 (scast (signed_drop_bit 20 x)) = scast (signed_drop_bit 20 x)"
    using x div_mult_mod_eq [of "sint x" "2 ^ 20"] pos_mod_bound [of "2 ^ 20" "sint x"] pos_mod_sign [of "2 ^ 20" "sint x"]
    by (intro imm12_scast) (simp_all add: sint_signed_drop_bit_eq drop_bit_eq_div)
  show "imm12 (scast (signed_drop_bit 8 (signed_take_bit 19 x))) = scast (signed_drop_bit 8 (signed_take_bit 19 x))"
    using r(3,4) div_mult_mod_eq [of "sint (signed_take_bit 19 x)" "2 ^ 8"]
      pos_mod_bound [of "2 ^ 8" "sint (signed_take_bit 19 x)"] pos_mod_sign [of "2 ^ 8" "sint (signed_take_bit 19 x)"]
    by (intro imm12_scast) (simp_all add: sint_signed_drop_bit_eq drop_bit_eq_div)
qed

section \<open>The instructions\<close>

definition li_insns :: "5 word \<Rightarrow> 64 word \<Rightarrow> insn list" where
  "li_insns r v =
    (case li_pieces v of (up, lo12, hi12, mid, low) \<Rightarrow>
      [Lui r (scast (push_bit 12 (u32 up))), OpImm Add False r r lo12, OpImm Sll False r r 12, OpImm Add False r r hi12,
       OpImm Sll False r r 12, OpImm Add False r r mid, OpImm Sll False r r 8, OpImm Add False r r low])"

lemma li_up_small: "op_v (imm_operand (u64 (drop_bit 12 (x :: 32 word)))) < 0x100000"
proof -
  have "unat (drop_bit 12 x) < 2 ^ 64" using unat_lt2p [of "drop_bit 12 x"] by simp
  then have "unat (u64 (drop_bit 12 x)) = unat x div 2 ^ 12"
    by (simp add: unsigned_ucast_eq take_bit_nat_eq_self unat_div drop_bit_eq_div)
  also have "\<dots> < 2 ^ 20" using unat_lt2p [of x] by simp
  finally show ?thesis by (simp add: imm_operand_def word_less_nat_alt)
qed

lemma emits_addi: "op_type rd = OP_REG \<Longrightarrow> imm12 v = v \<Longrightarrow>
    emits (asm_emit_i t (3 OR push_bit 2 4) rd rd (imm_operand v)) (OpImm Add False (reg5 rd) (reg5 rd) v)"
proof -
  assume a: "op_type rd = OP_REG" "imm12 v = v"
  have "i_opc (3 OR push_bit 2 4) Add False" by code_simp
  from emits_i_opc [OF a(1) a(1) _ this, of "imm_operand v" t] a(2) show ?thesis by (simp add: imm_operand_def)
qed

lemma emits_slli: "op_type rd = OP_REG \<Longrightarrow> v < 64 \<Longrightarrow>
    emits (asm_emit_i t (push_bit 2 4 OR 3 OR push_bit 12 1) rd rd (imm_operand v)) (OpImm Sll False (reg5 rd) (reg5 rd) v)"
proof -
  assume a: "op_type rd = OP_REG" "v < 64"
  have "sh_opc (push_bit 2 4 OR 3 OR push_bit 12 1) Sll False" by code_simp
  from emits_sh_opc [OF a(1) a(1) _ _ this, of "imm_operand v" t] a(2) show ?thesis by (simp add: imm_operand_def)
qed

lemma emits_lui: "op_type rd = OP_REG \<Longrightarrow> op_v (imm_operand v) < 0x100000 \<Longrightarrow>
    emits (asm_emit_u t (push_bit 2 0xD OR 3) rd (imm_operand v)) (Lui (reg5 rd) (scast (push_bit 12 (u32 v))))"
proof -
  assume a: "op_type rd = OP_REG" "op_v (imm_operand v) < 0x100000"
  have o: "rdf (push_bit 2 0xD OR 3) = 0" "drop_bit 12 (push_bit 2 0xD OR 3 :: 32 word) = 0" "opcode (push_bit 2 0xD OR 3) = 0x37"
    by code_simp+
  from emits_u(1) [OF a(1) _ a(2) o(1,2,3), of t] show ?thesis by (simp add: imm_operand_def)
qed

lemma li_emits:
  assumes "op_type rd = OP_REG"
  shows "\<exists>cs. asm_li t rd (const_operand v) = run cs \<and> list_all2 emits cs (li_insns (reg5 rd) v)"
proof -
  note e = emits_addi [OF assms] emits_slli [OF assms] emits_lui [OF assms li_up_small]
  have k: "op_type (const_operand v) \<noteq> OP_IM32 \<and> op_type (const_operand v) \<noteq> OP_IM12S \<longleftrightarrow> False"
    using const_kind by auto
  show ?thesis
    unfolding asm_li_def Let_def k if_False li_insns_def li_pieces_eq prod.case const_fits(2)
    by (intro exI conjI, rule refl) (simp only: list.rel_inject, intro conjI TrueI e pieces_imm12, simp_all)
qed

text \<open>Executed, they leave the constant in the register and change nothing else.\<close>

lemma li_exec:
  assumes "r \<noteq> 0"
  shows "\<exists>m'. exec_list (li_insns r v) m = Some m' \<and> pc m' = pc m + 32 \<and> rmem m' = rmem m \<and>
    xr m' r = v - (if li_overflow v then 2 ^ 32 else 0) \<and> (\<forall>q. q \<noteq> r \<longrightarrow> xr m' q = xr m q)"
proof -
  have sh: "push_bit 12 x = x * 2 ^ 12" "push_bit 8 x = x * 2 ^ 8" for x :: "64 word"
    by (simp_all add: push_bit_eq_mult)
  show ?thesis
    unfolding li_insns_def li_pieces_eq prod.case
    using assms li_value [of v] by (simp add: alu_exec_def sh [simplified] fields)
qed

end
