(* ===== verification/AsmProps.thy ===== *)
theory AsmProps
  imports AsmLi
begin

text \<open>
  The properties of the assembler: expressions, the frame of every instruction, and what the lines of each
  group of mnemonics assemble to. \<open>asm0 ts\<close> is the start of an empty text section with the tokens \<open>ts\<close>; the
  witnesses assemble from there.
\<close>

unbundle bit_operations_syntax

section \<open>A concrete state\<close>

definition asm0 :: "token list \<Rightarrow> asm_st" where
  "asm0 ts = \<lparr>cur_text_section = \<lparr>sec_data = [], data_offset = 0, data_allocated = 0, sh_addralign = 1, sh_nobits = False\<rparr>,
     ind = 0, nocode_wanted = False, toks = ts, relocs = [], syms = [], sym_identifier = (\<lambda>_. []),
     sec_name = ''.text'', sh_num = 1\<rparr>"

lemma asm0_simps [simp]:
  "code_inv (asm0 ts)" "nocode_wanted (asm0 ts) = False" "toks (asm0 ts) = ts" "(asm0 ts)\<lparr>toks := us\<rparr> = asm0 us"
  "syms_wf (asm0 ts)" "ind (asm0 ts) = 0" "relocs (asm0 ts) = []"
  by (simp_all add: asm0_def code_inv_def cg_wf_def syms_wf_def)

lemma ends_linefeed [simp]: "ends 0 [TokLinefeed]" "ends 0 []"
  by (auto simp: ends_def all_ops_def)

section \<open>Expressions\<close>

text \<open>C11. A constant expression, printed with only the brackets its operators' precedences need, is read back by
  \<open>asm_expr\<close> as its value in 64-bit arithmetic, and exactly its tokens are consumed; when the value of a
  subexpression is undefined (division by zero), the first such error in evaluation order is reported.\<close>

theorem asm_expr_evaluates:
  assumes "aexp_ok e" "toks s = atoks 0 e @ ts" "ends 0 ts"
  shows "asm_expr s = (case aeval e of Inl x \<Rightarrow> Inl x | Inr v \<Rightarrow> Inr (ev_num v, s\<lparr>toks := ts\<rparr>))"
  using asm_expr_reads [OF assms] by (simp add: bindr_def split: sum.split)

lemma asm_expr_evaluates_witness:
  "asm_expr (asm0 (atoks 0 (ABin OMul (ABin OSub (ANum 7) (ANum 2)) (ANeg (ANum 3))) @ [TokLinefeed])) =
    Inr (ev_num (- 15), asm0 [TokLinefeed])"
  using asm_expr_evaluates [of "ABin OMul (ABin OSub (ANum 7) (ANum 2)) (ANeg (ANum 3))" _ "[TokLinefeed]"] by simp

text \<open>C12. Parsing an expression always comes to an end, whatever the tokens: the fuel the model gives it is enough,
  and more fuel does not change the result.\<close>

theorem asm_expr_returns:
  "\<exists>r. asm_expr s = r \<and> (\<forall>k. expr_cmp (expr_fuel s + k) s = Some r)"
proof -
  obtain r where r: "expr_cmp (expr_fuel s) s = Some r" using expr_cmp_enough by blast
  have "expr_cmp (expr_fuel s + k) s = Some r" for k by (rule fuel_enough_mono(8) [OF _ r]) simp
  with asm_expr_eq [OF r] show ?thesis by blast
qed

section \<open>Every instruction\<close>

text \<open>C13. Assembling a line keeps the buffer of the section well-formed, never moves \<open>ind\<close> back, and leaves all code
  before it as it was, for every mnemonic and every sequence of tokens.\<close>

theorem asm_opcode_code:
  assumes "code_inv s" "asm_opcode t s = Inr s'"
  shows "code_inv s' \<and> ind s \<le> ind s' \<and> take (ind s) (code_of s') = take (ind s) (code_of s)"
  using code.R_opcode [OF assms(2)] assms(1) by (simp add: code_step_def)

text \<open>C14. While no code is wanted, assembling a line emits nothing and adds no relocation.\<close>

theorem asm_opcode_quiet:
  assumes "code_inv s" "nocode_wanted s" "asm_opcode t s = Inr s'"
  shows "code_of s' = code_of s \<and> ind s' = ind s \<and> relocs s' = relocs s"
  using code.R_opcode [OF assms(3)] relocs.R_opcode [OF assms(3)] assms(1,2)
  by (simp add: code_step_def reloc_step_def)

text \<open>A line consumes tokens from the front of the input only, and existing relocations are never changed or
  removed.\<close>

theorem asm_opcode_input:
  assumes "asm_opcode t s = Inr s'"
  shows "suffix (toks s') (toks s) \<and> prefix (relocs s) (relocs s')"
  using tokens.R_opcode [OF assms] relocs.R_opcode [OF assms] by (simp add: tok_step_def reloc_step_def)

text \<open>The symbol chains stay consistent: they hold distinct entries of the symbol table, which only grows, and no
  symbol drops out of its chain.\<close>

theorem asm_opcode_symbols:
  assumes "syms_wf s" "asm_opcode t s = Inr s'"
  shows "syms_wf s' \<and> length (syms s) \<le> length (syms s') \<and> (\<forall>v. set (sym_identifier s v) \<subseteq> set (sym_identifier s' v))"
  using symbols.R_opcode [OF assms(2)] assms(1) by (simp add: syms_step_def)

lemma ecall0: "asm_opcode ''ecall'' (asm0 [TokLinefeed]) = Inr (gen_le32 0x73 (asm0 [TokLinefeed]))"
  by (simp add: asm_opcode_def asm_opcode_base_def asm_nullary_opcode_def asm_emit_opcode_def)

text \<open>The line \<open>j f\<close> with a new name \<open>f\<close>: in an empty section, behind an \<open>ecall\<close>, and where no code is wanted.\<close>

abbreviation j_f :: "token list" where
  "j_f \<equiv> [TokIdent ''f'', TokLinefeed]"

definition behind :: "asm_st" where
  "behind = (asm0 j_f)\<lparr>cur_text_section := (cur_text_section (asm0 j_f))\<lparr>sec_data := [0x73, 0, 0, 0], data_allocated := 4\<rparr>, ind := 4\<rparr>"

lemma j_f_adds:
  "case asm_opcode ''j'' (asm0 j_f) of Inl x \<Rightarrow> False | Inr s \<Rightarrow>
     relocs s = [\<lparr>r_offset = 0, r_type = R_RISCV_JAL, r_sym = SymRef 0, r_addend = 0\<rparr>] \<and> ind s = 4"
  by code_simp

lemma j_f_returns:
  "case asm_opcode ''j'' behind of Inl x \<Rightarrow> False | Inr s \<Rightarrow> ind s = 8"
  "case asm_opcode ''j'' ((asm0 j_f)\<lparr>nocode_wanted := True\<rparr>) of Inl x \<Rightarrow> False | Inr s \<Rightarrow> True"
  by code_simp+

lemma asm_opcode_code_witness:
  "\<exists>s'. asm_opcode ''j'' behind = Inr s' \<and> code_inv s' \<and> ind s' = 8 \<and> take 4 (code_of s') = [0x73, 0, 0, 0]"
proof -
  obtain s' where s': "asm_opcode ''j'' behind = Inr s'" "ind s' = 8" using j_f_returns(1) by (auto split: sum.splits)
  have "code_inv behind" "ind behind = 4" "take 4 (code_of behind) = [0x73, 0, 0, 0]"
    by (simp_all add: behind_def asm0_def code_inv_def cg_wf_def)
  with asm_opcode_code [OF _ s'(1)] s' show ?thesis by metis
qed

lemma asm_opcode_quiet_witness:
  "(\<exists>s'. asm_opcode ''j'' (asm0 j_f) = Inr s' \<and> length (relocs s') = 1 \<and> ind s' = 4) \<and>
   (\<exists>s'. asm_opcode ''j'' ((asm0 j_f)\<lparr>nocode_wanted := True\<rparr>) = Inr s' \<and> relocs s' = [] \<and> ind s' = 0 \<and> code_of s' = [])"
proof
  show "\<exists>s'. asm_opcode ''j'' (asm0 j_f) = Inr s' \<and> length (relocs s') = 1 \<and> ind s' = 4"
    using j_f_adds by (auto split: sum.splits)
  obtain s' where s': "asm_opcode ''j'' ((asm0 j_f)\<lparr>nocode_wanted := True\<rparr>) = Inr s'"
    using j_f_returns(2) by (auto split: sum.splits)
  have "code_inv ((asm0 j_f)\<lparr>nocode_wanted := True\<rparr>)" by (simp add: asm0_def code_inv_def cg_wf_def)
  from asm_opcode_quiet [OF this _ s'] s'
  show "\<exists>s'. asm_opcode ''j'' ((asm0 j_f)\<lparr>nocode_wanted := True\<rparr>) = Inr s' \<and> relocs s' = [] \<and> ind s' = 0 \<and> code_of s' = []"
    by (simp add: asm0_def)
qed

lemma asm_opcode_input_witness: "suffix (toks (gen_le32 0x73 (asm0 [TokLinefeed]))) [TokLinefeed]"
  using asm_opcode_input [OF ecall0] by simp

lemma asm_opcode_symbols_witness: "syms_wf (gen_le32 0x73 (asm0 [TokLinefeed]))"
  using asm_opcode_symbols [OF _ ecall0] by simp

section \<open>Computation\<close>

text \<open>C15. A line \<open>op rd, rs1, rs2\<close> of the register-register mnemonics of RV64IM assembles to the one instruction the
  manual names, for every spelling of the registers. (\<open>srl\<close> and \<open>sraw\<close> are missing from the table, see \<open>asm_wrong_shifts\<close>.)\<close>

theorem asm_register_ops:
  assumes "(t, f, w) \<in> set r_spec" "i < 128" "j < 128" "k < 128"
    and "toks s = regtok i # comma # regtok j # comma # regtok k # ts" "code_inv s" "\<not> nocode_wanted s"
  shows "\<exists>s'. asm_opcode t s = Inr s' \<and> wrote (s\<lparr>toks := ts\<rparr>) [Op f w (reg_no i) (reg_no j) (reg_no k)] s'"
  using assms by (rule r_line)

lemma w75: "(75 :: 5 word) = 11"
  by simp

lemma asm_register_ops_witness:
  "\<exists>s'. asm_opcode ''mulhu'' (asm0 [regtok 10, comma, regtok 75, comma, regtok 12, TokLinefeed]) = Inr s' \<and>
     wrote (asm0 [TokLinefeed]) [Op Mulhu False 10 11 12] s'"
  using asm_register_ops [of "''mulhu''" Mulhu False 10 75 12 "asm0 [regtok 10, comma, regtok 75, comma, regtok 12, TokLinefeed]" "[TokLinefeed]"]
    w75 by (simp add: r_spec_def)

text \<open>C16. A line \<open>op rd, rs1, constant\<close> of \<open>addi\<close>, \<open>addiw\<close>, \<open>xori\<close>, \<open>ori\<close>, \<open>andi\<close>, \<open>slti\<close> and \<open>sltiu\<close> assembles to the
  instruction with exactly that immediate when the constant fits the signed twelve bits of the field; one of \<open>slli\<close>,
  \<open>srli\<close>, \<open>srai\<close>, \<open>slliw\<close> and \<open>srliw\<close> to the shift by that amount when it is in range: below 64, for the word forms
  below 32. The assembler does not check the amount: one between the range and the 4096 that the parser takes for
  a short constant is neither rejected nor covered by this statement. The remaining shift does not do what it says:
  \<open>sraiw\<close> assembles to \<open>srliw\<close>.\<close>

theorem asm_immediate_ops:
  assumes "i < 128" "j < 128" "aexp_ok e" "aeval e = Inr v" "ends 0 ts"
    and "toks s = regtok i # comma # regtok j # comma # atoks 0 e @ ts" "code_inv s" "\<not> nocode_wanted s"
  shows "(\<forall>(t, f, w)\<in>set i_spec. fits12 v \<longrightarrow>
      (\<exists>s'. asm_opcode t s = Inr s' \<and> wrote (s\<lparr>toks := ts\<rparr>) [OpImm f w (reg_no i) (reg_no j) v] s')) \<and>
    (\<forall>(t, f, w)\<in>set shift_spec. v < (if w then 32 else 64) \<longrightarrow>
      (\<exists>s'. asm_opcode t s = Inr s' \<and> wrote (s\<lparr>toks := ts\<rparr>) [OpImm f w (reg_no i) (reg_no j) v] s')) \<and>
    (v < 32 \<longrightarrow>
      (\<exists>s'. asm_opcode ''sraiw'' s = Inr s' \<and> wrote (s\<lparr>toks := ts\<rparr>) [OpImm Srl True (reg_no i) (reg_no j) v] s'))"
  using i_line [OF _ assms(1-4) fits12_im12 assms(5-8)] imm12_fits shift_line [OF _ assms(1-4) _ assms(5-8)]
    sraiw_line [OF assms(1-4) _ assms(5-8)] by auto

lemma asm_immediate_ops_witness:
  "(\<exists>s'. asm_opcode ''addi'' (asm0 (regtok 2 # comma # regtok 2 # comma # atoks 0 (ANeg (ANum 16)) @ [TokLinefeed])) = Inr s' \<and>
     wrote (asm0 [TokLinefeed]) [OpImm Add False 2 2 (- 16)] s') \<and>
   (\<exists>s'. asm_opcode ''srai'' (asm0 (regtok 5 # comma # regtok 6 # comma # atoks 0 (ANum 63) @ [TokLinefeed])) = Inr s' \<and>
     wrote (asm0 [TokLinefeed]) [OpImm Sra False 5 6 63] s')"
  using asm_immediate_ops [of 2 2 "ANeg (ANum 16)" "- 16" "[TokLinefeed]"
      "asm0 (regtok 2 # comma # regtok 2 # comma # atoks 0 (ANeg (ANum 16)) @ [TokLinefeed])"]
    asm_immediate_ops [of 5 6 "ANum 63" 63 "[TokLinefeed]"
      "asm0 (regtok 5 # comma # regtok 6 # comma # atoks 0 (ANum 63) @ [TokLinefeed])"]
  by (simp add: i_spec_def shift_spec_def fits12_def)

section \<open>Memory\<close>

text \<open>C17. A line \<open>load rd, imm(rs)\<close> or \<open>store rs2, imm(rs1)\<close> with a constant that fits twelve signed bits assembles to
  the load of the mnemonic's width and signedness, or to the store, at that offset from the base register.\<close>

theorem asm_memory_ops:
  assumes "i < 128" "j < 128" "aexp_ok e" "aeval e = Inr v" "fits12 v" "hd (atoks 0 e) \<noteq> TokPunct CHR ''(''"
    and "toks s = regtok i # comma # atoks 0 e @ TokPunct CHR ''('' # regtok j # TokPunct CHR '')'' # ts"
    and "code_inv s" "\<not> nocode_wanted s"
  shows "(\<forall>(t, w, u)\<in>set load_spec. \<exists>s'. asm_opcode t s = Inr s' \<and>
      wrote (s\<lparr>toks := ts\<rparr>) [Load w u (reg_no i) (reg_no j) v] s') \<and>
    (\<forall>(t, w)\<in>set store_spec. \<exists>s'. asm_opcode t s = Inr s' \<and>
      wrote (s\<lparr>toks := ts\<rparr>) [Store w (reg_no j) (reg_no i) v] s')"
  using load_line [OF _ assms(1-4) fits12_im12 [OF assms(5)] assms(6-9)]
    store_line [OF _ assms(1-4) fits12_im12 [OF assms(5)] assms(6-9)] imm12_fits [OF assms(5)] by auto

lemma asm_memory_ops_witness:
  "\<exists>s'. asm_opcode ''ld'' (asm0 (regtok 10 # comma # atoks 0 (ANeg (ANum 8)) @ TokPunct CHR ''('' # regtok 8 # [TokPunct CHR '')''])) = Inr s' \<and>
     wrote (asm0 []) [Load WDouble False 10 8 (- 8)] s'"
proof -
  let ?s = "asm0 (regtok 10 # comma # atoks 0 (ANeg (ANum 8)) @ TokPunct CHR ''('' # regtok 8 # [TokPunct CHR '')''])"
  have "(''ld'', WDouble, False) \<in> set load_spec" by (simp add: load_spec_def)
  with asm_memory_ops [of 10 8 "ANeg (ANum 8)" "- 8" ?s "[]"] show ?thesis
    by (force simp: fits12_def)
qed

section \<open>Jumps and branches\<close>

text \<open>\<open>jal rd, offset\<close>, \<open>jal offset\<close> and \<open>j offset\<close> with an even offset of 21 signed bits assemble to the jump by
  that offset, linking in \<open>rd\<close>, \<open>ra\<close> and \<open>zero\<close>.\<close>

theorem asm_jumps:
  assumes "i < 128" "aexp_ok e" "aeval e = Inr v" "fits_j v" "ends 0 ts" "code_inv s" "\<not> nocode_wanted s"
  shows "(toks s = regtok i # comma # atoks 0 e @ ts \<longrightarrow>
      (\<exists>s'. asm_opcode ''jal'' s = Inr s' \<and> wrote (s\<lparr>toks := ts\<rparr>) [Jal (reg_no i) v] s')) \<and>
    (toks s = atoks 0 e @ ts \<longrightarrow>
      (\<exists>s'. asm_opcode ''jal'' s = Inr s' \<and> wrote (s\<lparr>toks := ts\<rparr>) [Jal 1 v] s') \<and>
      (\<exists>s'. asm_opcode ''j'' s = Inr s' \<and> wrote (s\<lparr>toks := ts\<rparr>) [Jal 0 v] s'))"
  using jal_line [OF assms(1-5) _ assms(6,7)] j_line [OF assms(2-5) _ assms(6,7)] by blast

lemma asm_jumps_witness:
  "\<exists>s'. asm_opcode ''j'' (asm0 (atoks 0 (ANeg (ANum 1048574)) @ [TokLinefeed])) = Inr s' \<and>
     wrote (asm0 [TokLinefeed]) [Jal 0 (- 1048574)] s'"
proof -
  have "fits_j (- 1048574)" unfolding fits_j_def by (intro conjI; code_simp)
  from asm_jumps [of 0 "ANeg (ANum 1048574)" _ "[TokLinefeed]" "asm0 (atoks 0 (ANeg (ANum 1048574)) @ [TokLinefeed])", OF _ _ _ this]
  show ?thesis by simp
qed

text \<open>C18. A conditional branch with a constant offset assembles to the branch on the mnemonic's condition, with bits 0
  and 10 of the offset cleared; an even offset of 13 signed bits without bit 10 is kept. Among the mnemonics that
  compare two registers the \<open>bgt\<close> family exchanges its operands. Among those that compare one register with zero two
  are wrong: \<open>blez\<close> assembles to \<open>bge rs, zero\<close> and \<open>bgez\<close> to \<open>bge zero, rs\<close>, which is the manual's encoding of the other.\<close>

theorem asm_branches:
  assumes "i < 128" "j < 128" "aexp_ok e" "aeval e = Inr v" "is_im12 v" "ends 0 ts" "code_inv s" "\<not> nocode_wanted s"
  shows "(\<forall>(t, x, swap)\<in>set branch_spec. toks s = regtok i # comma # regtok j # comma # atoks 0 e @ ts \<longrightarrow>
      (\<exists>s'. asm_opcode t s = Inr s' \<and> wrote (s\<lparr>toks := ts\<rparr>)
        [Branch x (reg_no (if swap then j else i)) (reg_no (if swap then i else j)) (if fits_b v then v else b_offset v)] s')) \<and>
    (\<forall>(t, x, swap)\<in>set branch0_spec. toks s = regtok i # comma # atoks 0 e @ ts \<longrightarrow>
      (let swap' = (if t \<in> {''blez'', ''bgez''} then \<not> swap else swap)
       in \<exists>s'. asm_opcode t s = Inr s' \<and> wrote (s\<lparr>toks := ts\<rparr>)
         [Branch x (if swap' then 0 else reg_no i) (if swap' then reg_no i else 0) (if fits_b v then v else b_offset v)] s'))"
proof -
  have b: "(if fits_b v then v else b_offset v) = b_offset v" using b_offset_fits [of v] by auto
  have x: "(if t \<in> {''blez'', ''bgez''} then \<not> swap else swap) = (swap \<noteq> exchanged t)" for t swap
    unfolding exchanged_def by auto
  show ?thesis
    using branch_line [OF _ assms(1-6) _ assms(7,8)] branch0_line [OF _ assms(1,3-6) _ assms(7,8)]
    unfolding b x Let_def by blast
qed

lemma asm_branches_witness:
  "(\<exists>s'. asm_opcode ''bgtu'' (asm0 (regtok 10 # comma # regtok 11 # comma # atoks 0 (ANum 1022) @ [TokLinefeed])) = Inr s' \<and>
     wrote (asm0 [TokLinefeed]) [Branch Bltu 11 10 1022] s') \<and>
   (\<exists>s'. asm_opcode ''bgez'' (asm0 (regtok 10 # comma # atoks 0 (ANum 8) @ [TokLinefeed])) = Inr s' \<and>
     wrote (asm0 [TokLinefeed]) [Branch Bge 0 10 8] s')"
proof
  have f: "fits_b 1022" "fits_b 8" unfolding fits_b_def by (intro conjI; code_simp)+
  have "(''bgtu'', Bltu, True) \<in> set branch_spec" "(''bgez'', Bge, False) \<in> set branch0_spec"
    by (simp_all add: branch_spec_def branch0_spec_def)
  note m = this
  show "\<exists>s'. asm_opcode ''bgtu'' (asm0 (regtok 10 # comma # regtok 11 # comma # atoks 0 (ANum 1022) @ [TokLinefeed])) = Inr s' \<and>
     wrote (asm0 [TokLinefeed]) [Branch Bltu 11 10 1022] s'"
    using asm_branches [of 10 11 "ANum 1022" 1022 "[TokLinefeed]"
      "asm0 (regtok 10 # comma # regtok 11 # comma # atoks 0 (ANum 1022) @ [TokLinefeed])", THEN conjunct1] m(1) f(1) fits_b_im12 [OF f(1)]
    by fastforce
  show "\<exists>s'. asm_opcode ''bgez'' (asm0 (regtok 10 # comma # atoks 0 (ANum 8) @ [TokLinefeed])) = Inr s' \<and>
     wrote (asm0 [TokLinefeed]) [Branch Bge 0 10 8] s'"
    using asm_branches [of 10 11 "ANum 8" 8 "[TokLinefeed]"
      "asm0 (regtok 10 # comma # atoks 0 (ANum 8) @ [TokLinefeed])", THEN conjunct2] m(2) f(2) fits_b_im12 [OF f(2)]
    by fastforce
qed

section \<open>Loading a constant\<close>

lemma li_line:
  assumes "i < 128" "aexp_ok e" "aeval e = Inr v" "ends 0 ts" "toks s = regtok i # comma # atoks 0 e @ ts"
    and "code_inv s" "\<not> nocode_wanted s"
  shows "\<exists>s'. asm_opcode ''li'' s = Inr s' \<and> wrote (s\<lparr>toks := ts\<rparr>) (li_insns (reg_no i) v) s'"
proof -
  let ?a = "reg_operand (of_nat (i mod 64))"
  have "asm_opcode ''li'' s = asm_binary_opcode ''li'' s"
    by (simp add: asm_opcode_def asm_opcode_base_def asm_opcode_ext_def)
  also have "\<dots> = asm_li ''li'' ?a (const_operand v) (s\<lparr>toks := ts\<rparr>)"
    using parse_reg_const [OF assms(1,2,4,3,5)]
    by (simp add: asm_binary_opcode_def Let_def switch_def binary_upper_def binary_c1_def binary_c2_def binary_pseudo_def)
  finally have e: "asm_opcode ''li'' s = asm_li ''li'' ?a (const_operand v) (s\<lparr>toks := ts\<rparr>)" .
  obtain cs where "asm_li ''li'' ?a (const_operand v) = run cs" "list_all2 emits cs (li_insns (reg5 ?a) v)"
    using li_emits [of ?a "''li''" v] by auto
  with emits_run [of cs "li_insns (reg_no i) v" "s\<lparr>toks := ts\<rparr>"] assms(6,7) e show ?thesis
    by (simp add: reg5_reg_operand)
qed

text \<open>C19. \<open>li rd, constant\<close> with any 64-bit constant assembles to eight instructions that, executed, leave the constant
  in the register and change no other register and no memory; only when the low half of the constant lies
  between \<open>0x7ff80000\<close> and \<open>0x7fffffff\<close> the result is less by \<open>2 ^ 32\<close>.\<close>

theorem asm_li_loads:
  assumes "i < 128" "aexp_ok e" "aeval e = Inr v" "ends 0 ts" "toks s = regtok i # comma # atoks 0 e @ ts"
    and "code_inv s" "\<not> nocode_wanted s" "reg_no i \<noteq> 0"
  shows "\<exists>s' is. asm_opcode ''li'' s = Inr s' \<and> wrote (s\<lparr>toks := ts\<rparr>) is s' \<and> length is = 8 \<and>
    (\<exists>m'. exec_list is m = Some m' \<and> pc m' = pc m + 32 \<and> rmem m' = rmem m \<and>
      xr m' (reg_no i) = (if 0x7ff80000 \<le> sint (u32 v) then v - 2 ^ 32 else v) \<and>
      (\<forall>q. q \<noteq> reg_no i \<longrightarrow> xr m' q = xr m q))"
proof -
  obtain s' where "asm_opcode ''li'' s = Inr s'" "wrote (s\<lparr>toks := ts\<rparr>) (li_insns (reg_no i) v) s'"
    using li_line [OF assms(1-7)] by blast
  moreover have "length (li_insns (reg_no i) v) = 8" by (simp add: li_insns_def split: prod.split)
  moreover have "v - (if li_overflow v then 2 ^ 32 else 0) = (if 0x7ff80000 \<le> sint (u32 v) then v - 2 ^ 32 else v)"
    by (simp add: li_overflow_def)
  ultimately show ?thesis using li_exec [OF assms(8), of v m] by metis
qed

lemma asm_li_loads_witness:
  "\<forall>m. \<exists>s' is. asm_opcode ''li'' (asm0 (regtok 10 # comma # atoks 0 (ANum 0x123456789abcdef0) @ [TokLinefeed])) = Inr s' \<and>
     wrote (asm0 [TokLinefeed]) is s' \<and> (\<exists>m'. exec_list is m = Some m' \<and> xr m' 10 = 0x123456789abcdef0)"
proof
  fix m :: rv
  have "sint (u32 (0x123456789abcdef0 :: 64 word)) = - 0x65432110" by code_simp
  with asm_li_loads [of 10 "ANum 0x123456789abcdef0" "0x123456789abcdef0" "[TokLinefeed]"
      "asm0 (regtok 10 # comma # atoks 0 (ANum 0x123456789abcdef0) @ [TokLinefeed])" m]
  show "\<exists>s' is. asm_opcode ''li'' (asm0 (regtok 10 # comma # atoks 0 (ANum 0x123456789abcdef0) @ [TokLinefeed])) = Inr s' \<and>
     wrote (asm0 [TokLinefeed]) is s' \<and> (\<exists>m'. exec_list is m = Some m' \<and> xr m' 10 = 0x123456789abcdef0)"
    by simp blast
qed

section \<open>Flaws\<close>

text \<open>The two register shifts with a wrong word in the source's table: \<open>srl\<close> assembles to \<open>xor\<close>, and \<open>sraw\<close> to the
  logical shift. (For \<open>sraiw\<close> see \<open>asm_immediate_ops\<close>, for \<open>blez\<close> and \<open>bgez\<close> \<open>asm_branches\<close>.)\<close>

theorem asm_wrong_shifts:
  assumes "i < 128" "j < 128" "k < 128" "code_inv s" "\<not> nocode_wanted s"
    and s: "toks s = regtok i # comma # regtok j # comma # regtok k # ts"
  shows "(\<exists>s'. asm_opcode ''srl'' s = Inr s' \<and> wrote (s\<lparr>toks := ts\<rparr>) [Op Xor False (reg_no i) (reg_no j) (reg_no k)] s') \<and>
    (\<exists>s'. asm_opcode ''sraw'' s = Inr s' \<and> wrote (s\<lparr>toks := ts\<rparr>) [Op Srl True (reg_no i) (reg_no j) (reg_no k)] s')"
proof -
  let ?a = "reg_operand (of_nat (i mod 64))" and ?b = "reg_operand (of_nat (j mod 64))" and ?c = "reg_operand (of_nat (k mod 64))"
  have t: "''srl'' \<in> set ternary_toks" "''sraw'' \<in> set ternary_toks" using specs_ternary(2) by auto
  note w = wrong_r [of ?a ?b ?c "\<lambda>s. expect ''ternary instruction''", OF op_type_reg op_type_reg op_type_reg, unfolded reg5_reg_operand]
  note l = line_ternary [OF _ parse_regs3 [OF assms(1-3) s]]
  show ?thesis
    by (intro conjI) (rule emits_line [OF w(1)], rule assms, rule assms, rule l [OF t(1)],
      rule emits_line [OF w(2)], rule assms, rule assms, rule l [OF t(2)])
qed

lemma asm_wrong_shifts_witness:
  "\<exists>s'. asm_opcode ''srl'' (asm0 [regtok 10, comma, regtok 11, comma, regtok 12, TokLinefeed]) = Inr s' \<and>
     wrote (asm0 [TokLinefeed]) [Op Xor False 10 11 12] s'"
  using asm_wrong_shifts [of 10 11 12 "asm0 [regtok 10, comma, regtok 11, comma, regtok 12, TokLinefeed]" "[TokLinefeed]"]
  by simp

end
