(* ===== verification/RiscvLink.thy ===== *)
theory RiscvLink
  imports AsmExpr
begin

text \<open>
  The RISC-V part of the linker (\<open>riscv64-link.c\<close>): the classification of relocation types, the procedure
  linkage table and \<open>relocate\<close>. A pointer into a section's data is its offset; the fields of \<open>TCCState\<close> that
  \<open>relocate\<close> reads for the relocation at hand (output type, address of the GOT, the attributes of the symbol,
  the entry itself) are the record \<open>rel_env\<close>, what it writes is \<open>link_st\<close>. \<open>tcc_error_noabort\<close> counts
  an error and goes on.
\<close>

unbundle bit_operations_syntax

section \<open>Kinds of relocations\<close>

datatype gotplt_entry = NO_GOTPLT_ENTRY | BUILD_GOT_ONLY | AUTO_GOTPLT_ENTRY | ALWAYS_GOTPLT_ENTRY

definition code_reloc :: "rel_type \<Rightarrow> int" where
  "code_reloc t =
    (if t \<in> set [R_RISCV_BRANCH, R_RISCV_CALL, R_RISCV_JAL] then 1
     else if t \<in> set [R_RISCV_GOT_HI20, R_RISCV_PCREL_HI20, R_RISCV_PCREL_LO12_I, R_RISCV_PCREL_LO12_S, R_RISCV_32_PCREL,
        R_RISCV_SET6, R_RISCV_SET8, R_RISCV_SET16, R_RISCV_SUB6, R_RISCV_ADD16, R_RISCV_ADD32, R_RISCV_ADD64,
        R_RISCV_SUB8, R_RISCV_SUB16, R_RISCV_SUB32, R_RISCV_SUB64, R_RISCV_32, R_RISCV_64] then 0
     else if t = R_RISCV_CALL_PLT then 1
     else - 1)"

definition gotplt_entry_type :: "rel_type \<Rightarrow> gotplt_entry option" where
  "gotplt_entry_type t =
    (if t \<in> set [R_RISCV_ALIGN, R_RISCV_RELAX, R_RISCV_RVC_BRANCH, R_RISCV_RVC_JUMP, R_RISCV_JUMP_SLOT, R_RISCV_SET6,
        R_RISCV_SET8, R_RISCV_SET16, R_RISCV_SUB6, R_RISCV_ADD16, R_RISCV_SUB8, R_RISCV_SUB16] then Some NO_GOTPLT_ENTRY
     else if t \<in> set [R_RISCV_BRANCH, R_RISCV_CALL, R_RISCV_PCREL_HI20, R_RISCV_PCREL_LO12_I, R_RISCV_PCREL_LO12_S,
        R_RISCV_32_PCREL, R_RISCV_ADD32, R_RISCV_ADD64, R_RISCV_SUB32, R_RISCV_SUB64, R_RISCV_32, R_RISCV_64,
        R_RISCV_JAL, R_RISCV_CALL_PLT] then Some AUTO_GOTPLT_ENTRY
     else if t = R_RISCV_GOT_HI20 then Some ALWAYS_GOTPLT_ENTRY
     else None)"

section \<open>The procedure linkage table\<close>

definition create_plt_entry :: "32 word \<Rightarrow> 'a sec_scheme \<Rightarrow> nat \<times> 'a sec_scheme" where
  "create_plt_entry got_offset plt =
    (let plt1 = (if data_offset plt = 0 then snd (section_ptr_add 32 plt) else plt);
         plt_offset = data_offset plt1;
         (p, plt2) = section_ptr_add 16 plt1
     in (plt_offset, plt2\<lparr>sec_data := write64le (sec_data plt2) p (u64 got_offset)\<rparr>))"

text \<open>The high part of a distance, and the test that it has 21 bits.\<close>

definition plt_out_of_range :: "64 word \<Rightarrow> bool" where
  "plt_out_of_range off \<longleftrightarrow> drop_bit 21 (off + push_bit 20 1) \<noteq> 0"

text \<open>The words of the header: \<open>auipc t2\<close>, \<open>sub t1, t1, t3\<close>, \<open>ld t3\<close>, \<open>addi t1\<close>, \<open>addi t0, t2\<close>, \<open>srli t1\<close>,
  \<open>ld t0\<close>, \<open>jr t3\<close>.\<close>

definition plt_header :: "64 word \<Rightarrow> 64 word \<Rightarrow> 32 word list" where
  "plt_header plt got =
    (let off = drop_bit 12 (got - plt + 0x800); lo = push_bit 20 ((got - plt) AND 0xfff)
     in [u32 (0x397 OR push_bit 12 off), 0x41c30333, u32 (0x0003be03 OR lo), 0xfd430313,
         u32 (0x00038293 OR lo), 0x00135313, 0x0082b283, 0x000e0067])"

definition plt_entry :: "64 word \<Rightarrow> 64 word \<Rightarrow> 32 word list" where
  "plt_entry pc addr =
    (let off = drop_bit 12 (addr - pc + 0x800)
     in [u32 (0xe17 OR push_bit 12 off), u32 (0x000e3e03 OR push_bit 20 ((addr - pc) AND 0xfff)), 0x000e0367, 0x00000013])"

fun write_words :: "8 word list \<Rightarrow> nat \<Rightarrow> 32 word list \<Rightarrow> 8 word list" where
  "write_words d p [] = d"
| "write_words d p (w # ws) = write_words (write32le d p w) (p + 4) ws"

text \<open>The loop over the entries: the new bytes and the number of entries that are out of range.\<close>

function plt_loop :: "64 word \<Rightarrow> 64 word \<Rightarrow> nat \<Rightarrow> nat \<Rightarrow> 8 word list \<Rightarrow> 8 word list \<times> nat" where
  "plt_loop plt got p p_end d =
    (if p < p_end then
       let pc = plt + of_nat p; addr = got + read64le d p; off = drop_bit 12 (addr - pc + 0x800);
           (d1, n) = plt_loop plt got (p + 16) p_end (write_words d p (plt_entry pc addr))
       in (d1, (if plt_out_of_range off then 1 else 0) + n)
     else (d, 0))"
  by pat_completeness auto
termination by (relation "measure (\<lambda>(plt, got, p, p_end, d). p_end - p)") auto

declare plt_loop.simps [simp del]

definition relocate_plt :: "64 word \<Rightarrow> 64 word \<Rightarrow> 'a sec_scheme \<Rightarrow> 'a sec_scheme \<times> nat" where
  "relocate_plt plt_addr got_addr plt =
    (if 0 < data_offset plt then
       let off = drop_bit 12 (got_addr - plt_addr + 0x800);
           d = write_words (sec_data plt) 0 (plt_header plt_addr got_addr);
           (d1, n) = plt_loop plt_addr got_addr 32 (data_offset plt) d
       in (plt\<lparr>sec_data := d1\<rparr>, (if plt_out_of_range off then 1 else 0) + n)
     else (plt, 0))"

text \<open>The slots of the GOT named by the relocations of the PLT get its address, the header.\<close>

definition relocate_got :: "64 word \<Rightarrow> nat list \<Rightarrow> 8 word list \<Rightarrow> 8 word list" where
  "relocate_got plt_addr offsets d = fold (\<lambda>i d. write64le d i plt_addr) offsets d"

section \<open>Relocation\<close>

record dyn_rel =
  q_offset :: "64 word"
  q_sym :: nat
  q_type :: rel_type
  q_addend :: "64 word"

record rel_env =
  output_dyn :: bool
  got_addr :: "64 word"
  sym_got_offset :: "32 word"
  sym_dyn_index :: nat
  rel_offset :: "64 word"
  rel_addend :: "64 word"

record link_st =
  ldata :: "8 word list"
  last_hi :: "64 word \<times> 64 word"
  nb_errors :: nat
  qrel :: "dyn_rel list"

definition error_if :: "bool \<Rightarrow> link_st \<Rightarrow> link_st" where
  "error_if c s = (if c then s\<lparr>nb_errors := nb_errors s + 1\<rparr> else s)"

definition patch :: "(8 word list \<Rightarrow> 8 word list) \<Rightarrow> link_st \<Rightarrow> link_st" where
  "patch f s = s\<lparr>ldata := f (ldata s)\<rparr>"

definition patch32 :: "nat \<Rightarrow> (32 word \<Rightarrow> 32 word) \<Rightarrow> link_st \<Rightarrow> link_st" where
  "patch32 p f = patch (\<lambda>d. write32le d p (f (read32le d p)))"

definition patch16 :: "nat \<Rightarrow> (32 word \<Rightarrow> 32 word) \<Rightarrow> link_st \<Rightarrow> link_st" where
  "patch16 p f = patch (\<lambda>d. write16le d p (u16 (f (u32 (read16le d p)))))"

definition patch8 :: "nat \<Rightarrow> (64 word \<Rightarrow> 64 word) \<Rightarrow> link_st \<Rightarrow> link_st" where
  "patch8 p f = patch (\<lambda>d. d[p := u8 (f (u64 (d ! p)))])"

definition hi20 :: "64 word \<Rightarrow> 64 word \<Rightarrow> 64 word" where
  "hi20 val addr = signed_drop_bit 12 (val - addr + 0x800)"

definition relocate_branch :: "nat \<Rightarrow> 64 word \<Rightarrow> 64 word \<Rightarrow> link_st \<Rightarrow> link_st" where
  "relocate_branch p addr val s =
    (let off64 = val - addr; off32 = u32 (drop_bit 1 off64)
     in patch32 p (\<lambda>w. (w AND NOT 0xfe000f80) OR push_bit 20 (off32 AND 0x800) OR push_bit 21 (off32 AND 0x3f0)
          OR push_bit 8 (off32 AND 0x00f) OR drop_bit 3 (off32 AND 0x400))
        (error_if ((off64 + push_bit 12 1) AND NOT 0x1ffe \<noteq> 0) s))"

definition relocate_jal :: "nat \<Rightarrow> 64 word \<Rightarrow> 64 word \<Rightarrow> link_st \<Rightarrow> link_st" where
  "relocate_jal p addr val s =
    (let off64 = val - addr; off32 = u32 off64
     in patch32 p (\<lambda>w. (w AND 0xfff) OR push_bit 12 (drop_bit 12 off32 AND 0xff) OR push_bit 20 (drop_bit 11 off32 AND 1)
          OR push_bit 21 (drop_bit 1 off32 AND 0x3ff) OR push_bit 31 (drop_bit 20 off32 AND 1))
        (error_if ((off64 + push_bit 21 1) AND NOT (push_bit 22 1 - 2) \<noteq> 0) s))"

definition relocate_call :: "nat \<Rightarrow> 64 word \<Rightarrow> 64 word \<Rightarrow> link_st \<Rightarrow> link_st" where
  "relocate_call p addr val s =
    patch32 (p + 4) (\<lambda>w. u32 (u64 (w AND 0xfffff) OR push_bit 20 ((val - addr) AND 0xfff)))
      (patch32 p (\<lambda>w. u32 (u64 (w AND 0xfff) OR ((val - addr + 0x800) AND NOT 0xfff))) s)"

definition relocate_hi20 :: "nat \<Rightarrow> 64 word \<Rightarrow> 64 word \<Rightarrow> link_st \<Rightarrow> link_st" where
  "relocate_hi20 p addr val s =
    (let off64 = hi20 val addr
     in (patch32 p (\<lambda>w. u32 (u64 (w AND 0xfff) OR push_bit 12 (off64 AND 0xfffff)))
          (error_if (drop_bit 21 (off64 + push_bit 20 1) \<noteq> 0) s))\<lparr>last_hi := (addr, val)\<rparr>)"

definition relocate_lo12_i :: "nat \<Rightarrow> 64 word \<Rightarrow> link_st \<Rightarrow> link_st" where
  "relocate_lo12_i p val s =
    (let (addr1, val1) = last_hi s
     in patch32 p (\<lambda>w. u32 (u64 (w AND 0xfffff) OR push_bit 20 ((val1 - addr1) AND 0xfff))) (error_if (val \<noteq> addr1) s))"

definition relocate_lo12_s :: "nat \<Rightarrow> 64 word \<Rightarrow> link_st \<Rightarrow> link_st" where
  "relocate_lo12_s p val s =
    (let (addr1, val1) = last_hi s; off32 = u32 (val1 - addr1)
     in patch32 p (\<lambda>w. (w AND NOT 0xfe000f80) OR push_bit 20 (off32 AND 0xfe0) OR push_bit 7 (off32 AND 0x01f))
          (error_if (val \<noteq> addr1) s))"

definition relocate_rvc_branch :: "nat \<Rightarrow> 64 word \<Rightarrow> 64 word \<Rightarrow> link_st \<Rightarrow> link_st" where
  "relocate_rvc_branch p addr val s =
    (let off64 = val - addr; off32 = u32 off64
     in patch16 p (\<lambda>w. (w AND 0xe383) OR push_bit 2 (drop_bit 5 off32 AND 1) OR push_bit 3 (drop_bit 1 off32 AND 3)
          OR push_bit 5 (drop_bit 6 off32 AND 3) OR push_bit 10 (drop_bit 3 off32 AND 3) OR push_bit 12 (drop_bit 8 off32 AND 1))
        (error_if ((off64 + push_bit 8 1) AND NOT 0x1fe \<noteq> 0) s))"

definition relocate_rvc_jump :: "nat \<Rightarrow> 64 word \<Rightarrow> 64 word \<Rightarrow> link_st \<Rightarrow> link_st" where
  "relocate_rvc_jump p addr val s =
    (let off64 = val - addr; off32 = u32 off64
     in patch16 p (\<lambda>w. (w AND 0xe003) OR push_bit 2 (drop_bit 5 off32 AND 1) OR push_bit 3 (drop_bit 1 off32 AND 7)
          OR push_bit 6 (drop_bit 7 off32 AND 1) OR push_bit 7 (drop_bit 6 off32 AND 1) OR push_bit 8 (drop_bit 10 off32 AND 1)
          OR push_bit 9 (drop_bit 8 off32 AND 3) OR push_bit 11 (drop_bit 4 off32 AND 1) OR push_bit 12 (drop_bit 11 off32 AND 1))
        (error_if ((off64 + push_bit 11 1) AND NOT 0xffe \<noteq> 0) s))"

definition add_qrel :: "rel_env \<Rightarrow> nat \<Rightarrow> rel_type \<Rightarrow> 64 word \<Rightarrow> link_st \<Rightarrow> link_st" where
  "add_qrel e i t a s = s\<lparr>qrel := qrel s @ [\<lparr>q_offset = rel_offset e, q_sym = i, q_type = t, q_addend = a\<rparr>]\<rparr>"

definition relocate_32 :: "rel_env \<Rightarrow> nat \<Rightarrow> 64 word \<Rightarrow> link_st \<Rightarrow> link_st" where
  "relocate_32 e p val s =
    patch (\<lambda>d. add32le d p (u32 val))
      (if output_dyn e then add_qrel e 0 R_RISCV_RELATIVE (scast (read32le (ldata s) p) + val) s else s)"

definition relocate_64 :: "rel_env \<Rightarrow> nat \<Rightarrow> 64 word \<Rightarrow> link_st \<Rightarrow> link_st" where
  "relocate_64 e p val s =
    (if output_dyn e \<and> sym_dyn_index e \<noteq> 0 then add_qrel e (sym_dyn_index e) R_RISCV_64 (rel_addend e) s
     else
       patch (\<lambda>d. add64le d p val)
         (if output_dyn e then add_qrel e 0 R_RISCV_RELATIVE (read64le (ldata s) p + val) s else s))"

definition relocate :: "rel_env \<Rightarrow> rel_type \<Rightarrow> nat \<Rightarrow> 64 word \<Rightarrow> 64 word \<Rightarrow> link_st \<Rightarrow> link_st" where
  "relocate e type p addr val s =
    (case type of
       R_RISCV_ALIGN \<Rightarrow> s | R_RISCV_RELAX \<Rightarrow> s
     | R_RISCV_BRANCH \<Rightarrow> relocate_branch p addr val s
     | R_RISCV_JAL \<Rightarrow> relocate_jal p addr val s
     | R_RISCV_CALL \<Rightarrow> relocate_call p addr val s
     | R_RISCV_CALL_PLT \<Rightarrow> relocate_call p addr val s
     | R_RISCV_PCREL_HI20 \<Rightarrow> relocate_hi20 p addr val s
     | R_RISCV_GOT_HI20 \<Rightarrow> relocate_hi20 p addr (got_addr e + u64 (sym_got_offset e)) s
     | R_RISCV_PCREL_LO12_I \<Rightarrow> relocate_lo12_i p val s
     | R_RISCV_PCREL_LO12_S \<Rightarrow> relocate_lo12_s p val s
     | R_RISCV_RVC_BRANCH \<Rightarrow> relocate_rvc_branch p addr val s
     | R_RISCV_RVC_JUMP \<Rightarrow> relocate_rvc_jump p addr val s
     | R_RISCV_32 \<Rightarrow> relocate_32 e p val s
     | R_RISCV_64 \<Rightarrow> relocate_64 e p val s
     | R_RISCV_JUMP_SLOT \<Rightarrow> patch (\<lambda>d. add64le d p val) s
     | R_RISCV_ADD64 \<Rightarrow> patch (\<lambda>d. write64le d p (read64le d p + val)) s
     | R_RISCV_ADD32 \<Rightarrow> patch (\<lambda>d. write32le d p (read32le d p + u32 val)) s
     | R_RISCV_SUB64 \<Rightarrow> patch (\<lambda>d. write64le d p (read64le d p - val)) s
     | R_RISCV_SUB32 \<Rightarrow> patch (\<lambda>d. write32le d p (read32le d p - u32 val)) s
     | R_RISCV_ADD16 \<Rightarrow> patch (\<lambda>d. write16le d p (read16le d p + u16 val)) s
     | R_RISCV_SUB8 \<Rightarrow> patch8 p (\<lambda>b. b - val) s
     | R_RISCV_SUB16 \<Rightarrow> patch (\<lambda>d. write16le d p (read16le d p - u16 val)) s
     | R_RISCV_SET6 \<Rightarrow> patch8 p (\<lambda>b. (b AND NOT 0x3f) OR (val AND 0x3f)) s
     | R_RISCV_SET8 \<Rightarrow> patch8 p (\<lambda>b. (b AND NOT 0xff) OR (val AND 0xff)) s
     | R_RISCV_SET16 \<Rightarrow> patch8 p (\<lambda>b. (b AND NOT 0xffff) OR (val AND 0xffff)) s
     | R_RISCV_SUB6 \<Rightarrow> patch8 p (\<lambda>b. (b AND NOT 0x3f) OR ((b - val) AND 0x3f)) s
     | _ \<Rightarrow> s)"

end
