(* ===== verification/RelocWords.thy ===== *)
theory RelocWords
  imports RiscvLink AsmDecode HiLo
begin

text \<open>
  Instruction words in which the linker replaces the immediate: the other fields stay, the immediate is the
  distance. One lemma for each of the formats B, J, U, I and S, and the tests of the ranges.
\<close>

unbundle bit_operations_syntax

section \<open>Ranges\<close>

lemma biased_less:
  fixes x :: "'a::len word"
  assumes "Suc k < LENGTH('a)"
  shows "x + 2 ^ k < 2 ^ Suc k \<longleftrightarrow> - (2 ^ k) \<le> sint x \<and> sint x < 2 ^ k"
proof -
  define L where "L = LENGTH('a)"
  have k: "(2 :: int) ^ Suc k < 2 ^ L" "(2 :: int) ^ Suc k \<le> 2 ^ (L - 1)" 
    using assms by (auto simp: L_def simp del: power_Suc intro!: power_strict_increasing power_increasing)
  have L: "(2 :: int) ^ L = 2 * 2 ^ (L - 1)" by (cases L) (simp_all add: L_def)
  have r: "- (2 ^ (L - 1)) \<le> sint x" "sint x < 2 ^ (L - 1)" using sint_range_size [of x] by (simp_all add: word_size L_def)
  have "x + 2 ^ k = word_of_int (sint x + 2 ^ k)" by simp
  then have "uint (x + 2 ^ k) = uint (word_of_int (sint x + 2 ^ k) :: 'a word)" by (rule arg_cong)
  then have u: "uint (x + 2 ^ k) = (sint x + 2 ^ k) mod 2 ^ L" by (simp only: uint_word_of_int L_def)
  have "x + 2 ^ k < 2 ^ Suc k \<longleftrightarrow> uint (x + 2 ^ k) < 2 ^ Suc k"
    using assms by (intro word_2p_lem) (simp add: word_size)
  then have c: "x + 2 ^ k < 2 ^ Suc k \<longleftrightarrow> (sint x + 2 ^ k) mod 2 ^ L < 2 ^ Suc k" by (simp only: u)
  show ?thesis
  proof (cases "- (2 ^ k) \<le> sint x")
    case True
    then have "(sint x + 2 ^ k) mod 2 ^ L = sint x + 2 ^ k" using r k L by (intro mod_pos_pos_trivial) simp_all
    with c True show ?thesis by auto
  next
    case False
    then have "(sint x + 2 ^ k + 2 ^ L) mod 2 ^ L = sint x + 2 ^ k + 2 ^ L" using r L zero_less_power [of "2 :: int" k]
      by (intro mod_pos_pos_trivial) linarith+
    then have "(sint x + 2 ^ k) mod 2 ^ L = sint x + 2 ^ k + 2 ^ L" by simp
    with c False r k L show ?thesis by auto
  qed
qed

lemma and_not_eq_0:
  fixes y :: "'a::len word"
  assumes "m < LENGTH('a)"
  shows "y AND NOT (mask m AND NOT 1) = 0 \<longleftrightarrow> y < 2 ^ m \<and> \<not> bit y 0"
proof -
  have "y < 2 ^ m \<longleftrightarrow> take_bit m y = y" using less_mask_eq [of y m] and_mask_less' [of m y] assms
    by (auto simp: take_bit_eq_mask)
  also have "\<dots> \<longleftrightarrow> (\<forall>n. m \<le> n \<longrightarrow> \<not> bit y n)"
    by (auto simp: bit_eq_iff bit_take_bit_iff not_le dest: bit_imp_le_length)
  finally have l: "y < 2 ^ m \<longleftrightarrow> (\<forall>n. m \<le> n \<longrightarrow> \<not> bit y n)" .
  have "y AND NOT (mask m AND NOT 1) = 0 \<longleftrightarrow> (\<forall>n. bit y n \<longrightarrow> n < m \<and> n \<noteq> 0)"
    by (auto simp: bit_eq_iff bit_simps dest: bit_imp_le_length)
  then show ?thesis unfolding l by (meson not_le not_gr_zero)
qed

text \<open>The test on a jump's distance: it has the given number of bits and is even.\<close>

lemma jump_range:
  fixes x :: "64 word"
  assumes "Suc k < 64" "0 < k"
  shows "(x + 2 ^ k) AND NOT (mask (Suc k) AND NOT 1) = 0 \<longleftrightarrow> - (2 ^ k) \<le> sint x \<and> sint x < 2 ^ k \<and> \<not> bit x 0"
proof -
  have "bit (x + 2 ^ k) 0 = bit x 0" using assms by (simp add: bit_0)
  then show ?thesis using biased_less [of k x] and_not_eq_0 [of "Suc k" "x + 2 ^ k"] assms by auto
qed

lemma hi_range:
  fixes x :: "64 word"
  assumes "Suc k < 64"
  shows "drop_bit (Suc k) (x + push_bit k 1) = 0 \<longleftrightarrow> - (2 ^ k) \<le> sint x \<and> sint x < 2 ^ k"
proof -
  have "drop_bit (Suc k) y = 0 \<longleftrightarrow> y < 2 ^ Suc k" for y :: "64 word"
  proof -
    have "drop_bit (Suc k) y = 0 \<longleftrightarrow> unat y div 2 ^ Suc k = 0"
      by (simp only: word_unat_eq_iff unat_drop_bit_eq unat_0) (simp only: drop_bit_eq_div)
    also have "\<dots> \<longleftrightarrow> uint y < 2 ^ Suc k"
      by (simp only: div_eq_0_iff uint_nat) (metis of_nat_less_iff of_nat_numeral of_nat_power power_not_zero zero_neq_numeral)
    also have "\<dots> \<longleftrightarrow> y < 2 ^ Suc k" using assms word_2p_lem [of "Suc k" y] by (simp add: word_size del: power_Suc)
    finally show ?thesis .
  qed
  then show ?thesis using biased_less [of k x] assms by (simp add: push_bit_eq_mult del: power_Suc)
qed

section \<open>Words with a new immediate\<close>

lemma field_and [fields]:
  "(ucast (drop_bit k (a AND b)) :: 'b::len word) = ucast (drop_bit k a) AND ucast (drop_bit k b)"
  for a b :: "'a::len word"
  by (intro bit_word_eqI) (auto simp: bit_simps dest: bit_imp_le_length)

lemma field_and_0 [fields]: "(ucast (a AND b) :: 'b::len word) = ucast a AND ucast b" for a b :: "'a::len word"
  by (intro bit_word_eqI) (auto simp: bit_simps dest: bit_imp_le_length)

text \<open>The offset of a branch, without bit 0.\<close>

definition b_dist :: "64 word \<Rightarrow> 64 word" where "b_dist x = scast (ucast x AND NOT 1 :: 13 word)"

definition b_word :: "32 word \<Rightarrow> 32 word \<Rightarrow> 32 word" where
  "b_word w x = (w AND NOT 0xfe000f80) OR push_bit 20 (x AND 0x800) OR push_bit 21 (x AND 0x3f0)
      OR push_bit 8 (x AND 0x00f) OR drop_bit 3 (x AND 0x400)"

lemma b_word_fields:
  "opcode (b_word w x) = opcode w" "funct3 (b_word w x) = funct3 w" "rs1f (b_word w x) = rs1f w" "rs2f (b_word w x) = rs2f w"
  by (rule bits_eqI, simp add: b_word_def opcode_def funct3_def rs1f_def rs2f_def each_bit)+

lemma imm_b_word: "imm_b (b_word w (u32 (drop_bit 1 v))) = b_dist v"
  unfolding imm_b_def b_dist_def
  by (rule arg_cong [where f = scast], rule bits_eqI) (simp add: b_word_def each_bit, simp add: numeral_2_eq_2)

text \<open>The offset of a jump.\<close>

definition j_dist :: "64 word \<Rightarrow> 64 word" where "j_dist x = scast (ucast x AND NOT 1 :: 21 word)"

definition j_word :: "32 word \<Rightarrow> 32 word \<Rightarrow> 32 word" where
  "j_word w x = (w AND 0xfff) OR push_bit 12 (drop_bit 12 x AND 0xff) OR push_bit 20 (drop_bit 11 x AND 1)
      OR push_bit 21 (drop_bit 1 x AND 0x3ff) OR push_bit 31 (drop_bit 20 x AND 1)"

lemma j_word_fields: "opcode (j_word w x) = opcode w" "rdf (j_word w x) = rdf w"
  by (rule bits_eqI, simp add: j_word_def opcode_def rdf_def each_bit)+

lemma imm_j_word: "imm_j (j_word w (u32 v)) = j_dist v"
  unfolding imm_j_def j_dist_def
  by (rule arg_cong [where f = scast], rule bits_eqI) (simp add: j_word_def each_bit, simp add: numeral_2_eq_2)

text \<open>The upper part, in one of the two ways in which the code writes it.\<close>

definition hi_part :: "64 word \<Rightarrow> 64 word" where "hi_part x = scast (push_bit 12 (drop_bit 12 (u32 (x + 0x800))))"

definition u_word :: "32 word \<Rightarrow> 64 word \<Rightarrow> 32 word" where
  "u_word w x = u32 (u64 (w AND 0xfff) OR x)"

lemma u_word_fields:
  "12 \<le> n \<Longrightarrow> opcode (u_word w (push_bit n x)) = opcode w"
  "12 \<le> n \<Longrightarrow> rdf (u_word w (push_bit n x)) = rdf w"
  by (rule bits_eqI, simp add: u_word_def opcode_def rdf_def each_bit)+

lemma imm_u_word: "imm_u (u_word w (push_bit 12 x)) = scast (push_bit 12 (u32 x))"
  unfolding imm_u_def
  by (rule arg_cong [where f = scast], rule bits_eqI) (simp add: u_word_def each_bit)

definition i_word :: "32 word \<Rightarrow> 64 word \<Rightarrow> 32 word" where
  "i_word w x = u32 (u64 (w AND 0xfffff) OR push_bit 20 (x AND 0xfff))"

lemma i_word_fields:
  "opcode (i_word w x) = opcode w" "rdf (i_word w x) = rdf w" "funct3 (i_word w x) = funct3 w" "rs1f (i_word w x) = rs1f w"
  by (rule bits_eqI, simp add: i_word_def opcode_def rdf_def funct3_def rs1f_def each_bit)+

lemma imm_i_word: "imm_i (i_word w x) = imm12 x"
  unfolding imm_i_def imm12_def
  by (rule arg_cong [where f = scast], rule bits_eqI) (simp add: i_word_def each_bit)

definition s_word :: "32 word \<Rightarrow> 32 word \<Rightarrow> 32 word" where
  "s_word w x = (w AND NOT 0xfe000f80) OR push_bit 20 (x AND 0xfe0) OR push_bit 7 (x AND 0x01f)"

lemma s_word_fields:
  "opcode (s_word w x) = opcode w" "funct3 (s_word w x) = funct3 w" "rs1f (s_word w x) = rs1f w" "rs2f (s_word w x) = rs2f w"
  by (rule bits_eqI, simp add: s_word_def opcode_def funct3_def rs1f_def rs2f_def each_bit)+

lemma imm_s_word: "imm_s (s_word w (u32 x)) = imm12 x"
  unfolding imm_s_def imm12_def rdf_def funct7_def
  by (rule arg_cong [where f = scast], rule bits_eqI) (simp add: s_word_def each_bit)

section \<open>What the words decode to\<close>

definition transfer :: "insn \<Rightarrow> bool" where
  "transfer i = (case i of Auipc _ _ \<Rightarrow> True | Jal _ _ \<Rightarrow> True | Jalr _ _ _ \<Rightarrow> True | Branch _ _ _ _ \<Rightarrow> True
     | Load _ _ _ _ _ \<Rightarrow> True | Store _ _ _ _ \<Rightarrow> True | _ \<Rightarrow> False)"

lemma not_transfer:
  "decode_opimm b w = Some i \<Longrightarrow> \<not> transfer i" "decode_system w = Some i \<Longrightarrow> \<not> transfer i"
  "decode_amo w = Some i \<Longrightarrow> \<not> transfer i"
  by (auto simp: decode_opimm_def decode_system_def decode_amo_def Let_def transfer_def split: if_split_asm)

lemma decode_transfer:
  "decode w = Some i \<Longrightarrow> transfer i \<Longrightarrow>
    opcode w = 0x17 \<and> i = Auipc (rdf w) (imm_u w) \<or>
    opcode w = 0x6f \<and> i = Jal (rdf w) (imm_j w) \<or>
    opcode w = 0x67 \<and> funct3 w = 0 \<and> i = Jalr (rdf w) (rs1f w) (imm_i w) \<or>
    opcode w = 0x63 \<and> (\<exists>c. decode_branch (funct3 w) = Some c \<and> i = Branch c (rs1f w) (rs2f w) (imm_b w)) \<or>
    opcode w = 0x03 \<and> funct3 w \<noteq> 7 \<and> i = Load (width_of (funct3 w)) (bit (funct3 w) 2) (rdf w) (rs1f w) (imm_i w) \<or>
    opcode w = 0x23 \<and> \<not> funct3 w > 3 \<and> i = Store (width_of (funct3 w)) (rs1f w) (rs2f w) (imm_s w)"
proof -
  assume d: "decode w = Some i" and tr: "transfer i"
  show ?thesis
  proof (cases "opcode w \<in> {0x17, 0x6f, 0x67, 0x63, 0x03, 0x23}")
    case True
    then show ?thesis
      using d by (elim insertE emptyE; simp add: decode_def Let_def split: if_split_asm) auto
  next
    case False
    then have "\<not> transfer i"
      using d unfolding decode_def Let_def
      by (auto simp: not_transfer transfer_def split: if_split_asm option.split_asm dest: not_transfer)
    with tr show ?thesis by contradiction
  qed
qed

lemma decode_addi:
  "decode w = Some (OpImm Add False r r1 d) \<Longrightarrow> opcode w = 0x13 \<and> funct3 w = 0 \<and> r = rdf w \<and> r1 = rs1f w"
  unfolding decode_def Let_def
  by (auto simp: decode_opimm_def decode_system_def decode_amo_def Let_def split: if_split_asm option.split_asm)

lemma decodeD:
  "decode w = Some (Branch c r1 r2 d) \<Longrightarrow>
    opcode w = 0x63 \<and> decode_branch (funct3 w) = Some c \<and> r1 = rs1f w \<and> r2 = rs2f w"
  "decode w = Some (Jal r d) \<Longrightarrow> opcode w = 0x6f \<and> r = rdf w"
  "decode w = Some (Auipc r d) \<Longrightarrow> opcode w = 0x17 \<and> r = rdf w"
  "decode w = Some (Jalr r r1 d) \<Longrightarrow> opcode w = 0x67 \<and> funct3 w = 0 \<and> r = rdf w \<and> r1 = rs1f w"
  "decode w = Some (Load wd u r r1 d) \<Longrightarrow>
    opcode w = 0x03 \<and> funct3 w \<noteq> 7 \<and> wd = width_of (funct3 w) \<and> u = bit (funct3 w) 2 \<and> r = rdf w \<and> r1 = rs1f w"
  "decode w = Some (Store wd r1 r2 d) \<Longrightarrow>
    opcode w = 0x23 \<and> \<not> funct3 w > 3 \<and> wd = width_of (funct3 w) \<and> r1 = rs1f w \<and> r2 = rs2f w"
  by (drule decode_transfer, simp add: transfer_def, simp)+

lemma decode_at_opcode:
  "opcode w = 0x63 \<Longrightarrow> decode w = map_option (\<lambda>c. Branch c (rs1f w) (rs2f w) (imm_b w)) (decode_branch (funct3 w))"
  "opcode w = 0x6f \<Longrightarrow> decode w = Some (Jal (rdf w) (imm_j w))"
  "opcode w = 0x17 \<Longrightarrow> decode w = Some (Auipc (rdf w) (imm_u w))"
  "opcode w = 0x67 \<Longrightarrow> funct3 w = 0 \<Longrightarrow> decode w = Some (Jalr (rdf w) (rs1f w) (imm_i w))"
  "opcode w = 0x03 \<Longrightarrow> funct3 w \<noteq> 7 \<Longrightarrow> decode w = Some (Load (width_of (funct3 w)) (bit (funct3 w) 2) (rdf w) (rs1f w) (imm_i w))"
  "opcode w = 0x23 \<Longrightarrow> \<not> funct3 w > 3 \<Longrightarrow> decode w = Some (Store (width_of (funct3 w)) (rs1f w) (rs2f w) (imm_s w))"
  "opcode w = 0x13 \<Longrightarrow> funct3 w = 0 \<Longrightarrow> decode w = Some (OpImm Add False (rdf w) (rs1f w) (imm_i w))"
  by (simp_all add: decode_def decode_opimm_def Let_def)

lemma decode_b_word:
  "decode w = Some (Branch c r1 r2 d) \<Longrightarrow> decode (b_word w (u32 (drop_bit 1 v))) = Some (Branch c r1 r2 (b_dist v))"
  by (drule decodeD) (simp only: decode_at_opcode b_word_fields imm_b_word, simp)

lemma decode_j_word: "decode w = Some (Jal r d) \<Longrightarrow> decode (j_word w (u32 v)) = Some (Jal r (j_dist v))"
  by (drule decodeD) (simp add: decode_at_opcode j_word_fields imm_j_word)

lemma hi_words:
  "(v + 0x800) AND NOT 0xfff = push_bit 12 (drop_bit 12 (v + 0x800))"
  "u_word w (push_bit 12 (signed_drop_bit 12 y AND 0xfffff)) = u_word w (push_bit 12 (drop_bit 12 y))"
  "push_bit 12 (u32 (drop_bit 12 y)) = push_bit 12 (drop_bit 12 (u32 y))"
  for v y :: "64 word"
proof -
  have m: "(0xfff :: 64 word) = mask 12" by (simp add: mask_eq_exp_minus_1)
  show "(v + 0x800) AND NOT 0xfff = push_bit 12 (drop_bit 12 (v + 0x800))"
    unfolding m by (intro bit_word_eqI) (auto simp: bit_simps)
  show "u_word w (push_bit 12 (signed_drop_bit 12 y AND 0xfffff)) = u_word w (push_bit 12 (drop_bit 12 y))"
    unfolding u_word_def masks by (rule bit_word_eqI) (auto simp: bit_simps min_def)
  show "push_bit 12 (u32 (drop_bit 12 y)) = push_bit 12 (drop_bit 12 (u32 y))"
    by (rule bit_word_eqI) (auto simp: bit_simps)
qed

lemma decode_u_word:
  assumes "decode w = Some (Auipc r d)"
  shows "decode (u_word w ((v + 0x800) AND NOT 0xfff)) = Some (Auipc r (hi_part v))"
    and "decode (u_word w (push_bit 12 (hi20 val addr AND 0xfffff))) = Some (Auipc r (hi_part (val - addr)))"
  using decodeD(3) [OF assms]
  unfolding hi20_def hi_words(1,2)
  by (simp_all add: decode_at_opcode u_word_fields imm_u_word hi_part_def hi_words(3))

lemma decode_i_word:
  "decode w = Some (Jalr r r1 d) \<Longrightarrow> decode (i_word w v) = Some (Jalr r r1 (imm12 v))"
  "decode w = Some (Load wd u r r1 d) \<Longrightarrow> decode (i_word w v) = Some (Load wd u r r1 (imm12 v))"
  "decode w = Some (OpImm Add False r r1 d) \<Longrightarrow> decode (i_word w v) = Some (OpImm Add False r r1 (imm12 v))"
  by (drule decodeD decode_addi, simp add: decode_at_opcode i_word_fields imm_i_word)+

lemma decode_s_word:
  "decode w = Some (Store wd r1 r2 d) \<Longrightarrow> decode (s_word w (u32 v)) = Some (Store wd r1 r2 (imm12 v))"
  by (drule decodeD) (simp add: decode_at_opcode s_word_fields imm_s_word)

section \<open>Distances that fit\<close>

lemma even_fits:
  fixes v :: "64 word"
  assumes "LENGTH('b::len) \<le> 64" "- (2 ^ (LENGTH('b) - 1)) \<le> sint v" "sint v < 2 ^ (LENGTH('b) - 1)" "\<not> bit v 0"
  shows "scast (ucast v AND NOT 1 :: 'b word) = v"
proof -
  have "ucast v AND NOT 1 = (ucast v :: 'b word)"
    using assms(4) by (intro bit_word_eqI) (auto simp: bit_simps bit_1_iff intro: gr0I)
  then show ?thesis using scast_ucast_fits [where 'b = 'b, of v] assms by simp
qed

lemma b_dist_fits: "- (2 ^ 12) \<le> sint v \<Longrightarrow> sint v < 2 ^ 12 \<Longrightarrow> \<not> bit v 0 \<Longrightarrow> b_dist v = v"
  unfolding b_dist_def by (rule even_fits) simp_all

lemma j_dist_fits: "- (2 ^ 20) \<le> sint v \<Longrightarrow> sint v < 2 ^ 20 \<Longrightarrow> \<not> bit v 0 \<Longrightarrow> j_dist v = v"
  unfolding j_dist_def by (rule even_fits) simp_all

text \<open>A jump that is too far by less than 1 MiB goes 2 MiB too low or too high: only 21 bits are kept.\<close>

lemma ucast_add_down: "LENGTH('b) \<le> LENGTH('a) \<Longrightarrow> (ucast (x + y) :: 'b::len word) = ucast x + ucast y"
  for x y :: "'a::len word"
  unfolding ucast_eq uint_word_ariths by (simp only: take_bit_eq_mod [symmetric] of_int_take of_int_add)

lemma ucast_diff_down: "LENGTH('b) \<le> LENGTH('a) \<Longrightarrow> (ucast (x - y) :: 'b::len word) = ucast x - ucast y"
  for x y :: "'a::len word"
  unfolding ucast_eq uint_word_ariths by (simp only: take_bit_eq_mod [symmetric] of_int_take of_int_diff)

lemma sint_add_small:
  fixes x :: "64 word"
  assumes "- (2 ^ 62) \<le> sint x" "sint x < 2 ^ 62" "- (2 ^ 62) \<le> k" "k < 2 ^ 62"
  shows "sint (x + word_of_int k) = sint x + k"
proof -
  have "x + word_of_int k = word_of_int (sint x + k)" by simp
  then have "sint (x + word_of_int k) = signed_take_bit 63 (sint x + k)" by (simp only: sint_sbintrunc') simp
  also have "\<dots> = sint x + k" using assms by (intro signed_take_bit_int_eq_self) simp_all
  finally show ?thesis .
qed

lemma j_dist_wraps:
  assumes "- (2 ^ 21) \<le> sint v" "sint v < 2 ^ 21" "\<not> bit v 0" "\<not> (- (2 ^ 20) \<le> sint v \<and> sint v < 2 ^ 20)"
  shows "j_dist v = (if sint v < 0 then v + 2 ^ 21 else v - 2 ^ 21)"
proof -
  define k :: int where "k = (if sint v < 0 then 2 ^ 21 else - (2 ^ 21))"
  have v: "(if sint v < 0 then v + 2 ^ 21 else v - 2 ^ 21) = v + word_of_int k" by (simp add: k_def)
  have "ucast (word_of_int k :: 64 word) = (0 :: 21 word)" by (simp add: k_def)
  then have "j_dist (v + word_of_int k) = j_dist v"
    unfolding j_dist_def by (subst ucast_add_down) simp_all
  moreover have "j_dist (v + word_of_int k) = v + word_of_int k"
  proof (rule j_dist_fits)
    have s: "sint (v + word_of_int k) = sint v + k" using assms(1,2) by (intro sint_add_small) (simp_all add: k_def)
    show "- (2 ^ 20) \<le> sint (v + word_of_int k)" "sint (v + word_of_int k) < 2 ^ 20"
      using assms(1,2,4) unfolding s by (auto simp: k_def)
    show "\<not> bit (v + word_of_int k) 0" using assms(3) by (simp add: bit_0 k_def)
  qed
  ultimately show ?thesis unfolding v by simp
qed

text \<open>An upper and a lower part add up to the distance when it is in the 4 GiB that \<open>auipc\<close> reaches.\<close>

lemma hi_lo_dist:
  assumes "- (2 ^ 31) \<le> sint (v + 0x800)" "sint (v + 0x800) < 2 ^ 31"
  shows "hi_part v + imm12 v = v"
proof -
  have "scast (push_bit 12 (drop_bit 12 z)) = push_bit 12 (drop_bit 12 (scast z :: 64 word))" for z :: "32 word"
    by (intro bit_word_eqI) (auto simp: bit_simps min_def)
  then have "hi_part v = push_bit 12 (drop_bit 12 (v + 0x800))"
    using assms by (simp add: hi_part_def scast_ucast_fits)
  moreover have "imm12 v = signed_take_bit 11 v"
    unfolding imm12_def by (intro bit_word_eqI) (auto simp: bit_simps min_def)
  ultimately show ?thesis using hi_lo_split [of 11 v] by simp
qed

end
