(* ===== verification/RelocEffect.thy ===== *)
theory RelocEffect
  imports RelocWords RvExec
begin

text \<open>
  What \<open>relocate\<close> does to the section: which bytes it writes, which instruction it leaves there and when it
  reports an error. The properties are in \<open>RiscvLinkProps\<close>.
\<close>

unbundle bit_operations_syntax

section \<open>Reading the patched word\<close>

lemma patch_fields [simp]:
  "ldata (patch f s) = f (ldata s)" "nb_errors (patch f s) = nb_errors s" "last_hi (patch f s) = last_hi s" "qrel (patch f s) = qrel s"
  "ldata (error_if c s) = ldata s" "nb_errors (error_if c s) = nb_errors s + of_bool c" "last_hi (error_if c s) = last_hi s"
  "qrel (error_if c s) = qrel s"
  "ldata (add_qrel e i t a s) = ldata s" "nb_errors (add_qrel e i t a s) = nb_errors s" "last_hi (add_qrel e i t a s) = last_hi s"
  by (simp_all add: patch_def error_if_def add_qrel_def)

lemma patch32_fields [simp]:
  "ldata (patch32 p f s) = write32le (ldata s) p (f (read32le (ldata s) p))" "nb_errors (patch32 p f s) = nb_errors s"
  "last_hi (patch32 p f s) = last_hi s" "qrel (patch32 p f s) = qrel s"
  by (simp_all add: patch32_def)

definition insn_at :: "8 word list \<Rightarrow> nat \<Rightarrow> insn option" where
  "insn_at d p = decode (read32le d p)"

section \<open>Branches and jumps\<close>

definition jump_fits :: "nat \<Rightarrow> 64 word \<Rightarrow> bool" where
  "jump_fits n x \<longleftrightarrow> - (2 ^ n) \<le> sint x \<and> sint x < 2 ^ n \<and> \<not> bit x 0"

lemma range_test:
  "(x + push_bit 12 1) AND NOT 0x1ffe \<noteq> 0 \<longleftrightarrow> \<not> jump_fits 12 x"
  "(x + push_bit 21 1) AND NOT (push_bit 22 1 - 2) \<noteq> 0 \<longleftrightarrow> \<not> jump_fits 21 x"
  "(x + push_bit 8 1) AND NOT 0x1fe \<noteq> 0 \<longleftrightarrow> \<not> jump_fits 8 x"
  "(x + push_bit 11 1) AND NOT 0xffe \<noteq> 0 \<longleftrightarrow> \<not> jump_fits 11 x"
proof -
  have m: "(0x1ffe :: 64 word) = mask (Suc 12) AND NOT 1" "push_bit 22 1 - 2 = (mask (Suc 21) AND NOT 1 :: 64 word)"
    "(0x1fe :: 64 word) = mask (Suc 8) AND NOT 1" "(0xffe :: 64 word) = mask (Suc 11) AND NOT 1"
    by (simp_all add: mask_eq_exp_minus_1)
  have e: "push_bit k 1 = (2 ^ k :: 64 word)" for k by (simp add: push_bit_eq_mult)
  show "(x + push_bit 12 1) AND NOT 0x1ffe \<noteq> 0 \<longleftrightarrow> \<not> jump_fits 12 x"
    "(x + push_bit 21 1) AND NOT (push_bit 22 1 - 2) \<noteq> 0 \<longleftrightarrow> \<not> jump_fits 21 x"
    "(x + push_bit 8 1) AND NOT 0x1fe \<noteq> 0 \<longleftrightarrow> \<not> jump_fits 8 x"
    "(x + push_bit 11 1) AND NOT 0xffe \<noteq> 0 \<longleftrightarrow> \<not> jump_fits 11 x"
    unfolding m unfolding e jump_fits_def by (subst jump_range; simp)+
qed

lemma relocate_branch_effect:
  assumes "p + 4 \<le> length (ldata s)" "insn_at (ldata s) p = Some (Branch c r1 r2 d)"
  shows "insn_at (ldata (relocate e R_RISCV_BRANCH p addr val s)) p = Some (Branch c r1 r2 (b_dist (val - addr)))"
    and "nb_errors (relocate e R_RISCV_BRANCH p addr val s) = nb_errors s + of_bool (\<not> jump_fits 12 (val - addr))"
proof -
  have "ldata (relocate_branch p addr val s) = write32le (ldata s) p (b_word (read32le (ldata s) p) (u32 (drop_bit 1 (val - addr))))"
    by (simp add: relocate_branch_def b_word_def Let_def)
  then show "insn_at (ldata (relocate e R_RISCV_BRANCH p addr val s)) p = Some (Branch c r1 r2 (b_dist (val - addr)))"
    using assms decode_b_word [of "read32le (ldata s) p"] by (simp add: relocate_def insn_at_def le32.rd_wr)
  show "nb_errors (relocate e R_RISCV_BRANCH p addr val s) = nb_errors s + of_bool (\<not> jump_fits 12 (val - addr))"
    unfolding relocate_def relocate_branch_def Let_def by (simp only: rel_type.case patch32_fields patch_fields range_test)
qed

lemma relocate_jal_effect:
  assumes "p + 4 \<le> length (ldata s)" "insn_at (ldata s) p = Some (Jal r d)"
  shows "insn_at (ldata (relocate e R_RISCV_JAL p addr val s)) p = Some (Jal r (j_dist (val - addr)))"
    and "nb_errors (relocate e R_RISCV_JAL p addr val s) = nb_errors s + of_bool (\<not> jump_fits 21 (val - addr))"
proof -
  have "ldata (relocate_jal p addr val s) = write32le (ldata s) p (j_word (read32le (ldata s) p) (u32 (val - addr)))"
    by (simp add: relocate_jal_def j_word_def Let_def)
  then show "insn_at (ldata (relocate e R_RISCV_JAL p addr val s)) p = Some (Jal r (j_dist (val - addr)))"
    using assms decode_j_word [of "read32le (ldata s) p"] by (simp add: relocate_def insn_at_def le32.rd_wr)
  show "nb_errors (relocate e R_RISCV_JAL p addr val s) = nb_errors s + of_bool (\<not> jump_fits 21 (val - addr))"
    unfolding relocate_def relocate_jal_def Let_def by (simp only: rel_type.case patch32_fields patch_fields range_test)
qed

section \<open>Pairs of instructions\<close>

lemma relocate_call_effect:
  assumes "p + 8 \<le> length (ldata s)" "insn_at (ldata s) p = Some (Auipc r d)" "insn_at (ldata s) (p + 4) = Some (Jalr rd r1 d')"
    and t: "t = R_RISCV_CALL \<or> t = R_RISCV_CALL_PLT"
  shows "insn_at (ldata (relocate e t p addr val s)) p = Some (Auipc r (hi_part (val - addr)))"
    and "insn_at (ldata (relocate e t p addr val s)) (p + 4) = Some (Jalr rd r1 (imm12 (val - addr)))"
    and "nb_errors (relocate e t p addr val s) = nb_errors s"
proof -
  define w where "w = u_word (read32le (ldata s) p) ((val - addr + 0x800) AND NOT 0xfff)"
  define w' where "w' = i_word (read32le (ldata s) (p + 4)) (val - addr)"
  have "ldata (relocate_call p addr val s) = write32le (write32le (ldata s) p w) (p + 4) w'"
    using assms(1) by (simp add: relocate_call_def w_def w'_def u_word_def i_word_def le32.rd_wr_other)
  moreover have "decode w = Some (Auipc r (hi_part (val - addr)))" "decode w' = Some (Jalr rd r1 (imm12 (val - addr)))"
    using decode_u_word(1) [of "read32le (ldata s) p"] decode_i_word(1) [of "read32le (ldata s) (p + 4)"] assms(2,3)
    unfolding w_def w'_def insn_at_def by simp_all
  moreover have "relocate e t p addr val s = relocate_call p addr val s" using t by (auto simp: relocate_def)
  ultimately show "insn_at (ldata (relocate e t p addr val s)) p = Some (Auipc r (hi_part (val - addr)))"
    "insn_at (ldata (relocate e t p addr val s)) (p + 4) = Some (Jalr rd r1 (imm12 (val - addr)))"
    "nb_errors (relocate e t p addr val s) = nb_errors s"
    using assms(1) by (simp_all add: insn_at_def le32.rd_wr le32.rd_wr_other le32.length_wr) (simp add: relocate_call_def)
qed

definition hi_fits :: "64 word \<Rightarrow> bool" where
  "hi_fits x \<longleftrightarrow> - (2 ^ 20) \<le> sint (signed_drop_bit 12 (x + 0x800)) \<and> sint (signed_drop_bit 12 (x + 0x800)) < 2 ^ 20"

lemma relocate_hi20_effect:
  assumes "p + 4 \<le> length (ldata s)" "insn_at (ldata s) p = Some (Auipc r d)"
  shows "insn_at (ldata (relocate_hi20 p addr val s)) p = Some (Auipc r (hi_part (val - addr)))"
    and "nb_errors (relocate_hi20 p addr val s) = nb_errors s + of_bool (\<not> hi_fits (val - addr))"
    and "last_hi (relocate_hi20 p addr val s) = (addr, val)"
    and "ldata (relocate_hi20 p addr val s) =
      write32le (ldata s) p (u_word (read32le (ldata s) p) (push_bit 12 (hi20 val addr AND 0xfffff)))"
proof -
  show d: "ldata (relocate_hi20 p addr val s) =
      write32le (ldata s) p (u_word (read32le (ldata s) p) (push_bit 12 (hi20 val addr AND 0xfffff)))"
    by (simp add: relocate_hi20_def u_word_def Let_def)
  show "insn_at (ldata (relocate_hi20 p addr val s)) p = Some (Auipc r (hi_part (val - addr)))"
    using assms decode_u_word(2) unfolding d insn_at_def by (simp add: le32.rd_wr)
  have "drop_bit 21 (hi20 val addr + push_bit 20 1) \<noteq> 0 \<longleftrightarrow> \<not> hi_fits (val - addr)"
    using hi_range [of 20 "hi20 val addr"] by (simp add: hi_fits_def hi20_def)
  then show "nb_errors (relocate_hi20 p addr val s) = nb_errors s + of_bool (\<not> hi_fits (val - addr))"
    by (simp add: relocate_hi20_def Let_def)
  show "last_hi (relocate_hi20 p addr val s) = (addr, val)" by (simp add: relocate_hi20_def Let_def)
qed

lemma relocate_lo12_i_effect:
  assumes "p + 4 \<le> length (ldata s)" "last_hi s = (addr, val)"
  shows "insn_at (ldata s) p = Some (Load wd u r r1 d) \<Longrightarrow>
      insn_at (ldata (relocate_lo12_i p v s)) p = Some (Load wd u r r1 (imm12 (val - addr)))"
    and "insn_at (ldata s) p = Some (OpImm Add False r r1 d) \<Longrightarrow>
      insn_at (ldata (relocate_lo12_i p v s)) p = Some (OpImm Add False r r1 (imm12 (val - addr)))"
    and "nb_errors (relocate_lo12_i p v s) = nb_errors s + of_bool (v \<noteq> addr)"
    and "ldata (relocate_lo12_i p v s) = write32le (ldata s) p (i_word (read32le (ldata s) p) (val - addr))"
proof -
  show d: "ldata (relocate_lo12_i p v s) = write32le (ldata s) p (i_word (read32le (ldata s) p) (val - addr))"
    by (simp add: relocate_lo12_i_def assms(2) i_word_def)
  show "insn_at (ldata s) p = Some (Load wd u r r1 d) \<Longrightarrow>
      insn_at (ldata (relocate_lo12_i p v s)) p = Some (Load wd u r r1 (imm12 (val - addr)))"
    "insn_at (ldata s) p = Some (OpImm Add False r r1 d) \<Longrightarrow>
      insn_at (ldata (relocate_lo12_i p v s)) p = Some (OpImm Add False r r1 (imm12 (val - addr)))"
    using assms(1) decode_i_word unfolding d insn_at_def by (simp_all add: le32.rd_wr)
  show "nb_errors (relocate_lo12_i p v s) = nb_errors s + of_bool (v \<noteq> addr)"
    by (simp add: relocate_lo12_i_def assms(2))
qed

lemma relocate_lo12_s_effect:
  assumes "p + 4 \<le> length (ldata s)" "last_hi s = (addr, val)"
  shows "insn_at (ldata s) p = Some (Store wd r1 r2 d) \<Longrightarrow>
      insn_at (ldata (relocate_lo12_s p v s)) p = Some (Store wd r1 r2 (imm12 (val - addr)))"
    and "nb_errors (relocate_lo12_s p v s) = nb_errors s + of_bool (v \<noteq> addr)"
    and "ldata (relocate_lo12_s p v s) = write32le (ldata s) p (s_word (read32le (ldata s) p) (u32 (val - addr)))"
proof -
  show d: "ldata (relocate_lo12_s p v s) = write32le (ldata s) p (s_word (read32le (ldata s) p) (u32 (val - addr)))"
    by (simp add: relocate_lo12_s_def assms(2) s_word_def Let_def)
  show "insn_at (ldata s) p = Some (Store wd r1 r2 d) \<Longrightarrow>
      insn_at (ldata (relocate_lo12_s p v s)) p = Some (Store wd r1 r2 (imm12 (val - addr)))"
    using assms(1) decode_s_word unfolding d insn_at_def by (simp add: le32.rd_wr)
  show "nb_errors (relocate_lo12_s p v s) = nb_errors s + of_bool (v \<noteq> addr)"
    by (simp add: relocate_lo12_s_def assms(2) Let_def)
qed

end
