(* ===== verification/RvRun.thy ===== *)
theory RvRun
  imports RelocEffect
begin

text \<open>
  Running the code in a section that is loaded at an address: an instruction is fetched where the program
  counter points to and executed by \<open>exec\<close>.
\<close>

unbundle bit_operations_syntax

definition fetch :: "8 word list \<Rightarrow> 64 word \<Rightarrow> 64 word \<Rightarrow> insn option" where
  "fetch d base a = (let p = unat (a - base) in if p + 4 \<le> length d then insn_at d p else None)"

fun run_code :: "nat \<Rightarrow> 8 word list \<Rightarrow> 64 word \<Rightarrow> rv \<Rightarrow> rv option" where
  "run_code 0 d base m = Some m"
| "run_code (Suc n) d base m =
    (case fetch d base (pc m) of
      None \<Rightarrow> None
    | Some i \<Rightarrow> (case exec i m of None \<Rightarrow> None | Some m' \<Rightarrow> run_code n d base m'))"

lemma unat_small_offset: "p < 2 ^ 64 \<Longrightarrow> unat (base + of_nat p - base :: 64 word) = p"
  by (simp add: take_bit_nat_eq_self unat_of_nat)

lemma fetch_offset:
  assumes "pc m = base + of_nat p" "p + 4 \<le> length d" "length d < 2 ^ 64"
  shows "fetch d base (pc m) = insn_at d p"
proof -
  have "p < 2 ^ 64" using assms by linarith
  then have "unat (pc m - base) = p" unfolding assms(1) by (rule unat_small_offset)
  then show ?thesis using assms(2) by (simp add: fetch_def)
qed

lemma run_one:
  assumes "pc m = base + of_nat p" "p + 4 \<le> length d" "length d < 2 ^ 64" "insn_at d p = Some i" "exec i m = Some m'"
  shows "run_code (Suc n) d base m = run_code n d base m'"
  using assms fetch_offset [OF assms(1-3)] by simp

text \<open>Instructions that go on to the next one, and a sequence that ends with any instruction.\<close>

definition straight :: "insn \<Rightarrow> bool" where
  "straight i \<longleftrightarrow> (\<forall>m m'. exec i m = Some m' \<longrightarrow> pc m' = pc m + 4)"

lemma straight_simps [simp]:
  "straight (Auipc r v)" "straight (Lui r v)" "straight (Load w u r r1 v)" "straight (Store w r1 r2 v)"
  "straight (OpImm f b r r1 v)" "straight (Op f b r r1 r2)"
  by (auto simp: straight_def)

lemma run_list:
  assumes "list_all straight is" "\<And>k. k < length (is @ [i]) \<Longrightarrow> insn_at d (p + 4 * k) = Some ((is @ [i]) ! k)"
    and "p + 4 * length (is @ [i]) \<le> length d" "length d < 2 ^ 64" "pc m = base + of_nat p" "exec_list (is @ [i]) m = Some m'"
  shows "run_code (n + length (is @ [i])) d base m = run_code n d base m'"
  using assms
proof (induction "is" arbitrary: p m)
  case Nil
  have "insn_at d p = Some i" using Nil.prems(2) [of 0] by simp
  moreover have "exec i m = Some m'" using Nil.prems(6) by (simp split: option.split_asm)
  ultimately show ?case using run_one [of m base p d i m' n] Nil.prems by simp
next
  case (Cons j js)
  have j: "insn_at d p = Some j" using Cons.prems(2) [of 0] by simp
  obtain m1 where m1: "exec j m = Some m1" "exec_list (js @ [i]) m1 = Some m'"
    using Cons.prems(6) by (auto split: option.split_asm)
  have "pc m1 = pc m + 4" using Cons.prems(1) m1(1) by (auto simp: straight_def)
  then have pc: "pc m1 = base + of_nat (p + 4)" using Cons.prems(5) by simp
  have "insn_at d (p + 4 + 4 * k) = Some ((js @ [i]) ! k)" if "k < length (js @ [i])" for k
    using Cons.prems(2) [of "Suc k"] that by (simp add: add.assoc)
  then have "run_code (n + length (js @ [i])) d base m1 = run_code n d base m'"
    using Cons.prems(1,3,4) pc m1(2) by (intro Cons.IH [of "p + 4"]) simp_all
  moreover have "run_code (Suc (n + length (js @ [i]))) d base m = run_code (n + length (js @ [i])) d base m1"
    using Cons.prems j m1(1) by (intro run_one) simp_all
  ultimately show ?case by simp
qed

end
