(* ===== verification/RiscvPlt.thy ===== *)
theory RiscvPlt
  imports RvRun
begin

text \<open>
  The procedure linkage table after \<open>relocate_plt\<close>: the words of the header and of every entry, what they
  decode to, and what happens when an entry is run.
\<close>

unbundle bit_operations_syntax

section \<open>The words\<close>

lemma length_write_words [simp]: "length (write_words d p ws) = length d"
  by (induction ws arbitrary: d p) (simp_all add: le32.length_wr)

lemma write_words_outside: "j + 4 \<le> p \<or> p + 4 * length ws \<le> j \<Longrightarrow> read32le (write_words d p ws) j = read32le d j"
  by (induction ws arbitrary: d p) (auto simp: le32.rd_wr_other)

lemma write_words_nth:
  "k < length ws \<Longrightarrow> p + 4 * length ws \<le> length d \<Longrightarrow> read32le (write_words d p ws) (p + 4 * k) = ws ! k"
proof (induction ws arbitrary: d p k)
  case (Cons w ws)
  show ?case
  proof (cases k)
    case 0
    then show ?thesis using Cons.prems by (simp add: write_words_outside le32.rd_wr)
  next
    case (Suc j)
    then show ?thesis using Cons.prems Cons.IH [of j "p + 4" "write32le d p w"] by (simp add: le32.length_wr add.assoc)
  qed
qed simp

lemma length_plt [simp]: "length (plt_entry x a) = 4" "length (plt_header plt got) = 8"
  by (simp_all add: plt_entry_def plt_header_def Let_def)

lemma plt_loop_step: "p < p_end \<Longrightarrow> fst (plt_loop plt got p p_end d) =
    fst (plt_loop plt got (p + 16) p_end (write_words d p (plt_entry (plt + of_nat p) (got + read64le d p))))"
  by (subst plt_loop.simps) (simp add: Let_def split: prod.split)

lemma plt_loop_done: "\<not> p < p_end \<Longrightarrow> plt_loop plt got p p_end d = (d, 0)"
  by (subst plt_loop.simps) simp

lemma length_plt_loop [simp]: "length (fst (plt_loop plt got p p_end d)) = length d"
proof (induction plt got p p_end d rule: plt_loop.induct)
  case (1 plt got p p_end d)
  then show ?case by (cases "p < p_end") (simp_all add: plt_loop_step plt_loop_done)
qed

lemma plt_loop_below: "j + 4 \<le> p \<Longrightarrow> read32le (fst (plt_loop plt got p p_end d)) j = read32le d j"
proof (induction plt got p p_end d rule: plt_loop.induct)
  case (1 plt got p p_end d)
  then show ?case by (cases "p < p_end") (simp_all add: plt_loop_step plt_loop_done write_words_outside)
qed

lemma plt_loop_entry:
  "k < 4 \<Longrightarrow> p + 16 * n + 16 \<le> p_end \<Longrightarrow> p_end \<le> length d \<Longrightarrow>
    read32le (fst (plt_loop plt got p p_end d)) (p + 16 * n + 4 * k) =
      plt_entry (plt + of_nat (p + 16 * n)) (got + read64le d (p + 16 * n)) ! k"
proof (induction n arbitrary: p d)
  case 0
  then have "p < p_end" by simp
  with 0 show ?case by (simp add: plt_loop_step plt_loop_below write_words_nth)
next
  case (Suc n)
  let ?d = "write_words d p (plt_entry (plt + of_nat p) (got + read64le d p))"
  have "read64le ?d (p + 16 + 16 * n) = read64le d (p + 16 + 16 * n)"
    by (simp add: read64le_def write_words_outside)
  then show ?case using Suc.prems Suc.IH [of "p + 16" ?d] by (simp add: plt_loop_step add.assoc)
qed

section \<open>What they decode to\<close>

lemma hi_word: "u32 (u64 (w AND 0xfff) OR push_bit 12 (drop_bit 12 (v + 0x800))) = u_word w ((v + 0x800) AND NOT 0xfff)"
  unfolding u_word_def hi_words(1) ..

lemma decode_entry:
  "map decode (plt_entry x a) =
    map Some [Auipc 28 (hi_part (a - x)), Load WDouble False 28 28 (imm12 (a - x)), Jalr 6 28 0, OpImm Add False 0 0 0]"
proof -
  have c: "decode 0xe17 = Some (Auipc 28 0)" "decode 0x000e3e03 = Some (Load WDouble False 28 28 0)"
    "decode 0x000e0367 = Some (Jalr 6 28 0)" "decode 0x00000013 = Some (OpImm Add False 0 0 0)" by code_simp+
  have w: "u32 (0xe17 OR push_bit 12 (drop_bit 12 (a - x + 0x800))) = u_word 0xe17 ((a - x + 0x800) AND NOT 0xfff)"
    "u32 (0x000e3e03 OR push_bit 20 ((a - x) AND 0xfff)) = i_word 0x000e3e03 (a - x)"
    unfolding hi_word [symmetric] i_word_def by simp_all
  show ?thesis
    unfolding plt_entry_def Let_def w using decode_u_word(1) [OF c(1)] decode_i_word(2) [OF c(2)] c(3,4) by simp
qed

definition header_insns :: "64 word \<Rightarrow> insn list" where
  "header_insns v =
    [Auipc 7 (hi_part v), Op Sub False 6 6 28, Load WDouble False 28 7 (imm12 v), OpImm Add False 6 6 (- 44),
     OpImm Add False 5 7 (imm12 v), OpImm Srl False 6 6 1, Load WDouble False 5 5 8, Jalr 0 28 0]"

lemma decode_header: "map decode (plt_header plt got) = map Some (header_insns (got - plt))"
proof -
  have c: "decode 0x397 = Some (Auipc 7 0)" "decode 0x41c30333 = Some (Op Sub False 6 6 28)"
    "decode 0x0003be03 = Some (Load WDouble False 28 7 0)" "decode 0xfd430313 = Some (OpImm Add False 6 6 (- 44))"
    "decode 0x00038293 = Some (OpImm Add False 5 7 0)" "decode 0x00135313 = Some (OpImm Srl False 6 6 1)"
    "decode 0x0082b283 = Some (Load WDouble False 5 5 8)" "decode 0x000e0067 = Some (Jalr 0 28 0)" by code_simp+
  have w: "u32 (0x397 OR push_bit 12 (drop_bit 12 (got - plt + 0x800))) = u_word 0x397 ((got - plt + 0x800) AND NOT 0xfff)"
    "u32 (0x0003be03 OR push_bit 20 ((got - plt) AND 0xfff)) = i_word 0x0003be03 (got - plt)"
    "u32 (0x00038293 OR push_bit 20 ((got - plt) AND 0xfff)) = i_word 0x00038293 (got - plt)"
    unfolding hi_word [symmetric] i_word_def by simp_all
  show ?thesis
    unfolding plt_header_def header_insns_def Let_def w
    using decode_u_word(1) [OF c(1)] decode_i_word(2) [OF c(3)] decode_i_word(3) [OF c(5)] c(2,4,6,7,8) by simp
qed

section \<open>What they do\<close>

definition load64 :: "rv \<Rightarrow> 64 word \<Rightarrow> 64 word" where
  "load64 m a = load_ext WDouble False a (rmem m)"

text \<open>The distances that \<open>auipc\<close> and a twelve-bit offset bridge.\<close>

definition near :: "64 word \<Rightarrow> bool" where
  "near v \<longleftrightarrow> - (2 ^ 31) \<le> sint (v + 0x800) \<and> sint (v + 0x800) < 2 ^ 31"

lemma near_sum: "near v \<Longrightarrow> x + hi_part v + imm12 v = x + v"
  using hi_lo_dist [of v] by (simp add: near_def add.assoc)

lemma exec_entry:
  assumes "near (a - pc m)"
  shows "\<exists>m'. exec_list [Auipc 28 (hi_part (a - pc m)), Load WDouble False 28 28 (imm12 (a - pc m)), Jalr 6 28 0] m = Some m' \<and>
    pc m' = load64 m a AND NOT 1 \<and> xr m' 6 = pc m + 12 \<and> xr m' 28 = load64 m a \<and> rmem m' = rmem m"
  using near_sum [OF assms, of "pc m"] by (simp add: load64_def)

lemma exec_header:
  assumes "near (got - pc m)" "xr m 28 = pc m" "xr m 6 = pc m + of_nat (32 + 16 * n + 12)" "n < 2 ^ 60"
  shows "\<exists>m'. exec_list (header_insns (got - pc m)) m = Some m' \<and>
    pc m' = load64 m got AND NOT 1 \<and> xr m' 5 = load64 m (got + 8) \<and> xr m' 6 = of_nat (8 * n) \<and> rmem m' = rmem m"
proof -
  have s: "pc m + of_nat (32 + 16 * n + 12) - pc m + (- 44) = of_nat (16 * n)" by simp
  have "unat (of_nat (16 * n) :: 64 word) = 16 * n" using assms(4) by (intro unat_of_nat_less) simp_all
  moreover have "unat (of_nat (8 * n) :: 64 word) = 8 * n" using assms(4) by (intro unat_of_nat_less) simp_all
  ultimately have "drop_bit 1 (of_nat (16 * n) :: 64 word) = of_nat (8 * n)"
    by (simp only: word_unat_eq_iff unat_drop_bit_eq) (simp add: drop_bit_eq_div)
  with s near_sum [OF assms(1), of "pc m"] assms(2,3) show ?thesis
    unfolding header_insns_def by (simp add: load64_def alu_exec_def)
qed

section \<open>The table as a whole\<close>

definition plt_size :: "nat \<Rightarrow> nat" where "plt_size n = 32 + 16 * n"

lemma relocate_plt_words:
  fixes plt :: "'a sec_scheme" and pa ga :: "64 word"
  assumes "plt_size n \<le> data_offset plt" "data_offset plt \<le> length (sec_data plt)"
  defines "d \<equiv> sec_data (fst (relocate_plt pa ga plt))"
  shows "length d = length (sec_data plt)"
    and "k < 8 \<Longrightarrow> insn_at d (4 * k) = Some (header_insns (ga - pa) ! k)"
    and "j < n \<Longrightarrow> k < 4 \<Longrightarrow> insn_at d (plt_size j + 4 * k) =
      map decode (plt_entry (pa + of_nat (plt_size j)) (ga + read64le (sec_data plt) (plt_size j))) ! k"
proof -
  let ?h = "write_words (sec_data plt) 0 (plt_header pa ga)"
  have d: "d = fst (plt_loop pa ga 32 (data_offset plt) ?h)"
    using assms(1) by (simp add: d_def relocate_plt_def plt_size_def Let_def split: prod.split)
  show "length d = length (sec_data plt)" by (simp add: d)
  show "insn_at d (4 * k) = Some (header_insns (ga - pa) ! k)" if "k < 8"
  proof -
    have "read32le d (4 * k) = plt_header pa ga ! k"
      using that assms(1,2) write_words_nth [of k "plt_header pa ga" 0 "sec_data plt"]
      by (simp add: d plt_loop_below plt_size_def)
    moreover have "decode (plt_header pa ga ! k) = map decode (plt_header pa ga) ! k" using that by simp
    moreover have "length (header_insns (ga - pa)) = 8" by (simp add: header_insns_def)
    ultimately show ?thesis using that by (simp add: insn_at_def decode_header)
  qed
  show "insn_at d (plt_size j + 4 * k) =
      map decode (plt_entry (pa + of_nat (plt_size j)) (ga + read64le (sec_data plt) (plt_size j))) ! k" if "j < n" "k < 4"
  proof -
    have "read64le ?h (plt_size j) = read64le (sec_data plt) (plt_size j)"
      by (simp add: read64le_def write_words_outside plt_size_def)
    then show ?thesis
      using that assms(1,2) plt_loop_entry [of k 32 j "data_offset plt" ?h pa ga] by (simp add: d insn_at_def plt_size_def)
  qed
qed

text \<open>Running an entry jumps to the address in its slot of the GOT.\<close>

lemma run_entry:
  fixes plt :: "'a sec_scheme"
  assumes "plt_size n \<le> data_offset plt" "data_offset plt \<le> length (sec_data plt)" "length (sec_data plt) < 2 ^ 64" "j < n"
    and "pc m = pa + of_nat (plt_size j)" "slot = ga + read64le (sec_data plt) (plt_size j)" "near (slot - pc m)"
  shows "\<exists>m'. run_code (k + 3) (sec_data (fst (relocate_plt pa ga plt))) pa m = run_code k (sec_data (fst (relocate_plt pa ga plt))) pa m' \<and>
    pc m' = load64 m slot AND NOT 1 \<and> xr m' 6 = pc m + 12 \<and> xr m' 28 = load64 m slot \<and> rmem m' = rmem m"
proof -
  let ?d = "sec_data (fst (relocate_plt pa ga plt))"
  let ?is = "[Auipc 28 (hi_part (slot - pc m)), Load WDouble False 28 28 (imm12 (slot - pc m))]"
  note w = relocate_plt_words [OF assms(1,2), where pa = pa and ga = ga]
  from exec_entry [OF assms(7)] obtain m' where m': "exec_list (?is @ [Jalr 6 28 0]) m = Some m'"
    "pc m' = load64 m slot AND NOT 1" "xr m' 6 = pc m + 12" "xr m' 28 = load64 m slot" "rmem m' = rmem m" by auto
  have i: "insn_at ?d (plt_size j + 4 * k) = Some ((?is @ [Jalr 6 28 0]) ! k)" if "k < length (?is @ [Jalr 6 28 0])" for k
    using that w(3) [OF assms(4), of k] unfolding decode_entry assms(5,6) by (auto simp: less_Suc_eq)
  have l: "plt_size j + 4 * length (?is @ [Jalr 6 28 0]) \<le> length ?d" using w(1) assms(1,2,4) by (simp add: plt_size_def)
  have "run_code (k + length (?is @ [Jalr 6 28 0])) ?d pa m = run_code k ?d pa m'"
    using w(1) assms(3,5) by (intro run_list [OF _ i l _ _ m'(1)]) simp_all
  with m' show ?thesis by (intro exI [of _ m']) (simp add: numeral_3_eq_3)
qed

lemma run_header:
  fixes plt :: "'a sec_scheme"
  assumes "plt_size n \<le> data_offset plt" "data_offset plt \<le> length (sec_data plt)" "length (sec_data plt) < 2 ^ 64"
    and "pc m = pa" "near (ga - pa)" "xr m 28 = pa" "xr m 6 = pa + of_nat (32 + 16 * j + 12)" "j < 2 ^ 60"
  shows "\<exists>m'. run_code (k + 8) (sec_data (fst (relocate_plt pa ga plt))) pa m = run_code k (sec_data (fst (relocate_plt pa ga plt))) pa m' \<and>
    pc m' = load64 m ga AND NOT 1 \<and> xr m' 5 = load64 m (ga + 8) \<and> xr m' 6 = of_nat (8 * j) \<and> rmem m' = rmem m"
proof -
  let ?d = "sec_data (fst (relocate_plt pa ga plt))" and ?is = "butlast (header_insns (ga - pa))"
  note w = relocate_plt_words [OF assms(1,2), where pa = pa and ga = ga]
  have h: "?is @ [Jalr 0 28 0] = header_insns (ga - pa)" "length (header_insns (ga - pa)) = 8" by (simp_all add: header_insns_def)
  from exec_header [of ga m j] assms(4-8) obtain m' where m': "exec_list (?is @ [Jalr 0 28 0]) m = Some m'"
    "pc m' = load64 m ga AND NOT 1" "xr m' 5 = load64 m (ga + 8)" "xr m' 6 = of_nat (8 * j)" "rmem m' = rmem m"
    unfolding h by auto
  have i: "insn_at ?d (0 + 4 * k) = Some ((?is @ [Jalr 0 28 0]) ! k)" if "k < length (?is @ [Jalr 0 28 0])" for k
    using that w(2) [of k] unfolding h by simp
  have l: "0 + 4 * length (?is @ [Jalr 0 28 0]) \<le> length ?d" using w(1) assms(1,2) unfolding h by (simp add: plt_size_def)
  have s: "list_all straight ?is" by (simp add: header_insns_def)
  have "run_code (k + length (?is @ [Jalr 0 28 0])) ?d pa m = run_code k ?d pa m'"
    using w(1) assms(3,4) by (intro run_list [OF s i l _ _ m'(1)]) simp_all
  with m' show ?thesis unfolding h by (intro exI [of _ m']) simp
qed

end
