(* ===== verification/RiscvLinkProps.thy ===== *)
theory RiscvLinkProps
  imports RiscvPlt
begin

text \<open>
  The properties of the RISC-V linker: the code that \<open>relocate\<close> leaves in a section reaches its symbol
  when it is run at the section's address, the bytes outside the field stay, and the entries of the procedure
  linkage table bind lazily.
\<close>

unbundle bit_operations_syntax

section \<open>Examples\<close>

text \<open>A section with the given bytes, an entry without dynamic output and a machine at the given address.\<close>

definition ex_link :: "8 word list \<Rightarrow> link_st" where
  "ex_link d = \<lparr>ldata = d, last_hi = (0, 0), nb_errors = 0, qrel = []\<rparr>"

definition ex_env :: rel_env where
  "ex_env = \<lparr>output_dyn = False, got_addr = 0x20000, sym_got_offset = 16, sym_dyn_index = 0, rel_offset = 0, rel_addend = 0\<rparr>"

definition ex_rv :: "64 word \<Rightarrow> rv" where
  "ex_rv a = \<lparr>xregs = (\<lambda>_. 0), pc = a, rmem = (\<lambda>_. 0)\<rparr>"

definition ex_plt :: "unit sec_scheme" where
  "ex_plt = \<lparr>sec_data = replicate 32 0 @ [16, 0, 0, 0, 0, 0, 0, 0] @ replicate 8 0, data_offset = 48, data_allocated = 48,
     sh_addralign = 4, sh_nobits = False\<rparr>"

definition ex_call :: "8 word list" where "ex_call = [0x97, 0, 0, 0, 0xe7, 0x80, 0, 0]"
definition ex_beq :: "8 word list" where "ex_beq = [0x63, 0, 0, 0]"
definition ex_jal :: "8 word list" where "ex_jal = [0x6f, 0, 0, 0]"
definition ex_load :: "8 word list" where "ex_load = [0x97, 0x02, 0, 0, 0x03, 0xb5, 0x02, 0]"

section \<open>Calls, branches and jumps\<close>

text \<open>C20. After a \<open>R_RISCV_CALL\<close> relocation the pair \<open>auipc\<close>, \<open>jalr\<close>, run where it is loaded, jumps to
  the symbol and leaves the return address in the link register, when the distance is one that the pair can
  bridge; no error is counted and no other register or memory changes.\<close>

theorem relocate_call_reaches:
  assumes "p + 8 \<le> length (ldata s)" "length (ldata s) < 2 ^ 64" "insn_at (ldata s) p = Some (Auipc r d)"
    "insn_at (ldata s) (p + 4) = Some (Jalr rd r d')" "r \<noteq> 0" "t = R_RISCV_CALL \<or> t = R_RISCV_CALL_PLT"
    "addr = base + of_nat p" "near (val - addr)" "pc m = addr"
  shows "\<exists>m'. run_code 2 (ldata (relocate e t p addr val s)) base m = Some m' \<and> pc m' = val AND NOT 1 \<and>
    (rd \<noteq> 0 \<longrightarrow> xr m' rd = addr + 8) \<and> (\<forall>q. q \<noteq> r \<and> q \<noteq> rd \<longrightarrow> xr m' q = xr m q) \<and> rmem m' = rmem m \<and>
    nb_errors (relocate e t p addr val s) = nb_errors s"
proof -
  let ?d = "ldata (relocate e t p addr val s)"
  note f = relocate_call_effect [OF assms(1,3,4,6), of e addr val]
  have l: "length ?d = length (ldata s)" using assms(6) by (auto simp: relocate_def relocate_call_def le32.length_wr)
  have i: "insn_at ?d (p + 4 * k) = Some (([Auipc r (hi_part (val - addr))] @ [Jalr rd r (imm12 (val - addr))]) ! k)"
    if "k < length ([Auipc r (hi_part (val - addr))] @ [Jalr rd r (imm12 (val - addr))])" for k
    using that f(1,2) by (auto simp: less_Suc_eq)
  obtain m' where m': "exec_list ([Auipc r (hi_part (val - addr))] @ [Jalr rd r (imm12 (val - addr))]) m = Some m'"
    "pc m' = val AND NOT 1" "rd \<noteq> 0 \<longrightarrow> xr m' rd = addr + 8" "\<forall>q. q \<noteq> r \<and> q \<noteq> rd \<longrightarrow> xr m' q = xr m q" "rmem m' = rmem m"
    using near_sum [OF assms(8), of addr] assms(5,9) by simp
  have "run_code (0 + length ([Auipc r (hi_part (val - addr))] @ [Jalr rd r (imm12 (val - addr))])) ?d base m = run_code 0 ?d base m'"
    using l assms(1,2,7,9) by (intro run_list [OF _ i _ _ _ m'(1)]) simp_all
  then show ?thesis using m' f(3) by (intro exI [of _ m']) (simp add: numeral_2_eq_2)
qed

lemma relocate_call_reaches_witness:
  "\<exists>m'. run_code 2 (ldata (relocate ex_env R_RISCV_CALL 0 0x10000 0x12346 (ex_link ex_call))) 0x10000 (ex_rv 0x10000) = Some m' \<and>
    pc m' = 0x12346 \<and> xr m' 1 = 0x10008"
proof -
  have h: "0 + 8 \<le> length (ldata (ex_link ex_call))" "length (ldata (ex_link ex_call)) < 2 ^ 64" "(1 :: 5 word) \<noteq> 0"
    "(0x10000 :: 64 word) = 0x10000 + of_nat 0" "pc (ex_rv 0x10000) = 0x10000"
    by (simp_all add: ex_link_def ex_call_def ex_rv_def)
  have i: "insn_at (ldata (ex_link ex_call)) 0 = Some (Auipc 1 0)" "insn_at (ldata (ex_link ex_call)) (0 + 4) = Some (Jalr 1 1 0)"
    "near (0x12346 - 0x10000)" by code_simp+
  from relocate_call_reaches [OF h(1,2) i(1,2) h(3) _ h(4) i(3) h(5), of R_RISCV_CALL ex_env] show ?thesis by auto
qed

text \<open>C21. After \<open>R_RISCV_BRANCH\<close> a branch whose symbol is within 4 KiB and at an even distance goes to the
  symbol when its condition holds and on to the next instruction when not; an error is counted exactly when the
  distance does not fit.\<close>

theorem relocate_branch_reaches:
  assumes "p + 4 \<le> length (ldata s)" "length (ldata s) < 2 ^ 64" "insn_at (ldata s) p = Some (Branch c r1 r2 d)"
    "addr = base + of_nat p" "pc m = addr"
  shows "nb_errors (relocate e R_RISCV_BRANCH p addr val s) = nb_errors s + of_bool (\<not> jump_fits 12 (val - addr)) \<and>
    (jump_fits 12 (val - addr) \<longrightarrow>
      run_code 1 (ldata (relocate e R_RISCV_BRANCH p addr val s)) base m =
        Some (m\<lparr>pc := if cond_sem c (xr m r1) (xr m r2) then val else addr + 4\<rparr>))"
proof -
  note f = relocate_branch_effect [OF assms(1,3), of e addr val]
  have l: "length (ldata (relocate e R_RISCV_BRANCH p addr val s)) = length (ldata s)"
    by (simp add: relocate_def relocate_branch_def Let_def le32.length_wr)
  have "b_dist (val - addr) = val - addr" if "jump_fits 12 (val - addr)"
    using that b_dist_fits [of "val - addr"] by (simp add: jump_fits_def)
  then have "run_code (Suc 0) (ldata (relocate e R_RISCV_BRANCH p addr val s)) base m =
        Some (m\<lparr>pc := if cond_sem c (xr m r1) (xr m r2) then val else addr + 4\<rparr>)" if "jump_fits 12 (val - addr)"
    using that f(1) l assms by (subst run_one [OF _ _ _ f(1)]) (simp_all add: next_pc_def)
  with f(2) show ?thesis by simp
qed

lemma relocate_branch_reaches_witness:
  "run_code 1 (ldata (relocate ex_env R_RISCV_BRANCH 0 0x10000 0xff00 (ex_link ex_beq))) 0x10000 (ex_rv 0x10000) =
    Some ((ex_rv 0x10000)\<lparr>pc := 0xff00\<rparr>)"
proof -
  have h: "0 + 4 \<le> length (ldata (ex_link ex_beq))" "length (ldata (ex_link ex_beq)) < 2 ^ 64"
    "(0x10000 :: 64 word) = 0x10000 + of_nat 0" "pc (ex_rv 0x10000) = 0x10000"
    by (simp_all add: ex_link_def ex_beq_def ex_rv_def)
  have i: "insn_at (ldata (ex_link ex_beq)) 0 = Some (Branch Beq 0 0 0)" "jump_fits 12 (0xff00 - 0x10000)" by code_simp+
  from relocate_branch_reaches [OF h(1,2) i(1) h(3,4), of ex_env "0xff00"] i(2) show ?thesis by simp
qed

text \<open>C22. After \<open>R_RISCV_JAL\<close> a jump whose symbol is within 1 MiB and at an even distance goes to the
  symbol. The error is counted only beyond 2 MiB: for a distance between 1 MiB and 2 MiB the jump silently goes
  2 MiB too low or too high.\<close>

theorem relocate_jal_reaches:
  assumes "p + 4 \<le> length (ldata s)" "length (ldata s) < 2 ^ 64" "insn_at (ldata s) p = Some (Jal r d)"
    "addr = base + of_nat p" "pc m = addr"
  shows "nb_errors (relocate e R_RISCV_JAL p addr val s) = nb_errors s + of_bool (\<not> jump_fits 21 (val - addr)) \<and>
    (jump_fits 21 (val - addr) \<longrightarrow>
      (\<exists>m'. run_code 1 (ldata (relocate e R_RISCV_JAL p addr val s)) base m = Some m' \<and>
        (r \<noteq> 0 \<longrightarrow> xr m' r = addr + 4) \<and> rmem m' = rmem m \<and>
        pc m' = (if jump_fits 20 (val - addr) then val else if sint (val - addr) < 0 then val + 2 ^ 21 else val - 2 ^ 21)))"
proof -
  note f = relocate_jal_effect [OF assms(1,3), of e addr val]
  have l: "length (ldata (relocate e R_RISCV_JAL p addr val s)) = length (ldata s)"
    by (simp add: relocate_def relocate_jal_def Let_def le32.length_wr)
  have "run_code (Suc 0) (ldata (relocate e R_RISCV_JAL p addr val s)) base m =
      Some ((set_xr r (addr + 4) m)\<lparr>pc := addr + j_dist (val - addr)\<rparr>)"
    using f(1) l assms by (subst run_one [OF _ _ _ f(1)]) simp_all
  moreover have "addr + j_dist (val - addr) =
      (if jump_fits 20 (val - addr) then val else if sint (val - addr) < 0 then val + 2 ^ 21 else val - 2 ^ 21)"
    if "jump_fits 21 (val - addr)"
    using that j_dist_fits [of "val - addr"] j_dist_wraps [of "val - addr"] by (auto simp: jump_fits_def)
  ultimately show ?thesis using f(2) by (simp del: run_code.simps)
qed

lemma relocate_jal_reaches_witness:
  "nb_errors (relocate ex_env R_RISCV_JAL 0 0x10000 0x120000 (ex_link ex_jal)) = 0 \<and>
    (\<exists>m'. run_code 1 (ldata (relocate ex_env R_RISCV_JAL 0 0x10000 0x120000 (ex_link ex_jal))) 0x10000 (ex_rv 0x10000) = Some m' \<and>
      pc m' = 0x120000 - 2 ^ 21)"
proof -
  have h: "0 + 4 \<le> length (ldata (ex_link ex_jal))" "length (ldata (ex_link ex_jal)) < 2 ^ 64"
    "(0x10000 :: 64 word) = 0x10000 + of_nat 0" "pc (ex_rv 0x10000) = 0x10000" "nb_errors (ex_link ex_jal) = 0"
    by (simp_all add: ex_link_def ex_jal_def ex_rv_def)
  have i: "insn_at (ldata (ex_link ex_jal)) 0 = Some (Jal 0 0)" "jump_fits 21 (0x120000 - 0x10000)"
    "\<not> jump_fits 20 (0x120000 - 0x10000)" "\<not> sint (0x120000 - 0x10000 :: 64 word) < 0" by code_simp+
  from relocate_jal_reaches [OF h(1,2) i(1) h(3,4), of ex_env "0x120000"] i h(5) show ?thesis by auto
qed

section \<open>Addresses in two instructions\<close>

text \<open>The instructions that take the lower part of an address, and the relocation that they need.\<close>

fun with_offset :: "insn \<Rightarrow> 64 word \<Rightarrow> insn" where
  "with_offset (Load w u r r1 _) l = Load w u r r1 l"
| "with_offset (Store w r1 r2 _) l = Store w r1 r2 l"
| "with_offset (OpImm f b r r1 _) l = OpImm f b r r1 l"
| "with_offset i l = i"

fun low_type :: "insn \<Rightarrow> rel_type option" where
  "low_type (Load _ _ _ _ _) = Some R_RISCV_PCREL_LO12_I"
| "low_type (Store _ _ _ _) = Some R_RISCV_PCREL_LO12_S"
| "low_type (OpImm Add False _ _ _) = Some R_RISCV_PCREL_LO12_I"
| "low_type _ = None"

definition hi_target :: "rel_env \<Rightarrow> rel_type \<Rightarrow> 64 word \<Rightarrow> 64 word" where
  "hi_target e t val = (if t = R_RISCV_GOT_HI20 then got_addr e + u64 (sym_got_offset e) else val)"

lemma near_hi_fits: "near v \<Longrightarrow> hi_fits v"
  by (auto simp: near_def hi_fits_def sint_signed_drop_bit_eq drop_bit_eq_div)

text \<open>C23. The relocations of a pair of instructions that address a symbol relative to the program counter
  (\<open>auipc\<close>, then a load, a store or an addition), where the second names the address of the first: when the
  target is near, the upper and the lower part that are written add up to the distance from the first
  instruction to the target, which is the symbol or its slot in the GOT, and no error is counted.\<close>

theorem relocate_pcrel_pair:
  assumes "p + 4 \<le> length (ldata s)" "p2 + 4 \<le> length (ldata s)" "p + 4 \<le> p2 \<or> p2 + 4 \<le> p"
    "insn_at (ldata s) p = Some (Auipc r d)" "insn_at (ldata s) p2 = Some i" "low_type i = Some t2"
    "t = R_RISCV_PCREL_HI20 \<or> t = R_RISCV_GOT_HI20" "near (hi_target e t val - addr)"
    "s' = relocate e2 t2 p2 addr2 addr (relocate e t p addr val s)"
  shows "\<exists>h l. insn_at (ldata s') p = Some (Auipc r h) \<and> insn_at (ldata s') p2 = Some (with_offset i l) \<and>
    addr + h + l = hi_target e t val \<and> nb_errors s' = nb_errors s"
proof -
  let ?v = "hi_target e t val"
  let ?s = "relocate_hi20 p addr ?v s"
  have s: "relocate e t p addr val s = ?s" using assms(7) by (auto simp: relocate_def hi_target_def)
  note f = relocate_hi20_effect [OF assms(1,4), of addr ?v]
  have e0: "nb_errors ?s = nb_errors s" using f(2) near_hi_fits [OF assms(8)] by simp
  have p2: "p2 + 4 \<le> length (ldata ?s)" using assms(2) f(4) by (simp add: le32.length_wr)
  have i: "insn_at (ldata ?s) p2 = Some i" using assms(3,5) f(4) by (auto simp: insn_at_def le32.rd_wr_other)
  note lo_i = relocate_lo12_i_effect [OF p2 f(3), where v = addr]
  note lo_s = relocate_lo12_s_effect [OF p2 f(3), where v = addr]
  have keep: "insn_at (write32le (ldata ?s) p2 w) p = insn_at (ldata ?s) p" for w
    using assms(3) by (auto simp: insn_at_def le32.rd_wr_other)
  have "insn_at (ldata s') p = Some (Auipc r (hi_part (?v - addr))) \<and>
      insn_at (ldata s') p2 = Some (with_offset i (imm12 (?v - addr))) \<and> nb_errors s' = nb_errors s"
    using assms(6) i lo_i lo_s f(1) e0 keep unfolding assms(9) s
    by (cases i rule: low_type.cases) (auto simp: relocate_def split: bool.splits)
  then show ?thesis using near_sum [OF assms(8), of addr] by (intro exI [of _ "hi_part (?v - addr)"] exI [of _ "imm12 (?v - addr)"]) simp
qed

lemma relocate_pcrel_pair_witness:
  "\<exists>h l. insn_at (ldata (relocate ex_env R_RISCV_PCREL_LO12_I 4 0x10004 0x10000
        (relocate ex_env R_RISCV_GOT_HI20 0 0x10000 0 (ex_link ex_load)))) 0 = Some (Auipc 5 h) \<and>
    insn_at (ldata (relocate ex_env R_RISCV_PCREL_LO12_I 4 0x10004 0x10000
        (relocate ex_env R_RISCV_GOT_HI20 0 0x10000 0 (ex_link ex_load)))) 4 = Some (Load WDouble False 10 5 l) \<and> 0x10000 + h + l = 0x20010"
proof -
  have h: "0 + 4 \<le> length (ldata (ex_link ex_load))" "4 + 4 \<le> length (ldata (ex_link ex_load))" "(0 :: nat) + 4 \<le> 4 \<or> (4 :: nat) + 4 \<le> 0"
    "hi_target ex_env R_RISCV_GOT_HI20 0 = 0x20010"
    by (simp_all add: ex_link_def ex_load_def hi_target_def ex_env_def)
  have i: "insn_at (ldata (ex_link ex_load)) 0 = Some (Auipc 5 0)" "insn_at (ldata (ex_link ex_load)) 4 = Some (Load WDouble False 10 5 0)"
    "near (0x20010 - 0x10000)" by code_simp+
  from relocate_pcrel_pair [OF h(1,2,3) i(1,2) _ _ _ refl, of R_RISCV_PCREL_LO12_I R_RISCV_GOT_HI20 ex_env 0 "0x10000" ex_env "0x10004"] h(4) i(3)
  show ?thesis by auto
qed

section \<open>The procedure linkage table\<close>

text \<open>C24. An entry of the relocated table jumps to the address in its slot of the GOT. While the slot still
  holds the address of the table, as \<open>relocate_got\<close> leaves it, the entry goes through the header to the
  resolver in the first word of the GOT, with the second word in \<open>t0\<close> and eight times the number of the
  entry in \<open>t1\<close>, which is the offset of the slot from the first one.\<close>

theorem plt_lazy_binding:
  fixes plt :: "'a sec_scheme"
  assumes "plt_size n \<le> data_offset plt" "data_offset plt \<le> length (sec_data plt)" "length (sec_data plt) < 2 ^ 64" "j < n"
    "pc m = pa + of_nat (plt_size j)" "slot = ga + read64le (sec_data plt) (plt_size j)" "near (slot - pc m)" "near (ga - pa)"
    "\<not> bit pa 0" "d = sec_data (fst (relocate_plt pa ga plt))"
  shows "(\<exists>m'. run_code 3 d pa m = Some m' \<and> pc m' = load64 m slot AND NOT 1 \<and> rmem m' = rmem m) \<and>
    (load64 m slot = pa \<longrightarrow>
      (\<exists>m'. run_code 11 d pa m = Some m' \<and> pc m' = load64 m ga AND NOT 1 \<and>
        xr m' 5 = load64 m (ga + 8) \<and> xr m' 6 = of_nat (8 * j) \<and> rmem m' = rmem m))"
proof -
  note en = run_entry [OF assms(1-7), folded assms(10)]
  have "\<exists>m'. run_code 3 d pa m = Some m' \<and> pc m' = load64 m slot AND NOT 1 \<and> rmem m' = rmem m"
    using en [of 0] by auto
  moreover have "\<exists>m'. run_code 11 d pa m = Some m' \<and> pc m' = load64 m ga AND NOT 1 \<and>
        xr m' 5 = load64 m (ga + 8) \<and> xr m' 6 = of_nat (8 * j) \<and> rmem m' = rmem m" if u: "load64 m slot = pa"
  proof -
    obtain m1 where m1: "run_code (8 + 3) d pa m = run_code 8 d pa m1" "pc m1 = pa AND NOT 1" "xr m1 6 = pc m + 12"
      "xr m1 28 = pa" "rmem m1 = rmem m" using en [of 8] u by auto
    have "pa AND NOT 1 = pa" using assms(9) by (intro bit_word_eqI) (auto simp: bit_simps bit_1_iff intro: gr0I)
    with m1 have "pc m1 = pa" "xr m1 6 = pa + of_nat (32 + 16 * j + 12)" "xr m1 28 = pa" by (simp_all add: assms(5) plt_size_def)
    moreover have "j < 2 ^ 60" using assms(1-4) by (simp add: plt_size_def)
    ultimately show ?thesis
      using run_header [OF assms(1-3), of m1 pa ga j 0, folded assms(10)] assms(8) m1(1,5)
      by (auto simp: load64_def)
  qed
  ultimately show ?thesis by blast
qed

lemma plt_lazy_binding_witness:
  "\<exists>m'. run_code 3 (sec_data (fst (relocate_plt 0x10000 0x20000 ex_plt))) 0x10000 (ex_rv 0x10020) = Some m' \<and>
    pc m' = load64 (ex_rv 0x10020) 0x20010 AND NOT 1"
proof -
  have h: "plt_size 1 \<le> data_offset ex_plt" "data_offset ex_plt \<le> length (sec_data ex_plt)" "length (sec_data ex_plt) < 2 ^ 64"
    "(0 :: nat) < 1" "pc (ex_rv 0x10020) = 0x10000 + of_nat (plt_size 0)"
    by (simp_all add: plt_size_def ex_plt_def ex_rv_def)
  have i: "0x20010 = 0x20000 + read64le (sec_data ex_plt) (plt_size 0)" "near (0x20010 - pc (ex_rv 0x10020))" "near (0x20000 - 0x10000)"
    "\<not> bit (0x10000 :: 64 word) 0" by code_simp+
  from plt_lazy_binding [OF h i refl] show ?thesis by blast
qed

section \<open>What is left alone\<close>

text \<open>The number of bytes of the field of a relocation.\<close>

fun rel_size :: "rel_type \<Rightarrow> nat" where
  "rel_size R_RISCV_CALL = 8" | "rel_size R_RISCV_CALL_PLT = 8"
| "rel_size R_RISCV_64 = 8" | "rel_size R_RISCV_JUMP_SLOT = 8" | "rel_size R_RISCV_ADD64 = 8" | "rel_size R_RISCV_SUB64 = 8"
| "rel_size R_RISCV_BRANCH = 4" | "rel_size R_RISCV_JAL = 4" | "rel_size R_RISCV_PCREL_HI20 = 4" | "rel_size R_RISCV_GOT_HI20 = 4"
| "rel_size R_RISCV_PCREL_LO12_I = 4" | "rel_size R_RISCV_PCREL_LO12_S = 4" | "rel_size R_RISCV_32 = 4"
| "rel_size R_RISCV_ADD32 = 4" | "rel_size R_RISCV_SUB32 = 4"
| "rel_size R_RISCV_RVC_BRANCH = 2" | "rel_size R_RISCV_RVC_JUMP = 2" | "rel_size R_RISCV_ADD16 = 2" | "rel_size R_RISCV_SUB16 = 2"
| "rel_size R_RISCV_SUB8 = 1" | "rel_size R_RISCV_SET6 = 1" | "rel_size R_RISCV_SET8 = 1" | "rel_size R_RISCV_SET16 = 1"
| "rel_size R_RISCV_SUB6 = 1"
| "rel_size _ = 0"

definition same_but :: "nat \<Rightarrow> nat \<Rightarrow> 8 word list \<Rightarrow> 8 word list \<Rightarrow> bool" where
  "same_but p n d d' \<longleftrightarrow> length d' = length d \<and> (\<forall>j. j < p \<or> p + n \<le> j \<longrightarrow> d' ! j = d ! j)"

lemma same_but_intros:
  "same_but p n d d" "same_but p 8 d (write64le d p x)" "same_but p 4 d (write32le d p y)" "same_but p 2 d (write16le d p z)"
  "same_but p (Suc 0) d (d[p := b])" "same_but p 8 d (write32le (write32le d p y) (p + 4) y')"
  by (auto simp: same_but_def le64.length_wr le64.nth_wr le32.length_wr le32.nth_wr le16.length_wr le16.nth_wr)

lemma patch_same:
  "same_but p 8 d (add64le d p x)" "same_but p 4 d (add32le d p y)"
  by (simp_all add: add64le_def add32le_def same_but_intros)

lemma error_grows: "nb_errors s \<le> nb_errors (error_if c s)" by simp

text \<open>C25. A relocation changes only the bytes of its field: the section keeps its length, every byte outside
  the field is the one it was, and errors already counted stay counted.\<close>

theorem relocate_only_field:
  "same_but p (rel_size t) (ldata s) (ldata (relocate e t p addr val s)) \<and> nb_errors s \<le> nb_errors (relocate e t p addr val s)"
  by (cases t)
    (simp_all add: relocate_def relocate_branch_def relocate_jal_def relocate_call_def relocate_hi20_def relocate_lo12_i_def
      relocate_lo12_s_def relocate_rvc_branch_def relocate_rvc_jump_def relocate_32_def relocate_64_def patch16_def patch8_def
      Let_def same_but_intros patch_same split: prod.split)

section \<open>Compressed jumps and differences\<close>

text \<open>The offsets of the compressed branch and of the compressed jump, as the manual of the instruction set
  places their bits.\<close>

definition cb_offset :: "16 word \<Rightarrow> 64 word" where
  "cb_offset w = scast (push_bit 8 (ucast (ucast (drop_bit 12 w) :: 1 word)) OR push_bit 3 (ucast (ucast (drop_bit 10 w) :: 2 word))
    OR push_bit 6 (ucast (ucast (drop_bit 5 w) :: 2 word)) OR push_bit 1 (ucast (ucast (drop_bit 3 w) :: 2 word))
    OR push_bit 5 (ucast (ucast (drop_bit 2 w) :: 1 word)) :: 9 word)"

definition cj_offset :: "16 word \<Rightarrow> 64 word" where
  "cj_offset w = scast (push_bit 11 (ucast (ucast (drop_bit 12 w) :: 1 word)) OR push_bit 4 (ucast (ucast (drop_bit 11 w) :: 1 word))
    OR push_bit 8 (ucast (ucast (drop_bit 9 w) :: 2 word)) OR push_bit 10 (ucast (ucast (drop_bit 8 w) :: 1 word))
    OR push_bit 6 (ucast (ucast (drop_bit 7 w) :: 1 word)) OR push_bit 7 (ucast (ucast (drop_bit 6 w) :: 1 word))
    OR push_bit 1 (ucast (ucast (drop_bit 3 w) :: 3 word)) OR push_bit 5 (ucast (ucast (drop_bit 2 w) :: 1 word)) :: 12 word)"

definition cb_word :: "16 word \<Rightarrow> 32 word \<Rightarrow> 16 word" where
  "cb_word w x = u16 ((u32 w AND 0xe383) OR push_bit 2 (drop_bit 5 x AND 1) OR push_bit 3 (drop_bit 1 x AND 3)
          OR push_bit 5 (drop_bit 6 x AND 3) OR push_bit 10 (drop_bit 3 x AND 3) OR push_bit 12 (drop_bit 8 x AND 1))"

definition cj_word :: "16 word \<Rightarrow> 32 word \<Rightarrow> 16 word" where
  "cj_word w x = u16 ((u32 w AND 0xe003) OR push_bit 2 (drop_bit 5 x AND 1) OR push_bit 3 (drop_bit 1 x AND 7)
          OR push_bit 6 (drop_bit 7 x AND 1) OR push_bit 7 (drop_bit 6 x AND 1) OR push_bit 8 (drop_bit 10 x AND 1)
          OR push_bit 9 (drop_bit 8 x AND 3) OR push_bit 11 (drop_bit 4 x AND 1) OR push_bit 12 (drop_bit 11 x AND 1))"

lemma c_word_offsets:
  "cb_offset (cb_word w (u32 v)) = scast (ucast v AND NOT 1 :: 9 word)" "cj_offset (cj_word w (u32 v)) = scast (ucast v AND NOT 1 :: 12 word)"
  unfolding cb_offset_def cj_offset_def
  by (rule arg_cong [where f = scast], rule bits_eqI, simp add: cb_word_def cj_word_def each_bit, simp add: numeral_2_eq_2)+

lemma c_word_keeps: "cb_word w x AND 0xe383 = w AND 0xe383" "cj_word w x AND 0xe003 = w AND 0xe003"
  by (rule bits_eqI, simp add: cb_word_def cj_word_def each_bit)+

text \<open>C26. The compressed branch and the compressed jump get the distance to the symbol as their offset,
  the other bits stay, and an error is counted exactly when the distance does not fit into 9 or 12 bits.\<close>

theorem relocate_compressed:
  assumes "p + 2 \<le> length (ldata s)" "w = read16le (ldata s) p"
    "b = relocate e R_RISCV_RVC_BRANCH p addr val s" "j = relocate e R_RISCV_RVC_JUMP p addr val s"
  shows "nb_errors b = nb_errors s + of_bool (\<not> jump_fits 8 (val - addr)) \<and>
    nb_errors j = nb_errors s + of_bool (\<not> jump_fits 11 (val - addr)) \<and>
    (jump_fits 8 (val - addr) \<longrightarrow> cb_offset (read16le (ldata b) p) = val - addr) \<and>
    (jump_fits 11 (val - addr) \<longrightarrow> cj_offset (read16le (ldata j) p) = val - addr) \<and>
    read16le (ldata b) p AND 0xe383 = w AND 0xe383 \<and> read16le (ldata j) p AND 0xe003 = w AND 0xe003"
proof -
  have w: "read16le (ldata b) p = cb_word w (u32 (val - addr))" "read16le (ldata j) p = cj_word w (u32 (val - addr))"
    using assms(1) by (simp_all add: assms(2-4) relocate_def relocate_rvc_branch_def relocate_rvc_jump_def patch16_def
        cb_word_def cj_word_def Let_def le16.rd_wr)
  have "nb_errors b = nb_errors s + of_bool (\<not> jump_fits 8 (val - addr))"
    "nb_errors j = nb_errors s + of_bool (\<not> jump_fits 11 (val - addr))"
    unfolding assms(3,4) relocate_def relocate_rvc_branch_def relocate_rvc_jump_def Let_def patch16_def
    by (simp_all only: rel_type.case patch_fields range_test)
  moreover have "jump_fits 8 v \<Longrightarrow> scast (ucast v AND NOT 1 :: 9 word) = v" "jump_fits 11 v \<Longrightarrow> scast (ucast v AND NOT 1 :: 12 word) = v" for v
    unfolding jump_fits_def by (rule even_fits; simp)+
  ultimately show ?thesis unfolding w c_word_offsets c_word_keeps by blast
qed

lemma relocate_compressed_witness:
  "cb_offset (read16le (ldata (relocate ex_env R_RISCV_RVC_BRANCH 0 0x10000 0xff80 (ex_link ex_beq))) 0) = - 128"
proof -
  have h: "0 + 2 \<le> length (ldata (ex_link ex_beq))" by (simp add: ex_link_def ex_beq_def)
  have f: "jump_fits 8 (0xff80 - 0x10000)" by code_simp
  from relocate_compressed [OF h refl refl refl, of ex_env "0x10000" "0xff80"] f show ?thesis by simp
qed

text \<open>A pair of relocations that adds one symbol and subtracts another leaves the difference of the two,
  on top of what the field held, in every width; of a six-bit field only the low six bits change.\<close>

theorem relocate_difference:
  assumes "p + 8 \<le> length (ldata s)"
  shows "read64le (ldata (relocate e R_RISCV_SUB64 p addr b (relocate e R_RISCV_ADD64 p addr a s))) p = read64le (ldata s) p + a - b \<and>
    read32le (ldata (relocate e R_RISCV_SUB32 p addr b (relocate e R_RISCV_ADD32 p addr a s))) p = read32le (ldata s) p + u32 a - u32 b \<and>
    read16le (ldata (relocate e R_RISCV_SUB16 p addr b (relocate e R_RISCV_ADD16 p addr a s))) p = read16le (ldata s) p + u16 a - u16 b \<and>
    ldata (relocate e R_RISCV_SUB8 p addr b (relocate e R_RISCV_SET8 p addr a s)) ! p = u8 (a - b) \<and>
    ldata (relocate e R_RISCV_SUB6 p addr b (relocate e R_RISCV_SET6 p addr a s)) ! p =
      (ldata s ! p AND 0xc0) OR (u8 (a - b) AND 0x3f)"
proof -
  define B where "B = u8 ((u64 (ldata s ! p) AND NOT 0x3f) OR (a AND 0x3f))"
  have m: "x AND 0x3f = ucast (ucast x :: 6 word)" for x :: "8 word"
    by (intro bit_word_eqI) (auto simp: masks bit_simps)
  have B: "(ucast B :: 6 word) = ucast (u8 a)" by (rule bits_eqI) (simp add: B_def each_bit)
  have six: "u8 ((u64 B AND NOT 0x3f) OR ((u64 B - b) AND 0x3f)) = (ldata s ! p AND 0xc0) OR (u8 (a - b) AND 0x3f)"
  proof -
    have "u8 ((u64 B AND NOT 0x3f) OR ((u64 B - b) AND 0x3f)) = (B AND NOT 0x3f) OR (u8 (u64 B - b) AND 0x3f)"
      by (rule bits_eqI) (simp add: each_bit)
    also have "u8 (u64 B - b) AND 0x3f = u8 (a - b) AND 0x3f"
    proof -
      have s: "(ucast (u8 x) :: 6 word) = ucast x" for x :: "64 word" by (rule ucast_ucast_down) simp
      have d: "(ucast (x - y) :: 6 word) = ucast x - ucast y" for x y :: "64 word" by (rule ucast_diff_down) simp
      have "(ucast (u64 B) :: 6 word) = ucast a" using B unfolding s by (simp add: fields)
      then show ?thesis unfolding m s d by simp
    qed
    also have "B AND NOT 0x3f = ldata s ! p AND 0xc0" by (rule bits_eqI) (simp add: B_def each_bit)
    finally show ?thesis .
  qed
  have eight: "u8 (u64 (u8 ((u64 x AND NOT 0xff) OR (a AND 0xff))) - b) = u8 (a - b)" for x :: "8 word"
  proof -
    have "u8 ((u64 x AND NOT 0xff) OR (a AND 0xff)) = u8 a" by (rule bits_eqI) (simp add: each_bit)
    then show ?thesis by (simp add: ucast_diff_down fields)
  qed
  show ?thesis
    using assms six eight by (simp add: relocate_def patch8_def B_def le64.rd_wr le64.length_wr le32.rd_wr le32.length_wr le16.rd_wr le16.length_wr)
qed

lemma relocate_difference_witness:
  "read64le (ldata (relocate ex_env R_RISCV_SUB64 0 0 0x1000 (relocate ex_env R_RISCV_ADD64 0 0 0x1234 (ex_link (replicate 8 0))))) 0 =
    read64le (replicate 8 0) 0 + 0x234"
  using relocate_difference [of 0 "ex_link (replicate 8 0)" ex_env 0 "0x1000" "0x1234"] by (simp add: ex_link_def)

end
