(* ===== verification/ElfSymtab.thy ===== *)
theory ElfSymtab
  imports Prelude
begin

text \<open>
  ELF symbol tables (\<open>tccelf.c\<close>): the table of symbols with its string table and its hash table, and the
  operations that enter, find and merge symbols. The data of the three sections are arrays: symbols, characters
  and the integers of the hash section, which holds the number of buckets, the number of symbols, the heads of
  the buckets and, for every symbol, the next one in its bucket. Names are C strings without a zero character.
\<close>

unbundle bit_operations_syntax

section \<open>Symbols\<close>

record esym =
  es_name :: nat
  es_info :: "8 word"
  es_other :: "8 word"
  es_shndx :: "16 word"
  es_value :: "64 word"
  es_size :: "64 word"

definition ST_BIND :: "8 word \<Rightarrow> 8 word" where "ST_BIND i = drop_bit 4 i"
definition ST_TYPE :: "8 word \<Rightarrow> 8 word" where "ST_TYPE i = i AND 0xf"
definition ST_INFO :: "8 word \<Rightarrow> 8 word \<Rightarrow> 8 word" where "ST_INFO b t = push_bit 4 b + (t AND 0xf)"
definition ST_VISIBILITY :: "8 word \<Rightarrow> 8 word" where "ST_VISIBILITY i = i AND 3"

abbreviation (input) STB_LOCAL :: "8 word" where "STB_LOCAL \<equiv> 0"
abbreviation (input) STB_GLOBAL :: "8 word" where "STB_GLOBAL \<equiv> 1"
abbreviation (input) STB_WEAK :: "8 word" where "STB_WEAK \<equiv> 2"
abbreviation (input) STV_DEFAULT :: "8 word" where "STV_DEFAULT \<equiv> 0"
abbreviation (input) STV_INTERNAL :: "8 word" where "STV_INTERNAL \<equiv> 1"
abbreviation (input) STV_HIDDEN :: "8 word" where "STV_HIDDEN \<equiv> 2"
abbreviation (input) SHNW_UNDEF :: "16 word" where "SHNW_UNDEF \<equiv> 0"
abbreviation (input) SHN_LORESERVE :: "16 word" where "SHN_LORESERVE \<equiv> 0xff00"
abbreviation (input) SHN_COMMON :: "16 word" where "SHN_COMMON \<equiv> 0xfff2"
abbreviation (input) ST_ASM_SET :: "8 word" where "ST_ASM_SET \<equiv> 4"

text \<open>A symbol table section: its symbols, its string table (\<open>link\<close>), its hash table if it has one, and of
  its state what \<open>set_elf_sym\<close> uses: whether the section belongs to a dynamic library, the number of the
  section for uninitialised data, the flag for new undefined symbols and the number of errors reported.\<close>

record symtab =
  esyms :: "esym list"
  strtab :: string
  ehash :: "nat list option"
  nb_hashed_syms :: nat
  shf_dynsym :: bool
  bss_num :: "16 word"
  new_undef_sym :: bool
  sym_errors :: nat

section \<open>Strings\<close>

abbreviation NUL :: char where "NUL \<equiv> CHR 0x00"

definition c_string :: "string \<Rightarrow> nat \<Rightarrow> string" where
  "c_string d i = takeWhile (\<lambda>c. c \<noteq> NUL) (drop i d)"

definition put_elf_str :: "string \<Rightarrow> string \<Rightarrow> nat \<times> string" where
  "put_elf_str d str = (length d, d @ str @ [NUL])"

text \<open>The body and the loop of \<open>elf_hash\<close>.\<close>

definition elf_hash_step :: "32 word \<Rightarrow> char \<Rightarrow> 32 word" where
  "elf_hash_step h c =
    (let h = push_bit 4 h + of_char c; g = h AND 0xf0000000; h = (if g \<noteq> 0 then h XOR drop_bit 24 g else h)
     in h AND NOT g)"

definition elf_hash :: "string \<Rightarrow> 32 word" where
  "elf_hash name = fold (\<lambda>c h. elf_hash_step h c) name 0"

section \<open>The hash table\<close>

definition name_at :: "symtab \<Rightarrow> nat \<Rightarrow> string" where
  "name_at s i = c_string (strtab s) (es_name (esyms s ! i))"

definition bucket :: "nat \<Rightarrow> string \<Rightarrow> nat" where
  "bucket nb name = unat (elf_hash name) mod nb"

text \<open>One iteration of the loop of \<open>rebuild_hash\<close>: the next link is appended and the bucket's head updated.\<close>

definition rebuild_step :: "symtab \<Rightarrow> nat \<Rightarrow> nat \<Rightarrow> nat list \<Rightarrow> nat list" where
  "rebuild_step s nb i tab =
    (if ST_BIND (es_info (esyms s ! i)) \<noteq> STB_LOCAL then
       let h = bucket nb (name_at s i) in (tab @ [tab ! (2 + h)])[2 + h := i]
     else tab @ [0])"

definition rebuild_hash :: "nat \<Rightarrow> symtab \<Rightarrow> symtab" where
  "rebuild_hash nb s =
    (case ehash s of
      None \<Rightarrow> s
    | Some base \<Rightarrow>
        let nb = (if nb = 0 then base ! 0 else nb); n = length (esyms s)
        in s\<lparr>ehash := Some (fold (rebuild_step s nb) [1..<n] ([nb, n] @ replicate (nb + 1) 0))\<rparr>)"

definition init_symtab :: "symtab \<Rightarrow> symtab" where
  "init_symtab s =
    s\<lparr>strtab := snd (put_elf_str (strtab s) []),
      esyms := esyms s @ [\<lparr>es_name = 0, es_info = 0, es_other = 0, es_shndx = 0, es_value = 0, es_size = 0\<rparr>],
      ehash := map_option (\<lambda>base. base @ [1, 1, 0, 0]) (ehash s)\<rparr>"

definition hash_new_sym :: "nat \<Rightarrow> 8 word \<Rightarrow> symtab \<Rightarrow> symtab" where
  "hash_new_sym i info s =
    (case ehash s of
      None \<Rightarrow> s
    | Some base \<Rightarrow>
        if ST_BIND info \<noteq> STB_LOCAL then
          let nb = base ! 0; h = bucket nb (name_at s i);
              base = (base @ [base ! (2 + h)])[2 + h := i];
              s = s\<lparr>ehash := Some (base[1 := base ! 1 + 1]), nb_hashed_syms := nb_hashed_syms s + 1\<rparr>
          in if nb_hashed_syms s > 2 * nb then rebuild_hash (2 * nb) s else s
        else s\<lparr>ehash := Some ((base @ [0])[1 := base ! 1 + 1])\<rparr>)"

definition put_elf_sym ::
  "64 word \<Rightarrow> 64 word \<Rightarrow> 8 word \<Rightarrow> 8 word \<Rightarrow> 16 word \<Rightarrow> string \<Rightarrow> symtab \<Rightarrow> nat \<times> symtab" where
  "put_elf_sym value sz info other shndx name s =
    (let (off, strs) = (if name \<noteq> [] then put_elf_str (strtab s) name else (0, strtab s));
         i = length (esyms s);
         e = \<lparr>es_name = off, es_info = info, es_other = other, es_shndx = shndx, es_value = value, es_size = sz\<rparr>
     in (i, hash_new_sym i info (s\<lparr>strtab := strs, esyms := esyms s @ [e]\<rparr>)))"

text \<open>The loop along a bucket, with fuel; \<open>None\<close> when the fuel runs out.\<close>

fun find_loop :: "symtab \<Rightarrow> nat list \<Rightarrow> string \<Rightarrow> nat \<Rightarrow> nat \<Rightarrow> nat option" where
  "find_loop s base name 0 i = None"
| "find_loop s base name (Suc k) i =
    (if i \<noteq> 0 then
       if name = name_at s i then Some i else find_loop s base name k (base ! (2 + base ! 0 + i))
     else Some 0)"

definition find_elf_sym :: "symtab \<Rightarrow> string \<Rightarrow> nat" where
  "find_elf_sym s name =
    (case ehash s of
      None \<Rightarrow> 0
    | Some base \<Rightarrow>
        (case find_loop s base name (Suc (length (esyms s))) (base ! (2 + bucket (base ! 0) name)) of
          Some i \<Rightarrow> i
        | None \<Rightarrow> 0))"

text \<open>The address of a symbol, or -1, by its decorated name.\<close>

definition get_sym_addr :: "string \<Rightarrow> bool \<Rightarrow> symtab \<Rightarrow> 64 word \<times> symtab" where
  "get_sym_addr name err s =
    (let i = find_elf_sym s name
     in if i = 0 \<or> es_shndx (esyms s ! i) = SHNW_UNDEF then (- 1, if err then s\<lparr>sym_errors := sym_errors s + 1\<rparr> else s)
        else (es_value (esyms s ! i), s))"

definition list_elf_symbols :: "symtab \<Rightarrow> (string \<times> 64 word) list" where
  "list_elf_symbols s =
    [(name_at s i, es_value (esyms s ! i)). i \<leftarrow> [0..<length (esyms s)], es_value (esyms s ! i) \<noteq> 0,
      ST_BIND (es_info (esyms s ! i)) = STB_GLOBAL \<and> ST_VISIBILITY (es_other (esyms s ! i)) = STV_DEFAULT]"

section \<open>Merging symbols\<close>

definition upd_esym :: "nat \<Rightarrow> (esym \<Rightarrow> esym) \<Rightarrow> symtab \<Rightarrow> symtab" where
  "upd_esym i f s = s\<lparr>esyms := (esyms s)[i := f (esyms s ! i)]\<rparr>"

text \<open>The most constraining of two visibilities.\<close>

definition merge_vis :: "8 word \<Rightarrow> 8 word \<Rightarrow> 8 word" where
  "merge_vis esym_vis sym_vis =
    (if esym_vis = STV_DEFAULT then sym_vis else if sym_vis = STV_DEFAULT then esym_vis
     else if esym_vis < sym_vis then esym_vis else sym_vis)"

definition patch_sym :: "nat \<Rightarrow> 8 word \<Rightarrow> 8 word \<Rightarrow> 16 word \<Rightarrow> 64 word \<Rightarrow> 64 word \<Rightarrow> symtab \<Rightarrow> symtab" where
  "patch_sym i bind type shndx value sz s =
    (upd_esym i (\<lambda>e. e\<lparr>es_info := ST_INFO bind type, es_shndx := shndx, es_value := value, es_size := sz\<rparr>) s)
      \<lparr>new_undef_sym := True\<rparr>"

definition set_elf_sym ::
  "64 word \<Rightarrow> 64 word \<Rightarrow> 8 word \<Rightarrow> 8 word \<Rightarrow> 16 word \<Rightarrow> string \<Rightarrow> symtab \<Rightarrow> nat \<times> symtab" where
  "set_elf_sym value sz info other shndx name s =
    (let bind = ST_BIND info; type = ST_TYPE info; vis = ST_VISIBILITY other;
         do_def = put_elf_sym value sz (ST_INFO bind type) other shndx name s
     in if bind \<noteq> STB_LOCAL then
          let i = find_elf_sym s name; e = esyms s ! i; do_patch = patch_sym i bind type shndx value sz
          in if i = 0 then do_def
             else if es_value e = value \<and> es_size e = sz \<and> es_info e = info \<and> es_other e = other \<and> es_shndx e = shndx
             then (i, s)
             else if es_shndx e \<noteq> SHNW_UNDEF then
               let ebind = ST_BIND (es_info e);
                   new_other = (es_other e AND NOT 3) OR merge_vis (ST_VISIBILITY (es_other e)) vis;
                   s = upd_esym i (\<lambda>e. e\<lparr>es_other := new_other\<rparr>) s
               in (i,
                   if shndx = SHNW_UNDEF then s
                   else if bind = STB_GLOBAL \<and> ebind = STB_WEAK then do_patch s
                   else if bind = STB_WEAK \<and> ebind = STB_GLOBAL then s
                   else if bind = STB_WEAK \<and> ebind = STB_WEAK then s
                   else if vis = STV_HIDDEN \<or> vis = STV_INTERNAL then s
                   else if (es_shndx e = SHN_COMMON \<or> es_shndx e = bss_num s) \<and> (shndx < SHN_LORESERVE \<and> shndx \<noteq> bss_num s)
                   then do_patch s
                   else if shndx = SHN_COMMON \<or> shndx = bss_num s then s
                   else if shf_dynsym s then s
                   else if new_other AND ST_ASM_SET \<noteq> 0 then do_patch s
                   else s\<lparr>sym_errors := sym_errors s + 1\<rparr>)
             else (i, do_patch (upd_esym i (\<lambda>e. e\<lparr>es_other := other\<rparr>) s))
        else do_def)"

section \<open>Sorting\<close>

text \<open>The locals come first. The map from old to new indices is built in the two passes; relocation entries are
  pairs of a symbol and the rest. Of the header of the section, the number of local symbols (\<open>sh_info\<close>) is set only when
  the size of the section (\<open>sh_size\<close>) is known to be not zero.\<close>

definition is_local :: "esym \<Rightarrow> bool" where
  "is_local e \<longleftrightarrow> ST_BIND (es_info e) = STB_LOCAL"

definition pass :: "(esym \<Rightarrow> bool) \<Rightarrow> esym list \<Rightarrow> esym list \<times> (nat \<rightharpoonup> nat) \<Rightarrow> esym list \<times> (nat \<rightharpoonup> nat)" where
  "pass P syms = fold (\<lambda>i (q, m). if P (syms ! i) then (q @ [syms ! i], m(i \<mapsto> length q)) else (q, m)) [0..<length syms]"

definition modify_reloctions_old_to_new :: "(nat \<rightharpoonup> nat) \<Rightarrow> (nat \<times> 'r) list list \<Rightarrow> (nat \<times> 'r) list list" where
  "modify_reloctions_old_to_new m = map (map (\<lambda>(i, r). (the (m i), r)))"

definition sort_syms :: "nat \<Rightarrow> nat \<Rightarrow> esym list \<Rightarrow> (nat \<times> 'r) list list \<Rightarrow> esym list \<times> nat \<times> (nat \<times> 'r) list list" where
  "sort_syms sh_size sh_info syms rels =
    (let (q, m) = pass is_local syms ([], Map.empty); sh_info = (if sh_size \<noteq> 0 then length q else sh_info);
         (q, m) = pass (\<lambda>e. \<not> is_local e) syms (q, m)
     in (q, sh_info, modify_reloctions_old_to_new m rels))"

end
