(* ===== verification/ElfHash.thy ===== *)
theory ElfHash
  imports ElfSymtab
begin

text \<open>
  The hash table of a symbol table: the chain of each bucket holds exactly the global and weak symbols of that
  bucket, the newest first. Entering a symbol and rebuilding the table keep this, so \<open>find_elf_sym\<close> always
  returns the newest symbol of the name.
\<close>

section \<open>The invariant\<close>

definition global_at :: "symtab \<Rightarrow> nat \<Rightarrow> bool" where
  "global_at s i \<longleftrightarrow> ST_BIND (es_info (esyms s ! i)) \<noteq> STB_LOCAL"

definition members :: "symtab \<Rightarrow> nat \<Rightarrow> nat \<Rightarrow> nat \<Rightarrow> nat list" where
  "members s nb h n = rev [i \<leftarrow> [1..<n]. global_at s i \<and> bucket nb (name_at s i) = h]"

text \<open>The chain that starts at \<open>i\<close> is the given list.\<close>

fun links :: "nat list \<Rightarrow> nat \<Rightarrow> nat \<Rightarrow> nat list \<Rightarrow> bool" where
  "links tab nb i [] \<longleftrightarrow> i = 0"
| "links tab nb i (j # js) \<longleftrightarrow> i = j \<and> j \<noteq> 0 \<and> links tab nb (tab ! (2 + nb + j)) js"

text \<open>A table with \<open>nb\<close> buckets of the first \<open>n\<close> symbols.\<close>

definition table_ok :: "symtab \<Rightarrow> nat \<Rightarrow> nat \<Rightarrow> nat list \<Rightarrow> bool" where
  "table_ok s nb n tab \<longleftrightarrow> 0 < nb \<and> length tab = 2 + nb + n \<and> tab ! 0 = nb \<and>
    (\<forall>h<nb. links tab nb (tab ! (2 + h)) (members s nb h n))"

definition strs_ok :: "symtab \<Rightarrow> bool" where
  "strs_ok s \<longleftrightarrow> strtab s \<noteq> [] \<and> strtab s ! 0 = NUL \<and> last (strtab s) = NUL \<and> (\<forall>e\<in>set (esyms s). es_name e < length (strtab s))"

definition symtab_wf :: "symtab \<Rightarrow> bool" where
  "symtab_wf s \<longleftrightarrow> strs_ok s \<and> esyms s \<noteq> [] \<and>
    (\<exists>tab. ehash s = Some tab \<and> table_ok s (tab ! 0) (length (esyms s)) tab \<and> tab ! 1 = length (esyms s) \<and>
      nb_hashed_syms s = length (filter (global_at s) [1..<length (esyms s)]) \<and> nb_hashed_syms s \<le> 2 * tab ! 0)"

section \<open>Strings\<close>

lemma c_string_append: "i < length d \<Longrightarrow> last d = NUL \<Longrightarrow> c_string (d @ x) i = c_string d i"
proof -
  assume i: "i < length d" and l: "last d = NUL"
  have "NUL \<in> set (drop i d)" using i l by (metis drop_eq_Nil last_drop last_in_set not_le)
  then show ?thesis using i by (auto simp: c_string_def takeWhile_append)
qed

lemma c_string_new: "NUL \<notin> set name \<Longrightarrow> c_string (d @ name @ [NUL]) (length d) = name"
proof -
  assume "NUL \<notin> set name"
  then have "\<forall>c\<in>set name. c \<noteq> NUL" by auto
  then show ?thesis by (simp add: c_string_def takeWhile_append2)
qed

section \<open>Chains\<close>

lemma links_cong: "(\<And>j. j \<in> set js \<Longrightarrow> tab' ! (2 + nb + j) = tab ! (2 + nb + j)) \<Longrightarrow> links tab nb i js \<Longrightarrow> links tab' nb i js"
  by (induction js arbitrary: i) auto

lemma members_less: "i \<in> set (members s nb h n) \<Longrightarrow> 0 < i \<and> i < n"
  by (auto simp: members_def)

lemma members_Suc: "0 < n \<Longrightarrow> members s nb h (Suc n) =
    (if global_at s n \<and> bucket nb (name_at s n) = h then n # members s nb h n else members s nb h n)"
  by (simp add: members_def)

lemma length_members: "length (members s nb h n) \<le> n"
  unfolding members_def by (simp, rule order_trans [OF length_filter_le]) simp

lemma bucket_less: "0 < nb \<Longrightarrow> bucket nb name < nb" by (simp add: bucket_def)

lemma table_ok_step:
  assumes t: "table_ok s nb n tab" and n: "0 < n"
  shows "table_ok s nb (Suc n) (rebuild_step s nb n tab)"
proof (cases "global_at s n")
  case False
  then have "rebuild_step s nb n tab = tab @ [0]" by (simp add: rebuild_step_def global_at_def)
  moreover have "links (tab @ [0]) nb ((tab @ [0]) ! (2 + h)) (members s nb h (Suc n))" if "h < nb" for h
  proof -
    have "links tab nb (tab ! (2 + h)) (members s nb h n)" using t that by (simp add: table_ok_def)
    then have "links (tab @ [0]) nb (tab ! (2 + h)) (members s nb h n)"
      using t by (elim links_cong [rotated]) (auto dest!: members_less simp: table_ok_def nth_append)
    then show ?thesis using t that False n by (simp add: members_Suc table_ok_def nth_append)
  qed
  ultimately show ?thesis using t by (auto simp: table_ok_def nth_append)
next
  case True
  define b where "b = bucket nb (name_at s n)"
  define tab' where "tab' = (tab @ [tab ! (2 + b)])[2 + b := n]"
  have b: "b < nb" and len: "length tab = 2 + nb + n" using t by (auto simp: table_ok_def b_def bucket_less)
  have r: "rebuild_step s nb n tab = tab'" using True by (simp add: rebuild_step_def global_at_def b_def tab'_def Let_def)
  have next_n: "tab' ! (2 + nb + n) = tab ! (2 + b)" using b n len by (simp add: tab'_def nth_list_update nth_append)
  have keep: "links tab' nb i (members s nb h n)" if "links tab nb i (members s nb h n)" for h i
    using that by (elim links_cong [rotated]) (use b len in \<open>auto dest!: members_less simp: tab'_def nth_list_update nth_append\<close>)
  have "links tab' nb (tab' ! (2 + h)) (members s nb h (Suc n))" if h: "h < nb" for h
  proof (cases "h = b")
    case True
    have "links tab' nb (tab ! (2 + b)) (members s nb b n)" using t b by (intro keep) (simp add: table_ok_def)
    moreover have "tab' ! (2 + b) = n" using b len by (simp add: tab'_def)
    ultimately show ?thesis using n next_n \<open>global_at s n\<close> True by (simp add: members_Suc b_def)
  next
    case False
    have "links tab' nb (tab ! (2 + h)) (members s nb h n)" using t h by (intro keep) (simp add: table_ok_def)
    moreover have "tab' ! (2 + h) = tab ! (2 + h)" using False h len by (simp add: tab'_def nth_append)
    ultimately show ?thesis using n False by (simp add: members_Suc b_def)
  qed
  then show ?thesis using t b len unfolding r by (simp add: table_ok_def tab'_def nth_append)
qed

lemma table_ok_init: "0 < nb \<Longrightarrow> table_ok s nb 1 ([nb, m] @ replicate (nb + 1) 0)"
  by (auto simp: table_ok_def members_def nth_append nth_Cons')

lemma table_ok_rebuild:
  "0 < nb \<Longrightarrow> 0 < n \<Longrightarrow> table_ok s nb n (fold (rebuild_step s nb) [1..<n] ([nb, m] @ replicate (nb + 1) 0))"
proof (induction n)
  case (Suc n)
  then show ?case using table_ok_init [of nb s m] by (cases "n = 0") (simp_all add: table_ok_step)
qed simp

lemma table_ok_cong:
  assumes "table_ok s nb n tab"
    "\<And>i. 0 < i \<Longrightarrow> i < n \<Longrightarrow> global_at s' i = global_at s i \<and> (global_at s i \<longrightarrow> name_at s' i = name_at s i)"
  shows "table_ok s' nb n tab"
proof -
  have "members s' nb h n = members s nb h n" for h
    using assms(2) unfolding members_def by (intro arg_cong [where f = rev] filter_cong) auto
  with assms(1) show ?thesis by (simp add: table_ok_def)
qed

section \<open>Finding\<close>

lemma find_loop_links:
  "links tab nb i js \<Longrightarrow> tab ! 0 = nb \<Longrightarrow> length js < k \<Longrightarrow>
    find_loop s tab name k i = Some (case find (\<lambda>j. name_at s j = name) js of Some j \<Rightarrow> j | None \<Rightarrow> 0)"
proof (induction js arbitrary: i k)
  case Nil
  then show ?case by (cases k) auto
next
  case (Cons j js)
  then show ?case by (cases k) auto
qed

lemma find_filter: "(\<And>x. P x \<Longrightarrow> Q x = R x) \<Longrightarrow> find P (filter Q xs) = find (\<lambda>x. R x \<and> P x) xs"
  by (induction xs) auto

definition newest :: "symtab \<Rightarrow> string \<Rightarrow> nat option" where
  "newest s name = find (\<lambda>i. global_at s i \<and> name_at s i = name) (rev [1..<length (esyms s)])"

lemma find_newest:
  assumes "symtab_wf s"
  shows "find_elf_sym s name = (case newest s name of Some j \<Rightarrow> j | None \<Rightarrow> 0)"
    and "\<exists>tab. ehash s = Some tab \<and> (\<forall>k. find_loop s tab name (Suc (length (esyms s)) + k) (tab ! (2 + bucket (tab ! 0) name)) =
      Some (find_elf_sym s name))"
proof -
  let ?n = "length (esyms s)"
  obtain tab where tab: "ehash s = Some tab" "table_ok s (tab ! 0) ?n tab" using assms by (auto simp: symtab_wf_def)
  let ?b = "bucket (tab ! 0) name"
  have "?b < tab ! 0" using tab(2) by (intro bucket_less) (simp add: table_ok_def)
  then have l: "links tab (tab ! 0) (tab ! (2 + ?b)) (members s (tab ! 0) ?b ?n)" using tab(2) by (simp add: table_ok_def)
  have "find (\<lambda>j. name_at s j = name) (members s (tab ! 0) ?b ?n) = newest s name"
    unfolding members_def newest_def rev_filter by (rule find_filter) auto
  then have f: "find_loop s tab name (Suc ?n + k) (tab ! (2 + ?b)) = Some (case newest s name of Some j \<Rightarrow> j | None \<Rightarrow> 0)" for k
    using find_loop_links [OF l refl, of "Suc ?n + k" s name] length_members [of s "tab ! 0" ?b ?n] by simp
  then show e: "find_elf_sym s name = (case newest s name of Some j \<Rightarrow> j | None \<Rightarrow> 0)"
    using f [of 0] tab(1) by (simp add: find_elf_sym_def del: find_loop.simps)
  show "\<exists>tab. ehash s = Some tab \<and> (\<forall>k. find_loop s tab name (Suc ?n + k) (tab ! (2 + bucket (tab ! 0) name)) =
      Some (find_elf_sym s name))"
    using tab(1) f by (intro exI [of _ tab]) (simp add: e del: find_loop.simps)
qed

lemma find_rev_upt:
  "find P (rev [Suc 0..<n]) = Some i \<longleftrightarrow> 0 < i \<and> i < n \<and> P i \<and> (\<forall>j. i < j \<and> j < n \<longrightarrow> \<not> P j)"
proof (induction n)
  case (Suc n)
  then show ?case by (cases "n = 0"; cases "P n") (auto simp: less_Suc_eq)
qed simp

lemma newest_Some:
  "newest s name = Some i \<longleftrightarrow>
    0 < i \<and> i < length (esyms s) \<and> global_at s i \<and> name_at s i = name \<and>
    (\<forall>j. i < j \<and> j < length (esyms s) \<longrightarrow> \<not> (global_at s j \<and> name_at s j = name))"
  by (simp add: newest_def find_rev_upt conj_assoc)

lemma newest_None:
  "newest s name = None \<longleftrightarrow> (\<forall>j. 0 < j \<and> j < length (esyms s) \<longrightarrow> \<not> (global_at s j \<and> name_at s j = name))"
  by (auto simp: newest_def find_None_iff Suc_le_eq)

section \<open>Entering\<close>

text \<open>The table with a new symbol, before it is hashed.\<close>

definition add_sym :: "esym \<Rightarrow> string \<Rightarrow> symtab \<Rightarrow> symtab" where
  "add_sym e strs s = s\<lparr>strtab := strs, esyms := esyms s @ [e]\<rparr>"

lemma rebuild_step_mono: "rebuild_step s nb i tab ! 0 = tab ! 0 \<and> rebuild_step s nb i tab ! 1 = tab ! 1" if "2 \<le> length tab"
  using that by (auto simp: rebuild_step_def Let_def nth_append)

lemma rebuild_step_cong:
  "esyms s' = esyms s \<Longrightarrow> strtab s' = strtab s \<Longrightarrow> rebuild_step s' = rebuild_step s"
  by (intro ext) (simp add: rebuild_step_def name_at_def)

lemma table_ok_fields:
  "esyms s' = esyms s \<Longrightarrow> strtab s' = strtab s \<Longrightarrow> table_ok s' nb n tab = table_ok s nb n tab"
  by (simp add: table_ok_def members_def global_at_def name_at_def)

lemma global_at_fields [simp]: "global_at (s\<lparr>ehash := t\<rparr>) = global_at s" "global_at (s\<lparr>ehash := t, nb_hashed_syms := k\<rparr>) = global_at s"
  by (intro ext, simp add: global_at_def)+

lemma table_ok_1: "table_ok s nb n tab \<Longrightarrow> table_ok s nb n (tab[1 := x])"
  unfolding table_ok_def by (auto elim!: links_cong [rotated])

lemma rebuild_wf:
  assumes "strs_ok s" "esyms s \<noteq> []" "ehash s = Some tab" "0 < nb"
    "nb_hashed_syms s = length (filter (global_at s) [1..<length (esyms s)])" "nb_hashed_syms s \<le> 2 * nb"
  shows "symtab_wf (rebuild_hash nb s)"
proof -
  let ?n = "length (esyms s)"
  let ?t = "fold (rebuild_step s nb) [1..<?n] ([nb, ?n] @ replicate (nb + 1) 0)"
  have r: "rebuild_hash nb s = s\<lparr>ehash := Some ?t\<rparr>" using assms(3,4) by (simp add: rebuild_hash_def Let_def)
  have t: "table_ok s nb ?n ?t" using assms(2,4) by (intro table_ok_rebuild) simp_all
  have "?t ! 1 = ?n"
  proof -
    have "length tab \<ge> 2 \<Longrightarrow> fold (rebuild_step s nb) is tab ! 1 = tab ! 1" for "is" tab
      by (induction "is" arbitrary: tab) (auto simp: rebuild_step_mono rebuild_step_def Let_def nth_append)
    then show ?thesis by simp
  qed
  moreover have "?t ! 0 = nb" using t by (simp add: table_ok_def)
  ultimately show ?thesis
    using assms(1,2,5,6) t table_ok_fields [of "s\<lparr>ehash := Some ?t\<rparr>" s nb ?n ?t]
    unfolding r by (simp add: symtab_wf_def strs_ok_def)
qed

lemma hash_new_sym_wf:
  assumes wf: "symtab_wf s" and strs: "strs_ok (add_sym e strs s)"
    and names: "\<And>i. i < length (esyms s) \<Longrightarrow> name_at (add_sym e strs s) i = name_at s i"
  shows "symtab_wf (hash_new_sym (length (esyms s)) (es_info e) (add_sym e strs s))"
proof -
  let ?n = "length (esyms s)" and ?s = "add_sym e strs s"
  obtain tab where tab: "ehash s = Some tab" "table_ok s (tab ! 0) ?n tab" "tab ! 1 = ?n"
    "nb_hashed_syms s = length (filter (global_at s) [1..<?n])" "nb_hashed_syms s \<le> 2 * tab ! 0" "0 < ?n"
    using wf by (auto simp: symtab_wf_def)
  define nb where "nb = tab ! 0"
  have nb: "0 < nb" "tab ! 0 = nb" "2 + nb + ?n = length tab" using tab(2) by (simp_all add: table_ok_def nb_def)
  have g: "i < ?n \<Longrightarrow> global_at ?s i = global_at s i" for i by (simp add: global_at_def add_sym_def nth_append)
  have gn: "global_at ?s ?n \<longleftrightarrow> ST_BIND (es_info e) \<noteq> STB_LOCAL" by (simp add: global_at_def add_sym_def)
  have cnt: "length (filter (global_at ?s) [1..<Suc ?n]) = nb_hashed_syms s + of_bool (global_at ?s ?n)"
  proof -
    have "filter (global_at ?s) [1..<?n] = filter (global_at s) [1..<?n]" using g by (intro filter_cong) auto
    moreover have "[1..<Suc ?n] = [1..<?n] @ [?n]" using tab(6) by (intro upt_Suc_append) linarith
    ultimately show ?thesis unfolding tab(4) by (simp only: filter_append length_append) simp
  qed
  define t where "t = rebuild_step ?s nb ?n tab"
  have "table_ok s nb ?n tab" using tab(2) by (simp only: nb_def)
  then have "table_ok ?s nb ?n tab" by (rule table_ok_cong) (simp add: g names)
  then have t: "table_ok ?s nb (Suc ?n) t" using tab(6) by (simp add: t_def table_ok_step)
  then have t1: "table_ok ?s nb (Suc ?n) (t[1 := Suc ?n])" by (rule table_ok_1)
  have len: "length (esyms ?s) = Suc ?n" "esyms ?s \<noteq> []" by (simp_all add: add_sym_def)
  have m: "t ! 1 = tab ! 1" using rebuild_step_mono [of tab ?s nb ?n] nb(3) by (simp add: t_def)
  have lt: "2 \<le> length t" "t ! 0 = nb" using t by (simp_all add: table_ok_def)
  show ?thesis
  proof (cases "global_at ?s ?n")
    case True
    let ?u = "?s\<lparr>ehash := Some (t[1 := Suc ?n]), nb_hashed_syms := nb_hashed_syms s + 1\<rparr>"
    have u: "hash_new_sym ?n (es_info e) ?s = (if nb_hashed_syms s + 1 > 2 * nb then rebuild_hash (2 * nb) ?u else ?u)"
      using True gn tab(1) m tab(3) unfolding hash_new_sym_def
      by (simp add: add_sym_def [of e strs s] Let_def t_def rebuild_step_def nb_def)
    have su: "strs_ok ?u" "esyms ?u \<noteq> []" "ehash ?u = Some (t[1 := Suc ?n])" "length (esyms ?u) = Suc ?n"
      "nb_hashed_syms ?u = length (filter (global_at ?u) [1..<length (esyms ?u)])"
      using strs len cnt True by (simp_all add: strs_ok_def)
    show ?thesis
    proof (cases "nb_hashed_syms s + 1 > 2 * nb")
      case True
      have "nb_hashed_syms ?u \<le> 2 * (2 * nb)" using tab(5) nb(1) by (simp add: nb_def)
      then have "symtab_wf (rebuild_hash (2 * nb) ?u)" using nb(1) by (intro rebuild_wf [OF su(1,2,3) _ su(5)]) simp_all
      with True show ?thesis unfolding u by simp
    next
      case False
      have "table_ok ?u nb (length (esyms ?u)) (t[1 := Suc ?n])" using t1 unfolding su(4) by (subst table_ok_fields) simp_all
      then have "symtab_wf ?u" using su False lt unfolding symtab_wf_def by simp
      with False show ?thesis unfolding u by simp
    qed
  next
    case False
    have u: "hash_new_sym ?n (es_info e) ?s = ?s\<lparr>ehash := Some (t[1 := Suc ?n])\<rparr>"
      using False gn tab(1) m tab(3) unfolding hash_new_sym_def
      by (simp add: t_def rebuild_step_def global_at_def) (simp add: add_sym_def)
    let ?u = "?s\<lparr>ehash := Some (t[1 := Suc ?n])\<rparr>"
    have "table_ok ?u nb (length (esyms ?u)) (t[1 := Suc ?n])" using t1 len(1) by (subst table_ok_fields) simp_all
    moreover have "strs_ok ?u" "nb_hashed_syms ?u = nb_hashed_syms s" using strs by (simp_all add: strs_ok_def add_sym_def)
    ultimately have "symtab_wf ?u" using len lt cnt False tab(5) unfolding symtab_wf_def by (simp add: nb_def)
    then show ?thesis unfolding u .
  qed
qed

lemma rebuild_fields [simp]:
  "esyms (rebuild_hash nb s) = esyms s" "strtab (rebuild_hash nb s) = strtab s" "shf_dynsym (rebuild_hash nb s) = shf_dynsym s"
  "bss_num (rebuild_hash nb s) = bss_num s" "new_undef_sym (rebuild_hash nb s) = new_undef_sym s"
  "sym_errors (rebuild_hash nb s) = sym_errors s"
  by (simp_all add: rebuild_hash_def Let_def split: option.split)

lemma hash_new_sym_fields [simp]:
  "esyms (hash_new_sym i info s) = esyms s" "strtab (hash_new_sym i info s) = strtab s"
  "shf_dynsym (hash_new_sym i info s) = shf_dynsym s" "bss_num (hash_new_sym i info s) = bss_num s"
  "new_undef_sym (hash_new_sym i info s) = new_undef_sym s" "sym_errors (hash_new_sym i info s) = sym_errors s"
  by (simp_all add: hash_new_sym_def Let_def split: option.split)

definition strs_with :: "symtab \<Rightarrow> string \<Rightarrow> nat \<times> string" where
  "strs_with s name = (if name \<noteq> [] then put_elf_str (strtab s) name else (0, strtab s))"

lemma strs_with:
  assumes "strs_ok s" "NUL \<notin> set name" "strs_with s name = (off, strs)" "es_name e = off"
  shows "strs_ok (add_sym e strs s)" "i < length (esyms s) \<Longrightarrow> name_at (add_sym e strs s) i = name_at s i"
    "name_at (add_sym e strs s) (length (esyms s)) = name"
proof -
  have d: "strtab s \<noteq> []" "last (strtab s) = NUL" "\<And>i. i < length (esyms s) \<Longrightarrow> es_name (esyms s ! i) < length (strtab s)"
    "\<forall>e\<in>set (esyms s). es_name e < length (strtab s)" "strtab s ! 0 = NUL"
    using assms(1) by (auto simp: strs_ok_def)
  have s: "(name = [] \<and> off = 0 \<and> strs = strtab s) \<or> (off = length (strtab s) \<and> strs = strtab s @ name @ [NUL])"
    using assms(3) by (auto simp: strs_with_def put_elf_str_def split: if_split_asm)
  show "strs_ok (add_sym e strs s)" using s d assms(4) by (auto simp: strs_ok_def add_sym_def nth_append)
  show "name_at (add_sym e strs s) i = name_at s i" if "i < length (esyms s)"
    using s d(2) d(3) [OF that] that by (auto simp: name_at_def add_sym_def nth_append c_string_append)
  have "c_string (strtab s) 0 = []" using d(1,5) by (cases "strtab s") (simp_all add: c_string_def)
  then show "name_at (add_sym e strs s) (length (esyms s)) = name"
    using s assms(2,4) c_string_new [of name "strtab s"] by (auto simp: name_at_def add_sym_def)
qed

lemma put_elf_sym_eq:
  "put_elf_sym v sz info other shndx name s =
    (case strs_with s name of (off, strs) \<Rightarrow>
      let e = \<lparr>es_name = off, es_info = info, es_other = other, es_shndx = shndx, es_value = v, es_size = sz\<rparr>
      in (length (esyms s), hash_new_sym (length (esyms s)) (es_info e) (add_sym e strs s)))"
  by (simp add: put_elf_sym_def strs_with_def add_sym_def Let_def split: prod.split)

lemma put_elf_sym_wf:
  assumes "symtab_wf s" "NUL \<notin> set name" "put_elf_sym v sz info other shndx name s = (i, s')"
  shows "symtab_wf s'" "i = length (esyms s)" "length (esyms s') = Suc i"
    "j < i \<Longrightarrow> esyms s' ! j = esyms s ! j \<and> name_at s' j = name_at s j"
    "name_at s' i = name" "\<exists>off. esyms s' ! i = \<lparr>es_name = off, es_info = info, es_other = other, es_shndx = shndx, es_value = v, es_size = sz\<rparr>"
proof -
  obtain off strs where st: "strs_with s name = (off, strs)" by fastforce
  define e where "e = \<lparr>es_name = off, es_info = info, es_other = other, es_shndx = shndx, es_value = v, es_size = sz\<rparr>"
  have r: "i = length (esyms s)" "s' = hash_new_sym (length (esyms s)) (es_info e) (add_sym e strs s)"
    using assms(3) by (auto simp: put_elf_sym_eq st e_def Let_def)
  have so: "strs_ok s" using assms(1) by (simp add: symtab_wf_def)
  have en: "es_name e = off" by (simp add: e_def)
  note w = strs_with [OF so assms(2) st en]
  have nm: "name_at s' j = name_at (add_sym e strs s) j" for j by (simp add: r(2) name_at_def)
  show "symtab_wf s'" unfolding r(2) by (rule hash_new_sym_wf [OF assms(1) w(1,2)])
  show "i = length (esyms s)" by (rule r(1))
  show "length (esyms s') = Suc i" by (simp add: r add_sym_def)
  show "esyms s' ! j = esyms s ! j \<and> name_at s' j = name_at s j" if "j < i"
    using that w(2) nm by (simp add: r add_sym_def nth_append)
  show "name_at s' i = name" using w(3) nm by (simp add: r(1))
  show "\<exists>off. esyms s' ! i = \<lparr>es_name = off, es_info = info, es_other = other, es_shndx = shndx, es_value = v, es_size = sz\<rparr>"
    by (simp add: r add_sym_def e_def)
qed

end
