(* ===== verification/ElfResolve.thy ===== *)
theory ElfResolve
  imports ElfHash
begin

text \<open>
  Merging a symbol into the table: the well-formed tables in which no two global symbols have the same name,
  and the effect of \<open>set_elf_sym\<close> on them.
\<close>

unbundle bit_operations_syntax

section \<open>Tables without duplicates\<close>

definition symtab_ok :: "symtab \<Rightarrow> bool" where
  "symtab_ok s \<longleftrightarrow> symtab_wf s \<and>
    (\<forall>i j. 0 < i \<and> 0 < j \<and> i < length (esyms s) \<and> j < length (esyms s) \<and> global_at s i \<and> global_at s j \<and>
      name_at s i = name_at s j \<longrightarrow> i = j)"

lemma newest_unique:
  "symtab_ok s \<Longrightarrow> newest s name = Some i \<longleftrightarrow> 0 < i \<and> i < length (esyms s) \<and> global_at s i \<and> name_at s i = name"
  unfolding symtab_ok_def newest_Some by (metis less_trans nat_neq_iff)

lemma find_iff:
  assumes "symtab_ok s"
  shows "find_elf_sym s name = i \<and> i \<noteq> 0 \<longleftrightarrow> 0 < i \<and> i < length (esyms s) \<and> global_at s i \<and> name_at s i = name"
proof -
  have "symtab_wf s" using assms by (simp add: symtab_ok_def)
  from find_newest(1) [OF this, of name] newest_unique [OF assms, of name]
  show ?thesis by (cases "newest s name") auto
qed

lemma ST_INFO_parts: "ST_INFO (ST_BIND x) (ST_TYPE x) = x"
proof -
  have "push_bit 4 (drop_bit 4 x) + take_bit 4 x = x" using bits_ident [of 4 x] by simp
  then show ?thesis by (simp add: ST_INFO_def ST_BIND_def ST_TYPE_def take_bit_eq_mask mask_numeral and.assoc)
qed

section \<open>Changing a symbol in place\<close>

text \<open>A change that keeps the name and does not make a global symbol local or the other way round.\<close>

definition in_place :: "nat \<Rightarrow> symtab \<Rightarrow> symtab \<Rightarrow> bool" where
  "in_place i s s' \<longleftrightarrow> (\<exists>e u k. s' = s\<lparr>esyms := (esyms s)[i := e], new_undef_sym := u, sym_errors := k\<rparr> \<and>
    es_name e = es_name (esyms s ! i) \<and> (ST_BIND (es_info e) = STB_LOCAL \<longleftrightarrow> ST_BIND (es_info (esyms s ! i)) = STB_LOCAL))"

lemma in_place_fields:
  assumes "in_place i s s'" "i < length (esyms s)"
  shows "length (esyms s') = length (esyms s)" "strtab s' = strtab s" "ehash s' = ehash s" "nb_hashed_syms s' = nb_hashed_syms s"
    "shf_dynsym s' = shf_dynsym s" "bss_num s' = bss_num s" "j \<noteq> i \<Longrightarrow> esyms s' ! j = esyms s ! j"
    "global_at s' = global_at s" "name_at s' j = name_at s j" "es_name (esyms s' ! j) = es_name (esyms s ! j)"
proof -
  obtain e u k where e: "s' = s\<lparr>esyms := (esyms s)[i := e], new_undef_sym := u, sym_errors := k\<rparr>"
    "es_name e = es_name (esyms s ! i)" "ST_BIND (es_info e) = STB_LOCAL \<longleftrightarrow> ST_BIND (es_info (esyms s ! i)) = STB_LOCAL"
    using assms(1) by (auto simp: in_place_def)
  show "length (esyms s') = length (esyms s)" "strtab s' = strtab s" "ehash s' = ehash s" "nb_hashed_syms s' = nb_hashed_syms s"
    "shf_dynsym s' = shf_dynsym s" "bss_num s' = bss_num s" "j \<noteq> i \<Longrightarrow> esyms s' ! j = esyms s ! j"
    by (subst e(1), simp)+
  show n: "es_name (esyms s' ! j) = es_name (esyms s ! j)" for j
    using assms(2) e(2) by (subst e(1)) (simp add: nth_list_update)
  show "global_at s' = global_at s"
    using assms(2) e(3) by (intro ext, subst e(1)) (simp add: global_at_def nth_list_update)
  show "name_at s' j = name_at s j" using n by (simp add: name_at_def \<open>strtab s' = strtab s\<close>)
qed

lemma in_place_ok:
  assumes "in_place i s s'" "i < length (esyms s)" "symtab_ok s"
  shows "symtab_ok s'" "find_elf_sym s' name = find_elf_sym s name"
proof -
  note f = in_place_fields [OF assms(1,2)]
  have st: "strs_ok s'"
    using assms(3) f(10) unfolding symtab_ok_def symtab_wf_def strs_ok_def by (simp add: f all_set_conv_all_nth)
  have t: "table_ok s (nb) n tab \<Longrightarrow> table_ok s' nb n tab" for nb n tab
    by (erule table_ok_cong) (simp add: f)
  have "esyms s' \<noteq> []" using f(1) assms(2) by auto
  then have wf: "symtab_wf s'"
    using assms(3) st t unfolding symtab_ok_def symtab_wf_def by (auto simp: f)
  then show ok: "symtab_ok s'" using assms(3) unfolding symtab_ok_def by (simp add: f)
  have "newest s' name = newest s name" by (simp add: newest_def f)
  then show "find_elf_sym s' name = find_elf_sym s name"
    using find_newest(1) wf assms(3) by (simp add: symtab_ok_def)
qed

lemma in_placeI:
  "s' = s\<lparr>esyms := (esyms s)[i := e], new_undef_sym := u, sym_errors := k\<rparr> \<Longrightarrow>
    es_name e = es_name (esyms s ! i) \<Longrightarrow> (ST_BIND (es_info e) = STB_LOCAL \<longleftrightarrow> ST_BIND (es_info (esyms s ! i)) = STB_LOCAL) \<Longrightarrow>
    in_place i s s'"
  by (auto simp: in_place_def)

lemma in_place_refl: "in_place i s s"
  by (rule in_placeI [where e = "esyms s ! i" and u = "new_undef_sym s" and k = "sym_errors s"]) simp_all

lemma in_place_upd:
  "es_name (f (esyms s ! i)) = es_name (esyms s ! i) \<Longrightarrow>
    (ST_BIND (es_info (f (esyms s ! i))) = STB_LOCAL \<longleftrightarrow> ST_BIND (es_info (esyms s ! i)) = STB_LOCAL) \<Longrightarrow>
    in_place i s (upd_esym i f s)"
  by (rule in_placeI [where e = "f (esyms s ! i)" and u = "new_undef_sym s" and k = "sym_errors s"]) (simp_all add: upd_esym_def)

lemma in_place_trans:
  assumes "in_place i s s'" "in_place i s' s''" "i < length (esyms s)"
  shows "in_place i s s''"
proof -
  obtain e u k where e: "s' = s\<lparr>esyms := (esyms s)[i := e], new_undef_sym := u, sym_errors := k\<rparr>"
    "es_name e = es_name (esyms s ! i)" "ST_BIND (es_info e) = STB_LOCAL \<longleftrightarrow> ST_BIND (es_info (esyms s ! i)) = STB_LOCAL"
    using assms(1) by (auto simp: in_place_def)
  obtain e' u' k' where e': "s'' = s'\<lparr>esyms := (esyms s')[i := e'], new_undef_sym := u', sym_errors := k'\<rparr>"
    "es_name e' = es_name (esyms s' ! i)" "ST_BIND (es_info e') = STB_LOCAL \<longleftrightarrow> ST_BIND (es_info (esyms s' ! i)) = STB_LOCAL"
    using assms(2) by (auto simp: in_place_def)
  show ?thesis
    using assms(3) e e' by (intro in_placeI [where e = e' and u = u' and k = k']) simp_all
qed

lemma in_place_error: "in_place i s (s\<lparr>sym_errors := k\<rparr>)"
  by (rule in_placeI [where e = "esyms s ! i" and u = "new_undef_sym s" and k = k]) simp_all

lemma in_place_patch:
  "ST_BIND info \<noteq> STB_LOCAL \<Longrightarrow> ST_BIND (es_info (esyms s ! i)) \<noteq> STB_LOCAL \<Longrightarrow>
    in_place i s (patch_sym i (ST_BIND info) (ST_TYPE info) shndx value sz s)"
  unfolding patch_sym_def upd_esym_def ST_INFO_parts
  by (rule in_placeI [where u = True and k = "sym_errors s"], simp) simp_all

section \<open>The branches of the merge\<close>

lemma merge_branches:
  assumes i: "find_elf_sym s name = i" "i \<noteq> 0" "ST_BIND info \<noteq> STB_LOCAL" and ok: "symtab_ok s"
    and r: "set_elf_sym value sz info other shndx name s = (k, s')"
  shows "k = i" "in_place i s s'"
    and "es_shndx (esyms s ! i) = SHNW_UNDEF \<Longrightarrow>
      es_value (esyms s' ! i) = value \<and> es_size (esyms s' ! i) = sz \<and> es_info (esyms s' ! i) = info \<and> es_shndx (esyms s' ! i) = shndx \<and>
      es_other (esyms s' ! i) = other \<and> sym_errors s' = sym_errors s"
proof -
  have g: "i < length (esyms s)" "ST_BIND (es_info (esyms s ! i)) \<noteq> STB_LOCAL"
    using find_iff [OF ok, of name i] i by (auto simp: global_at_def)
  note d = set_elf_sym_def i(1) i(2,3) Let_def ST_INFO_parts
  show "k = i" using r by (simp add: d split: if_split_asm)
  define u where "u = (\<lambda>x. upd_esym i (es_other_update (\<lambda>_. x)) s)"
  define p where "p = patch_sym i (ST_BIND info) (ST_TYPE info) shndx value sz"
  have u: "in_place i s (u x)" "length (esyms (u x)) = length (esyms s)" "ST_BIND (es_info (esyms (u x) ! i)) \<noteq> STB_LOCAL" for x
    using g by (simp_all add: u_def in_place_upd) (simp_all add: upd_esym_def)
  have q: "in_place i s (p (u x))" "in_place i s ((u x)\<lparr>sym_errors := n\<rparr>)" for x n
    using in_place_trans [OF u(1) in_place_patch [OF i(3) u(3)] g(1)] in_place_trans [OF u(1) in_place_error g(1)]
    by (simp_all add: p_def)
  have "s' = snd (set_elf_sym value sz info other shndx name s)" using r by simp
  also have "in_place i s \<dots>"
    unfolding d if_not_P [OF i(2)] if_P [OF i(3)] p_def [symmetric]
    by (simp add: i q [unfolded u_def] u(1) [unfolded u_def] in_place_refl)
  finally show "in_place i s s'" .
  show "es_shndx (esyms s ! i) = SHNW_UNDEF \<Longrightarrow>
      es_value (esyms s' ! i) = value \<and> es_size (esyms s' ! i) = sz \<and> es_info (esyms s' ! i) = info \<and> es_shndx (esyms s' ! i) = shndx \<and>
      es_other (esyms s' ! i) = other \<and> sym_errors s' = sym_errors s"
    using r g by (auto simp: d upd_esym_def patch_sym_def split: if_split_asm)
qed

section \<open>A table of names as an interface\<close>

text \<open>What the rest of the linker relies on: entering keeps the table well-formed, the entered name is found at the
  index that is returned, which is the old one when the name was there, and other names are not affected.\<close>

locale name_table =
  fixes ok :: "'s \<Rightarrow> bool"
    and find_name :: "'s \<Rightarrow> 'n \<Rightarrow> nat"
    and enter :: "'e \<Rightarrow> 's \<Rightarrow> nat \<times> 's"
    and key :: "'e \<Rightarrow> 'n"
    and valid :: "'e \<Rightarrow> bool"
  assumes enter_ok: "ok s \<Longrightarrow> valid e \<Longrightarrow> ok (snd (enter e s))"
    and enter_find: "ok s \<Longrightarrow> valid e \<Longrightarrow> find_name (snd (enter e s)) (key e) = fst (enter e s) \<and> fst (enter e s) \<noteq> 0"
    and enter_other: "ok s \<Longrightarrow> valid e \<Longrightarrow> n \<noteq> key e \<Longrightarrow> find_name (snd (enter e s)) n = find_name s n"
    and enter_again: "ok s \<Longrightarrow> valid e \<Longrightarrow> find_name s (key e) \<noteq> 0 \<Longrightarrow> fst (enter e s) = find_name s (key e)"
begin

lemma all_ok: "ok s \<Longrightarrow> list_all valid es \<Longrightarrow> ok (fold (\<lambda>e s. snd (enter e s)) es s)"
  by (induction es arbitrary: s) (simp_all add: enter_ok)

lemma step_keeps: "ok s \<Longrightarrow> valid e \<Longrightarrow> find_name s n \<noteq> 0 \<Longrightarrow> find_name (snd (enter e s)) n = find_name s n"
  by (cases "n = key e") (simp_all add: enter_find enter_again enter_other)

lemma all_keep:
  "ok s \<Longrightarrow> list_all valid es \<Longrightarrow> find_name s n \<noteq> 0 \<Longrightarrow> find_name (fold (\<lambda>e s. snd (enter e s)) es s) n = find_name s n"
proof (induction es arbitrary: s)
  case (Cons e es)
  then have "find_name (snd (enter e s)) n = find_name s n" by (intro step_keeps) simp_all
  with Cons show ?case by (simp add: enter_ok)
qed simp

lemma all_found:
  "ok s \<Longrightarrow> list_all valid es \<Longrightarrow>
    find_name (fold (\<lambda>e s. snd (enter e s)) es s) n \<noteq> 0 \<longleftrightarrow> find_name s n \<noteq> 0 \<or> n \<in> key ` set es"
proof (induction es arbitrary: s)
  case (Cons e es)
  have "find_name (snd (enter e s)) n \<noteq> 0 \<longleftrightarrow> find_name s n \<noteq> 0 \<or> n = key e"
    using Cons.prems by (cases "n = key e") (simp_all add: enter_find enter_other)
  then show ?case using Cons by (auto simp: enter_ok)
qed simp

end

section \<open>Entering or merging\<close>

lemma put_finds:
  assumes "symtab_wf s" "NUL \<notin> set name" "put_elf_sym v sz info other shndx name s = (i, s')"
  shows "find_elf_sym s' name = (if ST_BIND info \<noteq> STB_LOCAL then i else find_elf_sym s name)"
    "nm \<noteq> name \<Longrightarrow> find_elf_sym s' nm = find_elf_sym s nm" "i \<noteq> 0"
proof -
  note w = put_elf_sym_wf [OF assms]
  have i: "0 < i" using w(2) assms(1) by (simp add: symtab_wf_def)
  have g: "global_at s' i \<longleftrightarrow> ST_BIND info \<noteq> STB_LOCAL" using w(6) by (auto simp: global_at_def)
  have old: "global_at s' j = global_at s j" "name_at s' j = name_at s j" if "j < i" for j
    using w(4) [OF that] by (simp_all add: global_at_def)
  have "newest s' nm = (if ST_BIND info \<noteq> STB_LOCAL \<and> nm = name then Some i else newest s nm)" for nm
  proof -
    have "[1..<Suc i] = [1..<i] @ [i]" using i by (intro upt_Suc_append) simp
    moreover have "find (\<lambda>i. global_at s' i \<and> name_at s' i = nm) (rev [1..<i]) = find (\<lambda>i. global_at s i \<and> name_at s i = nm) (rev [1..<i])"
      using old by (intro find_cong) auto
    ultimately show ?thesis using g w(5) by (auto simp: newest_def w(2) [symmetric] w(3))
  qed
  then show "find_elf_sym s' name = (if ST_BIND info \<noteq> STB_LOCAL then i else find_elf_sym s name)"
    "nm \<noteq> name \<Longrightarrow> find_elf_sym s' nm = find_elf_sym s nm"
    using find_newest(1) [OF w(1)] find_newest(1) [OF assms(1)] by simp_all
  show "i \<noteq> 0" using i by simp
qed

lemma put_ok:
  assumes "symtab_ok s" "NUL \<notin> set name" "put_elf_sym v sz info other shndx name s = (i, s')"
    "ST_BIND info = STB_LOCAL \<or> find_elf_sym s name = 0"
  shows "symtab_ok s'"
proof -
  have wf: "symtab_wf s" using assms(1) by (simp add: symtab_ok_def)
  note w = put_elf_sym_wf [OF wf assms(2,3)]
  have old: "global_at s' j = global_at s j" "name_at s' j = name_at s j" if "j < i" for j
    using w(4) [OF that] by (simp_all add: global_at_def)
  have fresh: "\<not> (global_at s j \<and> name_at s j = name)" if "global_at s' i" "0 < j" "j < i" for j
    using that assms(4) w(2,6) find_iff [OF assms(1), of name j] by (auto simp: global_at_def)
  have "a = b" if h: "0 < a" "0 < b" "a < Suc i" "b < Suc i" "global_at s' a" "global_at s' b" "name_at s' a = name_at s' b" for a b
  proof -
    consider "a < i" "b < i" | "a = i" "b < i" | "a < i" "b = i" | "a = i" "b = i" using h(3,4) by linarith
    then show ?thesis
    proof cases
      case 1
      with h assms(1) w(2) old show ?thesis by (simp add: symtab_ok_def)
    next
      case 2
      with h fresh [of b] old [of b] w(5) show ?thesis by simp
    next
      case 3
      with h fresh [of a] old [of a] w(5) show ?thesis by simp
    qed simp
  qed
  then show ?thesis using w(1,3) by (simp add: symtab_ok_def)
qed

lemma set_elf_sym_new:
  "ST_BIND info = STB_LOCAL \<or> find_elf_sym s name = 0 \<Longrightarrow>
    set_elf_sym value sz info other shndx name s = put_elf_sym value sz info other shndx name s"
proof -
  assume a: "ST_BIND info = STB_LOCAL \<or> find_elf_sym s name = 0"
  show ?thesis
  proof (cases "ST_BIND info = STB_LOCAL")
    case True
    then have "ST_INFO 0 (ST_TYPE info) = info" using ST_INFO_parts [of info] by simp
    with True show ?thesis by (simp add: set_elf_sym_def Let_def)
  next
    case False
    with a show ?thesis by (simp add: set_elf_sym_def ST_INFO_parts)
  qed
qed

lemma set_elf_sym_ok:
  assumes "symtab_ok s" "NUL \<notin> set name" "set_elf_sym v sz info other shndx name s = (i, s')"
  shows "symtab_ok s'" "ST_BIND info \<noteq> STB_LOCAL \<Longrightarrow> find_elf_sym s' name = i \<and> i \<noteq> 0"
    "ST_BIND info \<noteq> STB_LOCAL \<Longrightarrow> find_elf_sym s name \<noteq> 0 \<Longrightarrow> i = find_elf_sym s name"
    "nm \<noteq> name \<Longrightarrow> find_elf_sym s' nm = find_elf_sym s nm" "name_at s' i = name"
    "j < length (esyms s) \<Longrightarrow> j \<noteq> i \<Longrightarrow> esyms s' ! j = esyms s ! j \<and> name_at s' j = name_at s j"
proof -
  have wf: "symtab_wf s" using assms(1) by (simp add: symtab_ok_def)
  have "symtab_ok s' \<and> (ST_BIND info \<noteq> STB_LOCAL \<longrightarrow> find_elf_sym s' name = i \<and> i \<noteq> 0) \<and>
    (ST_BIND info \<noteq> STB_LOCAL \<longrightarrow> find_elf_sym s name \<noteq> 0 \<longrightarrow> i = find_elf_sym s name) \<and>
    (nm \<noteq> name \<longrightarrow> find_elf_sym s' nm = find_elf_sym s nm) \<and> name_at s' i = name \<and>
    (j < length (esyms s) \<and> j \<noteq> i \<longrightarrow> esyms s' ! j = esyms s ! j \<and> name_at s' j = name_at s j)"
  proof (cases "ST_BIND info = STB_LOCAL \<or> find_elf_sym s name = 0")
    case True
    then have p: "put_elf_sym v sz info other shndx name s = (i, s')" using assms(3) by (simp add: set_elf_sym_new)
    have n: "find_elf_sym s' name = (if ST_BIND info \<noteq> STB_LOCAL then i else find_elf_sym s name)"
      "nm \<noteq> name \<Longrightarrow> find_elf_sym s' nm = find_elf_sym s nm" "i \<noteq> 0"
      using put_finds [OF wf assms(2) p] by simp_all
    show ?thesis using True n put_ok [OF assms(1,2) p True] put_elf_sym_wf [OF wf assms(2) p] by auto
  next
    case False
    define k where "k = find_elf_sym s name"
    have k: "find_elf_sym s name = k" "k \<noteq> 0" "ST_BIND info \<noteq> STB_LOCAL" using False by (simp_all add: k_def)
    note m = merge_branches(1,2) [OF k assms(1,3)]
    have l: "k < length (esyms s)" "name_at s k = name" using find_iff [OF assms(1), of name k] k by auto
    have ok: "symtab_ok s'" by (rule in_place_ok(1) [OF m(2) l(1) assms(1)])
    have f: "find_elf_sym s' x = find_elf_sym s x" for x by (rule in_place_ok(2) [OF m(2) l(1) assms(1)])
    note fl = in_place_fields(7,9) [OF m(2) l(1)]
    show ?thesis using ok f k m(1) l fl by (auto simp: k_def)
  qed
  then show "symtab_ok s'" "ST_BIND info \<noteq> STB_LOCAL \<Longrightarrow> find_elf_sym s' name = i \<and> i \<noteq> 0"
    "ST_BIND info \<noteq> STB_LOCAL \<Longrightarrow> find_elf_sym s name \<noteq> 0 \<Longrightarrow> i = find_elf_sym s name"
    "nm \<noteq> name \<Longrightarrow> find_elf_sym s' nm = find_elf_sym s nm" "name_at s' i = name"
    "j < length (esyms s) \<Longrightarrow> j \<noteq> i \<Longrightarrow> esyms s' ! j = esyms s ! j \<and> name_at s' j = name_at s j"
    by blast+
qed

text \<open>The arguments of \<open>set_elf_sym\<close> for one symbol, and the interface for symbols that are not local.\<close>

record sym_args =
  a_value :: "64 word"
  a_size :: "64 word"
  a_info :: "8 word"
  a_other :: "8 word"
  a_shndx :: "16 word"
  a_name :: string

definition enter_sym :: "sym_args \<Rightarrow> symtab \<Rightarrow> nat \<times> symtab" where
  "enter_sym a = set_elf_sym (a_value a) (a_size a) (a_info a) (a_other a) (a_shndx a) (a_name a)"

definition global_arg :: "sym_args \<Rightarrow> bool" where
  "global_arg a \<longleftrightarrow> ST_BIND (a_info a) \<noteq> STB_LOCAL \<and> NUL \<notin> set (a_name a)"

interpretation syms: name_table symtab_ok find_elf_sym enter_sym a_name global_arg
proof
  fix s e and n :: string
  assume ok: "symtab_ok s" and g: "global_arg e"
  obtain i s' where r: "enter_sym e s = (i, s')" by fastforce
  note k = set_elf_sym_ok [OF ok _ r [unfolded enter_sym_def]]
  show "symtab_ok (snd (enter_sym e s))" using k(1) g r by (simp add: global_arg_def)
  show "find_elf_sym (snd (enter_sym e s)) (a_name e) = fst (enter_sym e s) \<and> fst (enter_sym e s) \<noteq> 0"
    using k(2) g r by (simp add: global_arg_def)
  show "n \<noteq> a_name e \<Longrightarrow> find_elf_sym (snd (enter_sym e s)) n = find_elf_sym s n"
    using k(4) g r by (simp add: global_arg_def)
  show "find_elf_sym s (a_name e) \<noteq> 0 \<Longrightarrow> fst (enter_sym e s) = find_elf_sym s (a_name e)"
    using k(3) g r by (simp add: global_arg_def)
qed

end
