(* ===== verification/ElfSort.thy ===== *)
theory ElfSort
  imports ElfSymtab "HOL-Library.Multiset"
begin

text \<open>
  Sorting the symbols of a table: the two passes of \<open>sort_syms\<close> are a stable partition, and the relocation
  entries are renumbered by the permutation that it is.
\<close>

definition rank_in :: "('a \<Rightarrow> bool) \<Rightarrow> 'a list \<Rightarrow> nat \<Rightarrow> nat" where
  "rank_in P xs i = length (filter P (take i xs))"

lemma rank_mono: "i \<le> j \<Longrightarrow> rank_in P xs i \<le> rank_in P xs j"
proof -
  assume "i \<le> j"
  then have "take j xs = take i xs @ drop i (take j xs)" by (metis append_take_drop_id min.absorb1 take_take)
  then have "rank_in P xs j = rank_in P xs i + length (filter P (drop i (take j xs)))"
    unfolding rank_in_def by (metis filter_append length_append)
  then show ?thesis by simp
qed

lemma rank_step: "i < length xs \<Longrightarrow> P (xs ! i) \<Longrightarrow> i < j \<Longrightarrow> rank_in P xs i < rank_in P xs j"
  using rank_mono [of "Suc i" j P xs] by (simp add: rank_in_def take_Suc_conv_app_nth)

lemma filter_nth_rank: "i < length xs \<Longrightarrow> P (xs ! i) \<Longrightarrow> rank_in P xs i < length (filter P xs) \<and> filter P xs ! rank_in P xs i = xs ! i"
proof -
  assume i: "i < length xs" "P (xs ! i)"
  have "filter P xs = filter P (take i xs) @ xs ! i # filter P (drop (Suc i) xs)"
    using i by (metis filter.simps(2) filter_append id_take_nth_drop)
  then show ?thesis by (simp add: rank_in_def nth_append)
qed

lemma pass_eq:
  "pass P syms (q, m) = (q @ filter P syms, \<lambda>j. if j < length syms \<and> P (syms ! j) then Some (length q + rank_in P syms j) else m j)"
proof -
  let ?f = "\<lambda>i (q, m). if P (syms ! i) then (q @ [syms ! i], m(i \<mapsto> length q)) else (q, m)"
  have "fold ?f [0..<k] (q, m) =
      (q @ filter P (take k syms), \<lambda>j. if j < k \<and> P (syms ! j) then Some (length q + rank_in P syms j) else m j)"
    if "k \<le> length syms" for k
    using that
  proof (induction k)
    case (Suc k)
    then have t: "take (Suc k) syms = take k syms @ [syms ! k]" by (simp add: take_Suc_conv_app_nth)
    show ?case using Suc by (auto simp: t rank_in_def fun_eq_iff less_Suc_eq)
  qed simp
  from this [of "length syms"] show ?thesis by (simp add: pass_def)
qed

definition new_index :: "esym list \<Rightarrow> nat \<Rightarrow> nat" where
  "new_index syms i =
    (if is_local (syms ! i) then rank_in is_local syms i
     else length (filter is_local syms) + rank_in (\<lambda>e. \<not> is_local e) syms i)"

lemma sort_syms_eq:
  "sort_syms sh_size sh_info syms rels =
    (filter is_local syms @ filter (\<lambda>e. \<not> is_local e) syms, if sh_size \<noteq> 0 then length (filter is_local syms) else sh_info,
     modify_reloctions_old_to_new (\<lambda>i. if i < length syms then Some (new_index syms i) else None) rels)"
  by (simp add: sort_syms_def pass_eq Let_def) (intro arg_cong2 [where f = modify_reloctions_old_to_new] ext; simp add: new_index_def)

lemma new_index_at:
  assumes "i < length syms"
  shows "new_index syms i < length syms" "(filter is_local syms @ filter (\<lambda>e. \<not> is_local e) syms) ! new_index syms i = syms ! i"
proof -
  let ?N = "\<lambda>e. \<not> is_local e"
  have l: "length (filter is_local syms) + length (filter ?N syms) = length syms" by (rule sum_length_filter_compl)
  show "new_index syms i < length syms"
    using l filter_nth_rank [OF assms, of is_local] filter_nth_rank [OF assms, of ?N] by (auto simp: new_index_def)
  show "(filter is_local syms @ filter ?N syms) ! new_index syms i = syms ! i"
    using filter_nth_rank [OF assms, of is_local] filter_nth_rank [OF assms, of ?N] by (auto simp: new_index_def nth_append)
qed

lemma new_index_inj: "inj_on (new_index syms) {..<length syms}"
proof (rule linorder_inj_onI)
  fix i j assume ij: "i < j" "i \<in> {..<length syms}" "j \<in> {..<length syms}"
  let ?N = "\<lambda>e. \<not> is_local e"
  show "new_index syms i \<noteq> new_index syms j"
    using ij rank_step [of i syms is_local j] rank_step [of i syms ?N j]
      filter_nth_rank [of i syms is_local] filter_nth_rank [of j syms is_local]
    by (auto simp: new_index_def)
qed auto

lemma new_index_bij: "bij_betw (new_index syms) {..<length syms} {..<length syms}"
  unfolding bij_betw_def using new_index_inj new_index_at(1) by (intro conjI endo_inj_surj) auto

end
