(* ===== verification/ElfSymProps.thy ===== *)
theory ElfSymProps
  imports ElfResolve ElfSort WordFields
begin

text \<open>
  The properties of ELF symbol tables: lookup through the hash table, entering and merging symbols, and the
  order of the finished table. \<open>sym0\<close> is the table that \<open>init_symtab\<close> makes.
\<close>

unbundle bit_operations_syntax

section \<open>Lookup\<close>

definition sym0 :: symtab where
  "sym0 = init_symtab \<lparr>esyms = [], strtab = [], ehash = Some [], nb_hashed_syms = 0, shf_dynsym = False, bss_num = 3,
     new_undef_sym = False, sym_errors = 0\<rparr>"

lemma sym0_ok: "symtab_ok sym0"
  by (simp add: symtab_ok_def symtab_wf_def strs_ok_def table_ok_def members_def sym0_def init_symtab_def put_elf_str_def)

text \<open>C27. In a well-formed table the search along a bucket always ends, within one step per symbol, and returns
  the newest global or weak symbol of the name, or 0 when there is none.\<close>

theorem find_elf_sym_newest:
  assumes "symtab_wf s"
  shows "(case find_elf_sym s name of
      0 \<Rightarrow> \<forall>j. 0 < j \<and> j < length (esyms s) \<longrightarrow> \<not> (global_at s j \<and> name_at s j = name)
    | i \<Rightarrow> i < length (esyms s) \<and> global_at s i \<and> name_at s i = name \<and>
        (\<forall>j. i < j \<and> j < length (esyms s) \<longrightarrow> \<not> (global_at s j \<and> name_at s j = name))) \<and>
    (\<exists>tab. ehash s = Some tab \<and> (\<forall>k. find_loop s tab name (Suc (length (esyms s)) + k) (tab ! (2 + bucket (tab ! 0) name)) =
      Some (find_elf_sym s name)))"
proof -
  have "newest s name = None \<Longrightarrow> find_elf_sym s name = 0" "newest s name = Some i \<Longrightarrow> find_elf_sym s name = i" for i
    using find_newest(1) [OF assms, of name] by simp_all
  then show ?thesis
    using find_newest(2) [OF assms, of name] newest_None [of s name] newest_Some [of s name]
    by (cases "newest s name") (auto split: nat.split)
qed

lemma find_elf_sym_newest_witness: "find_elf_sym sym0 ''main'' = 0"
  using find_elf_sym_newest [of sym0 "''main''"] sym0_ok
  by (auto simp: symtab_ok_def sym0_def init_symtab_def split: nat.splits)

section \<open>Entering\<close>

text \<open>C28. Entering a symbol, with a new hash table when the old one is loaded with two symbols per bucket, keeps
  the table well-formed, leaves the other symbols and their names as they were, and from then on a global symbol
  is the one that is found under its name, while the search for every other name has the result it had.\<close>

theorem put_elf_sym_enters:
  assumes "symtab_wf s" "NUL \<notin> set name" "put_elf_sym v sz info other shndx name s = (i, s')"
  shows "symtab_wf s' \<and> i = length (esyms s) \<and> name_at s' i = name \<and>
    (\<forall>j<i. esyms s' ! j = esyms s ! j \<and> name_at s' j = name_at s j) \<and>
    find_elf_sym s' name = (if ST_BIND info \<noteq> STB_LOCAL then i else find_elf_sym s name) \<and>
    (\<forall>name'. name' \<noteq> name \<longrightarrow> find_elf_sym s' name' = find_elf_sym s name')"
  using put_elf_sym_wf [OF assms] put_finds [OF assms] by simp

lemma put_elf_sym_enters_witness:
  "find_elf_sym (snd (put_elf_sym 0x40 8 0x12 0 1 ''main'' sym0)) ''main'' = 1"
proof -
  obtain i s' where r: "put_elf_sym 0x40 8 0x12 0 1 ''main'' sym0 = (i, s')" by fastforce
  have n: "NUL \<notin> set ''main''" "ST_BIND 0x12 \<noteq> STB_LOCAL" "length (esyms sym0) = 1" by code_simp+
  from put_elf_sym_enters [OF _ n(1) r] sym0_ok n(2,3) show ?thesis by (simp add: symtab_ok_def r)
qed

section \<open>Merging\<close>

text \<open>C29. Defining or referring to a symbol keeps a table well-formed and without two global symbols of one name;
  the name is found afterwards at the index returned, which is the old one when there was one, no other symbol of the
  table changes, and the search for every other name has the result it had.\<close>

theorem set_elf_sym_keeps:
  assumes "symtab_ok s" "NUL \<notin> set name" "set_elf_sym v sz info other shndx name s = (i, s')"
  shows "symtab_ok s' \<and> name_at s' i = name \<and>
    (ST_BIND info \<noteq> STB_LOCAL \<longrightarrow> find_elf_sym s' name = i \<and> (find_elf_sym s name \<noteq> 0 \<longrightarrow> i = find_elf_sym s name)) \<and>
    (\<forall>nm. nm \<noteq> name \<longrightarrow> find_elf_sym s' nm = find_elf_sym s nm) \<and>
    (\<forall>j<length (esyms s). j \<noteq> i \<longrightarrow> esyms s' ! j = esyms s ! j \<and> name_at s' j = name_at s j)"
  using set_elf_sym_ok [OF assms] by simp

lemma set_elf_sym_keeps_witness:
  "find_elf_sym (snd (set_elf_sym 0x40 8 0x12 0 1 ''main'' sym0)) ''puts'' = find_elf_sym sym0 ''puts''"
proof -
  obtain i s' where r: "set_elf_sym 0x40 8 0x12 0 1 ''main'' sym0 = (i, s')" by fastforce
  have n: "NUL \<notin> set ''main''" by code_simp
  from set_elf_sym_keeps [OF sym0_ok n r] show ?thesis by (simp add: r)
qed

text \<open>How strong a definition is: not defined, weak, tentative (common or uninitialised data), defined.\<close>

definition strength :: "16 word \<Rightarrow> 8 word \<Rightarrow> 16 word \<Rightarrow> nat" where
  "strength bss info shndx =
    (if shndx = SHNW_UNDEF then 0 else if ST_BIND info = STB_WEAK then 1
     else if shndx = SHN_COMMON \<or> shndx = bss then 2 else 3)"

text \<open>The definition of a symbol: all of its fields but the name and the visibility.\<close>

definition def_of :: "esym \<Rightarrow> 64 word \<times> 64 word \<times> 8 word \<times> 16 word" where
  "def_of e = (es_value e, es_size e, es_info e, es_shndx e)"

lemma set_elf_sym_again:
  fixes s :: symtab
  assumes "find_elf_sym s name = i" "i \<noteq> 0" "ST_BIND info \<noteq> STB_LOCAL" "e = esyms s ! i"
    "u = (\<lambda>x. upd_esym i (es_other_update (\<lambda>_. x)) s)" "p = patch_sym i (ST_BIND info) (ST_TYPE info) shndx v sz"
    "N = (es_other e AND NOT 3) OR merge_vis (ST_VISIBILITY (es_other e)) (ST_VISIBILITY other)"
  shows "snd (set_elf_sym v sz info other shndx name s) = (if es_value e = v \<and> es_size e = sz \<and> es_info e = info \<and> es_other e = other \<and> es_shndx e = shndx then s
     else if es_shndx e \<noteq> SHNW_UNDEF then
       if shndx = SHNW_UNDEF then u N
       else if ST_BIND info = STB_GLOBAL \<and> ST_BIND (es_info e) = STB_WEAK then p (u N)
       else if ST_BIND info = STB_WEAK \<and> ST_BIND (es_info e) = STB_GLOBAL then u N
       else if ST_BIND info = STB_WEAK \<and> ST_BIND (es_info e) = STB_WEAK then u N
       else if ST_VISIBILITY other = STV_HIDDEN \<or> ST_VISIBILITY other = STV_INTERNAL then u N
       else if (es_shndx e = SHN_COMMON \<or> es_shndx e = bss_num (u N)) \<and> (shndx < SHN_LORESERVE \<and> shndx \<noteq> bss_num (u N))
       then p (u N)
       else if shndx = SHN_COMMON \<or> shndx = bss_num (u N) then u N
       else if shf_dynsym (u N) then u N
       else if N AND ST_ASM_SET \<noteq> 0 then p (u N)
       else (u N)\<lparr>sym_errors := sym_errors (u N) + 1\<rparr>
     else p (u other))"
  unfolding set_elf_sym_def Let_def assms(1) if_P [OF assms(3)] if_not_P [OF assms(2)] assms(4) [symmetric] assms(6) [symmetric]
  unfolding if_distrib [of snd] snd_conv assms(7) [symmetric] unfolding assms(5) by (rule refl)

lemma merge_keeps_asm_set:
  "((x AND NOT 3) OR merge_vis (ST_VISIBILITY x) (ST_VISIBILITY y)) AND ST_ASM_SET = x AND ST_ASM_SET" for x y :: "8 word"
  by (rule bits_eqI) (simp add: merge_vis_def ST_VISIBILITY_def each_bit)

text \<open>The outcome of merging a symbol: the definition that stays and the number of errors so far.\<close>

lemma set_elf_sym_outcome:
  assumes l: "i < length (esyms s)" and a: "find_elf_sym s name = i" "i \<noteq> 0" "ST_BIND info \<noteq> STB_LOCAL" "e = esyms s ! i"
    and vis: "ST_VISIBILITY other \<noteq> STV_HIDDEN" "ST_VISIBILITY other \<noteq> STV_INTERNAL"
    and s': "s' = snd (set_elf_sym v sz info other shndx name s)" and d: "d = (v, sz, info, shndx)"
  shows "(def_of (esyms s' ! i), sym_errors s') = (if def_of e = d \<and> es_other e = other then (def_of e, sym_errors s)
     else if es_shndx e \<noteq> SHNW_UNDEF then
       if shndx = SHNW_UNDEF then (def_of e, sym_errors s)
       else if ST_BIND info = STB_GLOBAL \<and> ST_BIND (es_info e) = STB_WEAK then (d, sym_errors s)
       else if ST_BIND info = STB_WEAK \<and> ST_BIND (es_info e) = STB_GLOBAL then (def_of e, sym_errors s)
       else if ST_BIND info = STB_WEAK \<and> ST_BIND (es_info e) = STB_WEAK then (def_of e, sym_errors s)
       else if (es_shndx e = SHN_COMMON \<or> es_shndx e = bss_num s) \<and> (shndx < SHN_LORESERVE \<and> shndx \<noteq> bss_num s) then (d, sym_errors s)
       else if shndx = SHN_COMMON \<or> shndx = bss_num s then (def_of e, sym_errors s)
       else if shf_dynsym s then (def_of e, sym_errors s)
       else if es_other e AND ST_ASM_SET \<noteq> 0 then (d, sym_errors s)
       else (def_of e, sym_errors s + 1)
     else (d, sym_errors s))"
proof -
  define N u p where N: "N = (es_other e AND NOT 3) OR merge_vis (ST_VISIBILITY (es_other e)) (ST_VISIBILITY other)"
    and u: "u = (\<lambda>x. upd_esym i (es_other_update (\<lambda>_. x)) s)" and p: "p = patch_sym i (ST_BIND info) (ST_TYPE info) shndx v sz"
  define out where "out = (\<lambda>x :: symtab. (def_of (esyms x ! i), sym_errors x))"
  have "out (u x) = (def_of e, sym_errors s)" "out (p (u x)) = (d, sym_errors s)" "out s = (def_of e, sym_errors s)"
    "out ((u x)\<lparr>sym_errors := sym_errors (u x) + 1\<rparr>) = (def_of e, sym_errors s + 1)"
    "bss_num (u x) = bss_num s" "shf_dynsym (u x) = shf_dynsym s" for x
    using l by (simp_all add: u p out_def d a(4) upd_esym_def patch_sym_def def_of_def ST_INFO_parts)
  note o = this merge_keeps_asm_set [of "es_other e" other, folded N]
  have same: "(es_value e = v \<and> es_size e = sz \<and> es_info e = info \<and> es_other e = other \<and> es_shndx e = shndx) \<longleftrightarrow>
      def_of e = d \<and> es_other e = other" by (auto simp: def_of_def d)
  note out = arg_cong [where f = out, OF set_elf_sym_again [OF a u p N, folded s'], unfolded if_distrib [of out] o same]
  have v: "(ST_VISIBILITY other = STV_HIDDEN \<or> ST_VISIBILITY other = STV_INTERNAL) = False" using vis by simp
  have "(def_of (esyms s' ! i), sym_errors s') = out s'" by (simp add: out_def)
  then show ?thesis unfolding out v if_False .
qed

text \<open>An absolute symbol, or one in another reserved section but for common ones, is not in a section. It clashes also with a
  tentative definition: the code lets only a symbol in a section replace one.\<close>

definition reserved :: "16 word \<Rightarrow> bool" where
  "reserved shndx \<longleftrightarrow> \<not> shndx < SHN_LORESERVE \<and> shndx \<noteq> SHN_COMMON"

definition clash :: "nat \<Rightarrow> nat \<Rightarrow> 16 word \<Rightarrow> bool" where
  "clash old new shndx \<longleftrightarrow> new = 3 \<and> (old = 3 \<or> old = 2 \<and> reserved shndx)"

text \<open>C30. When a visible global or weak symbol, in whatever section, meets one of the same name, the stronger definition
  stays and the first one of two weak or two tentative ones stays. Two different full definitions clash, and so does an
  absolute one with a tentative one before it: in the table of a dynamic library the first stays; if the first came from an
  assembler assignment the second replaces it; else the first stays and an error is reported. Nothing else is reported. Of
  two references the later one stays, so a weak reference makes a strong one weak.\<close>

theorem set_elf_sym_merges:
  assumes "symtab_ok s" "find_elf_sym s name = i" "i \<noteq> 0" "ST_BIND info = STB_GLOBAL \<or> ST_BIND info = STB_WEAK"
    "ST_BIND (es_info (esyms s ! i)) = STB_GLOBAL \<or> ST_BIND (es_info (esyms s ! i)) = STB_WEAK"
    "ST_VISIBILITY other \<noteq> STV_HIDDEN" "ST_VISIBILITY other \<noteq> STV_INTERNAL"
    "old = strength (bss_num s) (es_info (esyms s ! i)) (es_shndx (esyms s ! i))" "new = strength (bss_num s) info shndx"
    "set_elf_sym v sz info other shndx name s = (k, s')"
  shows "(\<not> clash old new shndx \<and> (old < new \<or> old = 0) \<longrightarrow> def_of (esyms s' ! i) = (v, sz, info, shndx)) \<and>
    (new < old \<or> new = old \<and> (old = 1 \<or> old = 2) \<longrightarrow> def_of (esyms s' ! i) = def_of (esyms s ! i)) \<and>
    (sym_errors s' = sym_errors s \<or> sym_errors s' = sym_errors s + 1) \<and>
    (\<not> clash old new shndx \<or> shf_dynsym s \<or> es_other (esyms s ! i) AND ST_ASM_SET \<noteq> 0 \<longrightarrow> sym_errors s' = sym_errors s) \<and>
    (clash old new shndx \<and> shf_dynsym s \<longrightarrow> def_of (esyms s' ! i) = def_of (esyms s ! i)) \<and>
    (clash old new shndx \<and> \<not> shf_dynsym s \<and> es_other (esyms s ! i) AND ST_ASM_SET \<noteq> 0 \<longrightarrow> def_of (esyms s' ! i) = (v, sz, info, shndx)) \<and>
    (clash old new shndx \<and> \<not> shf_dynsym s \<and> es_other (esyms s ! i) AND ST_ASM_SET = 0 \<and> def_of (esyms s ! i) \<noteq> (v, sz, info, shndx) \<longrightarrow>
      sym_errors s' = sym_errors s + 1 \<and> def_of (esyms s' ! i) = def_of (esyms s ! i))"
proof -
  define e d where "e = esyms s ! i" and "d = (v, sz, info, shndx)"
  have l: "i < length (esyms s)" using find_iff [OF assms(1), of name i] assms(2,3) by simp
  have b: "ST_BIND info \<noteq> STB_LOCAL" using assms(4) by auto
  have s': "s' = snd (set_elf_sym v sz info other shndx name s)" using assms(10) by simp
  note out = set_elf_sym_outcome [OF l assms(2,3) b e_def assms(6,7) s' d_def]
  have old: "old = (if es_shndx e = SHNW_UNDEF then 0 else if ST_BIND (es_info e) = STB_WEAK then 1
     else if es_shndx e = SHN_COMMON \<or> es_shndx e = bss_num s then 2 else 3)" by (simp add: assms(8) e_def strength_def)
  have new: "new = (if shndx = SHNW_UNDEF then 0 else if ST_BIND info = STB_WEAK then 1
     else if shndx = SHN_COMMON \<or> shndx = bss_num s then 2 else 3)" by (simp add: assms(9) strength_def)
  show ?thesis
  proof (cases "def_of e = d \<and> es_other e = other")
    case True
    then show ?thesis using out by (simp add: e_def [symmetric] d_def [symmetric])
  next
    case False
    then show ?thesis
      using out old new assms(4,5) unfolding clash_def reserved_def e_def [symmetric] d_def [symmetric] if_not_P [OF False] by (simp split: if_split_asm) auto
  qed
qed

lemma set_elf_sym_merges_witness:
  "def_of (esyms (snd (set_elf_sym 0x40 8 0x12 0 1 ''f'' (snd (set_elf_sym 0x10 4 0x22 0 1 ''f'' sym0)))) ! 1) = (0x40, 8, 0x12, 1)"
proof -
  define s where "s = snd (set_elf_sym 0x10 4 0x22 0 1 ''f'' sym0)"
  obtain k where r: "set_elf_sym 0x10 4 0x22 0 1 ''f'' sym0 = (k, s)" unfolding s_def by (metis prod.collapse)
  obtain k' s' where r': "set_elf_sym 0x40 8 0x12 0 1 ''f'' s = (k', s')" by fastforce
  have n: "NUL \<notin> set ''f''" by code_simp
  have ok: "symtab_ok s" by (rule set_elf_sym_ok(1) [OF sym0_ok n r])
  have c: "find_elf_sym s ''f'' = 1" "ST_BIND (es_info (esyms s ! 1)) = STB_WEAK" "strength (bss_num s) (es_info (esyms s ! 1)) (es_shndx (esyms s ! 1)) = 1"
    "strength (bss_num s) 0x12 1 = 3" unfolding s_def by code_simp+
  have d: "ST_BIND 0x12 = STB_GLOBAL" "ST_VISIBILITY 0 \<noteq> STV_HIDDEN" "ST_VISIBILITY 0 \<noteq> STV_INTERNAL" "(1 :: 16 word) < SHN_LORESERVE"
    by code_simp+
  have "def_of (esyms s' ! 1) = (0x40, 8, 0x12, 1)"
    using set_elf_sym_merges [OF ok c(1) _ disjI1 [OF d(1)] disjI2 [OF c(2)] d(2,3) refl refl r'] c(3,4) by (simp add: clash_def)
  then show ?thesis by (simp add: s_def [symmetric] r')
qed

text \<open>C31. After any sequence of definitions and references that are not local, a table is well-formed, exactly the
  names it had and the names of the sequence are found in it, and a name that was found keeps its index, on which
  the relocation entries rely.\<close>

theorem symbols_entered:
  assumes "symtab_ok s" "list_all global_arg as" "s' = fold (\<lambda>a s. snd (enter_sym a s)) as s"
  shows "symtab_ok s' \<and> (\<forall>name. find_elf_sym s' name \<noteq> 0 \<longleftrightarrow> find_elf_sym s name \<noteq> 0 \<or> name \<in> a_name ` set as) \<and>
    (\<forall>name. find_elf_sym s name \<noteq> 0 \<longrightarrow> find_elf_sym s' name = find_elf_sym s name)"
  unfolding assms(3) using syms.all_ok [OF assms(1,2)] syms.all_found [OF assms(1,2)] syms.all_keep [OF assms(1,2)] by blast

lemma symbols_entered_witness:
  "symtab_ok (fold (\<lambda>a s. snd (enter_sym a s))
    [\<lparr>a_value = 0, a_size = 0, a_info = 0x10, a_other = 0, a_shndx = 0, a_name = ''puts''\<rparr>,
     \<lparr>a_value = 0x40, a_size = 8, a_info = 0x12, a_other = 0, a_shndx = 1, a_name = ''main''\<rparr>] sym0)"
proof -
  have "list_all global_arg
    [\<lparr>a_value = 0, a_size = 0, a_info = 0x10, a_other = 0, a_shndx = 0, a_name = ''puts''\<rparr>,
     \<lparr>a_value = 0x40, a_size = 8, a_info = 0x12, a_other = 0, a_shndx = 1, a_name = ''main''\<rparr>]" by code_simp
  from symbols_entered [OF sym0_ok this refl] show ?thesis by blast
qed

section \<open>Sorting\<close>

text \<open>C32. Sorting puts the local symbols first and is a permutation that keeps the order among the
  locals and among the others; every relocation entry is renumbered by that permutation and so refers to the symbol
  it referred to. The number of local symbols is written to the header of the section if the size there is not zero, and
  else the header keeps the number it had.\<close>

theorem sort_syms_permutes:
  assumes "sort_syms sh_size sh_info syms rels = (syms', sh_info', rels')" "\<forall>rel\<in>set rels. \<forall>x\<in>set rel. fst x < length syms"
  shows "syms' = filter is_local syms @ filter (\<lambda>e. \<not> is_local e) syms \<and> sh_info' = (if sh_size \<noteq> 0 then length (filter is_local syms) else sh_info) \<and>
    mset syms' = mset syms \<and>
    (\<exists>p. bij_betw p {..<length syms} {..<length syms} \<and> (\<forall>i<length syms. syms' ! p i = syms ! i) \<and>
      rels' = map (map (\<lambda>(i, r). (p i, r))) rels)"
proof -
  have e: "syms' = filter is_local syms @ filter (\<lambda>e. \<not> is_local e) syms" "sh_info' = (if sh_size \<noteq> 0 then length (filter is_local syms) else sh_info)"
    "rels' = modify_reloctions_old_to_new (\<lambda>i. if i < length syms then Some (new_index syms i) else None) rels"
    using assms(1) by (simp_all add: sort_syms_eq)
  have "rels' = map (map (\<lambda>(i, r). (new_index syms i, r))) rels"
    using assms(2) unfolding e(3) modify_reloctions_old_to_new_def by (intro map_cong refl) fastforce
  moreover have "mset syms' = mset syms" unfolding e(1) mset_append mset_filter by (rule multiset_partition [symmetric])
  ultimately show ?thesis using e(1,2) new_index_bij [of syms] new_index_at(2) [of _ syms] by blast
qed

lemma sort_syms_permutes_witness:
  "mset (fst (sort_syms 48 0 [\<lparr>es_name = 0, es_info = 0x10, es_other = 0, es_shndx = 1, es_value = 0, es_size = 0\<rparr>,
      \<lparr>es_name = 1, es_info = 0, es_other = 0, es_shndx = 1, es_value = 4, es_size = 0\<rparr>] [[(0, ()), (1, ())]])) =
    {#\<lparr>es_name = 0, es_info = 0x10, es_other = 0, es_shndx = 1, es_value = 0, es_size = 0\<rparr>,
      \<lparr>es_name = 1, es_info = 0, es_other = 0, es_shndx = 1, es_value = 4, es_size = 0\<rparr>#}"
proof -
  let ?s = "[\<lparr>es_name = 0, es_info = 0x10, es_other = 0, es_shndx = 1, es_value = 0, es_size = 0\<rparr>,
      \<lparr>es_name = 1, es_info = 0, es_other = 0, es_shndx = 1, es_value = 4, es_size = 0\<rparr>]"
  obtain a b c where r: "sort_syms 48 0 ?s [[(0, ()), (1, ())]] = (a, b, c)" by (metis prod.collapse)
  from sort_syms_permutes [OF r] have "mset a = mset ?s" by simp
  then show ?thesis unfolding r by simp
qed

end
