(* ===== verification/RiscvGen.thy ===== *)
theory RiscvGen
  imports Emit
begin

text \<open>
  The RISC-V code generator (\<open>riscv64-gen.c\<close>): registers, the instruction words of the integer formats, lists of
  forward jumps, constants, the operators on registers and the frame of a function. A list of jumps that wait for
  their target is threaded through the code: each place holds the offset of the next one, 0 ends it. A loop over
  such a list is a partial function, so that a list that never ends has the value \<open>None\<close>.
\<close>

unbundle bit_operations_syntax

section \<open>Registers\<close>

abbreviation TREG_RA :: int where "TREG_RA \<equiv> 17"
abbreviation TREG_SP :: int where "TREG_SP \<equiv> 18"

definition ireg :: "int \<Rightarrow> 32 word result" where
  "ireg r = (if r = TREG_RA then Inr 1 else if r = TREG_SP then Inr 2
    else if 0 \<le> r \<and> r < 8 then Inr (of_int (r + 10)) else Inl AssertFailed)"

definition is_ireg :: "int \<Rightarrow> bool" where
  "is_ireg r \<longleftrightarrow> (of_int r :: 32 word) < 8 \<or> r = TREG_RA \<or> r = TREG_SP"

definition freg :: "int \<Rightarrow> 32 word result" where
  "freg r = (if 8 \<le> r \<and> r < 16 then Inr (of_int (r - 8 + 10)) else Inl AssertFailed)"

definition is_freg :: "int \<Rightarrow> bool" where
  "is_freg r \<longleftrightarrow> 8 \<le> r \<and> r < 16"

section \<open>Instruction words\<close>

type_synonym 'a code = "'a cg_scheme \<Rightarrow> 'a cg_scheme result"

definition EIu :: "32 word \<Rightarrow> 32 word \<Rightarrow> 32 word \<Rightarrow> 32 word \<Rightarrow> 32 word \<Rightarrow> 'a code" where
  "EIu opc func3 rd rs1 imm s =
    Inr (o_emit (opc OR push_bit 12 func3 OR push_bit 7 rd OR push_bit 15 rs1 OR push_bit 20 imm) s)"

definition ER :: "32 word \<Rightarrow> 32 word \<Rightarrow> 32 word \<Rightarrow> 32 word \<Rightarrow> 32 word \<Rightarrow> 32 word \<Rightarrow> 'a code" where
  "ER opc func3 rd rs1 rs2 func7 s =
    Inr (o_emit (opc OR push_bit 12 func3 OR push_bit 7 rd OR push_bit 15 rs1 OR push_bit 20 rs2 OR push_bit 25 func7) s)"

definition EI :: "32 word \<Rightarrow> 32 word \<Rightarrow> 32 word \<Rightarrow> 32 word \<Rightarrow> 32 word \<Rightarrow> 'a code" where
  "EI opc func3 rd rs1 imm s =
    (if drop_bit 12 (imm + push_bit 11 1) = 0 then EIu opc func3 rd rs1 imm s else Inl AssertFailed)"

definition ES :: "32 word \<Rightarrow> 32 word \<Rightarrow> 32 word \<Rightarrow> 32 word \<Rightarrow> 32 word \<Rightarrow> 'a code" where
  "ES opc func3 rs1 rs2 imm s =
    (if drop_bit 12 (imm + push_bit 11 1) = 0
     then Inr (o_emit (opc OR push_bit 12 func3 OR push_bit 7 (imm AND 0x1f) OR push_bit 15 rs1 OR push_bit 20 rs2
        OR push_bit 25 (drop_bit 5 imm)) s)
     else Inl AssertFailed)"

text \<open>The word \<open>o (opcode | rd << 7 | imm)\<close> of the U format.\<close>

definition upper :: "32 word \<Rightarrow> 32 word \<Rightarrow> 32 word \<Rightarrow> 'a code" where
  "upper opc rd imm s = Inr (o_emit (opc OR push_bit 7 rd OR ((imm + 0x800) AND 0xfffff000)) s)"

section \<open>Jumps\<close>

definition jal_imm :: "32 word \<Rightarrow> 32 word" where
  "jal_imm r = push_bit 12 (drop_bit 12 r AND 0xff) OR push_bit 20 (drop_bit 11 r AND 1)
    OR push_bit 21 (drop_bit 1 r AND 0x3ff) OR push_bit 31 (drop_bit 20 r AND 1)"

definition far :: "32 word \<Rightarrow> bool" where
  "far r \<longleftrightarrow> (r + push_bit 21 1) AND NOT (push_bit 22 1 - 2) \<noteq> 0"

partial_function (option) gsym_loop :: "32 word \<Rightarrow> 32 word \<Rightarrow> 8 word list \<Rightarrow> 8 word list result option" where
  "gsym_loop t a d =
    (if t = 0 then Some (Inr d)
     else let next = read32le d (unat t); r = a - t
          in if far r then Some (Inl (TccError ''out-of-range branch chain''))
             else gsym_loop next a (write32le d (unat t) (if r = 4 then 0x33 else 0x6f OR jal_imm r)))"

definition put_data :: "8 word list \<Rightarrow> 'a cg_scheme \<Rightarrow> 'a cg_scheme" where
  "put_data d s = s\<lparr>cur_text_section := (cur_text_section s)\<lparr>sec_data := d\<rparr>\<rparr>"

definition gsym_addr :: "32 word \<Rightarrow> 32 word \<Rightarrow> 'a cg_scheme \<Rightarrow> 'a cg_scheme result option" where
  "gsym_addr t a s = map_option (\<lambda>r. bindr r (\<lambda>d. Inr (put_data d s))) (gsym_loop t a (code_of s))"

definition gjmp :: "32 word \<Rightarrow> 'a cg_scheme \<Rightarrow> 32 word \<times> 'a cg_scheme" where
  "gjmp t s = (if nocode_wanted s then (t, s) else let s' = o_emit t s in (of_nat (ind s') - 4, s'))"

definition gjmp_addr :: "32 word \<Rightarrow> 'a code" where
  "gjmp_addr a s =
    (let r = a - of_nat (ind s)
     in if far r then
          bindr (upper 0x17 5 r s) (EI 0x67 0 0 5 (signed_drop_bit 20 (push_bit 20 r)))
        else Inr (o_emit (0x6f OR jal_imm r) s))"

partial_function (option) list_end :: "32 word \<Rightarrow> 8 word list \<Rightarrow> 32 word option" where
  "list_end n1 d = (let n2 = read32le d (unat n1) in if n2 \<noteq> 0 then list_end n2 d else Some n1)"

definition gjmp_append :: "32 word \<Rightarrow> 32 word \<Rightarrow> 'a cg_scheme \<Rightarrow> (32 word \<times> 'a cg_scheme) option" where
  "gjmp_append n t s =
    (if n \<noteq> 0 then
       (case list_end n (code_of s) of
          None \<Rightarrow> None
        | Some e \<Rightarrow> Some (n, put_data (write32le (code_of s) (unat e) t) s))
     else Some (t, s))"

fun nops_loop :: "nat \<Rightarrow> 'a code" where
  "nops_loop bytes s = (if bytes > 0 then bindr (EI 0x13 0 0 0 0 s) (nops_loop (bytes - 4)) else Inr s)"

declare nops_loop.simps [simp del]

definition gen_fill_nops :: "nat \<Rightarrow> 'a code" where
  "gen_fill_nops bytes s =
    (if bytes AND 3 \<noteq> 0 then Inl (TccError ''alignment of code section not multiple of 4'') else nops_loop bytes s)"

section \<open>Constants\<close>

datatype btype = VT_VOID | VT_BYTE | VT_SHORT | VT_INT | VT_LLONG | VT_PTR | VT_FUNC | VT_STRUCT
  | VT_FLOAT | VT_DOUBLE | VT_LDOUBLE | VT_BOOL | VT_QLONG | VT_QFLOAT

definition is_float :: "btype \<Rightarrow> bool" where
  "is_float bt \<longleftrightarrow> bt = VT_LDOUBLE \<or> bt = VT_DOUBLE \<or> bt = VT_FLOAT \<or> bt = VT_QFLOAT"

text \<open>\<open>fc << 20 >> 20\<close>, the low twelve bits with their sign.\<close>

definition lo12 :: "32 word \<Rightarrow> 32 word" where
  "lo12 x = signed_drop_bit 20 (push_bit 20 x)"

definition load_large_constant :: "32 word \<Rightarrow> 32 word \<Rightarrow> 32 word \<Rightarrow> 'a code" where
  "load_large_constant rr fc hi =
    (let up = (if sint fc < 0 then hi + 1 else hi); fc1 = signed_drop_bit 12 (push_bit 12 fc)
     in run [upper 0x37 rr up, EI 0x13 0 rr rr (lo12 up), EI 0x13 1 rr rr 12,
          EI 0x13 0 rr rr (signed_drop_bit 20 (fc + push_bit 19 1)), EI 0x13 1 rr rr 12,
          EI 0x13 0 rr rr (signed_drop_bit 8 fc1), EI 0x13 1 rr rr 8])"

text \<open>The case of \<open>load\<close> for a constant without a symbol.\<close>

definition load_const :: "int \<Rightarrow> btype \<Rightarrow> 64 word \<Rightarrow> 'a code" where
  "load_const r bt ci s =
    bindr (if is_ireg r then ireg r else freg r) (\<lambda>rr.
      if \<not> ((\<not> is_float bt \<and> is_ireg r) \<or> bt = VT_LDOUBLE) then Inl AssertFailed
      else if is_float bt \<and> bt \<noteq> VT_LDOUBLE then Inl (TccError ''unimp: load(float)'')
      else
        let fc = u32 ci; si = signed_drop_bit 32 ci; other = (scast fc \<noteq> ci);
            large = (other \<and> si \<noteq> 0); zext = (other \<and> si = 0 \<and> bt = VT_LLONG);
            rb = (if large then rr else 0); do32bit = (if large then 0 else 8)
        in bindr (if large then load_large_constant rr fc (u32 si) s else Inr s) (\<lambda>s.
             let fc = (if large then fc AND 0xff else fc); hi = (drop_bit 12 (fc + push_bit 11 1) \<noteq> 0);
                 rb = (if hi then rr else rb)
             in bindr (if hi then upper 0x37 rr fc s else Inr s) (\<lambda>s.
                bindr (if fc \<noteq> 0 \<or> rr \<noteq> rb \<or> do32bit \<noteq> 0 then EI (0x13 OR do32bit) 0 rr rb (lo12 fc) s else Inr s) (\<lambda>s.
                if zext then run [EI 0x13 1 rr rr 32, EI 0x13 5 rr rr 32] s else Inr s))))"

section \<open>Operators\<close>

text \<open>The tokens of the operators (\<open>tcc.h\<close>); a sign is its character.\<close>

abbreviation TOK_ULT :: nat where "TOK_ULT \<equiv> 0x92"
abbreviation TOK_UGE :: nat where "TOK_UGE \<equiv> 0x93"
abbreviation TOK_EQ :: nat where "TOK_EQ \<equiv> 0x94"
abbreviation TOK_NE :: nat where "TOK_NE \<equiv> 0x95"
abbreviation TOK_ULE :: nat where "TOK_ULE \<equiv> 0x96"
abbreviation TOK_UGT :: nat where "TOK_UGT \<equiv> 0x97"
abbreviation TOK_LT :: nat where "TOK_LT \<equiv> 0x9c"
abbreviation TOK_GE :: nat where "TOK_GE \<equiv> 0x9d"
abbreviation TOK_LE :: nat where "TOK_LE \<equiv> 0x9e"
abbreviation TOK_GT :: nat where "TOK_GT \<equiv> 0x9f"
abbreviation TOK_LAND :: nat where "TOK_LAND \<equiv> 0x90"
abbreviation TOK_LOR :: nat where "TOK_LOR \<equiv> 0x91"
abbreviation TOK_UDIV :: nat where "TOK_UDIV \<equiv> 0x83"
abbreviation TOK_UMOD :: nat where "TOK_UMOD \<equiv> 0x84"
abbreviation TOK_PDIV :: nat where "TOK_PDIV \<equiv> 0x85"
abbreviation TOK_SHL :: nat where "TOK_SHL \<equiv> 60"
abbreviation TOK_SAR :: nat where "TOK_SAR \<equiv> 62"
abbreviation TOK_SHR :: nat where "TOK_SHR \<equiv> 0x8b"
abbreviation TOK_ADD :: nat where "TOK_ADD \<equiv> 43"
abbreviation TOK_SUB :: nat where "TOK_SUB \<equiv> 45"
abbreviation TOK_MUL :: nat where "TOK_MUL \<equiv> 42"
abbreviation TOK_DIV :: nat where "TOK_DIV \<equiv> 47"
abbreviation TOK_MOD :: nat where "TOK_MOD \<equiv> 37"
abbreviation TOK_AND :: nat where "TOK_AND \<equiv> 38"
abbreviation TOK_OR :: nat where "TOK_OR \<equiv> 124"
abbreviation TOK_XOR :: nat where "TOK_XOR \<equiv> 94"

definition is_cond :: "nat \<Rightarrow> bool" where
  "is_cond op \<longleftrightarrow> TOK_ULT \<le> op \<and> op \<le> TOK_GT"

definition cond_code :: "nat \<Rightarrow> 32 word \<Rightarrow> 32 word \<Rightarrow> 32 word \<times> 32 word \<times> 32 word" where
  "cond_code op a b =
    (if op = TOK_ULT then (6, a, b) else if op = TOK_UGE then (7, a, b)
     else if op = TOK_ULE then (7, b, a) else if op = TOK_UGT then (6, b, a)
     else if op = TOK_LT then (4, a, b) else if op = TOK_GE then (5, a, b)
     else if op = TOK_LE then (5, b, a) else if op = TOK_GT then (4, b, a)
     else if op = TOK_NE then (1, a, b) else if op = TOK_EQ then (0, a, b) else (of_nat op, a, b))"

text \<open>A jump to the list \<open>t\<close> if the comparison of two registers holds.\<close>

definition gjmp_cond :: "nat \<Rightarrow> 32 word \<Rightarrow> 32 word \<Rightarrow> 32 word \<Rightarrow> 'a cg_scheme \<Rightarrow> 32 word \<times> 'a cg_scheme" where
  "gjmp_cond op a b t s =
    (case cond_code op a b of (c, a, b) \<Rightarrow>
       gjmp t (o_emit (0x63 OR push_bit 12 (c XOR 1) OR push_bit 15 a OR push_bit 20 b OR push_bit 7 8) s))"

text \<open>The case of \<open>load\<close> for a comparison (\<open>VT_CMP\<close>).\<close>

definition load_cmp :: "nat \<Rightarrow> 32 word \<Rightarrow> 32 word \<Rightarrow> 32 word \<Rightarrow> 'a code" where
  "load_cmp op rr a b s =
    (if op = TOK_ULT \<or> op = TOK_UGE \<or> op = TOK_ULE \<or> op = TOK_UGT \<or> op = TOK_LT \<or> op = TOK_GE \<or> op = TOK_LE \<or> op = TOK_GT
     then let inv = (op AND 1 \<noteq> 0); op = (if inv then op - 1 else op); le = (op AND 7 = 6);
              x = (if le then b else a); y = (if le then a else b); inv = (inv \<noteq> le)
          in bindr (ER 0x33 (if op > TOK_UGT then 2 else 3) rr x y 0 s) (\<lambda>s.
             if inv then EI 0x13 4 rr rr 1 s else Inr s)
     else if op = TOK_NE \<or> op = TOK_EQ then
       bindr (if rr \<noteq> a \<or> b \<noteq> 0 then ER 0x33 0 rr a b 0x20 s else Inr s) (\<lambda>s.
       if op = TOK_NE then ER 0x33 3 rr 0 rr 0 s else EI 0x13 3 rr rr 1 s)
     else Inr s)"

text \<open>Where an operator leaves its value: in a register, or as a comparison of two registers.\<close>

datatype op_value = In_reg "32 word" | Cmp nat "32 word" "32 word"

text \<open>The operators of \<open>gen_opil\<close> on two registers.\<close>

definition opil_regs :: "nat \<Rightarrow> bool \<Rightarrow> 32 word \<Rightarrow> 32 word \<Rightarrow> 32 word \<Rightarrow> 'a cg_scheme \<Rightarrow> (op_value \<times> 'a cg_scheme) result" where
  "opil_regs op long d a b s =
    (let ll = (if long then 0 else 8);
         alu = (\<lambda>opc func3 func7. bindr (ER opc func3 d a b func7 s) (\<lambda>s. Inr (In_reg d, s)))
     in if op = TOK_ADD then alu (0x33 OR ll) 0 0
        else if op = TOK_SUB then alu (0x33 OR ll) 0 0x20
        else if op = TOK_SAR then alu (0x33 OR ll OR ll) 5 0x20
        else if op = TOK_SHR then alu (0x33 OR ll OR ll) 5 0
        else if op = TOK_SHL then alu (0x33 OR ll) 1 0
        else if op = TOK_MUL then alu (0x33 OR ll) 0 1
        else if op = TOK_DIV then alu (0x33 OR ll) 4 1
        else if op = TOK_AND then alu 0x33 7 0
        else if op = TOK_XOR then alu 0x33 4 0
        else if op = TOK_OR then alu 0x33 6 0
        else if op = TOK_MOD then alu (if ll \<noteq> 0 then 0x3b else 0x33) 6 1
        else if op = TOK_UMOD then alu (0x33 OR ll) 7 1
        else if op = TOK_PDIV \<or> op = TOK_UDIV then alu (0x33 OR ll) 5 1
        else if is_cond op then Inr (Cmp op a b, s)
        else Inl (TccError ''implement me''))"

text \<open>The second operand is a constant of twelve bits. The choice of one instruction with it as its immediate: \<open>func3\<close>, the bit of
  the word form and the immediate; \<open>None\<close> where the switch is left, or has no case, and the operands go to registers.\<close>

definition opil_cop :: "nat \<Rightarrow> bool \<Rightarrow> 32 word \<Rightarrow> (32 word \<times> 32 word \<times> 32 word) option" where
  "opil_cop op long fc =
    (let ll = (if long then 0 else 8); m = (if ll \<noteq> 0 then 31 else 63)
     in if op = TOK_SUB then if sint fc \<le> - 2048 then None else Some (0, ll, - fc)
        else if op = TOK_ADD then Some (0, ll, fc)
        else if op = TOK_LE then if sint fc \<ge> 2047 then None else Some (2, 0, fc + 1)
        else if op = TOK_LT then Some (2, 0, fc)
        else if op = TOK_ULE then if sint fc \<ge> 2047 \<or> fc = - 1 then None else Some (3, 0, fc + 1)
        else if op = TOK_ULT then Some (3, 0, fc)
        else if op = TOK_XOR then Some (4, 0, fc)
        else if op = TOK_OR then Some (6, 0, fc)
        else if op = TOK_AND then Some (7, 0, fc)
        else if op = TOK_SHL then Some (1, ll, fc AND m)
        else if op = TOK_SHR then Some (5, ll, fc AND m)
        else if op = TOK_SAR then Some (5, ll, 1024 OR (fc AND m))
        else None)"

text \<open>The comparisons that the code reduces to another operator with the same constant.\<close>

definition inverted :: "nat \<Rightarrow> bool" where
  "inverted op \<longleftrightarrow> op = TOK_UGE \<or> op = TOK_UGT \<or> op = TOK_GE \<or> op = TOK_GT"

text \<open>\<open>d\<close> and \<open>a\<close> are the registers that \<open>get_reg\<close> and \<open>gv\<close> of \<open>tccgen.c\<close> have chosen, again the same ones when the function calls
  itself; \<open>gv2\<close> is the function of that name, which loads both operands into registers, with the choice of the register
  for the result.\<close>

definition opil_once ::
  "('a cg_scheme \<Rightarrow> (32 word \<times> 32 word \<times> 32 word \<times> 'a cg_scheme) result) \<Rightarrow> nat \<Rightarrow> bool \<Rightarrow> 32 word \<Rightarrow> 32 word \<Rightarrow> 32 word \<Rightarrow>
    'a cg_scheme \<Rightarrow> (op_value \<times> 'a cg_scheme) result" where
  "opil_once gv2 op long d a fc s =
    (case opil_cop op long fc of
       None \<Rightarrow> bindr (gv2 s) (\<lambda>(d, a, b, s). opil_regs op long d a b s)
     | Some (func3, cll, k) \<Rightarrow>
         bindr (EI (0x13 OR cll) func3 d a k s) (\<lambda>s. Inr (if is_cond op then Cmp TOK_NE d 0 else In_reg d, s)))"

definition opil_imm ::
  "('a cg_scheme \<Rightarrow> (32 word \<times> 32 word \<times> 32 word \<times> 'a cg_scheme) result) \<Rightarrow> nat \<Rightarrow> bool \<Rightarrow> 32 word \<Rightarrow> 32 word \<Rightarrow> 32 word \<Rightarrow>
    'a cg_scheme \<Rightarrow> (op_value \<times> 'a cg_scheme) result" where
  "opil_imm gv2 op long d a fc s =
    (if inverted op then
       bindr (opil_once gv2 (op - 1) long d a fc s) (\<lambda>(v, s).
         Inr (case v of Cmp c x y \<Rightarrow> Cmp (c XOR 1) x y | In_reg r \<Rightarrow> In_reg r, s))
     else if op = TOK_NE \<or> op = TOK_EQ then
       if fc \<noteq> 0 then
         bindr (opil_once gv2 TOK_SUB long d a fc s) (\<lambda>(v, s).
           Inr (case v of In_reg r \<Rightarrow> Cmp op r 0 | Cmp c x y \<Rightarrow> Cmp c x y, s))
       else Inr (Cmp op a 0, s)
     else opil_once gv2 op long d a fc s)"

section \<open>The frame of a function\<close>

record gen = cg +
  vloc :: "32 word"
  num_va_regs :: "32 word"
  func_sub_sp_offset :: nat

text \<open>\<open>gfunc_epilog\<close>, without the check of bounds: the code that leaves the function, and the five instructions that enter it
  in the space that \<open>gfunc_prolog\<close> has left.\<close>

definition frame_size :: "'a gen_scheme \<Rightarrow> 32 word" where
  "frame_size s = (15 - (vloc s - num_va_regs s * 8)) AND - 16"

definition epilog_code :: "32 word \<Rightarrow> 32 word \<Rightarrow> 'a code" where
  "epilog_code v nva =
    (let big = (2048 \<le> sint v); d = (if big then 16 else v)
     in run ((if big then [upper 0x37 5 (v - 16), EI 0x13 0 5 5 (lo12 (v - 16)), ER 0x33 0 2 2 5 0] else [])
          @ [EI 0x03 3 1 2 (d - 8 - nva * 8), EI 0x03 3 8 2 (d - 16 - nva * 8), EI 0x13 0 2 2 d, EI 0x67 0 0 1 0]))"

definition large_frame_code :: "32 word \<Rightarrow> 32 word \<Rightarrow> nat \<Rightarrow> 'a code" where
  "large_frame_code v nva start =
    run [EI 0x13 0 8 2 (16 - nva * 8), upper 0x37 5 (v - 16), EI 0x13 0 5 5 (lo12 (v - 16)), ER 0x33 0 2 2 5 0x20,
      gjmp_addr (of_nat (start + 5 * 4))]"

definition prolog_code :: "32 word \<Rightarrow> 32 word \<Rightarrow> nat \<Rightarrow> 'a code" where
  "prolog_code v nva large_ofs =
    (let big = (2048 \<le> sint v); d = (if big then 16 else v)
     in run [EI 0x13 0 2 2 (- d), ES 0x23 3 2 1 (d - 8 - nva * 8), ES 0x23 3 2 8 (d - 16 - nva * 8),
          if big then gjmp_addr (of_nat large_ofs) else EI 0x13 0 8 2 (d - nva * 8)])"

definition gfunc_epilog :: "'a gen_scheme \<Rightarrow> 'a gen_scheme result" where
  "gfunc_epilog s0 =
    (let nva = num_va_regs s0; v = frame_size s0; start = func_sub_sp_offset s0
     in bindr (epilog_code v nva (s0\<lparr>vloc := vloc s0 - nva * 8\<rparr>)) (\<lambda>s.
        let large_ofs_ind = ind s
        in bindr (if 2048 \<le> sint v then large_frame_code v nva start s else Inr s) (\<lambda>s.
           let saved_ind = ind s
           in bindr (prolog_code v nva large_ofs_ind (s\<lparr>ind := start\<rparr>)) (\<lambda>s.
              bindr (if ind s - start \<noteq> 5 * 4 then EI 0x13 0 0 0 0 s else Inr s) (\<lambda>s.
              Inr (s\<lparr>ind := saved_ind\<rparr>))))))"

end
