(* ===== verification/GenCode.thy ===== *)
theory GenCode
  imports RiscvGen RvRun AsmLi
begin

text \<open>
  The instructions that the code generator writes: what \<open>ER\<close>, \<open>EI\<close>, \<open>ES\<close>, \<open>upper\<close> and the jumps decode to, for
  registers below 32 and immediates that pass the assertions.
\<close>

unbundle bit_operations_syntax

section \<open>Words built from fields\<close>

lemma u32_reg: "r < 32 \<Longrightarrow> u32 (ucast r :: 5 word) = r" for r :: "32 word"
  using ucast_small [where 'a=32 and 'b=5, of r] by simp

lemma u32_funct: "f < 8 \<Longrightarrow> u32 (ucast f :: 3 word) = f" "g < 128 \<Longrightarrow> u32 (ucast g :: 7 word) = g" for f g :: "32 word"
  using ucast_small [where 'a=32 and 'b=3, of f] ucast_small [where 'a=32 and 'b=7, of g] by simp_all

lemma i_fields:
  fixes rd r1 :: "5 word" and f :: "3 word" and oc :: "7 word" and imm :: "32 word"
  defines "w \<equiv> u32 oc OR push_bit 12 (u32 f) OR push_bit 7 (u32 rd) OR push_bit 15 (u32 r1) OR push_bit 20 imm"
  shows "opcode w = oc" "funct3 w = f" "rdf w = rd" "rs1f w = r1" "top12 w = ucast imm"
  unfolding w_def opcode_def funct3_def rdf_def rs1f_def top12_def
  by (rule bits_eqI, simp add: each_bit bit_beyond)+

lemma r_fields:
  fixes rd r1 r2 :: "5 word" and f :: "3 word" and oc g :: "7 word"
  defines "w \<equiv> u32 oc OR push_bit 12 (u32 f) OR push_bit 7 (u32 rd) OR push_bit 15 (u32 r1) OR push_bit 20 (u32 r2) OR push_bit 25 (u32 g)"
  shows "opcode w = oc" "funct3 w = f" "rdf w = rd" "rs1f w = r1" "rs2f w = r2" "funct7 w = g"
  unfolding w_def opcode_def funct3_def rdf_def rs1f_def rs2f_def funct7_def
  by (rule bits_eqI, simp add: each_bit bit_beyond)+

lemma s_fields:
  fixes r1 r2 :: "5 word" and f :: "3 word" and oc :: "7 word" and imm :: "32 word"
  defines "w \<equiv> u32 oc OR push_bit 12 (u32 f) OR push_bit 7 (imm AND 0x1f) OR push_bit 15 (u32 r1) OR push_bit 20 (u32 r2)
    OR push_bit 25 (drop_bit 5 imm)"
  shows "opcode w = oc" "funct3 w = f" "rs1f w = r1" "rs2f w = r2" "imm_s w = scast (ucast imm :: 12 word)"
proof -
  show "opcode w = oc" "funct3 w = f" "rs1f w = r1" "rs2f w = r2"
    unfolding w_def opcode_def funct3_def rs1f_def rs2f_def by (rule bits_eqI, simp add: each_bit bit_beyond)+
  show "imm_s w = scast (ucast imm :: 12 word)"
    unfolding w_def imm_s_def funct7_def rdf_def by (rule arg_cong [where f = scast], rule bits_eqI) (simp add: each_bit bit_beyond)
qed

lemma u_fields:
  fixes rd :: "5 word" and oc :: "7 word" and x :: "32 word"
  defines "w \<equiv> u32 oc OR push_bit 7 (u32 rd) OR (x AND 0xfffff000)"
  shows "opcode w = oc" "rdf w = rd" "imm_u w = scast (push_bit 12 (drop_bit 12 x))"
proof -
  show "opcode w = oc" "rdf w = rd"
    unfolding w_def and_upper20 opcode_def rdf_def by (rule bits_eqI, simp add: each_bit bit_beyond)+
  show "imm_u w = scast (push_bit 12 (drop_bit 12 x))"
    unfolding w_def and_upper20 imm_u_def by (rule arg_cong [where f = scast], rule bits_eqI) (simp add: each_bit bit_beyond)
qed

lemma j_fields:
  "opcode (0x6f OR jal_imm x) = 0x6f" "rdf (0x6f OR jal_imm x) = 0"
  "imm_j (0x6f OR jal_imm x) = scast (ucast x AND NOT 1 :: 21 word)"
proof -
  show "opcode (0x6f OR jal_imm x) = 0x6f" "rdf (0x6f OR jal_imm x) = 0"
    unfolding jal_imm_def opcode_def rdf_def by (rule bits_eqI, simp add: each_bit bit_beyond)+
  show "imm_j (0x6f OR jal_imm x) = scast (ucast x AND NOT 1 :: 21 word)"
    unfolding jal_imm_def imm_j_def by (rule arg_cong [where f = scast], rule bits_eqI) (simp add: each_bit, simp add: numeral_2_eq_2)
qed

section \<open>Immediates\<close>

definition imm_ok :: "32 word \<Rightarrow> bool" where
  "imm_ok x \<longleftrightarrow> - 2048 \<le> sint x \<and> sint x < 2048"

lemma imm_test: "drop_bit 12 (x + push_bit 11 1) = 0 \<longleftrightarrow> imm_ok x" for x :: "32 word"
proof -
  have "drop_bit 12 y = 0 \<longleftrightarrow> y < 2 ^ 12" for y :: "32 word"
    by (simp add: word_unat_eq_iff drop_bit_eq_div unat_div word_less_nat_alt div_eq_0_iff)
  then show ?thesis using biased_less [of 11 x] by (simp add: imm_ok_def push_bit_eq_mult)
qed

lemma imm_scast: "imm_ok x \<Longrightarrow> scast (ucast x :: 12 word) = (scast x :: 64 word)"
  using sint_ucast_fits [where 'b=12, of x] by (simp add: imm_ok_def) (metis of_int_sint)

lemma lo12_eq: "lo12 x = signed_take_bit 11 x"
  using sdrop_push [of 20 x] by (simp add: lo12_def)

lemma imm_ok_lo12 [simp]: "imm_ok (lo12 x)"
proof -
  have "sint (signed_take_bit 11 x) = (sint x + 2 ^ 11) mod 2 ^ 12 - 2 ^ 11"
    by (simp add: sint_signed_take signed_take_bit_eq_take_bit_shift take_bit_eq_mod)
  then show ?thesis using pos_mod_bound [of "2 ^ 12" "sint x + 2 ^ 11"] pos_mod_sign [of "2 ^ 12" "sint x + 2 ^ 11"]
    by (simp add: imm_ok_def lo12_eq)
qed

section \<open>What the commands emit\<close>

lemma EI_word:
  assumes "opc = u32 (oc :: 7 word)" "func3 = u32 (f :: 3 word)" "rd < 32" "r1 < 32" "imm_ok x"
  shows "\<exists>w. EI opc func3 rd r1 x = (\<lambda>s. Inr (gen_le32 w s)) \<and> opcode w = oc \<and> funct3 w = f \<and> rdf w = ucast rd \<and>
    rs1f w = ucast r1 \<and> top12 w = ucast x"
proof -
  have e: "EI opc func3 rd r1 x = (\<lambda>s. Inr (gen_le32 (u32 oc OR push_bit 12 (u32 f) OR push_bit 7 (u32 (ucast rd :: 5 word))
      OR push_bit 15 (u32 (ucast r1 :: 5 word)) OR push_bit 20 x) s))"
    using assms(5) by (intro ext) (simp only: EI_def EIu_def imm_test if_True assms(1,2) u32_reg [OF assms(3)] u32_reg [OF assms(4)] gen_le32_eq_o_emit)
  show ?thesis by (intro exI conjI, rule e, (rule i_fields)+)
qed

lemma ER_word:
  assumes "opc = u32 (oc :: 7 word)" "func3 = u32 (f :: 3 word)" "func7 = u32 (g7 :: 7 word)" "rd < 32" "r1 < 32" "r2 < 32"
  shows "\<exists>w. ER opc func3 rd r1 r2 func7 = (\<lambda>s. Inr (gen_le32 w s)) \<and> opcode w = oc \<and> funct3 w = f \<and> rdf w = ucast rd \<and>
    rs1f w = ucast r1 \<and> rs2f w = ucast r2 \<and> funct7 w = g7"
proof -
  have e: "ER opc func3 rd r1 r2 func7 = (\<lambda>s. Inr (gen_le32 (u32 oc OR push_bit 12 (u32 f) OR push_bit 7 (u32 (ucast rd :: 5 word))
      OR push_bit 15 (u32 (ucast r1 :: 5 word)) OR push_bit 20 (u32 (ucast r2 :: 5 word)) OR push_bit 25 (u32 g7)) s))"
    by (intro ext) (simp only: ER_def assms(1-3) u32_reg [OF assms(4)] u32_reg [OF assms(5)] u32_reg [OF assms(6)] gen_le32_eq_o_emit)
  show ?thesis by (intro exI conjI, rule e, (rule r_fields)+)
qed

lemma emits_EI_as:
  assumes "rd < 32" "r1 < 32" "imm_ok x" "opc = u32 oc" "func3 = u32 f"
    and "\<And>w. opcode w = oc \<Longrightarrow> funct3 w = f \<Longrightarrow> decode w = Some (i (rdf w) (rs1f w) (imm_i w))"
  shows "emits (EI opc func3 rd r1 x :: 'a code) (i (ucast rd) (ucast r1) (scast x))"
proof -
  obtain w where "EI opc func3 rd r1 x = ((\<lambda>s. Inr (gen_le32 w s)) :: 'a code)" "opcode w = oc" "funct3 w = f" "rdf w = ucast rd" "rs1f w = ucast r1"
    "top12 w = ucast x" using EI_word [OF assms(4,5,1-3)] by blast
  then show ?thesis using assms(6) [of w] imm_scast [OF assms(3)] by (auto simp: emits_def imm_i_top12)
qed

lemma emits_ER_as:
  assumes "rd < 32" "r1 < 32" "r2 < 32" "opc = u32 oc" "func3 = u32 f" "func7 = u32 g7"
    and "\<And>w. opcode w = oc \<Longrightarrow> funct3 w = f \<Longrightarrow> funct7 w = g7 \<Longrightarrow> decode w = Some (i (rdf w) (rs1f w) (rs2f w))"
  shows "emits (ER opc func3 rd r1 r2 func7 :: 'a code) (i (ucast rd) (ucast r1) (ucast r2))"
proof -
  obtain w where "ER opc func3 rd r1 r2 func7 = ((\<lambda>s. Inr (gen_le32 w s)) :: 'a code)" "opcode w = oc" "funct3 w = f" "funct7 w = g7"
    "rdf w = ucast rd" "rs1f w = ucast r1" "rs2f w = ucast r2" using ER_word [OF assms(4-6,1-3)] by blast
  then show ?thesis using assms(7) [of w] by (auto simp: emits_def)
qed

lemma emits_ER:
  assumes "rd < 32" "r1 < 32" "r2 < 32" "decode_op g7 f = Some x" "func3 = u32 f" "func7 = u32 g7"
  shows "emits (ER 0x33 func3 rd r1 r2 func7) (Op x False (ucast rd) (ucast r1) (ucast r2))"
    and "has_word_form x \<Longrightarrow> emits (ER 0x3b func3 rd r1 r2 func7) (Op x True (ucast rd) (ucast r1) (ucast r2))"
  by (rule emits_ER_as [where oc = "0x33", OF assms(1-3) _ assms(5,6)]; simp add: decode_def assms(4))
    (rule emits_ER_as [where oc = "0x3b", OF assms(1-3) _ assms(5,6)]; simp add: decode_def assms(4))

lemmas decode_i = decode_def decode_opimm_def Let_def width_of_def

lemma emits_EI:
  assumes "rd < 32" "r1 < 32" "imm_ok x"
  shows "emits (EI 0x13 0 rd r1 x) (OpImm Add False (ucast rd) (ucast r1) (scast x))"
    and "emits (EI 0x1b 0 rd r1 x) (OpImm Add True (ucast rd) (ucast r1) (scast x))"
    and "emits (EI 0x13 2 rd r1 x) (OpImm Slt False (ucast rd) (ucast r1) (scast x))"
    and "emits (EI 0x13 3 rd r1 x) (OpImm Sltu False (ucast rd) (ucast r1) (scast x))"
    and "emits (EI 0x13 4 rd r1 x) (OpImm Xor False (ucast rd) (ucast r1) (scast x))"
    and "emits (EI 0x13 6 rd r1 x) (OpImm Or False (ucast rd) (ucast r1) (scast x))"
    and "emits (EI 0x13 7 rd r1 x) (OpImm And False (ucast rd) (ucast r1) (scast x))"
    and "emits (EI 0x03 3 rd r1 x) (Load WDouble False (ucast rd) (ucast r1) (scast x))"
    and "emits (EI 0x67 0 rd r1 x) (Jalr (ucast rd) (ucast r1) (scast x))"
proof -
  note e = emits_EI_as [OF assms]
  show "emits (EI 0x13 0 rd r1 x) (OpImm Add False (ucast rd) (ucast r1) (scast x))" by (rule e [of _ "0x13" _ 0]; simp add: decode_i)
  show "emits (EI 0x1b 0 rd r1 x) (OpImm Add True (ucast rd) (ucast r1) (scast x))" by (rule e [of _ "0x1b" _ 0]; simp add: decode_i)
  show "emits (EI 0x13 2 rd r1 x) (OpImm Slt False (ucast rd) (ucast r1) (scast x))" by (rule e [of _ "0x13" _ 2]; simp add: decode_i)
  show "emits (EI 0x13 3 rd r1 x) (OpImm Sltu False (ucast rd) (ucast r1) (scast x))" by (rule e [of _ "0x13" _ 3]; simp add: decode_i)
  show "emits (EI 0x13 4 rd r1 x) (OpImm Xor False (ucast rd) (ucast r1) (scast x))" by (rule e [of _ "0x13" _ 4]; simp add: decode_i)
  show "emits (EI 0x13 6 rd r1 x) (OpImm Or False (ucast rd) (ucast r1) (scast x))" by (rule e [of _ "0x13" _ 6]; simp add: decode_i)
  show "emits (EI 0x13 7 rd r1 x) (OpImm And False (ucast rd) (ucast r1) (scast x))" by (rule e [of _ "0x13" _ 7]; simp add: decode_i)
  show "emits (EI 0x03 3 rd r1 x) (Load WDouble False (ucast rd) (ucast r1) (scast x))" by (rule e [of _ "0x03" _ 3]; simp add: decode_i)
  show "emits (EI 0x67 0 rd r1 x) (Jalr (ucast rd) (ucast r1) (scast x))" by (rule e [of _ "0x67" _ 0]; simp add: decode_i)
qed

lemma emits_ES:
  assumes "r1 < 32" "r2 < 32" "imm_ok x"
  shows "emits (ES 0x23 3 r1 r2 x) (Store WDouble (ucast r1) (ucast r2) (scast x))"
proof -
  have "ES 0x23 3 r1 r2 x = (\<lambda>s. Inr (gen_le32 (u32 (0x23 :: 7 word) OR push_bit 12 (u32 (3 :: 3 word)) OR push_bit 7 (x AND 0x1f)
      OR push_bit 15 (u32 (ucast r1 :: 5 word)) OR push_bit 20 (u32 (ucast r2 :: 5 word)) OR push_bit 25 (drop_bit 5 x)) s))"
    using assms(3) by (intro ext) (simp add: ES_def imm_test [simplified] u32_reg [OF assms(1)] u32_reg [OF assms(2)] gen_le32_eq_o_emit)
  moreover have "decode (u32 (0x23 :: 7 word) OR push_bit 12 (u32 (3 :: 3 word)) OR push_bit 7 (x AND 0x1f)
      OR push_bit 15 (u32 (ucast r1 :: 5 word)) OR push_bit 20 (u32 (ucast r2 :: 5 word)) OR push_bit 25 (drop_bit 5 x)) =
      Some (Store WDouble (ucast r1) (ucast r2) (scast x))"
    unfolding decode_def Let_def s_fields imm_scast [OF assms(3)] by (simp add: width_of_def)
  ultimately show ?thesis by (auto simp: emits_def)
qed

lemma emits_upper_as:
  assumes "rd < 32" "opc = u32 oc" "\<And>w. opcode w = oc \<Longrightarrow> decode w = Some (i (rdf w) (imm_u w))"
  shows "emits (upper opc rd x) (i (ucast rd) (scast (push_bit 12 (drop_bit 12 (x + 0x800)))))"
proof -
  define w where "w = u32 oc OR push_bit 7 (u32 (ucast rd :: 5 word)) OR ((x + 0x800) AND 0xfffff000)"
  have "upper opc rd x s = Inr (gen_le32 w s)" for s :: "'a cg_scheme"
    by (simp only: upper_def w_def assms(2) u32_reg [OF assms(1)] gen_le32_eq_o_emit)
  moreover have "decode w = Some (i (ucast rd) (scast (push_bit 12 (drop_bit 12 (x + 0x800)))))"
    using assms(3) [of w] unfolding w_def u_fields by simp
  ultimately show ?thesis by (intro emitsI)
qed

lemma emits_upper:
  assumes "rd < 32"
  shows "emits (upper 0x37 rd x) (Lui (ucast rd) (scast (push_bit 12 (drop_bit 12 (x + 0x800)))))"
    and "emits (upper 0x17 rd x) (Auipc (ucast rd) (scast (push_bit 12 (drop_bit 12 (x + 0x800)))))"
  by (rule emits_upper_as [where oc = "0x37", OF assms]; simp add: decode_def)
    (rule emits_upper_as [where oc = "0x17", OF assms]; simp add: decode_def)

text \<open>Shifts by a constant: the amount is in the low bits of the immediate, bit 10 distinguishes the arithmetic shift.\<close>

lemma imm_ok_less: "x < 2048 \<Longrightarrow> imm_ok x"
proof -
  assume x: "x < 2048"
  then have u: "uint x < 2048" by (simp add: word_less_def)
  then have "sint x = uint x" by (intro sint_small) simp
  then show ?thesis using u order_trans [OF _ uint_ge_0, of "- 2048" x] by (simp add: imm_ok_def)
qed

lemma emits_EI_shift_as:
  assumes "rd < 32" "r1 < 32" "k < n" "n = 64 \<and> \<not> w32 \<and> opc = u32 oc \<and> oc = (0x13 :: 7 word) \<or> n = 32 \<and> w32 \<and> opc = u32 oc \<and> oc = 0x1b"
    and "func3 = 1 \<and> x = k \<and> f = Sll \<or> func3 = 5 \<and> x = k \<and> f = Srl \<or> func3 = 5 \<and> x = 1024 OR k \<and> f = Sra"
  shows "emits (EI opc func3 rd r1 x :: 'a code) (OpImm f w32 (ucast rd) (ucast r1) (u64 k))"
proof -
  define sh where "sh = (ucast k :: 6 word)"
  have k64: "k < 64" using assms(3,4) by (auto elim: order_less_trans)
  then have k: "k = u32 sh" using ucast_small [where 'b=6, of k] by (simp add: sh_def)
  have "take_bit 11 x = x" using assms(5) unfolding k by (elim disjE conjE) (rule bits_eqI, simp add: each_bit bit_beyond)+
  then have "x < 2 ^ 11" using and_mask_less' [of 11 x] by (simp add: take_bit_eq_mask)
  then have ok: "imm_ok x" by (intro imm_ok_less) simp
  obtain f3 :: "3 word" where f3: "func3 = u32 f3" "f3 = 1 \<and> x = k \<and> f = Sll \<or> f3 = 5 \<and> x = k \<and> f = Srl \<or> f3 = 5 \<and> x = 1024 OR k \<and> f = Sra"
    using assms(5) that [of 1] that [of 5] by auto
  obtain w where w: "EI opc func3 rd r1 x = ((\<lambda>s. Inr (gen_le32 w s)) :: 'a code)" "opcode w = oc" "funct3 w = f3" "rdf w = ucast rd"
    "rs1f w = ucast r1" "top12 w = ucast x" using EI_word [OF _ f3(1) assms(1,2) ok, of opc oc] assms(4) by blast
  have x: "x = u32 sh \<and> f \<noteq> Sra \<or> x = 1024 OR u32 sh \<and> f = Sra" using f3(2) k by auto
  have s: "(ucast (ucast x :: 12 word) :: 6 word) = sh" "(ucast (drop_bit 6 (ucast x :: 12 word)) :: 6 word) = (if f = Sra then 0x10 else 0)"
    "bit (ucast x :: 12 word) 5 = bit sh 5"
    using x by - (elim disjE conjE; (rule bits_eqI)?; simp add: each_bit bit_beyond)+
  have "w32 \<Longrightarrow> unat k < 2 ^ 5" using assms(3,4) by (simp add: word_less_nat_alt)
  then have b5: "w32 \<Longrightarrow> \<not> bit sh 5" using bit_unat_less [of k 5 5] by (auto simp: sh_def bit_simps)
  have u: "u64 k = u64 sh" unfolding k by (rule bits_eqI) (simp add: each_bit bit_beyond)
  have f: "f3 = 1 \<and> f = Sll \<or> f3 = 5 \<and> f = Srl \<or> f3 = 5 \<and> f = Sra" using f3(2) by auto
  have "decode_opimm w32 w = Some (OpImm f w32 (ucast rd) (ucast r1) (u64 k))"
    using f b5 unfolding u by (elim disjE conjE) (simp_all add: decode_opimm_def Let_def shift_fields w(3-6) s)
  then have "decode w = Some (OpImm f w32 (ucast rd) (ucast r1) (u64 k))"
    using assms(4) by (auto simp: decode_def Let_def w(2))
  then show ?thesis using w(1) by (auto simp: emits_def)
qed

lemma emits_EI_shift:
  assumes "rd < 32" "r1 < 32"
  shows "k < 64 \<Longrightarrow> emits (EI 0x13 1 rd r1 k) (OpImm Sll False (ucast rd) (ucast r1) (u64 k))"
    and "k < 64 \<Longrightarrow> emits (EI 0x13 5 rd r1 k) (OpImm Srl False (ucast rd) (ucast r1) (u64 k))"
    and "k < 64 \<Longrightarrow> emits (EI 0x13 5 rd r1 (1024 OR k)) (OpImm Sra False (ucast rd) (ucast r1) (u64 k))"
    and "k < 32 \<Longrightarrow> emits (EI 0x1b 1 rd r1 k) (OpImm Sll True (ucast rd) (ucast r1) (u64 k))"
    and "k < 32 \<Longrightarrow> emits (EI 0x1b 5 rd r1 k) (OpImm Srl True (ucast rd) (ucast r1) (u64 k))"
    and "k < 32 \<Longrightarrow> emits (EI 0x1b 5 rd r1 (1024 OR k)) (OpImm Sra True (ucast rd) (ucast r1) (u64 k))"
  by (rule emits_EI_shift_as [OF assms, where n = 64 and oc = "0x13"] emits_EI_shift_as [OF assms, where n = 32 and oc = "0x1b"], assumption,
      simp, simp)+

end
