(* ===== verification/GenConst.thy ===== *)
theory GenConst
  imports GenCode
begin

text \<open>
  Loading a constant into a register: the instructions that \<open>load\<close> writes for it are executed, and what the register
  holds then.
\<close>

unbundle bit_operations_syntax

section \<open>Commands and instructions\<close>

lemma run_if: "bindr (if p then c s else Inr s) f = bindr (run (if p then [c] else []) s) f"
  "bindr (if p then run cs s else Inr s) f = bindr (run (if p then cs else []) s) f"
  "(if p then run cs s else Inr s) = run (if p then cs else []) s"
  by simp_all

lemma run_seq: "bindr (run cs s) (run ds) = run (cs @ ds) s"
  by (simp add: run_append)

definition large_const :: "64 word \<Rightarrow> bool" where
  "large_const ci \<longleftrightarrow> scast (u32 ci) \<noteq> ci \<and> signed_drop_bit 32 ci \<noteq> 0"

definition low_part :: "64 word \<Rightarrow> 32 word" where
  "low_part ci = (if large_const ci then u32 ci AND 0xff else u32 ci)"

definition large_code :: "32 word \<Rightarrow> 32 word \<Rightarrow> 32 word \<Rightarrow> 'a code list" where
  "large_code rr fc hi =
    (let up = (if sint fc < 0 then hi + 1 else hi); fc1 = signed_drop_bit 12 (push_bit 12 fc)
     in [upper 0x37 rr up, EI 0x13 0 rr rr (lo12 up), EI 0x13 1 rr rr 12,
         EI 0x13 0 rr rr (signed_drop_bit 20 (fc + push_bit 19 1)), EI 0x13 1 rr rr 12,
         EI 0x13 0 rr rr (signed_drop_bit 8 fc1), EI 0x13 1 rr rr 8])"

definition const_code :: "32 word \<Rightarrow> btype \<Rightarrow> 64 word \<Rightarrow> 'a code list" where
  "const_code rr bt ci =
    (let big = large_const ci; fc = low_part ci; hi = (\<not> imm_ok fc); rb = (if hi then rr else if big then rr else 0)
     in (if big then large_code rr (u32 ci) (u32 (signed_drop_bit 32 ci)) else []) @
        (if hi then [upper 0x37 rr fc] else []) @
        (if fc \<noteq> 0 \<or> rr \<noteq> rb \<or> \<not> big then [EI (if big then 0x13 else 0x1b) 0 rr rb (lo12 fc)] else []) @
        (if scast (u32 ci) \<noteq> ci \<and> \<not> big \<and> bt = VT_LLONG then [EI 0x13 1 rr rr 32, EI 0x13 5 rr rr 32] else []))"

lemma load_large_constant_run: "load_large_constant rr fc hi = run (large_code rr fc hi)"
  by (rule ext) (simp add: load_large_constant_def large_code_def Let_def)

lemma low_byte_ok: "imm_ok (x AND 0xff)"
proof -
  have "unat (x AND 0xff) < 2 ^ 8" by (simp add: masks unsigned_take_bit_eq take_bit_nat_less_exp [of 8, simplified])
  then have "uint (x AND 0xff) < 2 ^ 8" by (metis of_nat_less_iff of_nat_numeral of_nat_power uint_nat)
  then have "sint (x AND 0xff) = uint (x AND 0xff)" by (intro sint_small) simp
  then show ?thesis using \<open>uint (x AND 0xff) < 2 ^ 8\<close> by (simp add: imm_ok_def order_trans [OF _ uint_ge_0])
qed

lemma load_const_run:
  assumes "is_ireg r" "ireg r = Inr rr" "\<not> is_float bt"
  shows "load_const r bt ci s = run (const_code rr bt ci) s"
proof -
  define si where "si = signed_drop_bit 32 ci"
  define other where "other \<longleftrightarrow> scast (u32 ci) \<noteq> ci"
  have b: "large_const ci \<longleftrightarrow> other \<and> si \<noteq> 0" by (simp add: large_const_def si_def other_def)
  have t: "drop_bit 12 (low_part ci + push_bit 11 1) \<noteq> 0 \<longleftrightarrow> \<not> imm_ok (low_part ci)" by (simp only: imm_test)
  have e: "0x13 OR (if other \<and> si \<noteq> 0 then 0 else 8) = (if other \<and> si \<noteq> 0 then 0x13 else 0x1b :: 32 word)"
    "((if other \<and> si \<noteq> 0 then 0 else 8 :: 32 word) \<noteq> 0) = (\<not> (other \<and> si \<noteq> 0))" by simp_all
  have z: "other \<and> si = 0 \<and> p \<longleftrightarrow> other \<and> \<not> (other \<and> si \<noteq> 0) \<and> p" for p by auto
  have n: "\<not> ((\<not> is_float bt \<and> is_ireg r) \<or> bt = VT_LDOUBLE) \<longleftrightarrow> False" "is_float bt \<and> bt \<noteq> VT_LDOUBLE \<longleftrightarrow> False" using assms by simp_all
  show ?thesis
    unfolding load_const_def assms(2) if_P [OF assms(1)] bindr.simps const_code_def Let_def load_large_constant_run
      si_def [symmetric] other_def [symmetric] b low_part_def [of ci, unfolded b, symmetric] t e z n if_False
    by (simp only: run_if run_seq)
qed

section \<open>The instructions\<close>

definition large_insns :: "5 word \<Rightarrow> 64 word \<Rightarrow> insn list" where
  "large_insns r v =
    [Lui r (scast (push_bit 12 (drop_bit 12 (li_upper v + 0x800)))), OpImm Add False r r (scast (signed_take_bit 11 (li_upper v))),
     OpImm Sll False r r 12, OpImm Add False r r (scast (signed_drop_bit 20 (u32 v + 0x80000))),
     OpImm Sll False r r 12, OpImm Add False r r (scast (signed_drop_bit 8 (signed_take_bit 19 (u32 v)))), OpImm Sll False r r 8]"

definition const_insns :: "5 word \<Rightarrow> btype \<Rightarrow> 64 word \<Rightarrow> insn list" where
  "const_insns r bt ci =
    (let big = large_const ci; fc = low_part ci; hi = (\<not> imm_ok fc)
     in (if big then large_insns r ci else []) @
        (if hi then [Lui r (scast (push_bit 12 (drop_bit 12 (fc + 0x800))))] else []) @
        (if fc \<noteq> 0 \<or> \<not> big then [OpImm Add (\<not> big) r (if hi \<or> big then r else 0) (scast (lo12 fc))] else []) @
        (if scast (u32 ci) \<noteq> ci \<and> \<not> big \<and> bt = VT_LLONG then [OpImm Sll False r r 32, OpImm Srl False r r 32] else []))"

lemma imm_ok_pieces:
  "imm_ok (signed_drop_bit 20 x)" "imm_ok (signed_drop_bit 8 (signed_take_bit 19 x))" for x :: "32 word"
proof -
  have x: "- (2 ^ 31) \<le> sint x" "sint x < 2 ^ 31" using sint_range_size [of x] by (simp_all add: word_size)
  then have "- 2048 \<le> sint x div 1048576" "sint x div 1048576 < 2048" by simp_all
  then show "imm_ok (signed_drop_bit 20 x)" by (simp add: imm_ok_def sint_signed_drop_bit_eq drop_bit_eq_div)
  have "sint (signed_take_bit 19 x) = (sint x + 2 ^ 19) mod 2 ^ 20 - 2 ^ 19"
    by (simp add: sint_signed_take signed_take_bit_eq_take_bit_shift take_bit_eq_mod)
  then have "- 524288 \<le> sint (signed_take_bit 19 x)" "sint (signed_take_bit 19 x) < 524288"
    using pos_mod_bound [of "2 ^ 20" "sint x + 2 ^ 19"] pos_mod_sign [of "2 ^ 20" "sint x + 2 ^ 19"] by simp_all
  then have "- 2048 \<le> sint (signed_take_bit 19 x) div 256" "sint (signed_take_bit 19 x) div 256 < 2048" by presburger+
  then show "imm_ok (signed_drop_bit 8 (signed_take_bit 19 x))" by (simp add: imm_ok_def sint_signed_drop_bit_eq drop_bit_eq_div)
qed

lemma emits_sll: "r < 32 \<Longrightarrow> emits (EI 0x13 1 r r 12) (OpImm Sll False (ucast r) (ucast r) 12)"
  "r < 32 \<Longrightarrow> emits (EI 0x13 1 r r 8) (OpImm Sll False (ucast r) (ucast r) 8)"
  "r < 32 \<Longrightarrow> emits (EI 0x13 1 r r 32) (OpImm Sll False (ucast r) (ucast r) 32)"
  "r < 32 \<Longrightarrow> emits (EI 0x13 5 r r 32) (OpImm Srl False (ucast r) (ucast r) 32)"
  using emits_EI_shift(1) [of r r 12] emits_EI_shift(1) [of r r 8] emits_EI_shift(1) [of r r 32] emits_EI_shift(2) [of r r 32] by simp_all

lemma large_emits:
  assumes "r < 32"
  shows "list_all2 emits (large_code r (u32 v) (u32 (signed_drop_bit 32 v))) (large_insns (ucast r) v)"
proof -
  have "li_upper v = (if sint (u32 v) < 0 then u32 (signed_drop_bit 32 v) + 1 else u32 (signed_drop_bit 32 v))" by (simp add: li_upper_def)
  moreover have "signed_drop_bit 12 (push_bit 12 (u32 v)) = signed_take_bit 19 (u32 v)" using sdrop_push [of 12 "u32 v"] by simp
  ultimately show ?thesis
    unfolding large_code_def large_insns_def Let_def lo12_eq
    by (simp add: emits_upper(1) [OF assms, simplified] emits_EI(1) [OF assms assms] imm_ok_pieces emits_sll [OF assms] imm_ok_lo12 [unfolded lo12_eq])
qed

lemma const_emits:
  assumes "r < 32" "r \<noteq> 0"
  shows "list_all2 emits (const_code r bt ci :: 'a code list) (const_insns (ucast r) bt ci)"
proof -
  have r: "r \<noteq> (if hi then r else if big then r else 0) \<longleftrightarrow> \<not> hi \<and> \<not> big" for hi big using assms(2) by simp
  show ?thesis
    unfolding const_code_def const_insns_def Let_def r
    by (intro list_all2_appendI) (simp_all add: large_emits [OF assms(1)] emits_upper(1) [OF assms(1), simplified] emits_sll [OF assms(1)]
        assms(1) emits_EI(1,2) emits_EI(1,2) [where ?r1.0 = 0, simplified])
qed

section \<open>Execution\<close>

text \<open>The instructions run through, write one register and leave memory alone.\<close>

definition sets_reg :: "insn list \<Rightarrow> 5 word \<Rightarrow> rv \<Rightarrow> 64 word \<Rightarrow> bool" where
  "sets_reg is r m v \<longleftrightarrow> (\<exists>m'. exec_list is m = Some m' \<and> pc m' = pc m + 4 * of_nat (length is) \<and> rmem m' = rmem m \<and>
    xr m' r = v \<and> (\<forall>q. q \<noteq> r \<longrightarrow> xr m' q = xr m q))"

lemma sets_reg_append:
  assumes "sets_reg is r m v" "\<And>m'. xr m' r = v \<Longrightarrow> sets_reg js r m' v'"
  shows "sets_reg (is @ js) r m v'"
proof -
  obtain m' where m': "exec_list is m = Some m'" "pc m' = pc m + 4 * of_nat (length is)" "rmem m' = rmem m" "xr m' r = v" "\<And>q. q \<noteq> r \<Longrightarrow> xr m' q = xr m q"
    using assms(1) by (auto simp: sets_reg_def)
  then show ?thesis using assms(2) [OF m'(4)] by (auto simp: sets_reg_def exec_list_append algebra_simps)
qed

lemma low_piece: "signed_take_bit 11 (take_bit 8 (signed_take_bit 19 x)) = lo12 (x AND 0xff)" for x :: "32 word"
  unfolding lo12_eq masks by (rule bit_word_eqI) (auto simp: bit_simps min_def)

lemma large_sets:
  assumes "r \<noteq> 0"
  shows "sets_reg (large_insns r v) r m (v - (if li_overflow v then 2 ^ 32 else 0) - scast (lo12 (u32 v AND 0xff)))"
proof -
  have sh: "push_bit 12 x = x * 2 ^ 12" "push_bit 8 x = x * 2 ^ 8" for x :: "64 word"
    by (simp_all add: push_bit_eq_mult)
  have "sets_reg (large_insns r v) r m ((((scast (push_bit 12 (drop_bit 12 (li_upper v + 0x800))) + scast (signed_take_bit 11 (li_upper v))) * 2 ^ 12
      + scast (signed_drop_bit 20 (u32 v + 0x80000))) * 2 ^ 12 + scast (signed_drop_bit 8 (signed_take_bit 19 (u32 v)))) * 2 ^ 8)"
    using assms by (simp add: sets_reg_def large_insns_def alu_exec_def sh [simplified] fields)
  then show ?thesis using li_value [of v] unfolding low_piece by (metis add_diff_cancel_right')
qed

lemma lo12_small: "imm_ok x \<Longrightarrow> lo12 x = x"
proof -
  assume "imm_ok x"
  then have "sint (signed_take_bit 11 x) = sint x"
    by (simp add: sint_signed_take signed_take_bit_int_eq_self imm_ok_def)
  then show ?thesis by (simp add: lo12_eq) (metis of_int_sint scast_id)
qed

lemma upper_lower: "push_bit 12 (drop_bit 12 (x + 0x800)) + lo12 x = x"
  using hi_lo_split [of 11 x] by (simp add: lo12_eq)

lemma xr_zero: "xr m 0 = 0"
  by (simp add: xr_def)

lemma small_sets:
  assumes "r \<noteq> 0"
  shows "sets_reg ((if \<not> imm_ok fc then [Lui r (scast (push_bit 12 (drop_bit 12 (fc + 0x800))))] else []) @
    [OpImm Add True r (if \<not> imm_ok fc then r else 0) (scast (lo12 fc))]) r m (scast fc)"
  using assms upper_lower [of fc] lo12_small [of fc]
  by (auto simp: sets_reg_def alu_exec_def u32_scast xr_zero)

lemma zext_sets:
  fixes x :: "32 word"
  assumes "r \<noteq> 0" "xr m r = scast x"
  shows "sets_reg [OpImm Sll False r r 32, OpImm Srl False r r 32] r m (u64 x)"
proof -
  have "drop_bit 32 (push_bit 32 (scast x :: 64 word)) = u64 x" by (rule bits_eqI) (simp add: each_bit bit_beyond)
  then show ?thesis using assms by (simp add: sets_reg_def alu_exec_def)
qed

definition const_value :: "btype \<Rightarrow> 64 word \<Rightarrow> 64 word" where
  "const_value bt ci =
    (if scast (u32 ci) = ci then ci
     else if drop_bit 32 ci = 0 then if bt = VT_LLONG then ci else ci - 2 ^ 32
     else if li_overflow ci then ci - 2 ^ 32 else ci)"

lemma sdrop_eq_0: "signed_drop_bit 32 v = 0 \<longleftrightarrow> drop_bit 32 v = 0" for v :: "64 word"
proof -
  have "signed_drop_bit 32 v = scast (u32 (drop_bit 32 v))" "drop_bit 32 v = u64 (u32 (drop_bit 32 v))"
    by (rule bits_eqI, simp add: each_bit bit_beyond)+
  then show ?thesis by (metis u32_scast u32_u64 signed_0 unsigned_0)
qed

lemma const_sets:
  assumes "r \<noteq> 0"
  shows "sets_reg (const_insns r bt ci) r m (const_value bt ci)"
proof (cases "large_const ci")
  case True
  define fc where "fc = u32 ci AND 0xff"
  have l: "scast (u32 ci) \<noteq> ci" "drop_bit 32 ci \<noteq> 0" using True by (simp_all add: large_const_def sdrop_eq_0)
  have i: "const_insns r bt ci = large_insns r ci @ (if fc \<noteq> 0 then [OpImm Add False r r (scast (lo12 fc))] else [])"
    using True low_byte_ok by (simp add: const_insns_def Let_def low_part_def fc_def)
  show ?thesis unfolding i
  proof (rule sets_reg_append [OF large_sets [OF assms]])
    fix m' assume "xr m' r = ci - (if li_overflow ci then 2 ^ 32 else 0) - scast (lo12 (u32 ci AND 0xff))"
    then show "sets_reg (if fc \<noteq> 0 then [OpImm Add False r r (scast (lo12 fc))] else []) r m' (const_value bt ci)"
      using assms l by (auto simp: sets_reg_def alu_exec_def const_value_def fc_def [symmetric] lo12_eq)
  qed
next
  case False
  then have l: "scast (u32 ci) \<noteq> ci \<Longrightarrow> drop_bit 32 ci = 0" by (simp add: large_const_def sdrop_eq_0)
  define fc where "fc = u32 ci"
  define z where "z \<longleftrightarrow> scast fc \<noteq> ci \<and> bt = VT_LLONG"
  have i: "const_insns r bt ci = ((if \<not> imm_ok fc then [Lui r (scast (push_bit 12 (drop_bit 12 (fc + 0x800))))] else []) @
    [OpImm Add True r (if \<not> imm_ok fc then r else 0) (scast (lo12 fc))]) @ (if z then [OpImm Sll False r r 32, OpImm Srl False r r 32] else [])"
    using False by (simp add: const_insns_def Let_def low_part_def fc_def z_def)
  have h: "ci = u64 fc" "scast fc = ci - 2 ^ 32" if "scast fc \<noteq> ci"
    using halves [of ci] scast_split [of fc] l that by (auto simp: fc_def split: if_split_asm)
  show ?thesis unfolding i
  proof (rule sets_reg_append [OF small_sets [OF assms]])
    fix m' assume "xr m' r = scast fc"
    moreover have "const_value bt ci = (if z then u64 fc else scast fc)"
      using h l unfolding const_value_def z_def fc_def [symmetric] by auto
    ultimately show "sets_reg (if z then [OpImm Sll False r r 32, OpImm Srl False r r 32] else []) r m' (const_value bt ci)"
      using zext_sets [OF assms] by (simp add: sets_reg_def)
  qed
qed

end
