(* ===== verification/TccOpic.thy ===== *)
theory TccOpic
  imports RiscvGen
begin

text \<open>
  Integer operators on the value stack (\<open>gen_opic\<close> of \<open>tccgen.c\<close>): the folding of constants and the simplifications
  that do not depend on the target. The stack is a list with its top first. What the function calls to generate
  code is an argument: \<open>opl\<close> and \<open>opi\<close> are \<open>gen_opl\<close> and \<open>gen_opi\<close> of the target, \<open>gv\<close> loads a comparison into a register and
  \<open>cmp_drop\<close> resolves the jumps of a comparison that is popped.
\<close>

unbundle bit_operations_syntax

section \<open>The value stack\<close>

abbreviation VT_VALMASK :: "16 word" where "VT_VALMASK \<equiv> 0x3f"
abbreviation VT_CONST :: "16 word" where "VT_CONST \<equiv> 0x30"
abbreviation VT_LOCAL :: "16 word" where "VT_LOCAL \<equiv> 0x32"
abbreviation VT_CMP :: "16 word" where "VT_CMP \<equiv> 0x33"
abbreviation VT_LVAL :: "16 word" where "VT_LVAL \<equiv> 0x100"
abbreviation VT_SYM :: "16 word" where "VT_SYM \<equiv> 0x200"
abbreviation VT_NONCONST :: "16 word" where "VT_NONCONST \<equiv> 0x1000"

record svalue =
  sv_bt :: btype
  sv_unsigned :: bool
  sv_r :: "16 word"
  sv_c :: "64 word"
  sv_sym :: nat

text \<open>\<open>eval_suppressed\<close> is \<open>nocode_wanted & ~CODE_OFF_BIT\<close>, \<open>const_wanted\<close> is \<open>CONST_WANTED && !NOEVAL_WANTED\<close>.\<close>

record vst =
  vstack :: "svalue list"
  eval_suppressed :: bool
  const_wanted :: bool

type_synonym 'a vop = "'a vst_scheme \<Rightarrow> 'a vst_scheme result"

definition where_is :: "svalue \<Rightarrow> 16 word" where
  "where_is v = sv_r v AND (VT_VALMASK OR VT_LVAL OR VT_SYM)"

definition vcheck_cmp :: "'a vop \<Rightarrow> 'a vop" where
  "vcheck_cmp gv s = (if sv_r (hd (vstack s)) = VT_CMP \<and> \<not> eval_suppressed s then gv s else Inr s)"

definition vswap :: "'a vop \<Rightarrow> 'a vop" where
  "vswap gv s = bindr (vcheck_cmp gv s) (\<lambda>s.
     case vstack s of a # b # vs \<Rightarrow> Inr (s\<lparr>vstack := b # a # vs\<rparr>) | _ \<Rightarrow> Inr s)"

definition pop1 :: "'a vop" where
  "pop1 s = Inr (s\<lparr>vstack := tl (vstack s)\<rparr>)"

definition vpop :: "'a vop \<Rightarrow> 'a vop" where
  "vpop cmp_drop s = bindr (if sv_r (hd (vstack s)) AND VT_VALMASK = VT_CMP then cmp_drop s else Inr s) pop1"

definition upd_top :: "(svalue \<Rightarrow> svalue) \<Rightarrow> 'a vop" where
  "upd_top f s = (case vstack s of v # vs \<Rightarrow> Inr (s\<lparr>vstack := f v # vs\<rparr>) | [] \<Rightarrow> Inr s)"

section \<open>Folding\<close>

definition gen_opic_sdiv :: "64 word \<Rightarrow> 64 word \<Rightarrow> 64 word" where
  "gen_opic_sdiv a b =
    (let x = (if drop_bit 63 a \<noteq> 0 then - a else a) div (if drop_bit 63 b \<noteq> 0 then - b else b)
     in if drop_bit 63 (a XOR b) \<noteq> 0 then - x else x)"

definition gen_opic_lt :: "64 word \<Rightarrow> 64 word \<Rightarrow> bool" where
  "gen_opic_lt a b \<longleftrightarrow> a XOR push_bit 63 1 < b XOR push_bit 63 1"

text \<open>A constant as its type has it: all 64 bits, or 32 bits with the sign or zeros above.\<close>

definition wide :: "btype \<Rightarrow> bool" where
  "wide bt \<longleftrightarrow> bt = VT_LLONG \<or> bt = VT_PTR"

definition as_type :: "btype \<Rightarrow> bool \<Rightarrow> 64 word \<Rightarrow> 64 word" where
  "as_type bt uns l =
    (if \<not> wide bt then u64 (u32 l) OR (if uns then 0 else - (l AND 0x80000000)) else l)"

datatype folded = Folded "64 word" | Div_by_zero | Not_folded

definition opic_fold :: "nat \<Rightarrow> nat \<Rightarrow> 64 word \<Rightarrow> 64 word \<Rightarrow> folded" where
  "opic_fold op shm l1 l2 =
    (let n = unat (l2 AND of_nat shm)
     in if op = TOK_ADD then Folded (l1 + l2)
        else if op = TOK_SUB then Folded (l1 - l2)
        else if op = TOK_AND then Folded (l1 AND l2)
        else if op = TOK_XOR then Folded (l1 XOR l2)
        else if op = TOK_OR then Folded (l1 OR l2)
        else if op = TOK_MUL then Folded (l1 * l2)
        else if op = TOK_PDIV \<or> op = TOK_DIV \<or> op = TOK_MOD \<or> op = TOK_UDIV \<or> op = TOK_UMOD then
          if l2 = 0 then Div_by_zero
          else if op = TOK_MOD then Folded (l1 - l2 * gen_opic_sdiv l1 l2)
          else if op = TOK_UDIV then Folded (l1 div l2)
          else if op = TOK_UMOD then Folded (l1 mod l2)
          else Folded (gen_opic_sdiv l1 l2)
        else if op = TOK_SHL then Folded (push_bit n l1)
        else if op = TOK_SHR then Folded (drop_bit n l1)
        else if op = TOK_SAR then Folded (if drop_bit 63 l1 \<noteq> 0 then NOT (drop_bit n (NOT l1)) else drop_bit n l1)
        else if op = TOK_ULT then Folded (of_bool (l1 < l2))
        else if op = TOK_UGE then Folded (of_bool (l1 \<ge> l2))
        else if op = TOK_EQ then Folded (of_bool (l1 = l2))
        else if op = TOK_NE then Folded (of_bool (l1 \<noteq> l2))
        else if op = TOK_ULE then Folded (of_bool (l1 \<le> l2))
        else if op = TOK_UGT then Folded (of_bool (l1 > l2))
        else if op = TOK_LT then Folded (of_bool (gen_opic_lt l1 l2))
        else if op = TOK_GE then Folded (of_bool (\<not> gen_opic_lt l1 l2))
        else if op = TOK_LE then Folded (of_bool (\<not> gen_opic_lt l2 l1))
        else if op = TOK_GT then Folded (of_bool (gen_opic_lt l2 l1))
        else if op = TOK_LAND then Folded (of_bool (l1 \<noteq> 0 \<and> l2 \<noteq> 0))
        else if op = TOK_LOR then Folded (of_bool (l1 \<noteq> 0 \<or> l2 \<noteq> 0))
        else Not_folded)"

section \<open>Simplifications\<close>

text \<open>The loop that counts the position of the only bit.\<close>

function count_shift :: "64 word \<Rightarrow> int \<Rightarrow> int" where
  "count_shift l2 n = (if l2 \<noteq> 0 then count_shift (drop_bit 1 l2) (n + 1) else n)"
  by pat_completeness auto
termination
proof (relation "measure (\<lambda>(l2, n). unat l2)")
  fix l2 :: "64 word" and n :: int
  assume "l2 \<noteq> 0"
  then have "0 < unat l2" by (simp add: unat_gt_0)
  then have "unat (drop_bit 1 l2) < unat l2" by (simp add: drop_bit_eq_div unat_div)
  then show "((drop_bit 1 l2, n + 1), (l2, n)) \<in> measure (\<lambda>(l2, n). unat l2)" by simp
qed simp

declare count_shift.simps [simp del]

definition opic_general :: "(nat \<Rightarrow> 'a vop) \<Rightarrow> (nat \<Rightarrow> 'a vop) \<Rightarrow> btype \<Rightarrow> btype \<Rightarrow> nat \<Rightarrow> 'a vop" where
  "opic_general opl opi t1 t2 op =
    (if t1 = VT_LLONG \<or> t2 = VT_LLONG \<or> t1 = VT_PTR \<or> t2 = VT_PTR then opl op else opi op)"

definition commutes :: "nat \<Rightarrow> bool" where
  "commutes op \<longleftrightarrow> op = TOK_ADD \<or> op = TOK_AND \<or> op = TOK_XOR \<or> op = TOK_OR \<or> op = TOK_MUL \<or> op = TOK_EQ \<or> op = TOK_NE"

definition opic_simplify ::
  "'a vop \<Rightarrow> 'a vop \<Rightarrow> (nat \<Rightarrow> 'a vop) \<Rightarrow> btype \<Rightarrow> bool \<Rightarrow> bool \<Rightarrow> 64 word \<Rightarrow> 64 word \<Rightarrow> nat \<Rightarrow> 'a vop" where
  "opic_simplify gv cmp_drop general t2 c1 c2 l1 l2 op s =
    (if c1 \<and> ((l1 = 0 \<and> (op = TOK_SHL \<or> op = TOK_SHR \<or> op = TOK_SAR)) \<or> (l1 = - 1 \<and> op = TOK_SAR)) then vpop cmp_drop s
     else if c2 \<and> ((l2 = 0 \<and> (op = TOK_AND \<or> op = TOK_MUL)) \<or>
         (op = TOK_OR \<and> (l2 = - 1 \<or> (l2 = 0xFFFFFFFF \<and> t2 \<noteq> VT_LLONG))) \<or>
         (l2 = 1 \<and> (op = TOK_MOD \<or> op = TOK_UMOD))) then
       bindr (if l2 = 1 then upd_top (\<lambda>v. v\<lparr>sv_c := 0\<rparr>) s else Inr s) (\<lambda>s. bindr (vswap gv s) pop1)
     else if c2 \<and> (((op = TOK_MUL \<or> op = TOK_DIV \<or> op = TOK_UDIV \<or> op = TOK_PDIV) \<and> l2 = 1) \<or>
         ((op = TOK_ADD \<or> op = TOK_SUB \<or> op = TOK_OR \<or> op = TOK_XOR \<or> op = TOK_SHL \<or> op = TOK_SHR \<or> op = TOK_SAR) \<and> l2 = 0) \<or>
         (op = TOK_AND \<and> (l2 = - 1 \<or> (l2 = 0xFFFFFFFF \<and> t2 \<noteq> VT_LLONG)))) then pop1 s
     else if c2 \<and> (op = TOK_MUL \<or> op = TOK_PDIV \<or> op = TOK_UDIV) then
       if l2 > 0 \<and> l2 AND (l2 - 1) = 0 then
         bindr (upd_top (\<lambda>v. v\<lparr>sv_c := of_int (count_shift l2 (- 1))\<rparr>) s)
           (general (if op = TOK_MUL then TOK_SHL else if op = TOK_PDIV then TOK_SAR else TOK_SHR))
       else general op s
     else if c2 \<and> (op = TOK_ADD \<or> op = TOK_SUB) \<and>
         (let r = where_is (vstack s ! 1) in r = VT_CONST OR VT_SYM \<or> r = VT_LOCAL) then
       let k = (if op = TOK_SUB then - l2 else l2) + sv_c (vstack s ! 1)
       in if scast (u32 k) \<noteq> k then general op s
          else bindr (pop1 s) (upd_top (\<lambda>v. v\<lparr>sv_c := k\<rparr>))
     else general op s)"

definition mark_const :: "'a vop" where
  "mark_const = upd_top (\<lambda>v. if sv_r v = VT_CONST then v\<lparr>sv_r := sv_r v OR VT_NONCONST\<rparr> else v)"

definition gen_opic ::
  "'a vop \<Rightarrow> 'a vop \<Rightarrow> (nat \<Rightarrow> 'a vop) \<Rightarrow> (nat \<Rightarrow> 'a vop) \<Rightarrow> nat \<Rightarrow> 'a vop" where
  "gen_opic gv cmp_drop opl opi op s =
    (let v1 = vstack s ! 1; v2 = vstack s ! 0; t1 = sv_bt v1; t2 = sv_bt v2;
         c1 = (where_is v1 = VT_CONST); c2 = (where_is v2 = VT_CONST);
         shm = (if t1 = VT_LLONG then 63 else 31);
         l1 = as_type t1 (sv_unsigned v1) (if c1 then sv_c v1 else 0);
         l2 = as_type t2 (sv_unsigned v2) (if c2 then sv_c v2 else 0);
         general = opic_general opl opi t1 t2;
         rest = (let swap = (c1 \<and> commutes op)
                 in bindr (if swap then vswap gv s else Inr s) (\<lambda>s.
                    bindr (opic_simplify gv cmp_drop general t2 c1 (if swap then c1 else c2) l1 (if swap then l1 else l2) op s)
                      mark_const))
     in if c1 \<and> c2 then
          (case opic_fold op shm l1 l2 of
             Folded l \<Rightarrow> bindr (pop1 s) (upd_top (\<lambda>v. v\<lparr>sv_c := as_type t1 (sv_unsigned v1) l, sv_r := sv_r v OR sv_r v2 AND VT_NONCONST\<rparr>))
           | Div_by_zero \<Rightarrow> if const_wanted s then Inl (TccError ''division by zero in constant'')
               else bindr (general op s) mark_const
           | Not_folded \<Rightarrow> bindr (general op s) mark_const)
        else rest)"

end
