(* ===== verification/OpicFold.thy ===== *)
theory OpicFold
  imports TccOpic HiLo "HOL-Library.Signed_Division"
begin

text \<open>
  What the integer operators of C mean, on integers, and that \<open>opic_fold\<close> computes it for constants of every type.
\<close>

unbundle bit_operations_syntax

section \<open>Values\<close>

definition val :: "bool \<Rightarrow> 64 word \<Rightarrow> int" where
  "val uns x = (if uns then uint x else sint x)"

definition normal :: "btype \<Rightarrow> bool \<Rightarrow> 64 word \<Rightarrow> bool" where
  "normal bt uns x \<longleftrightarrow> as_type bt uns x = x"

definition bit_width :: "btype \<Rightarrow> nat" where
  "bit_width bt = (if wide bt then 64 else 32)"

definition of_val :: "btype \<Rightarrow> bool \<Rightarrow> int \<Rightarrow> 64 word" where
  "of_val bt uns k = as_type bt uns (word_of_int k)"

text \<open>The operators: arithmetic is done on the values and wraps around in the type, division truncates, the amount of a
  shift counts modulo the width, a comparison is 0 or 1.\<close>

definition c_op :: "nat \<Rightarrow> btype \<Rightarrow> bool \<Rightarrow> 64 word \<Rightarrow> 64 word \<Rightarrow> 64 word" where
  "c_op op bt uns x y =
    (let a = val uns x; b = val uns y; n = nat (uint y mod int (bit_width bt))
     in if op = TOK_ADD then of_val bt uns (a + b)
        else if op = TOK_SUB then of_val bt uns (a - b)
        else if op = TOK_MUL then of_val bt uns (a * b)
        else if op = TOK_DIV \<or> op = TOK_UDIV \<or> op = TOK_PDIV then of_val bt uns (a sdiv b)
        else if op = TOK_MOD \<or> op = TOK_UMOD then of_val bt uns (a smod b)
        else if op = TOK_AND then as_type bt uns (x AND y)
        else if op = TOK_OR then as_type bt uns (x OR y)
        else if op = TOK_XOR then as_type bt uns (x XOR y)
        else if op = TOK_SHL then of_val bt uns (a * 2 ^ n)
        else if op = TOK_SHR \<or> op = TOK_SAR then of_val bt uns (a div 2 ^ n)
        else if op = TOK_ULT \<or> op = TOK_LT then of_bool (a < b)
        else if op = TOK_UGE \<or> op = TOK_GE then of_bool (a \<ge> b)
        else if op = TOK_ULE \<or> op = TOK_LE then of_bool (a \<le> b)
        else if op = TOK_UGT \<or> op = TOK_GT then of_bool (a > b)
        else if op = TOK_EQ then of_bool (a = b)
        else of_bool (a \<noteq> b))"

definition signed_ops :: "nat set" where
  "signed_ops = {TOK_DIV, TOK_PDIV, TOK_MOD, TOK_SAR, TOK_LT, TOK_GE, TOK_LE, TOK_GT}"

definition unsigned_ops :: "nat set" where
  "unsigned_ops = {TOK_UDIV, TOK_UMOD, TOK_SHR, TOK_ULT, TOK_UGE, TOK_ULE, TOK_UGT}"

definition plain_ops :: "nat set" where
  "plain_ops = {TOK_ADD, TOK_SUB, TOK_MUL, TOK_AND, TOK_OR, TOK_XOR, TOK_SHL, TOK_EQ, TOK_NE}"

text \<open>The operators that \<open>gen_op\<close> passes on for a type.\<close>

definition op_for :: "bool \<Rightarrow> nat \<Rightarrow> bool" where
  "op_for uns op \<longleftrightarrow> op \<in> plain_ops \<or> (if uns then op \<in> unsigned_ops else op \<in> signed_ops)"

section \<open>Words of a type\<close>

lemma as_type_eq: "as_type bt uns x = (if wide bt then x else if uns then u64 (u32 x) else scast (u32 x))"
proof -
  have "u64 (u32 x) OR - (x AND 0x80000000) = scast (u32 x)"
  proof -
    have m: "x AND 0x80000000 = (if bit x 31 then 2 ^ 31 else 0)"
      by (rule bits_eqI) (simp add: each_bit)
    show ?thesis unfolding m by (cases "bit x 31"; rule bits_eqI; simp add: each_bit)
  qed
  then show ?thesis by (simp add: as_type_def)
qed

lemma u32_as_type [simp]: "u32 (as_type bt uns x) = u32 x"
  by (simp add: as_type_eq u32_scast u32_u64)

lemma as_type_u32: "\<not> wide bt \<Longrightarrow> u32 x = u32 y \<Longrightarrow> as_type bt uns x = as_type bt uns y"
  by (simp add: as_type_eq)

lemma of_val_u32: "\<not> wide bt \<Longrightarrow> as_type bt uns x = of_val bt uns k \<longleftrightarrow> u32 x = word_of_int k"
  unfolding of_val_def by (metis u32_as_type u32_of_int as_type_u32)

lemma normal_eq:
  "normal bt uns x \<longleftrightarrow> wide bt \<or> x = (if uns then u64 (u32 x) else scast (u32 x))"
  unfolding normal_def as_type_eq by (auto simp del: u32_as_type)

lemma normal_as_type [simp]: "normal bt uns (as_type bt uns x)"
  unfolding normal_eq by (simp add: as_type_eq u32_scast u32_u64)

section \<open>The single operators\<close>

lemma sign_bit: "drop_bit 63 x \<noteq> 0 \<longleftrightarrow> sint x < 0" for x :: "64 word"
proof -
  have "drop_bit 63 x = (if bit x 63 then 1 else 0)" by (rule bits_eqI) (simp add: each_bit bit_beyond)
  then show ?thesis using bit_last_iff [of x] by simp
qed

lemma sign_xor: "sint (x XOR y) < 0 \<longleftrightarrow> (sint x < 0) \<noteq> (sint y < 0)" for x y :: "64 word"
  using bit_last_iff [of x] bit_last_iff [of y] bit_last_iff [of "x XOR y"] by (simp add: bit_simps)

lemma sint_split: "sint x = uint x - (if sint x < 0 then 2 ^ LENGTH('a) else 0)" for x :: "'a::len word"
proof -
  have "take_bit LENGTH('a) (uint x) = uint x" using uint_bounded [of x] by (intro take_bit_int_eq_self) simp_all
  then have "sint x = uint x - 2 ^ LENGTH('a) * of_bool (bit (uint x) (LENGTH('a) - Suc 0))"
    by (simp add: sint_uint signed_take_bit_eq_take_bit_minus)
  then have "sint x = uint x - 2 ^ LENGTH('a) * of_bool (sint x < 0)" using bit_last_iff [of x] by (simp add: bit_uint_iff)
  then show ?thesis by (cases "sint x < 0") (simp_all only: of_bool_eq if_True if_False mult_1_right mult_zero_right)
qed

lemma abs_word: "uint (if sint x < 0 then - x else x) = \<bar>sint x\<bar>" for x :: "64 word"
proof -
  have r: "- (2 ^ 63) \<le> sint x" "sint x < 2 ^ 63" using sint_range_size [of x] by (simp_all add: word_size)
  have "- x = word_of_int (- sint x)" by simp
  then have "uint (- x) = (- sint x) mod 2 ^ 64" by (simp only: uint_word_of_int) simp
  moreover have "(- sint x) mod 2 ^ 64 = - sint x" if "sint x < 0" using r that by (intro mod_pos_pos_trivial) simp_all
  moreover have "uint x = sint x" if "\<not> sint x < 0" using sint_split [of x] that by simp
  ultimately show ?thesis by auto
qed

lemma sdiv_eq: "gen_opic_sdiv x y = word_of_int (sint x sdiv sint y)"
proof -
  define q where "q = \<bar>sint x\<bar> div \<bar>sint y\<bar>"
  have "uint ((if sint x < 0 then - x else x) div (if sint y < 0 then - y else y)) = q"
    by (simp only: uint_div abs_word q_def)
  then have q: "(if sint x < 0 then - x else x) div (if sint y < 0 then - y else y) = word_of_int q"
    by (metis word_of_int_uint)
  have "gen_opic_sdiv x y = (if (sint x < 0) \<noteq> (sint y < 0) then - word_of_int q else word_of_int q)"
    unfolding gen_opic_sdiv_def Let_def sign_bit sign_xor q by (rule refl)
  moreover have "sint x sdiv sint y = (if (sint x < 0) \<noteq> (sint y < 0) then - q else q)"
    by (auto simp: signed_divide_int_def q_def sgn_if)
  ultimately show ?thesis by simp
qed

lemma flip_sign: "uint (x XOR push_bit 63 1) = sint x + 2 ^ 63" for x :: "64 word"
proof -
  have f: "z XOR 2 ^ 63 = z + 2 ^ 63" if "\<not> bit z 63" for z :: "64 word"
  proof -
    have "z + 2 ^ 63 = z OR 2 ^ 63" using that by (intro disjunctive_add) (metis bit_exp_iff)
    also have "\<dots> = z XOR 2 ^ 63" using that by (intro bits_eqI) (simp add: each_bit)
    finally show ?thesis by simp
  qed
  have "x XOR 2 ^ 63 = x + 2 ^ 63"
  proof (cases "bit x 63")
    case True
    define z where "z = x XOR 2 ^ 63"
    have x: "x = z XOR 2 ^ 63" by (rule bits_eqI) (simp add: z_def each_bit)
    have n: "\<not> bit z 63" using True by (simp add: z_def bit_simps)
    have "(2 :: 64 word) ^ 63 + 2 ^ 63 = 0" by simp
    then have "x + 2 ^ 63 = z" unfolding x f [OF n] by (simp only: add.assoc add_0_right)
    then show ?thesis by (simp only: z_def)
  qed (rule f)
  also have "\<dots> = word_of_int (sint x + 2 ^ 63)" by simp
  finally have "uint (x XOR 2 ^ 63) = (sint x + 2 ^ 63) mod 2 ^ 64" by (simp only: uint_word_of_int) simp
  also have "\<dots> = sint x + 2 ^ 63"
    using sint_range_size [of x] by (intro mod_pos_pos_trivial) (simp_all add: word_size)
  finally show ?thesis by simp
qed

lemma lt_eq: "gen_opic_lt x y \<longleftrightarrow> sint x < sint y"
  unfolding gen_opic_lt_def word_less_def flip_sign by simp

lemma sar_eq: "n < 64 \<Longrightarrow> (if drop_bit 63 x \<noteq> 0 then NOT (drop_bit n (NOT x)) else drop_bit n x) = signed_drop_bit n x"
  for x :: "64 word"
  unfolding sign_bit using bit_last_iff [of x]
  by (intro bit_word_eqI) (auto simp: bit_simps min_def dest: bit_imp_le_length)

section \<open>Folding is the operator\<close>

lemma normal_narrow:
  assumes "normal bt uns x" "\<not> wide bt"
  shows "x = (if uns then u64 (u32 x) else scast (u32 x))"
  using assms by (simp add: normal_eq)

lemma val_word: "word_of_int (val uns x) = x"
  by (simp add: val_def)

lemma shift_amount:
  "unat (y AND 63) = nat (uint y mod 64)" "unat (y AND 31) = nat (uint y mod 32)" for y :: "64 word"
proof -
  have "uint (take_bit n y) = uint y mod 2 ^ n" for n
    by (simp only: unsigned_take_bit_eq take_bit_int_def)
  from this [of 6] this [of 5] show "unat (y AND 63) = nat (uint y mod 64)" "unat (y AND 31) = nat (uint y mod 32)"
    by (simp_all add: masks unat_eq_nat_uint)
qed

lemma shifted: "of_val bt uns (val uns x * 2 ^ n) = as_type bt uns (push_bit n x)"
  unfolding of_val_def by (simp only: of_int_mult val_word of_int_power of_int_numeral push_bit_eq_mult)

lemma div_shifted:
  "word_of_int (uint x div 2 ^ n) = drop_bit n x" "n < 64 \<Longrightarrow> word_of_int (sint x div 2 ^ n) = signed_drop_bit n x" for x :: "64 word"
proof -
  have "take_bit 64 (uint x) = uint x" using uint_bounded [of x] by (intro take_bit_int_eq_self) simp_all
  then have "uint (drop_bit n x) = uint x div 2 ^ n" by (simp only: unsigned_drop_bit_eq) (simp add: drop_bit_eq_div)
  then show "word_of_int (uint x div 2 ^ n) = drop_bit n x" by (metis word_of_int_uint)
  have "sint (signed_drop_bit n x) = sint x div 2 ^ n" by (simp add: sint_signed_drop_bit_eq drop_bit_eq_div)
  then show "word_of_int (sint x div 2 ^ n) = signed_drop_bit n x" by (metis of_int_sint scast_id)
qed

lemma nonneg_sdiv: "0 \<le> a \<Longrightarrow> 0 \<le> b \<Longrightarrow> a sdiv b = a div b \<and> a smod b = a mod b" for a b :: int
  by (auto simp: signed_divide_int_def signed_modulo_int_def sgn_if)

lemma uint_ops: "word_of_int (uint x sdiv uint y) = x div y" "word_of_int (uint x smod uint y) = x mod y" for x y :: "64 word"
proof -
  have "uint x sdiv uint y = uint (x div y)" "uint x smod uint y = uint (x mod y)"
    using nonneg_sdiv [OF uint_ge_0 uint_ge_0, of x y] by (simp_all add: uint_div uint_mod)
  then show "word_of_int (uint x sdiv uint y) = x div y" "word_of_int (uint x smod uint y) = x mod y" by simp_all
qed

lemma smod_eq: "x - y * gen_opic_sdiv x y = word_of_int (sint x smod sint y)"
proof -
  have "x - y * gen_opic_sdiv x y = word_of_int (sint x - sint y * (sint x sdiv sint y))"
    by (simp add: sdiv_eq)
  then show ?thesis by (simp only: minus_mult_sdiv_eq_smod)
qed

lemma bool_as_type: "as_type bt uns (of_bool b) = of_bool b"
  by (cases b) (simp_all add: as_type_eq)

lemma amount_less: "unat (y AND (if b then 63 else 31)) < 64" for y :: "64 word"
  by (simp add: shift_amount nat_less_iff) (smt (verit) pos_mod_bound)

lemma fold_plain:
  assumes "op \<in> plain_ops" "op = TOK_SHL \<longrightarrow> bt \<noteq> VT_PTR"
  shows "\<exists>l. opic_fold op (if bt = VT_LLONG then 63 else 31) x y = Folded l \<and> as_type bt uns l = c_op op bt uns x y"
proof -
  have n: "unat (y AND of_nat (if bt = VT_LLONG then 63 else 31)) = nat (uint y mod int (bit_width bt))" if "bt \<noteq> VT_PTR"
    using that by (simp add: shift_amount bit_width_def wide_def)
  have o: "of_val bt uns (val uns x + val uns y) = as_type bt uns (x + y)" "of_val bt uns (val uns x - val uns y) = as_type bt uns (x - y)"
    "of_val bt uns (val uns x * val uns y) = as_type bt uns (x * y)"
    by (simp_all only: of_val_def of_int_add of_int_diff of_int_mult val_word)
  have e: "val uns x = val uns y \<longleftrightarrow> x = y" by (metis val_word)
  show ?thesis
    using assms n unfolding plain_ops_def
    by (elim insertE emptyE) (simp_all add: opic_fold_def c_op_def Let_def o e shifted bool_as_type del: of_nat_numeral)
qed

lemma fold_unsigned:
  assumes "op \<in> unsigned_ops" "op = TOK_SHR \<longrightarrow> bt \<noteq> VT_PTR" "op = TOK_UDIV \<or> op = TOK_UMOD \<longrightarrow> y \<noteq> 0"
  shows "\<exists>l. opic_fold op (if bt = VT_LLONG then 63 else 31) x y = Folded l \<and> as_type bt True l = c_op op bt True x y"
proof -
  have n: "unat (y AND of_nat (if bt = VT_LLONG then 63 else 31)) = nat (uint y mod int (bit_width bt))" if "bt \<noteq> VT_PTR"
    using that by (simp add: shift_amount bit_width_def wide_def)
  show ?thesis
    using assms n unfolding unsigned_ops_def
    by (elim insertE emptyE)
      (simp_all add: opic_fold_def c_op_def Let_def val_def of_val_def uint_ops div_shifted bool_as_type word_less_def word_le_def del: of_nat_numeral)
qed

lemma fold_signed:
  assumes "op \<in> signed_ops" "op = TOK_SAR \<longrightarrow> bt \<noteq> VT_PTR" "op = TOK_DIV \<or> op = TOK_PDIV \<or> op = TOK_MOD \<longrightarrow> y \<noteq> 0"
  shows "\<exists>l. opic_fold op (if bt = VT_LLONG then 63 else 31) x y = Folded l \<and> as_type bt False l = c_op op bt False x y"
proof -
  have n: "unat (y AND of_nat (if bt = VT_LLONG then 63 else 31)) = nat (uint y mod int (bit_width bt))" if "bt \<noteq> VT_PTR"
    using that by (simp add: shift_amount bit_width_def wide_def)
  have "unat (y AND of_nat (if bt = VT_LLONG then 63 else 31)) < 64" using amount_less [of y "bt = VT_LLONG"] by (simp split: if_split_asm)
  note s = sar_eq [OF this] div_shifted(2) [OF this]
  have c: "val False x = sint x" for x by (simp add: val_def)
  show ?thesis
    using assms(1)
  proof (cases "op = TOK_SAR")
    case True
    then show ?thesis using assms(2) s [of x] n
      by (cases "drop_bit 63 x = 0") (simp_all add: opic_fold_def c_op_def Let_def c of_val_def del: of_nat_numeral)
  next
    case False
    then show ?thesis
      using assms(1,3) unfolding signed_ops_def
      by (elim insertE emptyE)
        (simp_all add: opic_fold_def c_op_def Let_def c of_val_def sdiv_eq smod_eq [unfolded sdiv_eq] lt_eq bool_as_type not_less)
  qed
qed

text \<open>Division by zero is not folded.\<close>

definition div_ops :: "nat set" where
  "div_ops = {TOK_DIV, TOK_PDIV, TOK_MOD, TOK_UDIV, TOK_UMOD}"

definition shift_ops :: "nat set" where
  "shift_ops = {TOK_SHL, TOK_SHR, TOK_SAR}"

lemma fold_is_c_op:
  assumes "op_for uns op" "op \<in> shift_ops \<longrightarrow> bt \<noteq> VT_PTR" "op \<in> div_ops \<longrightarrow> y \<noteq> 0"
  shows "\<exists>l. opic_fold op (if bt = VT_LLONG then 63 else 31) x y = Folded l \<and> as_type bt uns l = c_op op bt uns x y"
proof (cases "op \<in> plain_ops")
  case True
  then show ?thesis using assms(2) by (intro fold_plain) (auto simp: shift_ops_def)
next
  case False
  then show ?thesis using assms fold_unsigned [of op bt y x] fold_signed [of op bt y x]
    by (cases uns) (auto simp: op_for_def shift_ops_def div_ops_def)
qed

lemma fold_div_zero: "op \<in> div_ops \<Longrightarrow> opic_fold op shm x 0 = Div_by_zero"
  by (auto simp: div_ops_def opic_fold_def)

end
