(* ===== verification/GenOps.thy ===== *)
theory GenOps
  imports GenConst OpicFold
begin

text \<open>
  The operators of \<open>gen_opil\<close> executed: the register that the generated instructions write holds the value of the C
  operator. A register holds a value of 32 bits with its sign extended, also when the type is unsigned.
\<close>

unbundle bit_operations_syntax

section \<open>Values in registers\<close>

definition in_reg :: "btype \<Rightarrow> 64 word \<Rightarrow> 64 word" where
  "in_reg bt x = (if wide bt then x else scast (u32 x))"

definition wval :: "bool \<Rightarrow> 'a::len word \<Rightarrow> int" where
  "wval uns x = (if uns then uint x else sint x)"

lemma wval_word: "word_of_int (wval uns x) = x"
  by (simp add: wval_def)

lemma extend32: "sint (scast x :: 64 word) = sint x" "uint (u64 x) = uint x" for x :: "32 word"
  by (rule sint_up_scast, simp add: is_up) (rule uint_up_ucast, simp add: is_up)

lemma val_narrow: "normal bt uns x \<Longrightarrow> \<not> wide bt \<Longrightarrow> val uns x = wval uns (u32 x)"
  using normal_narrow [of bt uns x] extend32 [of "u32 x"] by (auto simp: val_def wval_def)

section \<open>The operators as instructions\<close>

definition alu_of :: "nat \<Rightarrow> alu" where
  "alu_of op =
    (if op = TOK_ADD then Add else if op = TOK_SUB then Sub else if op = TOK_SAR then Sra else if op = TOK_SHR then Srl
     else if op = TOK_SHL then Sll else if op = TOK_MUL then Mul else if op = TOK_DIV then Div else if op = TOK_AND then And
     else if op = TOK_XOR then Xor else if op = TOK_OR then Or else if op = TOK_MOD then Rem else if op = TOK_UMOD then Remu else Divu)"

definition value_ops :: "nat set" where
  "value_ops = {TOK_ADD, TOK_SUB, TOK_MUL, TOK_SHL, TOK_SHR, TOK_SAR, TOK_DIV, TOK_MOD, TOK_UDIV, TOK_UMOD, TOK_AND, TOK_OR, TOK_XOR}"

definition bit_ops :: "nat set" where
  "bit_ops = {TOK_AND, TOK_OR, TOK_XOR}"

text \<open>An operator on words of any length is the integer operator on their values.\<close>

lemma alu_value:
  fixes x y :: "'a::len word"
  defines "n \<equiv> unat y mod LENGTH('a)"
  shows "word_of_int (wval uns x + wval uns y) = alu_sem Add x y" "word_of_int (wval uns x - wval uns y) = alu_sem Sub x y"
    "word_of_int (wval uns x * wval uns y) = alu_sem Mul x y" "word_of_int (wval uns x * 2 ^ n) = alu_sem Sll x y"
    "word_of_int (wval True x div 2 ^ n) = alu_sem Srl x y" "word_of_int (wval False x div 2 ^ n) = alu_sem Sra x y"
    "y \<noteq> 0 \<Longrightarrow> word_of_int (wval False x sdiv wval False y) = alu_sem Div x y"
    "y \<noteq> 0 \<Longrightarrow> word_of_int (wval False x smod wval False y) = alu_sem Rem x y"
    "y \<noteq> 0 \<Longrightarrow> word_of_int (wval True x sdiv wval True y) = alu_sem Divu x y"
    "y \<noteq> 0 \<Longrightarrow> word_of_int (wval True x smod wval True y) = alu_sem Remu x y"
proof -
  show "word_of_int (wval uns x + wval uns y) = alu_sem Add x y" "word_of_int (wval uns x - wval uns y) = alu_sem Sub x y"
    "word_of_int (wval uns x * wval uns y) = alu_sem Mul x y"
    by (simp_all only: of_int_add of_int_diff of_int_mult wval_word alu_sem.simps)
  show "word_of_int (wval uns x * 2 ^ n) = alu_sem Sll x y"
    by (simp only: of_int_mult of_int_power of_int_numeral wval_word alu_sem.simps n_def push_bit_eq_mult)
  have n: "n < LENGTH('a)" by (simp add: n_def)
  have "take_bit LENGTH('a) (uint x) = uint x" using uint_bounded [of x] by (intro take_bit_int_eq_self) simp_all
  then have "uint (drop_bit n x) = uint x div 2 ^ n" by (simp only: unsigned_drop_bit_eq) (simp add: drop_bit_eq_div)
  then show "word_of_int (wval True x div 2 ^ n) = alu_sem Srl x y" by (simp add: wval_def n_def [symmetric]) (metis word_of_int_uint)
  have "sint (signed_drop_bit n x) = sint x div 2 ^ n" by (simp add: sint_signed_drop_bit_eq drop_bit_eq_div)
  then show "word_of_int (wval False x div 2 ^ n) = alu_sem Sra x y" by (simp add: wval_def n_def [symmetric]) (metis of_int_sint scast_id)
  assume y: "y \<noteq> 0"
  show "word_of_int (wval False x sdiv wval False y) = alu_sem Div x y" "word_of_int (wval False x smod wval False y) = alu_sem Rem x y"
    using y by (simp_all add: wval_def)
  have "uint x sdiv uint y = uint (x div y)" "uint x smod uint y = uint (x mod y)"
    using nonneg_sdiv [OF uint_ge_0 uint_ge_0, of x y] by (simp_all add: uint_div uint_mod)
  then show "word_of_int (wval True x sdiv wval True y) = alu_sem Divu x y" "word_of_int (wval True x smod wval True y) = alu_sem Remu x y"
    using y by (simp_all add: wval_def)
qed

lemma scast_bits: "scast x AND scast y = (scast (x AND y) :: 64 word)" "scast x OR scast y = (scast (x OR y) :: 64 word)"
  "scast x XOR scast y = (scast (x XOR y) :: 64 word)" for x y :: "32 word"
  by (rule bit_word_eqI, auto simp: bit_simps)+

lemma u32_bits: "u32 (x AND y) = u32 x AND u32 y" "u32 (x OR y) = u32 x OR u32 y" "u32 (x XOR y) = u32 x XOR u32 y" for x y :: "64 word"
  by (rule bit_word_eqI, auto simp: bit_simps)+

lemma amount32: "unat (u32 y) mod 32 = nat (uint y mod 32)" and amount64: "unat y mod 64 = nat (uint y mod 64)" for y :: "64 word"
proof -
  have "unat (u32 y) = nat (uint y mod 2 ^ 32)" by (simp add: unat_eq_nat_uint unsigned_ucast_eq take_bit_eq_mod)
  then have "int (unat (u32 y) mod 32) = uint y mod 2 ^ 32 mod 32" by (simp add: zmod_int)
  also have "\<dots> = uint y mod 32" by (simp add: mod_mod_cancel)
  finally show "unat (u32 y) mod 32 = nat (uint y mod 32)" by simp
  have "int (unat y mod 64) = uint y mod 64" by (simp add: zmod_int)
  then show "unat y mod 64 = nat (uint y mod 64)" by simp
qed

lemma u32_in_reg [simp]: "u32 (in_reg bt x) = u32 x"
  by (simp add: in_reg_def u32_scast)

lemma in_reg_of_val: "\<not> wide bt \<Longrightarrow> in_reg bt (of_val bt uns k) = scast (word_of_int k :: 32 word)"
  by (simp add: in_reg_def of_val_def u32_of_int)

lemma wide_val: "wide bt \<Longrightarrow> of_val bt uns k = word_of_int k" "wide bt \<Longrightarrow> as_type bt uns x = x" "wide bt \<Longrightarrow> in_reg bt x = x"
  by (simp_all add: of_val_def as_type_eq in_reg_def)

lemma shift_reg: "unat (in_reg VT_INT y) mod 64 = unat y mod 64"
proof -
  have "in_reg VT_INT y AND 63 = y AND 63" by (rule bits_eqI) (simp add: in_reg_def wide_def each_bit)
  then show ?thesis using shift_amount(1) [of "in_reg VT_INT y"] shift_amount(1) [of y] by (simp add: amount64)
qed

lemma alu_wide:
  assumes "op \<in> value_ops" "op_for uns op" "op \<in> shift_ops \<longrightarrow> bt \<noteq> VT_PTR" "op \<in> div_ops \<longrightarrow> y \<noteq> 0" "wide bt"
  shows "alu_sem (alu_of op) x (in_reg (if op \<in> shift_ops then VT_INT else bt) y) = c_op op bt uns x y"
proof -
  note w = wide_val [OF assms(5)]
  have v: "val uns z = wval uns z" for z uns by (simp add: val_def wval_def)
  have n: "nat (uint y mod int (bit_width bt)) = unat y mod LENGTH(64)" using assms(5) by (simp add: bit_width_def amount64)
  note a = alu_value(1-4) [of uns x y] alu_value(5-10) [where x = x and y = y]
  show ?thesis
    using assms(1-4) a unfolding value_ops_def
    by (elim insertE emptyE)
      (simp_all add: alu_of_def c_op_def shift_ops_def div_ops_def op_for_def plain_ops_def signed_ops_def unsigned_ops_def Let_def w v n shift_reg split: if_split_asm)
qed

lemma alu_narrow:
  assumes "op \<in> value_ops" "op \<notin> bit_ops" "op_for uns op" "op \<in> div_ops \<longrightarrow> y \<noteq> 0" "\<not> wide bt" "normal bt uns x"
    "op \<notin> shift_ops \<longrightarrow> normal bt uns y"
  shows "scast (alu_sem (alu_of op) (u32 x) (u32 y)) = in_reg bt (c_op op bt uns x y)"
proof -
  have v: "val uns x = wval uns (u32 x)" "op \<notin> shift_ops \<Longrightarrow> val uns y = wval uns (u32 y)"
    using val_narrow [OF assms(6,5)] val_narrow [OF _ assms(5)] assms(7) by auto
  have n: "nat (uint y mod int (bit_width bt)) = unat (u32 y) mod LENGTH(32)" using assms(5) by (simp add: bit_width_def amount32)
  have z: "u32 y \<noteq> 0" if "op \<in> div_ops"
  proof -
    have "op \<notin> shift_ops" using that by (auto simp: div_ops_def shift_ops_def)
    then have "y = (if uns then u64 (u32 y) else scast (u32 y))" using assms(5,7) normal_narrow by blast
    then show ?thesis using assms(4) that by (metis signed_0 unsigned_0)
  qed
  note a = alu_value(1-4) [of uns "u32 x" "u32 y"] alu_value(5-10) [where x = "u32 x" and y = "u32 y"]
  show ?thesis
    using assms(1-3) a v z unfolding value_ops_def
    by (elim insertE emptyE)
      (simp_all add: alu_of_def c_op_def bit_ops_def shift_ops_def div_ops_def op_for_def plain_ops_def signed_ops_def unsigned_ops_def Let_def
        in_reg_of_val [OF assms(5)] n split: if_split_asm)
qed

lemma alu_bits:
  assumes "op \<in> bit_ops"
  shows "alu_sem (alu_of op) (in_reg bt x) (in_reg bt y) = in_reg bt (c_op op bt uns x y)"
  using assms unfolding bit_ops_def
  by (elim insertE emptyE)
    (auto simp: alu_of_def c_op_def in_reg_def Let_def wide_val scast_bits u32_bits)

text \<open>The instruction of an operator, and that it computes the operator on registers.\<close>

definition op_insn :: "nat \<Rightarrow> btype \<Rightarrow> 5 word \<Rightarrow> 5 word \<Rightarrow> 5 word \<Rightarrow> insn" where
  "op_insn op bt d a b = Op (alu_of op) (\<not> wide bt \<and> op \<notin> bit_ops) d a b"

lemma op_insn_value:
  assumes "op \<in> value_ops" "op_for uns op" "op \<in> shift_ops \<longrightarrow> bt \<noteq> VT_PTR" "op \<in> div_ops \<longrightarrow> y \<noteq> 0" "normal bt uns x"
    "op \<notin> shift_ops \<longrightarrow> normal bt uns y"
  shows "alu_exec (alu_of op) (\<not> wide bt \<and> op \<notin> bit_ops) (in_reg bt x) (in_reg (if op \<in> shift_ops then VT_INT else bt) y) =
    in_reg bt (c_op op bt uns x y)"
proof (cases "wide bt")
  case True
  then show ?thesis using alu_wide [OF assms(1-4)] by (simp add: alu_exec_def wide_val)
next
  case False
  show ?thesis
  proof (cases "op \<in> bit_ops")
    case True
    then have "op \<notin> shift_ops" by (auto simp: bit_ops_def shift_ops_def)
    then show ?thesis using alu_bits [OF True] True by (simp add: alu_exec_def)
  next
    case nb: False
    then show ?thesis using alu_narrow [OF assms(1) nb assms(2,4) False assms(5,6)] False by (simp add: alu_exec_def)
  qed
qed

definition op_fields :: "nat \<Rightarrow> 3 word \<times> 7 word" where
  "op_fields op =
    (if op = TOK_ADD then (0, 0) else if op = TOK_SUB then (0, 0x20) else if op = TOK_SAR then (5, 0x20) else if op = TOK_SHR then (5, 0)
     else if op = TOK_SHL then (1, 0) else if op = TOK_MUL then (0, 1) else if op = TOK_DIV then (4, 1) else if op = TOK_AND then (7, 0)
     else if op = TOK_XOR then (4, 0) else if op = TOK_OR then (6, 0) else if op = TOK_MOD then (6, 1) else if op = TOK_UMOD then (7, 1) else (5, 1))"

lemma opil_regs_eq:
  assumes "op \<in> value_ops"
  shows "opil_regs op long d a b s =
    bindr (ER (if \<not> long \<and> op \<notin> bit_ops then 0x3b else 0x33) (u32 (fst (op_fields op))) d a b (u32 (snd (op_fields op))) s) (\<lambda>s. Inr (In_reg d, s))"
  using assms unfolding value_ops_def
  by (elim insertE emptyE) (simp_all add: opil_regs_def op_fields_def bit_ops_def Let_def)

lemma op_fields_decode:
  "op \<in> value_ops \<Longrightarrow> decode_op (snd (op_fields op)) (fst (op_fields op)) = Some (alu_of op) \<and> (op \<notin> bit_ops \<longrightarrow> has_word_form (alu_of op))"
  unfolding value_ops_def
  by (elim insertE emptyE) (simp_all add: op_fields_def alu_of_def decode_op_def bit_ops_def has_word_form_def)

lemma opil_regs_emits:
  assumes "op \<in> value_ops" "d < 32" "a < 32" "b < 32"
  shows "\<exists>c. emits c (op_insn op bt (ucast d) (ucast a) (ucast b)) \<and>
    opil_regs op (wide bt) d a b = (\<lambda>s :: 'a cg_scheme. bindr (c s) (\<lambda>s. Inr (In_reg d, s)))"
proof (intro exI conjI ext)
  show "opil_regs op (wide bt) d a b s =
    bindr (ER (if \<not> wide bt \<and> op \<notin> bit_ops then 0x3b else 0x33) (u32 (fst (op_fields op))) d a b (u32 (snd (op_fields op))) s) (\<lambda>s. Inr (In_reg d, s))"
    for s :: "'a cg_scheme" by (rule opil_regs_eq [OF assms(1)])
  show "emits (ER (if \<not> wide bt \<and> op \<notin> bit_ops then 0x3b else 0x33) (u32 (fst (op_fields op))) d a b (u32 (snd (op_fields op))) :: 'a code)
    (op_insn op bt (ucast d) (ucast a) (ucast b))"
    by (simp add: op_insn_def emits_ER [OF assms(2-4) _ refl refl] op_fields_decode [OF assms(1)])
qed

section \<open>Comparisons\<close>

definition cmp_ops :: "nat set" where
  "cmp_ops = {TOK_ULT, TOK_UGE, TOK_ULE, TOK_UGT, TOK_LT, TOK_GE, TOK_LE, TOK_GT, TOK_EQ, TOK_NE}"

lemma opil_regs_cmp: "op \<in> cmp_ops \<Longrightarrow> opil_regs op long d a b s = Inr (Cmp op a b, s)"
  unfolding cmp_ops_def by (elim insertE emptyE) (simp_all add: opil_regs_def is_cond_def Let_def)

text \<open>What a comparison of two registers is, and the instructions that leave it in a register.\<close>

definition cmp_sem :: "nat \<Rightarrow> 64 word \<Rightarrow> 64 word \<Rightarrow> bool" where
  "cmp_sem op x y =
    (if op = TOK_ULT then x < y else if op = TOK_UGE then x \<ge> y else if op = TOK_ULE then x \<le> y else if op = TOK_UGT then x > y
     else if op = TOK_LT then x <s y else if op = TOK_GE then y \<le>s x else if op = TOK_LE then x \<le>s y else if op = TOK_GT then y <s x
     else if op = TOK_EQ then x = y else x \<noteq> y)"

lemma reg_less: "(scast x :: 64 word) < scast y \<longleftrightarrow> x < y" "(scast x :: 64 word) \<le> scast y \<longleftrightarrow> x \<le> y"
  "(scast x :: 64 word) = scast y \<longleftrightarrow> x = y" for x y :: "32 word"
proof -
  have u: "uint (scast z :: 64 word) = uint z + (if sint z < 0 then 2 ^ 64 - 2 ^ 32 else 0)" for z :: "32 word"
    using sint_split [of "scast z :: 64 word"] sint_split [of z] by (cases "sint z < 0") (simp_all add: extend32)
  have b: "sint z < 0 \<longleftrightarrow> 2 ^ 31 \<le> uint z" for z :: "32 word"
    using sint_split [of z] sint_range_size [of z] by (simp add: word_size split: if_split_asm)
  show "(scast x :: 64 word) < scast y \<longleftrightarrow> x < y" "(scast x :: 64 word) \<le> scast y \<longleftrightarrow> x \<le> y"
    unfolding word_less_def word_le_def u b using uint_bounded [of x] uint_bounded [of y] by auto
  show "(scast x :: 64 word) = scast y \<longleftrightarrow> x = y" by (metis u32_scast)
qed

lemma sless_sint: "x <s y \<longleftrightarrow> sint x < sint y" "x \<le>s y \<longleftrightarrow> sint x \<le> sint y" for x y :: "'a::len word"
  by (simp_all add: word_sless_alt word_sle_eq)

lemma cmp_is_c_op:
  assumes "op \<in> cmp_ops" "op_for uns op" "normal bt uns x" "normal bt uns y"
  shows "c_op op bt uns x y = of_bool (cmp_sem op (in_reg bt x) (in_reg bt y))"
proof -
  have e: "val uns x = val uns y \<longleftrightarrow> x = y" by (metis val_word)
  consider "wide bt" | "\<not> wide bt" "\<not> uns" | "\<not> wide bt" "uns" by blast
  then show ?thesis
  proof cases
    case 1
    then show ?thesis
      using assms(1,2) e unfolding cmp_ops_def
      by (elim insertE emptyE) (simp_all add: c_op_def cmp_sem_def Let_def wide_val op_for_def plain_ops_def signed_ops_def unsigned_ops_def val_def sless_sint
          word_less_def word_le_def split: if_split_asm)
  next
    case 2
    then have "in_reg bt x = x" "in_reg bt y = y" using normal_narrow [OF assms(3)] normal_narrow [OF assms(4)] by (simp_all add: in_reg_def)
    then show ?thesis
      using assms(1,2) 2 e unfolding cmp_ops_def
      by (elim insertE emptyE) (simp_all add: c_op_def cmp_sem_def Let_def op_for_def plain_ops_def signed_ops_def unsigned_ops_def val_def sless_sint)
  next
    case 3
    then have v: "val True x = uint (u32 x)" "val True y = uint (u32 y)" using val_narrow [OF assms(3)] val_narrow [OF assms(4)] by (simp_all add: wval_def)
    show ?thesis
      using assms(1,2) 3 unfolding cmp_ops_def
      by (elim insertE emptyE) (simp_all add: c_op_def cmp_sem_def Let_def in_reg_def v reg_less op_for_def plain_ops_def signed_ops_def unsigned_ops_def
          word_less_def [symmetric] word_le_def [symmetric] word_uint_eq_iff [symmetric])
  qed
qed

text \<open>The instructions of \<open>load\<close> for a comparison: the order that is tested, and whether it is inverted.\<close>

definition cmp_order :: "nat \<Rightarrow> 'r \<Rightarrow> 'r \<Rightarrow> bool \<times> 'r \<times> 'r \<times> bool" where
  "cmp_order op a b =
    (if op = TOK_ULT then (False, a, b, False) else if op = TOK_UGE then (False, a, b, True)
     else if op = TOK_ULE then (False, b, a, True) else if op = TOK_UGT then (False, b, a, False)
     else if op = TOK_LT then (True, a, b, False) else if op = TOK_GE then (True, a, b, True)
     else if op = TOK_LE then (True, b, a, True) else (True, b, a, False))"

definition cmp_code :: "nat \<Rightarrow> 32 word \<Rightarrow> 32 word \<Rightarrow> 32 word \<Rightarrow> 'a code list" where
  "cmp_code op d a b =
    (if op = TOK_EQ \<or> op = TOK_NE then
       (if d \<noteq> a \<or> b \<noteq> 0 then [ER 0x33 0 d a b 0x20] else []) @ [if op = TOK_NE then ER 0x33 3 d 0 d 0 else EI 0x13 3 d d 1]
     else case cmp_order op a b of (sg, x, y, neg) \<Rightarrow>
       [ER 0x33 (if sg then 2 else 3) d x y 0] @ (if neg then [EI 0x13 4 d d 1] else []))"

definition cmp_insns :: "nat \<Rightarrow> bool \<Rightarrow> 5 word \<Rightarrow> 5 word \<Rightarrow> 5 word \<Rightarrow> insn list" where
  "cmp_insns op sub d a b =
    (if op = TOK_EQ \<or> op = TOK_NE then
       (if sub then [Op Sub False d a b] else []) @ [if op = TOK_NE then Op Sltu False d 0 d else OpImm Sltu False d d 1]
     else case cmp_order op a b of (sg, x, y, neg) \<Rightarrow>
       [Op (if sg then Slt else Sltu) False d x y] @ (if neg then [OpImm Xor False d d 1] else []))"

lemma run_short: "run [] = Inr" "run [c] = c"
proof -
  show n: "run [] = Inr" by (rule ext) simp
  show "run [c] = c" by (rule ext) (simp add: n)
qed

lemma load_cmp_run: "op \<in> cmp_ops \<Longrightarrow> load_cmp op d a b s = run (cmp_code op d a b) s"
  unfolding cmp_ops_def
  by (elim insertE emptyE) (simp_all add: load_cmp_def cmp_code_def cmp_order_def run_short)

lemma cmp_emits:
  assumes "op \<in> cmp_ops" "d < 32" "a < 32" "b < 32"
  shows "list_all2 emits (cmp_code op d a b) (cmp_insns op (d \<noteq> a \<or> b \<noteq> 0) (ucast d) (ucast a) (ucast b))"
proof -
  have o: "imm_ok 1" by (rule imm_ok_less) simp
  have e: "decode_op 0 2 = Some Slt" "decode_op 0 3 = Some Sltu" "decode_op 0x20 0 = Some Sub" by (simp_all add: decode_op_def)
  note r = emits_ER(1) [OF _ _ _ e(1), simplified] emits_ER(1) [OF _ _ _ e(2), simplified] emits_ER(1) [OF _ _ _ e(3), simplified]
    emits_ER(1) [where ?r1.0 = 0, OF _ _ _ e(2), simplified] emits_EI(4,5) [OF _ _ o, simplified]
  show ?thesis
    using assms unfolding cmp_ops_def
    by (elim insertE emptyE) (simp_all add: cmp_code_def cmp_insns_def cmp_order_def r)
qed

lemma bool_word: "(of_bool p XOR 1 :: 64 word) = of_bool (\<not> p)" "(0 < (x :: 64 word)) = (x \<noteq> 0)" "(x < (1 :: 64 word)) = (x = 0)"
  by (cases p; simp) (simp_all add: word_neq_0_conv word_less_1)

lemma cmp_sets:
  assumes "op \<in> cmp_ops" "d \<noteq> 0" "\<not> sub \<longrightarrow> d = a \<and> b = 0"
  shows "sets_reg (cmp_insns op sub d a b) d m (of_bool (cmp_sem op (xr m a) (xr m b)))"
  using assms unfolding cmp_ops_def
  by (elim insertE emptyE; cases sub) (simp_all add: sets_reg_def cmp_insns_def cmp_order_def cmp_sem_def alu_exec_def bool_word xr_zero sless_sint not_less not_le)

section \<open>An operator and its value in a register\<close>

text \<open>The operator on two registers, followed, for a comparison, by what \<open>load\<close> does to get its value.\<close>

definition in_register :: "32 word \<Rightarrow> op_value \<times> 'a cg_scheme \<Rightarrow> 'a cg_scheme result" where
  "in_register d r = (case r of (In_reg _, s) \<Rightarrow> Inr s | (Cmp op a b, s) \<Rightarrow> load_cmp op d a b s)"

definition op_code :: "nat \<Rightarrow> bool \<Rightarrow> 32 word \<Rightarrow> 32 word \<Rightarrow> 32 word \<Rightarrow> 'a code" where
  "op_code op long d a b s = bindr (opil_regs op long d a b s) (in_register d)"

lemma op_code_value:
  assumes "op \<in> value_ops \<union> cmp_ops" "op_for uns op" "op \<in> shift_ops \<longrightarrow> bt \<noteq> VT_PTR" "op \<in> div_ops \<longrightarrow> y \<noteq> 0" "normal bt uns x"
    "op \<notin> shift_ops \<longrightarrow> normal bt uns y" "d < 32" "a < 32" "b < 32" "d \<noteq> 0"
    "xr m (ucast a) = in_reg bt x" "xr m (ucast b) = in_reg (if op \<in> shift_ops then VT_INT else bt) y"
    "code_inv s" "\<not> nocode_wanted s"
  shows "\<exists>is s'. op_code op (wide bt) d a b s = Inr s' \<and> wrote s is s' \<and> sets_reg is (ucast d) m (in_reg bt (c_op op bt uns x y))"
proof -
  have d: "(ucast d :: 5 word) \<noteq> 0" using u32_reg [OF assms(7)] assms(10) by (metis unsigned_0)
  show ?thesis
  proof (cases "op \<in> value_ops")
    case True
    obtain c where c: "emits c (op_insn op bt (ucast d) (ucast a) (ucast b))"
      "opil_regs op (wide bt) d a b = (\<lambda>s :: 'a cg_scheme. bindr (c s) (\<lambda>s. Inr (In_reg d, s)))"
      using opil_regs_emits [OF True assms(7-9)] by blast
    obtain s' where s': "c s = Inr s'" "wrote s [op_insn op bt (ucast d) (ucast a) (ucast b)] s'"
      using emits_one [OF c(1) assms(13,14)] by blast
    have "sets_reg [op_insn op bt (ucast d) (ucast a) (ucast b)] (ucast d) m (in_reg bt (c_op op bt uns x y))"
      using op_insn_value [OF True assms(2-6)] d by (simp add: sets_reg_def op_insn_def assms(11,12))
    then show ?thesis using s' c(2) by (auto simp: op_code_def in_register_def)
  next
    case False
    then have o: "op \<in> cmp_ops" "op \<notin> shift_ops" using assms(1) by (auto simp: cmp_ops_def shift_ops_def)
    have r: "op_code op (wide bt) d a b s = run (cmp_code op d a b) s"
      by (simp add: op_code_def in_register_def opil_regs_cmp [OF o(1)] load_cmp_run [OF o(1)])
    obtain s' where s': "run (cmp_code op d a b) s = Inr s'" "wrote s (cmp_insns op (d \<noteq> a \<or> b \<noteq> 0) (ucast d) (ucast a) (ucast b)) s'"
      using emits_run [OF cmp_emits [OF o(1) assms(7-9)] assms(13,14)] by blast
    have "sets_reg (cmp_insns op (d \<noteq> a \<or> b \<noteq> 0) (ucast d) (ucast a) (ucast b)) (ucast d) m
      (of_bool (cmp_sem op (in_reg bt x) (in_reg bt y)))"
      using cmp_sets [OF o(1) d, of "d \<noteq> a \<or> b \<noteq> 0" "ucast a" "ucast b" m] o(2) assms(11,12) by auto
    moreover have "in_reg bt (c_op op bt uns x y) = of_bool (cmp_sem op (in_reg bt x) (in_reg bt y))"
      using cmp_is_c_op [OF o(1) assms(2,5)] assms(6) o(2) by (simp add: in_reg_def)
    ultimately show ?thesis using s' r by auto
  qed
qed

text \<open>The division of a difference of pointers: signed for C, but the code is that of the unsigned division.\<close>

lemma op_code_pdiv: "op_code TOK_PDIV long d a b s = op_code TOK_UDIV long d a b s"
  by (simp add: op_code_def opil_regs_def)

lemma nonneg_uint: "0 \<le> sint x \<Longrightarrow> sint x = uint x" for x :: "'a::len word"
  using sint_split [of x] by simp

lemma normal_nonneg:
  assumes "normal bt False x" "0 \<le> sint x"
  shows "normal bt True x"
proof (cases "wide bt")
  case False
  then have x: "x = scast (u32 x)" using assms(1) by (simp add: normal_eq)
  then have "sint x = sint (u32 x)" by (metis extend32(1))
  then have "scast (u32 x) = (u64 (u32 x) :: 64 word)" using assms(2) nonneg_uint [of "u32 x"] by (metis of_int_sint of_int_uint)
  then show ?thesis using x by (simp add: normal_eq)
qed (simp add: normal_eq)

lemma pdiv_udiv:
  assumes "0 \<le> sint x" "0 \<le> sint y"
  shows "in_reg bt (c_op TOK_PDIV bt False x y) = in_reg bt (c_op TOK_UDIV bt True x y)"
proof -
  have "in_reg bt (of_val bt False k) = in_reg bt (of_val bt True k)" for k by (simp add: in_reg_def of_val_def as_type_eq u32_scast u32_u64)
  then show ?thesis using nonneg_uint [OF assms(1)] nonneg_uint [OF assms(2)] by (simp add: c_op_def Let_def val_def)
qed

end
