(* ===== verification/GenJumps.thy ===== *)
theory GenJumps
  imports GenCode
begin

text \<open>
  Lists of forward jumps. \<open>jump_list d t ts\<close> says that the list \<open>t\<close> in the code \<open>d\<close> has the places \<open>ts\<close>; places
  are apart when their words do not overlap. \<open>gsym_addr\<close> turns every place into a jump to the target, \<open>gjmp\<close> adds a
  place and \<open>gjmp_append\<close> concatenates two lists.
\<close>

unbundle bit_operations_syntax

section \<open>Lists in the code\<close>

inductive jump_list :: "8 word list \<Rightarrow> 32 word \<Rightarrow> nat list \<Rightarrow> bool" where
  jump_end: "jump_list d 0 []"
| jump_next: "t \<noteq> 0 \<Longrightarrow> unat t + 4 \<le> length d \<Longrightarrow> jump_list d (read32le d (unat t)) ts \<Longrightarrow> jump_list d t (unat t # ts)"

inductive_simps jump_list_Nil [simp]: "jump_list d t []"
inductive_simps jump_list_Cons: "jump_list d t (p # ps)"

definition beside :: "nat \<Rightarrow> nat \<Rightarrow> bool" where
  "beside p q \<longleftrightarrow> p + 4 \<le> q \<or> q + 4 \<le> p"

definition apart :: "nat list \<Rightarrow> bool" where
  "apart = sorted_wrt beside"

lemma beside_sym: "beside p q \<longleftrightarrow> beside q p"
  by (auto simp: beside_def)

lemma apart_simps [simp]:
  "apart []" "apart (p # ps) \<longleftrightarrow> (\<forall>q\<in>set ps. beside p q) \<and> apart ps"
  "apart (ps @ qs) \<longleftrightarrow> apart ps \<and> apart qs \<and> (\<forall>p\<in>set ps. \<forall>q\<in>set qs. beside p q)"
  by (auto simp: apart_def sorted_wrt_append)

lemma jump_list_start: "jump_list d t ts \<Longrightarrow> t = 0 \<longleftrightarrow> ts = []"
  by (cases ts) (auto simp: jump_list_Cons)

lemma jump_list_bound: "jump_list d t ts \<Longrightarrow> p \<in> set ts \<Longrightarrow> p + 4 \<le> length d \<and> p < 2 ^ 32"
proof (induction rule: jump_list.induct)
  case (jump_next t d ts)
  then show ?case using unat_lt2p [of t] by auto
qed simp

lemma jump_list_cong:
  assumes "jump_list d t ts" "length d \<le> length d'" "\<And>p. p \<in> set ts \<Longrightarrow> read32le d' p = read32le d p"
  shows "jump_list d' t ts"
  using assms
proof (induction rule: jump_list.induct)
  case (jump_next t d ts)
  then show ?case by (auto intro!: jump_list.jump_next)
qed (simp add: jump_end)

lemma jump_list_write:
  assumes "jump_list d t ts" "\<And>q. q \<in> set ts \<Longrightarrow> beside p q"
  shows "jump_list (write32le d p x) t ts"
  using assms(1)
proof (rule jump_list_cong)
  fix q assume "q \<in> set ts"
  with assms(2) show "read32le (write32le d p x) q = read32le d q" by (intro le32.rd_wr_other) (auto simp: beside_def)
qed (simp add: le32.length_wr)

section \<open>Resolving a list\<close>

definition jump_word :: "32 word \<Rightarrow> nat \<Rightarrow> 32 word" where
  "jump_word a p = (if a - of_nat p = 4 then 0x33 else 0x6f OR jal_imm (a - of_nat p))"

definition resolve :: "32 word \<Rightarrow> nat list \<Rightarrow> 8 word list \<Rightarrow> 8 word list" where
  "resolve a ps d = fold (\<lambda>p d. write32le d p (jump_word a p)) ps d"

lemma resolve_simps [simp]: "resolve a [] d = d" "resolve a (p # ps) d = resolve a ps (write32le d p (jump_word a p))"
  by (simp_all add: resolve_def)

lemma gsym_loop_eq:
  assumes "jump_list d t ts" "apart ts"
  shows "gsym_loop t a d = Some (if \<exists>p\<in>set ts. far (a - of_nat p) then Inl (TccError ''out-of-range branch chain'')
    else Inr (resolve a ts d))"
  using assms
proof (induction ts arbitrary: t d rule: list.induct)
  case Nil
  then show ?case by (simp add: gsym_loop.simps)
next
  case (Cons p ps)
  then have t: "t \<noteq> 0" "p = unat t" "jump_list d (read32le d p) ps" by (auto simp: jump_list_Cons)
  have w: "jump_list (write32le d p x) (read32le d p) ps" for x using t(3) Cons.prems(2) by (intro jump_list_write) auto
  have a: "apart ps" using Cons.prems(2) by simp
  show ?case
    using Cons.IH [OF w a] t(1)
    by (subst gsym_loop.simps) (simp add: Let_def jump_word_def t(2))
qed

lemma resolve_length [simp]: "length (resolve a ps d) = length d"
  by (induction ps arbitrary: d) (simp_all add: le32.length_wr)

lemma resolve_other: "(\<And>p. p \<in> set ps \<Longrightarrow> j < p \<or> p + 4 \<le> j) \<Longrightarrow> resolve a ps d ! j = d ! j"
proof (induction ps arbitrary: d)
  case (Cons p ps)
  then have "resolve a ps (write32le d p (jump_word a p)) ! j = write32le d p (jump_word a p) ! j" by simp
  also have "\<dots> = d ! j" using Cons.prems [of p] by (intro le32.nth_wr) auto
  finally show ?case by simp
qed simp

lemma resolve_word:
  "apart ps \<Longrightarrow> p \<in> set ps \<Longrightarrow> p + 4 \<le> length d \<Longrightarrow> read32le (resolve a ps d) p = jump_word a p"
proof (induction ps arbitrary: d)
  case (Cons q ps)
  show ?case
  proof (cases "p \<in> set ps")
    case False
    have "read32le (resolve a ps (write32le d q (jump_word a q))) p = read32le (write32le d q (jump_word a q)) p"
      using False Cons.prems by (intro le32.rd_cong resolve_other) (auto simp: beside_def)
    then show ?thesis using False Cons.prems by (simp add: le32.rd_wr)
  qed (use Cons in \<open>simp add: le32.length_wr\<close>)
qed simp

section \<open>Where the jumps go\<close>

text \<open>The distance from a place to the target.\<close>

definition jump_dist :: "32 word \<Rightarrow> nat \<Rightarrow> 64 word" where
  "jump_dist a p = u64 a - of_nat p"

lemma dist_word:
  assumes "unat a < 2 ^ 31" "p < 2 ^ 31"
  shows "sint (a - of_nat p) = int (unat a) - int p" "sint (jump_dist a p) = int (unat a) - int p" "scast (a - of_nat p) = jump_dist a p"
proof -
  have "int (unat a) < int (2 ^ 31)" using assms(1) by (simp only: of_nat_less_iff)
  then have u: "uint a < 2 ^ 31" by simp
  have "int p < 2 ^ 31" using assms(2) by simp
  then have b: "- (2 ^ 31) \<le> uint a - int p" "uint a - int p < 2 ^ 31" using u uint_ge_0 [of a] by linarith+
  have "a - of_nat p = word_of_int (int (unat a) - int p)" by simp
  then show r: "sint (a - of_nat p) = int (unat a) - int p"
    using b by (simp only: sint_sbintrunc') (simp add: signed_take_bit_int_eq_self)
  have "jump_dist a p = word_of_int (int (unat a) - int p)" unfolding jump_dist_def ucast_eq by simp
  then show "sint (jump_dist a p) = int (unat a) - int p"
    using b by (simp only: sint_sbintrunc') (simp add: signed_take_bit_int_eq_self)
  show "scast (a - of_nat p) = jump_dist a p"
    unfolding \<open>jump_dist a p = word_of_int _\<close> r [symmetric] by simp
qed

lemma far_dist:
  assumes "unat a < 2 ^ 31" "p < 2 ^ 31"
  shows "far (a - of_nat p) \<longleftrightarrow> \<not> jump_fits 21 (jump_dist a p)"
proof -
  define r where "r = a - of_nat p"
  have m: "push_bit 22 1 - 2 = (mask (Suc 21) AND NOT 1 :: 32 word)" "push_bit 21 1 = (2 ^ 21 :: 32 word)"
    by (simp_all add: mask_eq_exp_minus_1)
  have "bit (r + 2 ^ 21) 0 = bit r 0" by (simp add: bit_0)
  then have "far r \<longleftrightarrow> \<not> (- (2 ^ 21) \<le> sint r \<and> sint r < 2 ^ 21 \<and> \<not> bit r 0)"
    unfolding far_def m using biased_less [of 21 r] and_not_eq_0 [of 22 "r + 2 ^ 21"] by simp
  moreover have "bit r 0 = bit (jump_dist a p) 0"
    unfolding dist_word(3) [OF assms, symmetric] r_def [symmetric] by (simp add: bit_simps)
  ultimately show ?thesis using dist_word [OF assms] by (simp add: jump_fits_def r_def)
qed

lemma j_fields_dist: "imm_j (0x6f OR jal_imm x) = j_dist (scast x)"
proof -
  have "(ucast (scast x :: 64 word) :: 21 word) = ucast x" by (intro bit_word_eqI) (simp add: bit_simps)
  then show ?thesis by (simp add: j_fields j_dist_def)
qed

lemma decode_jump: "decode (0x6f OR jal_imm x) = Some (Jal 0 (j_dist (scast x)))"
  using decode_at_opcode(2) [OF j_fields(1), of x] by (simp add: j_fields(2) j_fields_dist)

text \<open>The word at a place is a jump by its distance, also when it is the empty instruction.\<close>

lemma jump_word_exec:
  assumes "unat a < 2 ^ 31" "p < 2 ^ 31"
  shows "\<exists>i. decode (jump_word a p) = Some i \<and> exec i m = Some (m\<lparr>pc := pc m + j_dist (jump_dist a p)\<rparr>)"
proof (cases "a - of_nat p = 4")
  case True
  then have "jump_dist a p = 4" using dist_word(3) [OF assms] by simp
  then have "j_dist (jump_dist a p) = 4" by (simp add: j_dist_fits bit_simps)
  moreover have "decode 0x33 = Some (Op Add False 0 0 0)" by code_simp
  ultimately show ?thesis using True by (simp add: jump_word_def next_pc_def set_xr_def)
next
  case False
  then show ?thesis using dist_word(3) [OF assms] by (simp add: jump_word_def decode_jump set_xr_def)
qed

section \<open>Adding places\<close>

lemma o_emit_keeps:
  assumes "code_inv s"
  shows "code_inv (o_emit w s)" "cg.more (o_emit w s) = cg.more s" "nocode_wanted (o_emit w s) = nocode_wanted s"
    "ind s \<le> ind (o_emit w s)" "length (code_of s) \<le> length (code_of (o_emit w s))"
    "p + 4 \<le> ind s \<Longrightarrow> read32le (code_of (o_emit w s)) p = read32le (code_of s) p"
proof -
  have s: "cg_wf s" "ind s \<le> length (code_of s)" using assms by (simp_all add: code_inv_def)
  show "code_inv (o_emit w s)" "cg.more (o_emit w s) = cg.more s" "nocode_wanted (o_emit w s) = nocode_wanted s"
    using oemit.emit_inv [OF assms] oemit.emit_more [OF s(1)] by simp_all
  show "ind s \<le> ind (o_emit w s)" by (simp add: o_emit_def Let_def)
  obtain m where "code_of (fit_text (ind s + 4) s) = code_of s @ replicate m 0" using fit_text_data by blast
  then show "length (code_of s) \<le> length (code_of (o_emit w s))" by (simp add: o_emit_def Let_def le32.length_wr)
  show "p + 4 \<le> ind s \<Longrightarrow> read32le (code_of (o_emit w s)) p = read32le (code_of s) p"
    by (rule oemit.emit_keeps_word [OF s])
qed

lemma jump_list_emit:
  assumes "code_inv s" "jump_list (code_of s) t ts" "\<And>p. p \<in> set ts \<Longrightarrow> p + 4 \<le> ind s"
  shows "jump_list (code_of (o_emit w s)) t ts"
proof (rule jump_list_cong [OF assms(2)])
  show "read32le (code_of (o_emit w s)) p = read32le (code_of s) p" if "p \<in> set ts" for p
    by (rule o_emit_keeps(6) [OF assms(1) assms(3) [OF that]])
qed (rule o_emit_keeps(5) [OF assms(1)])

lemma gjmp_adds:
  assumes "code_inv s" "\<not> nocode_wanted s" "jump_list (code_of s) t ts" "\<And>p. p \<in> set ts \<Longrightarrow> p + 4 \<le> ind s"
    "0 < ind s" "ind s < 2 ^ 32" "gjmp t s = (t', s')"
  shows "jump_list (code_of s') t' (ind s # ts)" "s' = o_emit t s" "ind s' = ind s + 4"
proof -
  have s: "cg_wf s" using assms(1) by (simp add: code_inv_def)
  show s': "s' = o_emit t s" using assms(2,7) by (auto simp: gjmp_def Let_def)
  show i: "ind s' = ind s + 4" unfolding s' by (rule oemit.emit_ind [OF s assms(2)])
  have "t' = of_nat (ind s)" using assms(2,7) i by (auto simp: gjmp_def Let_def)
  then have t': "unat t' = ind s" "t' \<noteq> 0" using assms(5,6) by (auto simp: unat_of_nat take_bit_nat_eq_self word_unat_eq_iff)
  have "read32le (code_of s') (ind s) = t" unfolding s' by (rule oemit.emit_code [OF s assms(2)])
  moreover have "ind s + 4 \<le> length (code_of s')" using oemit.emit_in_bounds [OF s assms(2), of t] i unfolding s' by simp
  ultimately show "jump_list (code_of s') t' (ind s # ts)"
    using jump_list_emit [OF assms(1,3,4), of t] t' by (simp add: jump_list_Cons s' [symmetric])
qed

section \<open>Concatenation\<close>

lemma list_end_last:
  assumes "jump_list d n (ns @ [e])"
  shows "list_end n d = Some (of_nat e)" "read32le d e = 0"
  using assms
proof (induction ns arbitrary: n rule: list.induct)
  case Nil
  { case 1 then show ?case by (subst list_end.simps) (auto simp: jump_list_Cons) }
  { case 2 then show ?case by (auto simp: jump_list_Cons) }
next
  case (Cons p ps)
  { case 1
    then have "jump_list d (read32le d (unat n)) (ps @ [e])" by (auto simp: jump_list_Cons)
    with Cons(1) jump_list_start [OF this] show ?case by (subst list_end.simps) simp }
  { case 2 with Cons(2) show ?case by (auto simp: jump_list_Cons) }
qed

lemma jump_list_relink:
  assumes "jump_list d n (ns @ [e])" "apart (ns @ [e])" "jump_list (write32le d e t) t ts"
  shows "jump_list (write32le d e t) n (ns @ [e] @ ts)"
  using assms(1,2)
proof (induction ns arbitrary: n rule: list.induct)
  case Nil
  then show ?case using assms(3) by (auto simp: jump_list_Cons le32.length_wr le32.rd_wr)
next
  case (Cons p ps)
  then have "jump_list (write32le d e t) (read32le d p) (ps @ [e] @ ts)" by (auto simp: jump_list_Cons)
  moreover have "read32le (write32le d e t) p = read32le d p"
    using Cons.prems(2) by (intro le32.rd_wr_other) (auto simp: beside_def)
  ultimately show ?case using Cons.prems(1) by (auto simp: jump_list_Cons le32.length_wr)
qed

lemma gjmp_append_joins:
  assumes "jump_list (code_of s) n ns" "jump_list (code_of s) t ts" "apart (ns @ ts)"
  obtains r d where "gjmp_append n t s = Some (r, put_data d s)" "jump_list d r (ns @ ts)" "length d = length (code_of s)"
    "\<And>q. (\<And>p. p \<in> set ns \<Longrightarrow> beside p q) \<Longrightarrow> read32le d q = read32le (code_of s) q"
proof (cases ns rule: rev_cases)
  case Nil
  then have "gjmp_append n t s = Some (t, put_data (code_of s) s)" using assms(1) by (simp add: gjmp_append_def put_data_def)
  then show thesis using Nil assms(2) by (intro that) auto
next
  case (snoc ms e)
  have n: "n \<noteq> 0" using jump_list_start [OF assms(1)] snoc by simp
  have e: "e < 2 ^ 32" using jump_list_bound [OF assms(1), of e] snoc by simp
  define d where "d = write32le (code_of s) e t"
  have "gjmp_append n t s = Some (n, put_data d s)"
    using list_end_last [of "code_of s" n ms e] assms(1) n e by (simp add: gjmp_append_def snoc unat_of_nat take_bit_nat_eq_self d_def)
  moreover have "jump_list d t ts" unfolding d_def
    using assms(2,3) snoc by (intro jump_list_write) auto
  then have "jump_list d n (ns @ ts)"
    using jump_list_relink [of "code_of s" n ms e t ts] assms(1,3) by (simp add: snoc d_def)
  moreover have "read32le d q = read32le (code_of s) q" if "\<And>p. p \<in> set ns \<Longrightarrow> beside p q" for q
    using that [of e] unfolding d_def snoc by (intro le32.rd_wr_other) (auto simp: beside_def)
  ultimately show thesis by (intro that [of n d]) (auto simp: d_def le32.length_wr)
qed

section \<open>Sequences of operations\<close>

text \<open>A function under construction, by what the code generator calls for it when it returns without an error (that it
  does, and when, is shown at the end): the lists of the labels, the code, and, as what they stand for, the places that
  wait for each label and the places that have been resolved with their targets.\<close>

datatype jump_op = Emit "32 word" | Jump nat | Cond_jump nat nat "32 word" "32 word" | Join nat nat | Resolve nat "32 word"

type_synonym pending = "nat \<Rightarrow> nat list"
type_synonym resolved = "(nat \<times> 32 word) set"

inductive jump_step :: "(nat \<Rightarrow> 32 word) \<Rightarrow> 'a cg_scheme \<Rightarrow> jump_op \<Rightarrow> (nat \<Rightarrow> 32 word) \<Rightarrow> 'a cg_scheme \<Rightarrow> bool" where
  "jump_step L s (Emit w) L (o_emit w s)"
| "gjmp (L k) s = (t, s') \<Longrightarrow> jump_step L s (Jump k) (L(k := t)) s'"
| "gjmp_cond op a b (L k) s = (t, s') \<Longrightarrow> jump_step L s (Cond_jump k op a b) (L(k := t)) s'"
| "j \<noteq> k \<Longrightarrow> gjmp_append (L k) (L j) s = Some (t, s') \<Longrightarrow> jump_step L s (Join k j) (L(k := t, j := 0)) s'"
| "gsym_addr (L k) a s = Some (Inr s') \<Longrightarrow> jump_step L s (Resolve k a) (L(k := 0)) s'"

inductive_cases jump_step_cases:
  "jump_step L s (Emit w) L' s'" "jump_step L s (Jump k) L' s'" "jump_step L s (Cond_jump k op a b) L' s'"
  "jump_step L s (Join k j) L' s'" "jump_step L s (Resolve k a) L' s'"

fun spec_step :: "nat \<Rightarrow> jump_op \<Rightarrow> pending \<times> resolved \<Rightarrow> pending \<times> resolved" where
  "spec_step i (Emit w) (P, D) = (P, D)"
| "spec_step i (Jump k) (P, D) = (P(k := i # P k), D)"
| "spec_step i (Cond_jump k op a b) (P, D) = (P(k := (i + 4) # P k), D)"
| "spec_step i (Join k j) (P, D) = (P(k := P k @ P j, j := []), D)"
| "spec_step i (Resolve k a) (P, D) = (P(k := []), D \<union> (\<lambda>p. (p, a)) ` set (P k))"

definition jumps_ok :: "(nat \<Rightarrow> 32 word) \<Rightarrow> 'a cg_scheme \<Rightarrow> pending \<times> resolved \<Rightarrow> bool" where
  "jumps_ok L s PD \<longleftrightarrow> (case PD of (P, D) \<Rightarrow>
    code_inv s \<and> \<not> nocode_wanted s \<and> 0 < ind s \<and>
    (\<forall>k. jump_list (code_of s) (L k) (P k) \<and> apart (P k) \<and> (\<forall>p\<in>set (P k). p + 4 \<le> ind s)) \<and>
    (\<forall>j k. j \<noteq> k \<longrightarrow> (\<forall>p\<in>set (P j). \<forall>q\<in>set (P k). beside p q)) \<and>
    (\<forall>(p, a)\<in>D. read32le (code_of s) p = jump_word a p \<and> \<not> far (a - of_nat p) \<and> p + 4 \<le> ind s \<and>
      (\<forall>k. \<forall>q\<in>set (P k). beside p q)))"

lemma ok_emit:
  assumes "jumps_ok L s (P, D)"
  shows "jumps_ok L (o_emit w s) (P, D)"
proof -
  have s: "code_inv s" "\<not> nocode_wanted s" "0 < ind s" using assms by (auto simp: jumps_ok_def)
  note k = o_emit_keeps [OF s(1), where w = w]
  have "jump_list (code_of (o_emit w s)) (L j) (P j)" for j
    using assms by (intro jump_list_emit [OF s(1)]) (auto simp: jumps_ok_def)
  moreover have "p + 4 \<le> ind (o_emit w s)" "read32le (code_of (o_emit w s)) p = read32le (code_of s) p" if "p + 4 \<le> ind s" for p
    using k(4) k(6) [OF that] that by simp_all
  moreover have "0 < ind (o_emit w s)" "\<not> nocode_wanted (o_emit w s)" using s k(3,4) by simp_all
  ultimately show ?thesis using assms k(1) by (auto simp: jumps_ok_def)
qed

lemma ok_jump:
  assumes "jumps_ok L s (P, D)" "gjmp (L k) s = (t, s')" "ind s < 2 ^ 32"
  shows "jumps_ok (L(k := t)) s' (P(k := ind s # P k), D)"
proof -
  have s: "code_inv s" "\<not> nocode_wanted s" "0 < ind s" "\<And>j. jump_list (code_of s) (L j) (P j)" "\<And>j p. p \<in> set (P j) \<Longrightarrow> p + 4 \<le> ind s"
    using assms(1) by (auto simp: jumps_ok_def)
  note g = gjmp_adds [OF s(1,2) s(4) s(5) s(3) assms(3,2)]
  have ok: "jumps_ok L s' (P, D)" using ok_emit [OF assms(1), of "L k"] g(2) by simp
  have "beside (ind s) q" if "q \<in> set (P j)" for j q using s(5) [OF that] by (simp add: beside_def)
  moreover have "beside p (ind s)" if "(p, a) \<in> D" for p a using assms(1) that by (auto simp: jumps_ok_def beside_def)
  ultimately show ?thesis using ok g(1,3) beside_sym by (auto simp: jumps_ok_def)
qed

lemma ok_join:
  assumes "jumps_ok L s (P, D)" "j \<noteq> k" "gjmp_append (L k) (L j) s = Some (t, s')"
  shows "jumps_ok (L(k := t, j := 0)) s' (P(k := P k @ P j, j := []), D)"
proof -
  have l: "jump_list (code_of s) (L i) (P i)" "apart (P i)" for i using assms(1) by (auto simp: jumps_ok_def)
  have b: "beside p q" if "i \<noteq> i'" "p \<in> set (P i)" "q \<in> set (P i')" for i i' p q
    using assms(1) that unfolding jumps_ok_def by blast
  have bD: "beside p q" if "(p, a) \<in> D" "q \<in> set (P i)" for p a q i using assms(1) that by (auto simp: jumps_ok_def)
  have "apart (P k @ P j)" using l b [OF assms(2) [symmetric]] by auto
  then obtain r d where g: "gjmp_append (L k) (L j) s = Some (r, put_data d s)" "jump_list d r (P k @ P j)" "length d = length (code_of s)"
    "\<And>q. (\<And>p. p \<in> set (P k) \<Longrightarrow> beside p q) \<Longrightarrow> read32le d q = read32le (code_of s) q"
    using gjmp_append_joins [OF l(1) l(1), of k j] by blast
  have r: "r = t" "s' = put_data d s" using g(1) assms(3) by simp_all
  have "jump_list d (L i) (P i)" if "i \<noteq> k" "i \<noteq> j" for i
    using l(1) g(3,4) b [of k i] that by (intro jump_list_cong [OF l(1)]) auto
  moreover have "read32le d p = read32le (code_of s) p" if "(p, a) \<in> D" for p a
    using g(4) bD [OF that] beside_sym by blast
  moreover have "length d = data_allocated (cur_text_section s)" "ind s \<le> length d"
    using assms(1) g(3) by (auto simp: jumps_ok_def code_inv_def cg_wf_def)
  ultimately show ?thesis
    using assms(1,2) g(2) b bD l unfolding r by (auto simp: jumps_ok_def put_data_def code_inv_def cg_wf_def jump_end) (metis b)+
qed

lemma gsym_addr_eq:
  assumes "jump_list (code_of s) t ts" "apart ts"
  shows "gsym_addr t a s = Some (if \<exists>p\<in>set ts. far (a - of_nat p) then Inl (TccError ''out-of-range branch chain'')
    else Inr (put_data (resolve a ts (code_of s)) s))"
  by (simp add: gsym_addr_def gsym_loop_eq [OF assms])

lemma resolve_read: "(\<And>p. p \<in> set ps \<Longrightarrow> beside p q) \<Longrightarrow> read32le (resolve a ps d) q = read32le d q"
proof (rule le32.rd_cong, rule resolve_other)
  fix p j assume "\<And>p. p \<in> set ps \<Longrightarrow> beside p q" "q \<le> j" "j < q + 4" "p \<in> set ps"
  then show "j < p \<or> p + 4 \<le> j" unfolding beside_def by fastforce
qed

lemma ok_resolve:
  assumes "jumps_ok L s (P, D)" "gsym_addr (L k) a s = Some (Inr s')"
  shows "jumps_ok (L(k := 0)) s' (P(k := []), D \<union> (\<lambda>p. (p, a)) ` set (P k))"
proof -
  have l: "jump_list (code_of s) (L i) (P i)" "apart (P i)" for i using assms(1) by (auto simp: jumps_ok_def)
  have b: "beside p q" if "i \<noteq> i'" "p \<in> set (P i)" "q \<in> set (P i')" for i i' p q
    using assms(1) that unfolding jumps_ok_def by blast
  have bD: "beside q p" if "(p, a') \<in> D" "q \<in> set (P i)" for p a' q i using assms(1) that unfolding beside_sym [of q] by (auto simp: jumps_ok_def)
  define d where "d = resolve a (P k) (code_of s)"
  have s': "s' = put_data d s" and f: "\<And>p. p \<in> set (P k) \<Longrightarrow> \<not> far (a - of_nat p)"
    using assms(2) gsym_addr_eq [OF l, of k a] by (auto simp: d_def split: if_split_asm)
  have new: "read32le d p = jump_word a p" if "p \<in> set (P k)" for p
    unfolding d_def by (rule resolve_word [OF l(2) that]) (use jump_list_bound [OF l(1) that] in simp)
  have "jump_list d (L i) (P i)" if "i \<noteq> k" for i
    unfolding d_def using b [OF that [symmetric]] by (intro jump_list_cong [OF l(1)] resolve_read) auto
  moreover have "read32le d p = read32le (code_of s) p" if "(p, a') \<in> D" for p a'
    unfolding d_def using bD [OF that] by (rule resolve_read)
  moreover have "length d = data_allocated (cur_text_section s)" "ind s \<le> length d"
    using assms(1) by (auto simp: d_def jumps_ok_def code_inv_def cg_wf_def)
  ultimately show ?thesis
    using assms(1) f new unfolding s'
    by (auto simp: jumps_ok_def put_data_def code_inv_def cg_wf_def jump_end) (metis b)+
qed

lemma jump_step_ind: "jump_step L s op L' s' \<Longrightarrow> ind s \<le> ind s'"
  by (induction rule: jump_step.induct)
    (auto simp: o_emit_def gjmp_def gjmp_cond_def gjmp_append_def gsym_addr_def put_data_def Let_def bindr_eq_Inr split: if_split_asm option.split_asm prod.split_asm)

lemma jump_step_ok:
  assumes "jump_step L s op L' s'" "jumps_ok L s (P, D)" "ind s' < 2 ^ 31"
  shows "jumps_ok L' s' (spec_step (ind s) op (P, D))"
proof (cases op)
  case (Emit w)
  with assms(1,2) show ?thesis by (auto elim!: jump_step_cases intro: ok_emit)
next
  case (Jump k)
  with assms jump_step_ind [OF assms(1)] show ?thesis by (auto elim!: jump_step_cases intro!: ok_jump)
next
  case (Cond_jump k op' a b)
  with assms(1) obtain t where t: "gjmp_cond op' a b (L k) s = (t, s')" "L' = L(k := t)" by (auto elim!: jump_step_cases)
  obtain w where w: "gjmp (L k) (o_emit w s) = (t, s')" using t(1) by (auto simp: gjmp_cond_def split: prod.split_asm)
  have n: "\<not> nocode_wanted s" using assms(2) by (simp add: jumps_ok_def)
  then have i: "ind (o_emit w s) = ind s + 4" by (simp add: o_emit_def Let_def)
  have "ind (o_emit w s) \<le> ind s'" using w by (auto simp: gjmp_def o_emit_def Let_def split: if_split_asm)
  then show ?thesis using ok_jump [OF ok_emit [OF assms(2)] w] assms(3) i t(2) Cond_jump by simp
next
  case (Join k j)
  with assms show ?thesis by (auto elim!: jump_step_cases intro!: ok_join)
next
  case (Resolve k a)
  with assms show ?thesis by (auto elim!: jump_step_cases intro!: ok_resolve)
qed

inductive reach :: "'a cg_scheme \<Rightarrow> (nat \<Rightarrow> 32 word) \<Rightarrow> 'a cg_scheme \<Rightarrow> pending \<times> resolved \<Rightarrow> bool" for s0 where
  reach_start: "reach s0 (\<lambda>_. 0) s0 (\<lambda>_. [], {})"
| reach_step: "reach s0 L s A \<Longrightarrow> jump_step L s op L' s' \<Longrightarrow> reach s0 L' s' (spec_step (ind s) op A)"

lemma reach_ok:
  assumes "reach s0 L s A" "code_inv s0" "\<not> nocode_wanted s0" "0 < ind s0" "ind s < 2 ^ 31"
  shows "jumps_ok L s A"
  using assms(1,5)
proof (induction rule: reach.induct)
  case reach_start
  then show ?case using assms(2-4) by (auto simp: jumps_ok_def jump_end)
next
  case (reach_step L s A op L' s')
  then show ?case using jump_step_ind [of L s op L' s'] jump_step_ok [of L s op L' s' "fst A" "snd A"] by simp
qed

text \<open>No operation gets stuck.\<close>

lemma join_steps:
  assumes "jumps_ok L s (P, D)" "k \<noteq> j"
  shows "\<exists>L' s'. jump_step L s (Join k j) L' s'"
proof -
  have "apart (P k @ P j)" "jump_list (code_of s) (L k) (P k)" "jump_list (code_of s) (L j) (P j)"
    using assms by (auto simp: jumps_ok_def)
  then obtain t s' where "gjmp_append (L k) (L j) s = Some (t, s')" using gjmp_append_joins by metis
  then show ?thesis using jump_step.intros(4) [OF assms(2) [symmetric]] by blast
qed

lemma resolve_steps:
  assumes "jumps_ok L s (P, D)" "ind s < 2 ^ 31" "unat a < 2 ^ 31"
  shows "if \<exists>p\<in>set (P k). \<not> jump_fits 21 (jump_dist a p) then gsym_addr (L k) a s = Some (Inl (TccError ''out-of-range branch chain''))
    else \<exists>L' s'. jump_step L s (Resolve k a) L' s'"
proof -
  have l: "jump_list (code_of s) (L k) (P k)" "apart (P k)" "\<And>p. p \<in> set (P k) \<Longrightarrow> p < 2 ^ 31"
    using assms(1,2) by (force simp: jumps_ok_def)+
  then have "(\<exists>p\<in>set (P k). far (a - of_nat p)) \<longleftrightarrow> (\<exists>p\<in>set (P k). \<not> jump_fits 21 (jump_dist a p))"
    using far_dist [OF assms(3)] by blast
  then show ?thesis using gsym_addr_eq [OF l(1,2), of a] jump_step.intros(5) by fastforce
qed

end
