(* ===== verification/GenCond.thy ===== *)
theory GenCond
  imports GenOps GenJumps
begin

text \<open>
  Conditional jumps: \<open>gjmp_cond\<close> writes a branch over the jump that follows it, taken when the comparison does not
  hold.
\<close>

unbundle bit_operations_syntax

lemma branch_word:
  fixes r1 r2 :: "5 word" and f :: "3 word"
  shows "decode (0x63 OR push_bit 12 (u32 f) OR push_bit 15 (u32 r1) OR push_bit 20 (u32 r2) OR push_bit 7 8) =
    map_option (\<lambda>c. Branch c r1 r2 8) (decode_branch f)" (is "decode ?w = _")
proof -
  have w: "opcode ?w = 0x63" "funct3 ?w = f" "rs1f ?w = r1" "rs2f ?w = r2"
    unfolding opcode_def funct3_def rs1f_def rs2f_def by (rule bits_eqI, simp add: each_bit bit_beyond)+
  have "imm_b ?w = 8" unfolding imm_b_def by (rule bits_eqI) (simp add: each_bit bit_beyond)
  then show ?thesis using decode_at_opcode(1) [OF w(1)] w by simp
qed

lemma cond_word:
  assumes "op \<in> cmp_ops" "a < 32" "b < 32" "cond_code op a b = (c, x, y)"
  shows "\<exists>i. decode (0x63 OR push_bit 12 (c XOR 1) OR push_bit 15 x OR push_bit 20 y OR push_bit 7 8) = Some i \<and>
    (\<forall>m. exec i m = Some (m\<lparr>pc := pc m + (if cmp_sem op (xr m (ucast a)) (xr m (ucast b)) then 4 else 8)\<rparr>))"
proof -
  have x: "x < 32" "y < 32" using assms by (auto simp: cond_code_def split: if_split_asm)
  have w: "decode (0x63 OR push_bit 12 (u32 f) OR push_bit 15 x OR push_bit 20 y OR push_bit 7 8) =
    map_option (\<lambda>c. Branch c (ucast x) (ucast y) 8) (decode_branch f)" for f
    using branch_word [of f "ucast x" "ucast y"] u32_reg [OF x(1)] u32_reg [OF x(2)] by simp
  note w8 = w [of 0, simplified] w [of 1, simplified] w [of 4, simplified] w [of 5, simplified] w [of 6, simplified] w [of 7, simplified]
  show ?thesis
    using assms(1,4) w8 unfolding cmp_ops_def
    by (elim insertE emptyE)
      (auto simp: cond_code_def decode_branch_def cmp_sem_def next_pc_def sless_sint not_less not_le)
qed

lemma gjmp_cond_branch:
  assumes "op \<in> cmp_ops" "a < 32" "b < 32" "code_inv s" "\<not> nocode_wanted s"
  shows "\<exists>s' i. gjmp_cond op a b t s = (of_nat (ind s + 4), s') \<and> ind s' = ind s + 8 \<and> code_inv s' \<and>
    insn_at (code_of s') (ind s) = Some i \<and> read32le (code_of s') (ind s + 4) = t \<and>
    (\<forall>m. exec i m = Some (m\<lparr>pc := pc m + (if cmp_sem op (xr m (ucast a)) (xr m (ucast b)) then 4 else 8)\<rparr>))"
proof -
  obtain c x y where c: "cond_code op a b = (c, x, y)" by (metis prod_cases3)
  define w where "w = 0x63 OR push_bit 12 (c XOR 1) OR push_bit 15 x OR push_bit 20 y OR push_bit 7 8"
  obtain i where i: "decode w = Some i"
    "\<forall>m. exec i m = Some (m\<lparr>pc := pc m + (if cmp_sem op (xr m (ucast a)) (xr m (ucast b)) then 4 else 8)\<rparr>)"
    using cond_word [OF assms(1-3) c] unfolding w_def by blast
  define s1 where "s1 = o_emit w s"
  have wf: "cg_wf s" using assms(4) by (simp add: code_inv_def)
  have s1: "code_inv s1" "\<not> nocode_wanted s1" "ind s1 = ind s + 4" "read32le (code_of s1) (ind s) = w"
    using o_emit_keeps [OF assms(4)] oemit.emit_ind [OF wf assms(5)] oemit.emit_code [OF wf assms(5)] assms(5) by (simp_all add: s1_def)
  have wf1: "cg_wf s1" using s1(1) by (simp add: code_inv_def)
  define s' where "s' = o_emit t s1"
  have s': "code_inv s'" "ind s' = ind s + 8" "read32le (code_of s') (ind s + 4) = t" "read32le (code_of s') (ind s) = w"
    using o_emit_keeps [OF s1(1), where w = t] oemit.emit_ind [OF wf1 s1(2)] oemit.emit_code [OF wf1 s1(2)] s1(3,4) by (simp_all add: s'_def)
  have "gjmp_cond op a b t s = gjmp t s1" by (simp add: gjmp_cond_def c s1_def w_def)
  also have "\<dots> = (of_nat (ind s + 4), s')" using s1(2) s'(2) by (simp add: gjmp_def s'_def [symmetric])
  finally show ?thesis using s' i by (auto simp: insn_at_def)
qed

end
