(* ===== verification/GenImm.thy ===== *)
theory GenImm
  imports GenOps
begin

text \<open>
  The operators of \<open>gen_opil\<close> with a small constant: the instruction that is chosen computes the operator on the register
  and the constant, like the instructions for two registers, and so do the inverted comparisons and the tests for
  equality that are made of it.
\<close>

unbundle bit_operations_syntax

section \<open>The instruction\<close>

definition imm_ops :: "nat set" where
  "imm_ops = {TOK_SUB, TOK_ADD, TOK_LE, TOK_LT, TOK_ULE, TOK_ULT, TOK_XOR, TOK_OR, TOK_AND, TOK_SHL, TOK_SHR, TOK_SAR}"

definition imm_alu :: "nat \<Rightarrow> alu" where
  "imm_alu op =
    (if op = TOK_SUB \<or> op = TOK_ADD then Add else if op = TOK_LE \<or> op = TOK_LT then Slt
     else if op = TOK_ULE \<or> op = TOK_ULT then Sltu else alu_of op)"

definition imm_operand_of :: "nat \<Rightarrow> bool \<Rightarrow> 32 word \<Rightarrow> 64 word" where
  "imm_operand_of op long fc =
    (if op = TOK_SUB then scast (- fc) else if op = TOK_LE \<or> op = TOK_ULE then scast (fc + 1)
     else if op \<in> shift_ops then u64 (fc AND (if long then 63 else 31)) else scast fc)"

definition imm_insn :: "nat \<Rightarrow> bool \<Rightarrow> 32 word \<Rightarrow> 5 word \<Rightarrow> 5 word \<Rightarrow> insn" where
  "imm_insn op long fc d a = OpImm (imm_alu op) (\<not> long \<and> op \<notin> bit_ops \<and> op \<notin> cmp_ops) d a (imm_operand_of op long fc)"

lemma imm_ok_next: "imm_ok fc \<Longrightarrow> \<not> sint fc \<ge> 2047 \<Longrightarrow> imm_ok (fc + 1) \<and> sint (fc + 1) = sint fc + 1"
proof -
  assume f: "imm_ok fc" "\<not> sint fc \<ge> 2047"
  have "sint (fc + 1) = sint fc + 1" using f sint_add_wrap [of 1 fc] by (simp add: imm_ok_def)
  then show ?thesis using f by (simp add: imm_ok_def)
qed

lemma imm_ok_neg: "imm_ok fc \<Longrightarrow> \<not> sint fc \<le> - 2048 \<Longrightarrow> imm_ok (- fc) \<and> sint (- fc) = - sint fc"
proof -
  assume f: "imm_ok fc" "\<not> sint fc \<le> - 2048"
  have "- fc = word_of_int (- sint fc)" by simp
  then have "sint (- fc) = - sint fc"
    using f by (simp only: sint_sbintrunc') (simp add: imm_ok_def signed_take_bit_int_eq_self)
  then show ?thesis using f by (simp add: imm_ok_def)
qed

lemma and_mask_less: "fc AND 63 < 64" "fc AND 31 < 32" for fc :: "32 word"
  using and_mask_less' [of 6 fc] and_mask_less' [of 5 fc] by (simp_all add: mask_numeral)

lemma imm_emits:
  assumes "op \<in> imm_ops" "opil_cop op long fc = Some (f, cll, k)" "imm_ok fc" "d < 32" "a < 32"
  shows "emits (EI (0x13 OR cll) f d a k) (imm_insn op long fc (ucast d) (ucast a))"
proof -
  note n = imm_ok_next [OF assms(3)] imm_ok_neg [OF assms(3)]
  note e = emits_EI [OF assms(4,5)] emits_EI_shift [OF assms(4,5)]
  show ?thesis
    using assms(1-3) n unfolding imm_ops_def
    by (elim insertE emptyE)
      (auto simp: opil_cop_def Let_def imm_insn_def imm_alu_def imm_operand_of_def alu_of_def bit_ops_def cmp_ops_def shift_ops_def e and_mask_less
        simp del: sint_0 split: if_split_asm)
qed

section \<open>Its value\<close>

lemma scast32: "sint (fc + 1) = sint fc + 1 \<Longrightarrow> scast (fc + 1) = (scast fc + 1 :: 64 word)"
  "sint (- fc) = - sint fc \<Longrightarrow> scast (- fc) = (- scast fc :: 64 word)" for fc :: "32 word"
proof -
  have s: "scast z = (word_of_int (sint z) :: 64 word)" for z :: "32 word" by simp
  show "scast (fc + 1) = (scast fc + 1 :: 64 word)" if "sint (fc + 1) = sint fc + 1" unfolding s that by simp
  show "scast (- fc) = (- scast fc :: 64 word)" if "sint (- fc) = - sint fc" unfolding s that by simp
qed

lemma shift_imm: "unat (u64 (fc AND 63)) mod 64 = unat (scast fc :: 64 word) mod 64" "unat (fc AND 31) mod 32 = unat fc mod 32" for fc :: "32 word"
proof -
  have "u64 (fc AND 63) AND 63 = (scast fc :: 64 word) AND 63" by (rule bits_eqI) (simp add: each_bit)
  then show "unat (u64 (fc AND 63)) mod 64 = unat (scast fc :: 64 word) mod 64"
    using shift_amount(1) [of "u64 (fc AND 63)"] shift_amount(1) [of "scast fc"] by (simp add: amount64)
  have "unat (take_bit 5 fc) = unat fc mod 2 ^ 5" by (simp only: unsigned_take_bit_eq take_bit_nat_def)
  then show "unat (fc AND 31) mod 32 = unat fc mod 32" by (simp add: masks)
qed

lemma less_next: "y \<noteq> - 1 \<Longrightarrow> x < y + 1 \<longleftrightarrow> x \<le> y" for x y :: "'a::len word"
proof -
  assume "y \<noteq> - 1"
  then have "1 + y \<noteq> 0" by (metis add.commute add_eq_0_iff)
  then have "unat (1 + y) = Suc (unat y)" by (rule unatSuc)
  then show ?thesis by (simp add: word_less_nat_alt word_le_nat_alt add.commute less_Suc_eq_le)
qed

lemma imm_value:
  assumes "op \<in> imm_ops" "opil_cop op long fc = Some r" "imm_ok fc" "op \<notin> cmp_ops"
  shows "alu_exec (imm_alu op) (\<not> long \<and> op \<notin> bit_ops) z (imm_operand_of op long fc) =
    alu_exec (alu_of op) (\<not> long \<and> op \<notin> bit_ops) z (scast fc)"
proof -
  have n: "op = TOK_SUB \<Longrightarrow> scast (- fc) = (- scast fc :: 64 word)"
    using assms(2) scast32(2) imm_ok_neg [OF assms(3)] by (auto simp: opil_cop_def Let_def split: if_split_asm)
  have m: "u32 (- w) = - u32 w" for w :: "64 word" using u32_arith(2) [of 0 w] by simp
  show ?thesis
    using assms(1,4) n unfolding imm_ops_def
    by (elim insertE emptyE; cases long)
      (simp_all add: alu_exec_def imm_alu_def imm_operand_of_def alu_of_def bit_ops_def cmp_ops_def shift_ops_def u32_scast u32_u64 shift_imm m)
qed

lemma imm_cmp_value:
  assumes "op \<in> imm_ops" "opil_cop op long fc = Some r" "imm_ok fc" "op \<in> cmp_ops"
  shows "alu_exec (imm_alu op) False z (imm_operand_of op long fc) = of_bool (cmp_sem op z (scast fc))"
proof -
  have n: "scast (fc + 1) = (scast fc + 1 :: 64 word)" "sint (scast fc + 1 :: 64 word) = sint fc + 1" if "op = TOK_LE \<or> op = TOK_ULE"
  proof -
    have "\<not> sint fc \<ge> 2047" using assms(2) that by (auto simp: opil_cop_def Let_def split: if_split_asm)
    then have s: "sint (fc + 1) = sint fc + 1" using imm_ok_next [OF assms(3)] by simp
    show "scast (fc + 1) = (scast fc + 1 :: 64 word)" by (rule scast32(1) [OF s])
    then show "sint (scast fc + 1 :: 64 word) = sint fc + 1" using s extend32(1) [of "fc + 1"] by simp
  qed
  have "(scast fc :: 64 word) \<noteq> - 1" if "op = TOK_ULE"
  proof -
    have "fc \<noteq> - 1" using assms(2) that by (auto simp: opil_cop_def Let_def split: if_split_asm)
    then show ?thesis using reg_less(3) [of fc "- 1"] by simp
  qed
  then show ?thesis
    using assms(1,4) n unfolding imm_ops_def
    by (elim insertE emptyE) (simp_all add: cmp_ops_def imm_alu_def imm_operand_of_def alu_exec_def cmp_sem_def shift_ops_def less_next sless_sint extend32)
qed

section \<open>The whole sequence\<close>

text \<open>\<open>gen_opil\<close> for a small constant, followed, for a comparison, by what \<open>load\<close> does to get its value. \<open>by_imm\<close>: no operand but
  the left one has to be in a register.\<close>

definition imm_code ::
  "('a cg_scheme \<Rightarrow> (32 word \<times> 32 word \<times> 32 word \<times> 'a cg_scheme) result) \<Rightarrow> nat \<Rightarrow> bool \<Rightarrow> 32 word \<Rightarrow> 32 word \<Rightarrow> 32 word \<Rightarrow> 'a code" where
  "imm_code gv2 op long d a fc s = bindr (opil_imm gv2 op long d a fc s) (in_register d)"

definition by_imm :: "nat \<Rightarrow> bool \<Rightarrow> 32 word \<Rightarrow> bool" where
  "by_imm op long fc \<longleftrightarrow>
    (if inverted op then opil_cop (op - 1) long fc \<noteq> None
     else if op = TOK_EQ \<or> op = TOK_NE then fc = 0 \<or> opil_cop TOK_SUB long fc \<noteq> None
     else opil_cop op long fc \<noteq> None)"

text \<open>A comparison of \<open>d\<close> with zero behind an instruction that sets \<open>d\<close>.\<close>

lemma then_test:
  assumes "emits (c :: 'a code) i" "sets_reg [i] (ucast d) m v" "t = TOK_EQ \<or> t = TOK_NE" "d < 32" "d \<noteq> 0" "code_inv s" "\<not> nocode_wanted s"
  shows "\<exists>is s'. bindr (c s) (load_cmp t d d 0) = Inr s' \<and> wrote s is s' \<and> sets_reg is (ucast d) m (of_bool (cmp_sem t v 0))"
proof -
  have d: "(ucast d :: 5 word) \<noteq> 0" using u32_reg [OF assms(4)] assms(5) by (metis unsigned_0)
  have t: "t \<in> cmp_ops" using assms(3) by (auto simp: cmp_ops_def)
  define cs :: "'a code list" and js where "cs = cmp_code t d d 0" and "js = cmp_insns t False (ucast d) (ucast d) (ucast (0 :: 32 word))"
  have "list_all2 emits (c # cs) (i # js)" using assms(1) cmp_emits [OF t assms(4,4), of 0] by (simp add: cs_def js_def)
  then obtain s' where "run (c # cs) s = Inr s'" "wrote s (i # js) s'" using emits_run assms(6,7) by blast
  moreover have "load_cmp t d d 0 = run cs" unfolding cs_def using load_cmp_run [OF t] by (rule ext)
  moreover have "sets_reg ([i] @ js) (ucast d) m (of_bool (cmp_sem t v 0))"
  proof (rule sets_reg_append [OF assms(2)])
    fix m' assume "xr m' (ucast d) = v"
    then show "sets_reg js (ucast d) m' (of_bool (cmp_sem t v 0))"
      using cmp_sets [OF t d, of False "ucast d" 0 m'] by (simp add: js_def xr_zero)
  qed
  ultimately show ?thesis by auto
qed

lemma once_eq:
  assumes "opil_cop op long fc = Some (f, cll, k)"
  shows "bindr (opil_once gv2 op long d a fc s) h = bindr (EI (0x13 OR cll) f d a k s) (\<lambda>s. h (if is_cond op then Cmp TOK_NE d 0 else In_reg d, s))"
  by (simp add: opil_once_def assms bindr_def split: sum.split)

lemma imm_insn_sets:
  assumes "op \<in> imm_ops" "opil_cop op (wide bt) fc = Some r" "imm_ok fc" "(d :: 32 word) < 32" "d \<noteq> 0"
  shows "sets_reg [imm_insn op (wide bt) fc (ucast d) (ucast (a :: 32 word))] (ucast d) m
    (if op \<in> cmp_ops then of_bool (cmp_sem op (xr m (ucast a)) (scast fc))
     else alu_exec (alu_of op) (\<not> wide bt \<and> op \<notin> bit_ops) (xr m (ucast a)) (scast fc))"
proof -
  have d: "(ucast d :: 5 word) \<noteq> 0" using u32_reg [OF assms(4)] assms(5) by (metis unsigned_0)
  show ?thesis
    using imm_value [OF assms(1-3)] imm_cmp_value [OF assms(1-3)] d by (simp add: sets_reg_def imm_insn_def)
qed

lemma sub_zero:
  fixes fc :: "32 word"
  shows "alu_exec (alu_of TOK_SUB) (\<not> wide bt) (in_reg bt x) (scast fc) = 0 \<longleftrightarrow> in_reg bt x = scast fc"
proof (cases "wide bt")
  case False
  have "scast (u32 x - fc) = (0 :: 64 word) \<longleftrightarrow> u32 x - fc = 0" using reg_less(3) [of "u32 x - fc" 0] by simp
  then show ?thesis using False reg_less(3) [of "u32 x" fc]
    by (simp add: alu_exec_def alu_of_def in_reg_def u32_arith u32_scast)
qed (simp add: alu_exec_def alu_of_def)

lemma imm_code_gv2: "by_imm op long fc \<Longrightarrow> imm_code gv2 op long d a fc s = imm_code gv2' op long d a fc s"
proof -
  have o: "opil_once gv2 p long d a fc s = opil_once gv2' p long d a fc s" if "opil_cop p long fc \<noteq> None" for p
    using that by (auto simp: opil_once_def)
  assume "by_imm op long fc"
  then have "opil_imm gv2 op long d a fc s = opil_imm gv2' op long d a fc s"
    unfolding opil_imm_def by_imm_def using o [of "op - 1"] o [of TOK_SUB] o [of op]
    by (cases "inverted op"; cases "op = TOK_EQ \<or> op = TOK_NE"; cases "fc = 0") (simp_all add: disj_commute [of "op = TOK_NE"] del: One_nat_def)
  then show ?thesis by (simp only: imm_code_def)
qed

lemma imm_code_value:
  assumes "op \<in> imm_ops \<union> cmp_ops" "op_for uns op" "op \<in> shift_ops \<longrightarrow> bt \<noteq> VT_PTR" "imm_ok fc" "by_imm op (wide bt) fc" "normal bt uns x"
    "op \<notin> shift_ops \<longrightarrow> normal bt uns y" "in_reg (if op \<in> shift_ops then VT_INT else bt) y = scast fc" "d < 32" "a < 32" "d \<noteq> 0"
    "xr m (ucast a) = in_reg bt x" "code_inv s" "\<not> nocode_wanted s"
  shows "\<exists>is s'. imm_code gv2 op (wide bt) d a fc s = Inr s' \<and> wrote s is s' \<and> sets_reg is (ucast d) m (in_reg bt (c_op op bt uns x y))"
proof -
  have v: "in_reg bt (c_op op bt uns x y) = of_bool (cmp_sem op (in_reg bt x) (scast fc))" if "op \<in> cmp_ops"
  proof -
    have "op \<notin> shift_ops" using that by (auto simp: cmp_ops_def shift_ops_def)
    then show ?thesis using cmp_is_c_op [OF that assms(2,6)] assms(7,8) by (simp add: in_reg_def)
  qed
  note e = imm_emits [OF _ _ assms(4,9,10)] and i = imm_insn_sets [OF _ _ assms(4,9,11), where bt = bt and a = a and m = m]
  consider "inverted op" | "op = TOK_EQ \<or> op = TOK_NE" "fc = 0" | "op = TOK_EQ \<or> op = TOK_NE" "fc \<noteq> 0"
    | "op \<in> imm_ops" "op \<in> cmp_ops" "\<not> inverted op" "op \<noteq> TOK_EQ" "op \<noteq> TOK_NE" | "op \<in> imm_ops" "op \<notin> cmp_ops"
    using assms(1) by (auto simp: inverted_def cmp_ops_def imm_ops_def)
  then show ?thesis
  proof cases
    case 1
    define p where "p = op - 1"
    have p: "p \<in> imm_ops" "p \<in> cmp_ops" "is_cond p" "op \<in> cmp_ops" "(TOK_NE XOR 1 :: nat) = TOK_EQ"
      "cmp_sem op z w \<longleftrightarrow> \<not> cmp_sem p z w" for z w
      using 1 by (auto simp: p_def inverted_def imm_ops_def cmp_ops_def is_cond_def cmp_sem_def sless_sint)
    obtain f cll k where r: "opil_cop p (wide bt) fc = Some (f, cll, k)" using assms(5) 1 by (auto simp: by_imm_def p_def)
    have "imm_code gv2 op (wide bt) d a fc s = bindr (EI (0x13 OR cll) f d a k s) (load_cmp TOK_EQ d d 0)"
      unfolding imm_code_def opil_imm_def if_P [OF 1] p_def [symmetric] bindr_assoc once_eq [OF r] using p(3,5) by (simp add: in_register_def)
    then show ?thesis using then_test [OF e [OF p(1) r] i [OF p(1) r] _ assms(9,11,13,14), of TOK_EQ] p(2) v [OF p(4)] p(6) assms(12)
      by (auto simp: cmp_sem_def [of TOK_EQ])
  next
    case 2
    have o: "op \<in> cmp_ops" using 2(1) by (auto simp: cmp_ops_def)
    have d: "(ucast d :: 5 word) \<noteq> 0" using u32_reg [OF assms(9)] assms(11) by (metis unsigned_0)
    have "imm_code gv2 op (wide bt) d a fc s = run (cmp_code op d a 0) s"
      using 2 by (auto simp: imm_code_def opil_imm_def inverted_def in_register_def load_cmp_run [OF o])
    moreover obtain s' where "run (cmp_code op d a 0) s = Inr s'"
      "wrote s (cmp_insns op (d \<noteq> a \<or> (0 :: 32 word) \<noteq> 0) (ucast d) (ucast a) (ucast (0 :: 32 word))) s'"
      using emits_run [OF cmp_emits [OF o assms(9,10)] assms(13,14), of 0] by auto
    moreover have "sets_reg (cmp_insns op (d \<noteq> a) (ucast d) (ucast a) 0) (ucast d) m (of_bool (cmp_sem op (in_reg bt x) 0))"
      using cmp_sets [OF o d, of "d \<noteq> a" "ucast a" 0 m] assms(12) by (simp add: xr_zero)
    ultimately show ?thesis using v [OF o] 2(2) by auto
  next
    case 3
    have o: "op \<in> cmp_ops" "TOK_SUB \<in> imm_ops" "TOK_SUB \<notin> cmp_ops" "\<not> is_cond TOK_SUB" "TOK_SUB \<notin> bit_ops"
      using 3(1) by (auto simp: cmp_ops_def imm_ops_def is_cond_def bit_ops_def)
    obtain f cll k where r: "opil_cop TOK_SUB (wide bt) fc = Some (f, cll, k)" using assms(5) 3 by (auto simp: by_imm_def inverted_def)
    have "imm_code gv2 op (wide bt) d a fc s = bindr (EI (0x13 OR cll) f d a k s) (load_cmp op d d 0)"
      using 3 o(4) by (auto simp: imm_code_def opil_imm_def inverted_def once_eq [OF r] in_register_def)
    then show ?thesis using then_test [OF e [OF o(2) r] i [OF o(2) r] 3(1) assms(9,11,13,14)] o(3,5) v [OF o(1)] 3(1) assms(12) sub_zero [of bt x fc]
      by (auto simp: cmp_sem_def [of TOK_EQ] cmp_sem_def [of TOK_NE])
  next
    case 4
    obtain f cll k where r: "opil_cop op (wide bt) fc = Some (f, cll, k)" using assms(5) 4 by (auto simp: by_imm_def)
    have "is_cond op" using 4(2) by (auto simp: cmp_ops_def is_cond_def)
    then have "imm_code gv2 op (wide bt) d a fc s = bindr (EI (0x13 OR cll) f d a k s) (load_cmp TOK_NE d d 0)"
      using 4 by (simp add: imm_code_def opil_imm_def once_eq [OF r] in_register_def)
    then show ?thesis using then_test [OF e [OF 4(1) r] i [OF 4(1) r] _ assms(9,11,13,14), of TOK_NE] 4(2) v [OF 4(2)] assms(12)
      by (auto simp: cmp_sem_def [of TOK_NE])
  next
    case 5
    have o: "\<not> is_cond op" "op \<in> value_ops" "op \<in> div_ops \<longrightarrow> y \<noteq> 0" "\<not> inverted op" "op \<noteq> TOK_EQ" "op \<noteq> TOK_NE"
      using 5 by (auto simp: imm_ops_def cmp_ops_def is_cond_def value_ops_def div_ops_def inverted_def)
    obtain f cll k where r: "opil_cop op (wide bt) fc = Some (f, cll, k)" using assms(5) o by (auto simp: by_imm_def)
    have "imm_code gv2 op (wide bt) d a fc s = EI (0x13 OR cll) f d a k s"
      using o by (simp add: imm_code_def opil_imm_def once_eq [OF r] in_register_def)
    moreover obtain s' where "EI (0x13 OR cll) f d a k s = Inr s'" "wrote s [imm_insn op (wide bt) fc (ucast d) (ucast a)] s'"
      using emits_one [OF e [OF 5(1) r] assms(13,14)] by blast
    ultimately show ?thesis
      using i [OF 5(1) r] 5(2) op_insn_value [OF o(2) assms(2,3) o(3) assms(6,7)] assms(8,12) by auto
  qed
qed

end
