(* ===== verification/GenFrame.thy ===== *)
theory GenFrame
  imports GenConst GenJumps
begin

text \<open>
  The frame of a function: the code that \<open>gfunc_epilog\<close> writes for entering and for leaving a function is run, and what
  the stack pointer, the frame pointer, the return address and the saved registers are then.
\<close>

unbundle bit_operations_syntax

section \<open>Saved registers\<close>

lemma store_other: "(\<And>k. k < n \<Longrightarrow> b \<noteq> a + of_nat k) \<Longrightarrow> store_bytes n a v m b = m b"
proof (induction n arbitrary: a v m)
  case (Suc n)
  have "b \<noteq> a + 1 + of_nat k" if "k < n" for k using Suc.prems [of "Suc k"] that by (simp add: ac_simps)
  moreover have "b \<noteq> a" using Suc.prems [of 0] by simp
  ultimately show ?case using Suc.IH [of "a + 1"] by simp
qed simp

lemma load_cong: "(\<And>k. k < n \<Longrightarrow> m (a + of_nat k) = m' (a + of_nat k)) \<Longrightarrow> load_bytes n a m = load_bytes n a m'"
proof (induction n arbitrary: a)
  case (Suc n)
  have "m (a + 1 + of_nat k) = m' (a + 1 + of_nat k)" if "k < n" for k using Suc.prems [of "Suc k"] that by (simp add: ac_simps)
  then show ?case using Suc.IH [of "a + 1"] Suc.prems [of 0] by simp
qed simp

lemma offset_eq: "i < 2 ^ 32 \<Longrightarrow> j < 2 ^ 32 \<Longrightarrow> (a + of_nat i = a + (of_nat j :: 64 word)) = (i = j)"
  by (simp add: word_unat_eq_iff [of "of_nat i"] unat_of_nat take_bit_nat_eq_self)

lemma take_all: "take_bit 64 x = x" for x :: "64 word"
  by (rule bit_word_eqI) (simp add: bit_take_bit_iff)

lemma load_store: "n \<le> 8 \<Longrightarrow> load_bytes n a (store_bytes n a v m) = take_bit (8 * n) v"
proof (induction n arbitrary: a v m)
  case (Suc n)
  have "a \<noteq> a + 1 + of_nat k" if "k < n" for k
    using that Suc.prems offset_eq [of 0 "Suc k" a] by (auto simp: add.assoc)
  then have "store_bytes n (a + 1) (drop_bit 8 v) (m(a := u8 v)) a = u8 v" by (subst store_other) simp_all
  moreover have "u64 (u8 v) OR push_bit 8 (take_bit (8 * n) (drop_bit 8 v)) = take_bit (8 * Suc n) v"
    by (rule bits_eqI) (auto simp: each_bit not_less)
  ultimately show ?case using Suc by simp
qed simp

lemma load_double: "load_ext WDouble False a m = load_bytes 8 a m"
proof -
  have "signed_take_bit 63 x = x" for x :: "64 word" by (rule bits_eqI) (simp add: each_bit min_def)
  then show ?thesis by (simp add: load_ext_def numeral_eq_Suc [of "num.Bit0 num.One"] del: load_bytes.simps)
qed

lemma save_two:
  fixes m :: "64 word \<Rightarrow> 8 word" and f x y :: "64 word"
  defines "m' \<equiv> store_bytes 8 (f - 16) y (store_bytes 8 (f - 8) x m)"
  assumes "\<And>k. k < 16 \<Longrightarrow> m2 (f - 16 + of_nat k) = m' (f - 16 + of_nat k)"
  shows "load_ext WDouble False (f - 8) m2 = x" "load_ext WDouble False (f - 16) m2 = y"
    "(\<And>k. k < 16 \<Longrightarrow> b \<noteq> f - 16 + of_nat k) \<Longrightarrow> m' b = m b"
proof -
  have s: "f - 8 + of_nat k = f - 16 + of_nat (8 + k)" for k by simp
  have "load_bytes 8 (f - 8) m2 = load_bytes 8 (f - 8) (store_bytes 8 (f - 8) x m)"
  proof (rule load_cong)
    fix k :: nat assume k: "k < 8"
    have "m2 (f - 8 + of_nat k) = m' (f - 8 + of_nat k)" unfolding s using k by (intro assms(2)) simp
    also have "\<dots> = store_bytes 8 (f - 8) x m (f - 8 + of_nat k)" unfolding m'_def
    proof (rule store_other)
      fix j :: nat assume "j < 8"
      then show "f - 8 + of_nat k \<noteq> f - 16 + of_nat j" using k offset_eq [of "8 + k" j "f - 16"] unfolding s by auto
    qed
    finally show "m2 (f - 8 + of_nat k) = store_bytes 8 (f - 8) x m (f - 8 + of_nat k)" .
  qed
  then show "load_ext WDouble False (f - 8) m2 = x" using load_store [of 8] by (simp add: load_double take_all)
  have "load_bytes 8 (f - 16) m2 = load_bytes 8 (f - 16) m'" using assms(2) by (intro load_cong) simp
  then show "load_ext WDouble False (f - 16) m2 = y" using load_store [of 8] by (simp add: load_double m'_def take_all)
  show "m' b = m b" if b: "\<And>k. k < 16 \<Longrightarrow> b \<noteq> f - 16 + of_nat k"
  proof -
    have "b \<noteq> f - 8 + of_nat k" if "k < 8" for k using b [of "8 + k"] that unfolding s by simp
    then show ?thesis using b unfolding m'_def by (simp add: store_other)
  qed
qed

section \<open>Immediates\<close>

lemma scast_int: "- (2 ^ 31) \<le> k \<Longrightarrow> k < 2 ^ 31 \<Longrightarrow> scast (word_of_int k :: 32 word) = (word_of_int k :: 64 word)"
proof -
  assume k: "- (2 ^ 31) \<le> k" "k < 2 ^ 31"
  then have "sint (word_of_int k :: 32 word) = k" by (simp only: sint_sbintrunc') (simp add: signed_take_bit_int_eq_self)
  then show ?thesis by (metis of_int_sint)
qed

lemma imm_ok_int: "- 2048 \<le> k \<Longrightarrow> k < 2048 \<Longrightarrow> imm_ok (word_of_int k)"
proof -
  assume k: "- 2048 \<le> k" "k < 2048"
  then have "sint (word_of_int k :: 32 word) = k" by (simp only: sint_sbintrunc') (simp add: signed_take_bit_int_eq_self)
  then show ?thesis using k by (simp add: imm_ok_def)
qed

section \<open>Code that is overwritten\<close>

lemma emits_within:
  assumes "list_all2 emits cs is" "code_inv s" "\<not> nocode_wanted s" "ind s + 4 * length is \<le> length (code_of s)"
  shows "\<exists>s'. run cs s = Inr s' \<and> wrote s is s' \<and> length (code_of s') = length (code_of s) \<and> \<not> nocode_wanted s' \<and>
    (\<forall>p. p + 4 \<le> ind s \<or> ind s + 4 * length is \<le> p \<longrightarrow> read32le (code_of s') p = read32le (code_of s) p)"
proof -
  have "\<exists>s'. run cs s = Inr s' \<and> length (code_of s') = length (code_of s) \<and> \<not> nocode_wanted s' \<and>
    (\<forall>p. p + 4 \<le> ind s \<or> ind s + 4 * length is \<le> p \<longrightarrow> read32le (code_of s') p = read32le (code_of s) p)"
    using assms
  proof (induction cs "is" arbitrary: s rule: list_all2_induct)
    case (Cons c cs i "is")
    then obtain w where w: "c = (\<lambda>s. Inr (gen_le32 w s))" by (auto simp: emits_def)
    define s1 where "s1 = gen_le32 w s"
    have "fit_text (ind s + 4) s = s" using Cons.prems by (simp add: fit_text_def code_inv_def cg_wf_def)
    then have d: "code_of s1 = write32le (code_of s) (ind s) w" "ind s1 = ind s + 4" "\<not> nocode_wanted s1"
      using Cons.prems(2) by (simp_all add: s1_def gen_le32_eq_o_emit o_emit_def Let_def)
    have "code_inv s1" using Cons.prems(1) gen32.emit_inv by (simp add: s1_def)
    then obtain s' where s': "run cs s1 = Inr s'" "length (code_of s') = length (code_of s1)" "\<not> nocode_wanted s'"
      "\<And>p. p + 4 \<le> ind s1 \<or> ind s1 + 4 * length is \<le> p \<Longrightarrow> read32le (code_of s') p = read32le (code_of s1) p"
      using Cons.IH [of s1] Cons.prems(3) d by (auto simp: le32.length_wr)
    have "read32le (code_of s1) p = read32le (code_of s) p" if "p + 4 \<le> ind s \<or> ind s + 4 \<le> p" for p
      unfolding d(1) using that by (intro le32.rd_wr_other) auto
    then show ?case using s' d w by (auto simp: s1_def [symmetric] le32.length_wr)
  qed simp
  then show ?thesis using emits_run [OF assms(1-3)] by auto
qed

lemma wrote_insn: "wrote s is s' \<Longrightarrow> k < length is \<Longrightarrow> insn_at (code_of s') (ind s + 4 * k) = Some (is ! k)"
proof -
  assume w: "wrote s is s'" "k < length is"
  then have "decode_at (code_of s') (ind s) (length is) ! k = map Some is ! k" by (simp add: wrote_def)
  then show ?thesis using w(2) by (simp add: decode_at_def insn_at_def)
qed

text \<open>A near jump at a known place.\<close>

lemma run_jump_last:
  assumes "list_all2 emits cs is" "code_inv s" "\<not> nocode_wanted s" "\<not> far (a - of_nat (ind s + 4 * length is))"
  shows "run (cs @ [gjmp_addr a]) s = run (cs @ [\<lambda>t. Inr (gen_le32 (0x6f OR jal_imm (a - of_nat (ind s + 4 * length is))) t)]) s"
proof -
  obtain s1 where "run cs s = Inr s1" "ind s1 = ind s + 4 * length is" using emits_run [OF assms(1-3)] by (auto simp: wrote_def)
  then show ?thesis using assms(4) by (simp add: run_append gjmp_addr_def gen_le32_eq_o_emit)
qed

section \<open>The instructions of the frame\<close>

text \<open>\<open>v\<close> is the size of the frame and \<open>n\<close> the number of registers that are saved for variable arguments. A frame of 2048
  bytes or more needs the register \<open>t0\<close> for its size.\<close>

definition near_part :: "int \<Rightarrow> int" where
  "near_part v = (if 2048 \<le> v then 16 else v)"

definition into_t0 :: "int \<Rightarrow> insn list" where
  "into_t0 k =
    [Lui 5 (scast (push_bit 12 (drop_bit 12 ((word_of_int k :: 32 word) + 0x800)))), OpImm Add False 5 5 (scast (lo12 (word_of_int k)))]"

definition epilog_insns :: "int \<Rightarrow> int \<Rightarrow> insn list" where
  "epilog_insns v n =
    (if 2048 \<le> v then into_t0 (v - 16) @ [Op Add False 2 2 5] else []) @
    [Load WDouble False 1 2 (word_of_int (near_part v - 8 - n * 8)), Load WDouble False 8 2 (word_of_int (near_part v - 16 - n * 8)),
     OpImm Add False 2 2 (word_of_int (near_part v)), Jalr 0 1 0]"

definition prolog_insns :: "int \<Rightarrow> int \<Rightarrow> insn list" where
  "prolog_insns v n =
    [OpImm Add False 2 2 (word_of_int (- near_part v)), Store WDouble 2 1 (word_of_int (near_part v - 8 - n * 8)),
     Store WDouble 2 8 (word_of_int (near_part v - 16 - n * 8))]"

definition large_insns_frame :: "int \<Rightarrow> int \<Rightarrow> insn list" where
  "large_insns_frame v n = OpImm Add False 8 2 (word_of_int (16 - n * 8)) # into_t0 (v - 16) @ [Op Sub False 2 2 5]"

definition frame_ok :: "int \<Rightarrow> int \<Rightarrow> bool" where
  "frame_ok v n \<longleftrightarrow> 16 \<le> v \<and> v < 2 ^ 31 - 2048 \<and> 0 \<le> n \<and> n \<le> 8"

lemma near_part_bounds: "frame_ok v n \<Longrightarrow> 16 \<le> near_part v \<and> near_part v < 2048"
  by (simp add: frame_ok_def near_part_def)

lemma emits_imm_int:
  assumes "- 2048 \<le> k" "k < 2048" "r < 32" "q < 32"
  shows "emits (EI 0x13 0 r q (word_of_int k)) (OpImm Add False (ucast r) (ucast q) (word_of_int k))"
    "emits (EI 0x03 3 r q (word_of_int k)) (Load WDouble False (ucast r) (ucast q) (word_of_int k))"
    "emits (ES 0x23 3 r q (word_of_int k)) (Store WDouble (ucast r) (ucast q) (word_of_int k))"
proof -
  have "scast (word_of_int k :: 32 word) = (word_of_int k :: 64 word)" using assms(1,2) by (intro scast_int) simp_all
  then show "emits (EI 0x13 0 r q (word_of_int k)) (OpImm Add False (ucast r) (ucast q) (word_of_int k))"
    "emits (EI 0x03 3 r q (word_of_int k)) (Load WDouble False (ucast r) (ucast q) (word_of_int k))"
    "emits (ES 0x23 3 r q (word_of_int k)) (Store WDouble (ucast r) (ucast q) (word_of_int k))"
    using emits_EI(1,8) [OF assms(3,4) imm_ok_int [OF assms(1,2)]] emits_ES [OF assms(3,4) imm_ok_int [OF assms(1,2)]] by simp_all
qed

lemma emits_t0: "list_all2 emits [upper 0x37 5 (word_of_int k), EI 0x13 0 5 5 (lo12 (word_of_int k))] (into_t0 k)"
  using emits_upper(1) [of 5 "word_of_int k"] emits_EI(1) [of 5 5 "lo12 (word_of_int k)"] by (simp add: into_t0_def)

lemma emits_sp: "emits (ER 0x33 0 2 2 5 0) (Op Add False 2 2 5)" "emits (ER 0x33 0 2 2 5 0x20) (Op Sub False 2 2 5)"
  "emits (EI 0x67 0 0 1 0) (Jalr 0 1 0)" "emits (EI 0x13 0 0 0 0) (OpImm Add False 0 0 0)"
proof -
  have e: "decode_op 0 0 = Some Add" "decode_op 0x20 0 = Some Sub" by (simp_all add: decode_op_def)
  have o: "imm_ok 0" using imm_ok_int [of 0] by simp
  note r = emits_ER(1) [OF _ _ _ e(1), simplified] emits_ER(1) [OF _ _ _ e(2), simplified] emits_EI(1,9) [where ?r1.0 = 0, OF _ _ o, simplified]
    emits_EI(9) [where ?r1.0 = 1, OF _ _ o, simplified]
  show "emits (ER 0x33 0 2 2 5 0) (Op Add False 2 2 5)" "emits (ER 0x33 0 2 2 5 0x20) (Op Sub False 2 2 5)"
    "emits (EI 0x67 0 0 1 0) (Jalr 0 1 0)" "emits (EI 0x13 0 0 0 0) (OpImm Add False 0 0 0)"
    using r(1) [of 2 2 5 0 0] r(2) [of 2 2 5 0 "0x20"] r(5) [of 0] r(3) [of 0] by simp_all
qed

definition epilog_cmds :: "int \<Rightarrow> int \<Rightarrow> 'a code list" where
  "epilog_cmds v n =
    (if 2048 \<le> v then [upper 0x37 5 (word_of_int (v - 16)), EI 0x13 0 5 5 (lo12 (word_of_int (v - 16)))] @ [ER 0x33 0 2 2 5 0] else []) @
    [EI 0x03 3 1 2 (word_of_int (near_part v - 8 - n * 8)), EI 0x03 3 8 2 (word_of_int (near_part v - 16 - n * 8)),
     EI 0x13 0 2 2 (word_of_int (near_part v)), EI 0x67 0 0 1 0]"

definition prolog_cmds :: "int \<Rightarrow> int \<Rightarrow> 'a code list" where
  "prolog_cmds v n =
    [EI 0x13 0 2 2 (word_of_int (- near_part v)), ES 0x23 3 2 1 (word_of_int (near_part v - 8 - n * 8)),
     ES 0x23 3 2 8 (word_of_int (near_part v - 16 - n * 8))]"

definition large_cmds :: "int \<Rightarrow> int \<Rightarrow> 'a code list" where
  "large_cmds v n =
    [EI 0x13 0 8 2 (word_of_int (16 - n * 8))] @ [upper 0x37 5 (word_of_int (v - 16)), EI 0x13 0 5 5 (lo12 (word_of_int (v - 16)))] @
    [ER 0x33 0 2 2 5 0x20]"

lemma frame_emits:
  assumes "frame_ok v n"
  shows "list_all2 emits (epilog_cmds v n) (epilog_insns v n)" "list_all2 emits (prolog_cmds v n) (prolog_insns v n)"
    "list_all2 emits (large_cmds v n) (large_insns_frame v n)"
    "emits (EI 0x13 0 8 2 (word_of_int (near_part v - n * 8))) (OpImm Add False 8 2 (word_of_int (near_part v - n * 8)))"
proof -
  have b: "16 \<le> near_part v" "near_part v < 2048" "0 \<le> n" "n \<le> 8" using assms near_part_bounds [OF assms] by (simp_all add: frame_ok_def)
  then have k: "- 2048 \<le> near_part v - 8 - n * 8" "near_part v - 8 - n * 8 < 2048" "- 2048 \<le> near_part v - 16 - n * 8" "near_part v - 16 - n * 8 < 2048"
    "- 2048 \<le> near_part v" "- 2048 \<le> - near_part v" "- near_part v < 2048" "- 2048 \<le> 16 - n * 8" "16 - n * 8 < 2048"
    "- 2048 \<le> near_part v - n * 8" "near_part v - n * 8 < 2048" by simp_all
  note e = emits_imm_int [where r = 1 and q = 2, simplified] emits_imm_int [where r = 8 and q = 2, simplified] emits_imm_int [where r = 2 and q = 2, simplified]
    emits_imm_int [where r = 2 and q = 1, simplified] emits_imm_int [where r = 2 and q = 8, simplified]
  show "list_all2 emits (epilog_cmds v n) (epilog_insns v n)"
    unfolding epilog_cmds_def epilog_insns_def
    by (cases "2048 \<le> v"; simp only: if_True if_False; intro list_all2_appendI emits_t0)
      (simp_all add: emits_sp e k b del: of_int_diff of_int_mult)
  show "list_all2 emits (prolog_cmds v n) (prolog_insns v n)"
    unfolding prolog_cmds_def prolog_insns_def using b by (simp add: e k del: of_int_diff of_int_mult of_int_minus)
  have c: "x # xs @ ys = [x] @ xs @ ys" for x :: insn and xs ys by simp
  show "list_all2 emits (large_cmds v n) (large_insns_frame v n)"
    unfolding large_cmds_def large_insns_frame_def c
    by (intro list_all2_appendI emits_t0) (simp_all add: e k emits_sp del: of_int_diff of_int_mult)
  show "emits (EI 0x13 0 8 2 (word_of_int (near_part v - n * 8))) (OpImm Add False 8 2 (word_of_int (near_part v - n * 8)))"
    by (rule e) (rule k)+
qed

section \<open>The commands of the source\<close>

lemma run_one_cmd: "(if p then run cs s else run ds s) = run (if p then cs else ds) s"
  by simp

lemma frame_words:
  fixes w k :: "32 word"
  assumes "frame_ok v n" "w = word_of_int v" "k = word_of_int n"
  shows "2048 \<le> sint w \<longleftrightarrow> 2048 \<le> v" "(if 2048 \<le> v then 16 else w) = word_of_int (near_part v)"
    "w - 16 = word_of_int (v - 16)"
    "word_of_int (near_part v) - 8 - k * 8 = word_of_int (near_part v - 8 - n * 8)"
    "word_of_int (near_part v) - 16 - k * 8 = word_of_int (near_part v - 16 - n * 8)"
    "word_of_int (near_part v) - k * 8 = word_of_int (near_part v - n * 8)"
    "16 - k * 8 = word_of_int (16 - n * 8)" "- (word_of_int (near_part v) :: 32 word) = word_of_int (- near_part v)"
proof -
  have "sint w = v" unfolding assms(2) using assms(1)
    by (simp only: sint_sbintrunc') (simp add: frame_ok_def signed_take_bit_int_eq_self)
  then show "2048 \<le> sint w \<longleftrightarrow> 2048 \<le> v" "(if 2048 \<le> v then 16 else w) = word_of_int (near_part v)"
    using assms(2) by (simp_all add: near_part_def)
qed (simp_all add: assms)

lemma epilog_code_eq:
  assumes "frame_ok v n"
  shows "epilog_code (word_of_int v) (word_of_int n) = run (epilog_cmds v n)"
  unfolding epilog_code_def Let_def frame_words [OF assms refl refl] epilog_cmds_def
  by (simp only: append_Cons append_Nil)

lemma large_frame_code_eq:
  assumes "frame_ok v n"
  shows "large_frame_code (word_of_int v) (word_of_int n) start = run (large_cmds v n @ [gjmp_addr (of_nat (start + 5 * 4))])"
  unfolding large_frame_code_def frame_words(3,7) [OF assms refl refl] large_cmds_def by (simp only: append_Cons append_Nil)

lemma prolog_code_eq:
  assumes "frame_ok v n"
  shows "prolog_code (word_of_int v) (word_of_int n) large =
    run (prolog_cmds v n @ [if 2048 \<le> v then gjmp_addr (of_nat large) else EI 0x13 0 8 2 (word_of_int (near_part v - n * 8))])"
  unfolding prolog_code_def Let_def frame_words [OF assms refl refl] prolog_cmds_def
  by (simp only: append_Cons append_Nil)

section \<open>Running it\<close>

lemma t0_value:
  assumes "0 \<le> k" "k < 2 ^ 31 - 2048"
  shows "sets_reg (into_t0 k) 5 m (word_of_int k)"
proof -
  define x :: "32 word" where "x = word_of_int k"
  define h where "h = push_bit 12 (drop_bit 12 (x + 0x800))"
  have x: "sint x = k" unfolding x_def using assms by (simp only: sint_sbintrunc') (simp add: signed_take_bit_int_eq_self)
  have l: "- 2048 \<le> sint (lo12 x)" "sint (lo12 x) < 2048" using imm_ok_lo12 [of x] by (simp_all add: imm_ok_def)
  have "h = word_of_int (sint x - sint (lo12 x))" using upper_lower [of x] by (simp add: h_def) (metis add_diff_cancel_right')
  then have "sint h = sint x - sint (lo12 x)" using l x assms
    by (simp only: sint_sbintrunc') (simp add: signed_take_bit_int_eq_self)
  then have "sint h + sint (lo12 x) = k" using x by simp
  moreover have "scast h + scast (lo12 x) = (word_of_int (sint h + sint (lo12 x)) :: 64 word)" by simp
  ultimately have "scast h + scast (lo12 x) = (word_of_int k :: 64 word)" by simp
  then show ?thesis by (simp add: sets_reg_def into_t0_def alu_exec_def h_def x_def)
qed

text \<open>The frame pointer is above the saved registers and, in a function with variable arguments, below the registers that
  are saved for them.\<close>

definition frame_ptr :: "int \<Rightarrow> rv \<Rightarrow> 64 word" where
  "frame_ptr n m = xr m 2 - word_of_int (n * 8)"

definition saved :: "int \<Rightarrow> rv \<Rightarrow> 64 word \<Rightarrow> 8 word" where
  "saved n m = store_bytes 8 (frame_ptr n m - 16) (xr m 8) (store_bytes 8 (frame_ptr n m - 8) (xr m 1) (rmem m))"

definition entered :: "int \<Rightarrow> int \<Rightarrow> rv \<Rightarrow> rv \<Rightarrow> bool" where
  "entered v n m m1 \<longleftrightarrow> xr m1 2 = xr m 2 - word_of_int v \<and> xr m1 8 = frame_ptr n m \<and> rmem m1 = saved n m \<and>
    (\<forall>q. q \<notin> {2, 5, 8} \<longrightarrow> xr m1 q = xr m q)"

lemma prolog_exec:
  "\<exists>m1. exec_list (prolog_insns v n) m = Some m1 \<and> pc m1 = pc m + 12 \<and> xr m1 2 = xr m 2 - word_of_int (near_part v) \<and>
    rmem m1 = saved n m \<and> (\<forall>q. q \<noteq> 2 \<longrightarrow> xr m1 q = xr m q)"
proof -
  have a: "xr m 2 - word_of_int d + word_of_int (d - 8 - n * 8) = frame_ptr n m - 8"
    "xr m 2 - word_of_int d + word_of_int (d - 16 - n * 8) = frame_ptr n m - 16" for d
    by (simp_all add: frame_ptr_def)
  show ?thesis by (simp add: prolog_insns_def alu_exec_def a saved_def del: of_int_diff of_int_mult)
qed

lemma small_frame_exec:
  assumes "\<not> 2048 \<le> v"
  shows "\<exists>m1. exec_list (prolog_insns v n @ [OpImm Add False 8 2 (word_of_int (near_part v - n * 8)), OpImm Add False 0 0 0]) m = Some m1 \<and>
    pc m1 = pc m + 20 \<and> entered v n m m1"
proof -
  obtain m1 where m1: "exec_list (prolog_insns v n) m = Some m1" "pc m1 = pc m + 12" "xr m1 2 = xr m 2 - word_of_int (near_part v)"
    "rmem m1 = saved n m" "\<And>q. q \<noteq> 2 \<Longrightarrow> xr m1 q = xr m q" using prolog_exec by blast
  have "xr m 2 - word_of_int (near_part v) + word_of_int (near_part v - n * 8) = frame_ptr n m" by (simp add: frame_ptr_def)
  then show ?thesis using m1 assms
    by (simp add: exec_list_append alu_exec_def entered_def near_part_def set_xr_def [of 0] del: of_int_diff of_int_mult)
qed

lemma large_frame_exec:
  assumes "2048 \<le> v" "frame_ok v n"
  shows "\<exists>m1. exec_list (prolog_insns v n @ [Jal 0 j]) m = Some m1 \<and> pc m1 = pc m + 12 + j \<and>
    (\<exists>m2. exec_list (large_insns_frame v n @ [Jal 0 k]) m1 = Some m2 \<and> pc m2 = pc m1 + 16 + k \<and> entered v n m m2)"
proof -
  obtain m1 where m1: "exec_list (prolog_insns v n) m = Some m1" "pc m1 = pc m + 12" "xr m1 2 = xr m 2 - 16"
    "rmem m1 = saved n m" "\<And>q. q \<noteq> 2 \<Longrightarrow> xr m1 q = xr m q"
    using prolog_exec [of v n m] assms(1) by (auto simp: near_part_def)
  define ma where "ma = m1\<lparr>pc := pc m1 + j\<rparr>"
  define mb where "mb = next_pc (set_xr 8 (xr ma 2 + word_of_int (16 - n * 8)) ma)"
  obtain mc where mc: "exec_list (into_t0 (v - 16)) mb = Some mc" "pc mc = pc mb + 8" "rmem mc = rmem mb" "xr mc 5 = word_of_int (v - 16)"
    "\<And>q. q \<noteq> 5 \<Longrightarrow> xr mc q = xr mb q"
    using t0_value [of "v - 16" mb] assms by (auto simp: sets_reg_def frame_ok_def into_t0_def)
  have "exec_list (prolog_insns v n @ [Jal 0 j]) m = Some ma" by (simp add: exec_list_append m1(1) ma_def set_xr_def [of 0])
  moreover have "\<exists>m2. exec_list (large_insns_frame v n @ [Jal 0 k]) ma = Some m2 \<and> pc m2 = pc ma + 16 + k \<and> entered v n m m2"
  proof -
    define md where "md = next_pc (set_xr 2 (xr mc 2 - xr mc 5) mc)"
    have "exec_list (large_insns_frame v n @ [Jal 0 k]) ma = Some (md\<lparr>pc := pc md + k\<rparr>)"
      using mc(1) by (simp add: large_insns_frame_def exec_list_append alu_exec_def mb_def [symmetric] md_def [symmetric] set_xr_def [of 0] del: of_int_diff of_int_mult)
    moreover have "pc md = pc ma + 16" by (simp add: md_def mc(2) mb_def)
    moreover have "xr md 2 = xr m 2 - word_of_int v" using m1(3) by (simp add: md_def mc(4,5) mb_def ma_def)
    moreover have "xr md 8 = frame_ptr n m" using m1(3) by (simp add: md_def mc(5) mb_def ma_def frame_ptr_def)
    moreover have "rmem md = saved n m" by (simp add: md_def mc(3) mb_def ma_def m1(4))
    moreover have "xr md q = xr m q" if "q \<notin> {2, 5, 8}" for q using that by (simp add: md_def mc(5) mb_def ma_def m1(5))
    ultimately show ?thesis by (simp add: entered_def)
  qed
  ultimately show ?thesis using m1(2) by (auto simp: ma_def)
qed

definition left :: "rv \<Rightarrow> rv \<Rightarrow> rv \<Rightarrow> bool" where
  "left m m2 m3 \<longleftrightarrow> pc m3 = xr m 1 AND NOT 1 \<and> xr m3 1 = xr m 1 \<and> xr m3 2 = xr m 2 \<and> xr m3 8 = xr m 8 \<and> rmem m3 = rmem m2 \<and>
    (\<forall>q. q \<notin> {1, 2, 5, 8} \<longrightarrow> xr m3 q = xr m2 q)"

lemma epilog_exec:
  assumes "frame_ok v n" "xr m2 2 = xr m 2 - word_of_int v"
    "\<And>k. k < 16 \<Longrightarrow> rmem m2 (frame_ptr n m - 16 + of_nat k) = saved n m (frame_ptr n m - 16 + of_nat k)"
  shows "\<exists>m3. exec_list (epilog_insns v n) m2 = Some m3 \<and> left m m2 m3"
proof -
  define near where "near = [Load WDouble False 1 2 (word_of_int (near_part v - 8 - n * 8)), Load WDouble False 8 2 (word_of_int (near_part v - 16 - n * 8)),
     OpImm Add False 2 2 (word_of_int (near_part v)), Jalr 0 1 0]"
  have a: "xr m 2 - word_of_int d + word_of_int (d - 8 - n * 8) = frame_ptr n m - 8"
    "xr m 2 - word_of_int d + word_of_int (d - 16 - n * 8) = frame_ptr n m - 16" for d
    by (simp_all add: frame_ptr_def)
  note l = save_two(1,2) [of "rmem m2" "frame_ptr n m" "xr m 8" "xr m 1" "rmem m", folded saved_def, OF assms(3)]
  have n: "\<exists>m3. exec_list near m' = Some m3 \<and> left m m' m3" if "xr m' 2 = xr m 2 - word_of_int (near_part v)" "rmem m' = rmem m2" for m'
    using that l by (simp add: near_def a left_def alu_exec_def set_xr_def [of 0] del: of_int_diff of_int_mult)
  show ?thesis
  proof (cases "2048 \<le> v")
    case False
    then show ?thesis using n [of m2] assms(2) by (simp add: epilog_insns_def near_def near_part_def)
  next
    case True
    obtain mc where mc: "exec_list (into_t0 (v - 16)) m2 = Some mc" "rmem mc = rmem m2" "xr mc 5 = word_of_int (v - 16)"
      "\<And>q. q \<noteq> 5 \<Longrightarrow> xr mc q = xr m2 q"
      using t0_value [of "v - 16" m2] assms(1) True by (auto simp: sets_reg_def frame_ok_def)
    define md where "md = next_pc (set_xr 2 (xr mc 2 + xr mc 5) mc)"
    have "xr md 2 = xr m 2 - word_of_int (near_part v)" "rmem md = rmem m2" using mc assms(2) True by (simp_all add: md_def near_part_def)
    then obtain m3 where m3: "exec_list near md = Some m3" "left m md m3" using n by blast
    have "epilog_insns v n = into_t0 (v - 16) @ Op Add False 2 2 5 # near" using True by (simp add: epilog_insns_def near_def)
    then have "exec_list (epilog_insns v n) m2 = Some m3" using mc(1) m3(1)
      by (simp add: exec_list_append alu_exec_def md_def)
    then show ?thesis using m3(2) mc(2,4) by (auto simp: left_def md_def)
  qed
qed

section \<open>The whole function\<close>

text \<open>Code that stands in the section, and its run.\<close>

definition stands :: "8 word list \<Rightarrow> nat \<Rightarrow> insn list \<Rightarrow> bool" where
  "stands d p is \<longleftrightarrow> p + 4 * length is \<le> length d \<and> (\<forall>k < length is. insn_at d (p + 4 * k) = Some (is ! k))"

lemma stands_run:
  assumes "stands d p (is @ [i])" "list_all straight is" "length d < 2 ^ 64" "pc m = base + of_nat p" "exec_list (is @ [i]) m = Some m'"
  shows "run_code (n + length (is @ [i])) d base m = run_code n d base m'"
  using assms run_list [of "is" i d p m base m' n] by (simp add: stands_def)

lemma all_nth_append:
  "(\<forall>k < length (xs @ ys). P k ((xs @ ys) ! k)) \<longleftrightarrow> (\<forall>k < length xs. P k (xs ! k)) \<and> (\<forall>k < length ys. P (length xs + k) (ys ! k))"
proof (induction xs arbitrary: P)
  case (Cons x xs)
  show ?case using Cons.IH [of "\<lambda>k. P (Suc k)"] by (auto simp: All_less_Suc2)
qed simp

lemma stands_append: "stands d p (xs @ ys) \<longleftrightarrow> stands d p xs \<and> stands d (p + 4 * length xs) ys"
  using all_nth_append [of xs ys "\<lambda>k i. insn_at d (p + 4 * k) = Some i"] by (auto simp: stands_def algebra_simps)

lemma stands_runs:
  assumes "stands d p (is @ [i])" "list_all straight is" "length d < 2 ^ 64" "pc m = base + of_nat p" "exec_list (is @ [i]) m = Some m'"
  shows "\<exists>k. run_code k d base m = Some m'"
  using stands_run [OF assms, of 0] by (metis run_code.simps(1))

lemma wrote_stands: "wrote s is s' \<Longrightarrow> stands (code_of s') (ind s) is"
  using wrote_insn [of s "is" s'] by (auto simp: stands_def wrote_def code_inv_def)

lemma stands_keeps:
  assumes "stands d p is" "\<And>q. p \<le> q \<Longrightarrow> q + 4 \<le> p + 4 * length is \<Longrightarrow> read32le d' q = read32le d q" "p + 4 * length is \<le> length d'"
  shows "stands d' p is"
  using assms by (auto simp: stands_def insn_at_def)

lemma emits_near_jump:
  "emits (\<lambda>s. Inr (gen_le32 (0x6f OR jal_imm x) s)) (Jal 0 (j_dist (scast x)))"
  using decode_jump by (auto simp: emits_def)

text \<open>What \<open>gfunc_epilog\<close> leaves: the instructions for entering at the place that was left for them, those for leaving at
  the end, and the code between them.\<close>

definition frame_code :: "int \<Rightarrow> int \<Rightarrow> nat \<Rightarrow> nat \<Rightarrow> 8 word list \<Rightarrow> bool" where
  "frame_code v n start e d \<longleftrightarrow>
    stands d e (epilog_insns v n) \<and>
    (if 2048 \<le> v then
       (\<exists>i. stands d start (prolog_insns v n @ [Jal 0 (of_nat (e + 28) - of_nat (start + 12)), i])) \<and>
       stands d (e + 28) (large_insns_frame v n @ [Jal 0 (of_nat (start + 20) - of_nat (e + 28 + 16))])
     else stands d start (prolog_insns v n @ [OpImm Add False 8 2 (word_of_int (near_part v - n * 8)), OpImm Add False 0 0 0]))"

lemma frame_code_runs:
  assumes "frame_code v n start e d" "frame_ok v n" "length d < 2 ^ 64" "pc m = base + of_nat start"
  shows "\<exists>k m1. run_code k d base m = Some m1 \<and> pc m1 = base + of_nat (start + 20) \<and> entered v n m m1 \<and>
    (\<forall>m2. pc m2 = base + of_nat e \<and> xr m2 2 = xr m1 2 \<and>
      (\<forall>i < 16. rmem m2 (frame_ptr n m - 16 + of_nat i) = rmem m1 (frame_ptr n m - 16 + of_nat i)) \<longrightarrow>
      (\<exists>k m3. run_code k d base m2 = Some m3 \<and> left m m2 m3))"
proof -
  have st: "list_all straight (prolog_insns v n)" "list_all straight (large_insns_frame v n)" "list_all straight (butlast (epilog_insns v n))"
    by (simp_all add: prolog_insns_def large_insns_frame_def epilog_insns_def into_t0_def butlast_append)
  have "\<exists>k m1. run_code k d base m = Some m1 \<and> pc m1 = base + of_nat (start + 20) \<and> entered v n m m1"
  proof (cases "2048 \<le> v")
    case False
    then obtain m1 where m1: "exec_list ((prolog_insns v n @ [OpImm Add False 8 2 (word_of_int (near_part v - n * 8))]) @ [OpImm Add False 0 0 0]) m = Some m1"
      "pc m1 = pc m + 20" "entered v n m m1" using small_frame_exec [of v n m] by auto
    have "stands d start ((prolog_insns v n @ [OpImm Add False 8 2 (word_of_int (near_part v - n * 8))]) @ [OpImm Add False 0 0 0])"
      using assms(1) False by (simp add: frame_code_def)
    then obtain k where "run_code k d base m = Some m1" using stands_runs [OF _ _ assms(3,4) m1(1)] st(1) by auto
    then show ?thesis using m1(2,3) assms(4) by (intro exI [of _ k] exI [of _ m1]) simp
  next
    case True
    define j k :: "64 word" where "j = of_nat (e + 28) - of_nat (start + 12)" and "k = of_nat (start + 20) - of_nat (e + 28 + 16)"
    obtain i where i: "stands d start (prolog_insns v n @ [Jal 0 j, i])" "stands d (e + 28) (large_insns_frame v n @ [Jal 0 k])"
      using assms(1) True by (auto simp: frame_code_def j_def k_def)
    have "stands d start (prolog_insns v n @ [Jal 0 j])" using i(1) stands_append [of d start "prolog_insns v n @ [Jal 0 j]" "[i]"] by simp
    moreover obtain m1 m2 where m: "exec_list (prolog_insns v n @ [Jal 0 j]) m = Some m1" "pc m1 = pc m + 12 + j"
      "exec_list (large_insns_frame v n @ [Jal 0 k]) m1 = Some m2" "pc m2 = pc m1 + 16 + k" "entered v n m m2"
      using large_frame_exec [OF True assms(2)] by metis
    moreover have p: "pc m1 = base + of_nat (e + 28)" "pc m2 = base + of_nat (start + 20)"
      using m(2,4) assms(4) by (simp_all add: j_def k_def)
    ultimately have "run_code (0 + length (large_insns_frame v n @ [Jal 0 k]) + length (prolog_insns v n @ [Jal 0 j])) d base m =
      run_code (0 + length (large_insns_frame v n @ [Jal 0 k])) d base m1"
      by (intro stands_run [OF _ st(1) assms(3,4)])
    also have "\<dots> = run_code 0 d base m2" by (rule stands_run [OF i(2) st(2) assms(3) p(1) m(3)])
    finally have "run_code (0 + length (large_insns_frame v n @ [Jal 0 k]) + length (prolog_insns v n @ [Jal 0 j])) d base m = Some m2" by simp
    then show ?thesis using p(2) m(5) by blast
  qed
  then obtain k m1 where m1: "run_code k d base m = Some m1" "pc m1 = base + of_nat (start + 20)" "entered v n m m1" by blast
  have "\<exists>k m3. run_code k d base m2 = Some m3 \<and> left m m2 m3"
    if a: "pc m2 = base + of_nat e" "xr m2 2 = xr m1 2" "\<forall>i < 16. rmem m2 (frame_ptr n m - 16 + of_nat i) = rmem m1 (frame_ptr n m - 16 + of_nat i)" for m2
  proof -
    have "xr m2 2 = xr m 2 - word_of_int v" "rmem m1 = saved n m" using a(2) m1(3) by (simp_all add: entered_def)
    then obtain m3 where m3: "exec_list (epilog_insns v n) m2 = Some m3" "left m m2 m3" using epilog_exec [OF assms(2), of m2 m] a(3) by auto
    obtain i where e: "epilog_insns v n = butlast (epilog_insns v n) @ [i]" by (metis append_butlast_last_id append_is_Nil_conv epilog_insns_def list.distinct(1))
    then have "stands d e (butlast (epilog_insns v n) @ [i])" using assms(1) by (simp add: frame_code_def)
    then have "\<exists>k. run_code k d base m2 = Some m3"
      using stands_runs [of d e "butlast (epilog_insns v n)" i m2 base m3] st(3) assms(3) a(1) m3(1) e by simp
    then show ?thesis using m3(2) by blast
  qed
  then show ?thesis using m1 by blast
qed

section \<open>What \<open>gfunc_epilog\<close> writes\<close>

lemma emits_nocode: "list_all2 emits cs is \<Longrightarrow> code_inv s \<Longrightarrow> run cs s = Inr s' \<Longrightarrow> nocode_wanted s' = nocode_wanted s"
proof (induction cs "is" arbitrary: s rule: list_all2_induct)
  case (Cons c cs i "is")
  then obtain w where w: "c s = Inr (gen_le32 w s)" by (auto simp: emits_def)
  have "code_inv (gen_le32 w s)" "nocode_wanted (gen_le32 w s) = nocode_wanted s"
    using Cons.prems(1) gen32.emit_inv gen32.emit_more by (auto simp: code_inv_def)
  then show ?case using Cons.IH [of "gen_le32 w s"] Cons.prems(2) w by simp
qed simp

lemma near_fits:
  assumes "even a" "even b" "a < 2 ^ 31" "b < 2 ^ 31" "a < b + 2 ^ 20" "b < a + 2 ^ 20"
  shows "\<not> far (of_nat a - of_nat b)" "j_dist (scast (of_nat a - of_nat b :: 32 word)) = of_nat a - of_nat b"
proof -
  have u: "unat (of_nat a :: 32 word) = a" using assms(3) by (simp add: unat_of_nat take_bit_nat_eq_self)
  then have w: "unat (of_nat a :: 32 word) < 2 ^ 31" using assms(3) by simp
  have d: "jump_dist (of_nat a) b = of_nat a - of_nat b" using u by (simp add: jump_dist_def) (metis of_nat_unat u)
  have s: "sint (jump_dist (of_nat a) b) = int a - int b" using dist_word(2) [OF w assms(4)] u by simp
  obtain c k where "a = 2 * c" "b = 2 * k" using assms(1,2) by (auto elim!: evenE)
  then have "jump_dist (of_nat a) b = 2 * (of_nat c - of_nat k)" unfolding d by (simp add: algebra_simps)
  then have e: "\<not> bit (jump_dist (of_nat a) b) 0" by (simp add: bit_0)
  have "jump_fits 20 (jump_dist (of_nat a) b)" "jump_fits 21 (jump_dist (of_nat a) b)"
    using s e assms(5,6) by (simp_all add: jump_fits_def)
  then show "\<not> far (of_nat a - of_nat b)" "j_dist (scast (of_nat a - of_nat b :: 32 word)) = of_nat a - of_nat b"
    using far_dist [OF w assms(4)] dist_word(3) [OF w assms(4)] j_dist_fits [of "jump_dist (of_nat a) b"] d by (simp_all add: jump_fits_def)
qed

lemma wrote_keeps:
  assumes "wrote s is s'" "code_inv s" "q + 4 \<le> ind s"
  shows "read32le (code_of s') q = read32le (code_of s) q"
proof (rule le32.rd_cong)
  fix j assume "q \<le> j" "j < q + 4"
  then have "j < ind s" using assms(3) by simp
  then show "code_of s' ! j = code_of s ! j" using assms(1) by (metis nth_take wrote_def)
qed

lemma near_jump_run:
  assumes "list_all2 emits cs is" "code_inv s" "\<not> nocode_wanted s" "p = ind s + 4 * length is"
    "even a" "even p" "a < 2 ^ 31" "p < 2 ^ 31" "a < p + 2 ^ 20" "p < a + 2 ^ 20"
  shows "\<exists>c. emits c (Jal 0 (of_nat a - of_nat p)) \<and> run (cs @ [gjmp_addr (of_nat a)]) s = run (cs @ [c]) s"
proof -
  note f = near_fits [OF assms(5-10)]
  have "emits (\<lambda>t :: 'a cg_scheme. Inr (gen_le32 (0x6f OR jal_imm (of_nat a - of_nat p)) t)) (Jal 0 (of_nat a - of_nat p))"
    using emits_near_jump [of "of_nat a - of_nat p"] unfolding f(2) .
  then show ?thesis using run_jump_last [OF assms(1-3), of "of_nat a"] f(1) unfolding assms(4) by blast
qed

lemma gfunc_epilog_code:
  assumes "code_inv s" "\<not> nocode_wanted s" "frame_ok v n" "frame_size s = word_of_int v" "num_va_regs s = word_of_int n"
    "func_sub_sp_offset s + 20 \<le> ind s"
    "2048 \<le> v \<Longrightarrow> even (func_sub_sp_offset s) \<and> even (ind s) \<and> ind s + 48 < 2 ^ 31 \<and> ind s + 48 < func_sub_sp_offset s + 2 ^ 20"
  shows "\<exists>s'. gfunc_epilog s = Inr s' \<and> ind s' = ind s + (if 2048 \<le> v then 48 else 16) \<and> code_inv s' \<and>
    frame_code v n (func_sub_sp_offset s) (ind s) (code_of s') \<and>
    (\<forall>p. p + 4 \<le> func_sub_sp_offset s \<or> func_sub_sp_offset s + 20 \<le> p \<and> p + 4 \<le> ind s \<longrightarrow> read32le (code_of s') p = read32le (code_of s) p)"
proof -
  define start where "start = func_sub_sp_offset s"
  define s0 where "s0 = s\<lparr>vloc := vloc s - num_va_regs s * 8\<rparr>"
  have s0: "code_inv s0" "\<not> nocode_wanted s0" "ind s0 = ind s" "code_of s0 = code_of s" using assms(1,2) by (simp_all add: s0_def code_inv_def cg_wf_def)
  note fe = frame_emits [OF assms(3)]
  obtain s1 where s1: "run (epilog_cmds v n) s0 = Inr s1" "wrote s0 (epilog_insns v n) s1" using emits_run [OF fe(1) s0(1,2)] by blast
  have l: "length (epilog_insns v n) = (if 2048 \<le> v then 7 else 4)" "length (large_insns_frame v n) = 4" "length (prolog_insns v n) = 3"
    by (simp_all add: epilog_insns_def large_insns_frame_def prolog_insns_def into_t0_def)
  have i1: "code_inv s1" "\<not> nocode_wanted s1" "ind s1 = ind s + 4 * length (epilog_insns v n)"
    using s1 s0 emits_nocode [OF fe(1) s0(1) s1(1)] by (simp_all add: wrote_def)
  have "\<exists>s2. (if 2048 \<le> v then large_frame_code (word_of_int v) (word_of_int n) start s1 else Inr s1) = Inr s2 \<and>
    wrote s1 (if 2048 \<le> v then large_insns_frame v n @ [Jal 0 (of_nat (start + 20) - of_nat (ind s + 28 + 16))] else []) s2 \<and> \<not> nocode_wanted s2"
  proof (cases "2048 \<le> v")
    case True
    have "ind s + 28 + 16 = ind s1 + 4 * length (large_insns_frame v n)" using True i1(3) l by simp
    moreover have "even (start + 20)" "even (ind s + 28 + 16)" "start + 20 < 2 ^ 31" "ind s + 28 + 16 < 2 ^ 31"
      "start + 20 < ind s + 28 + 16 + 2 ^ 20" "ind s + 28 + 16 < start + 20 + 2 ^ 20"
      using assms(6) assms(7) [OF True] unfolding start_def by simp_all
    ultimately obtain c where c: "emits c (Jal 0 (of_nat (start + 20) - of_nat (ind s + 28 + 16)))"
      "run (large_cmds v n @ [gjmp_addr (of_nat (start + 20))]) s1 = run (large_cmds v n @ [c]) s1"
      using near_jump_run [OF fe(3) i1(1,2)] by blast
    have e: "list_all2 emits (large_cmds v n @ [c]) (large_insns_frame v n @ [Jal 0 (of_nat (start + 20) - of_nat (ind s + 28 + 16))])"
      using fe(3) c(1) by (intro list_all2_appendI) simp_all
    obtain s2 where s2: "run (large_cmds v n @ [c]) s1 = Inr s2" "wrote s1 (large_insns_frame v n @ [Jal 0 (of_nat (start + 20) - of_nat (ind s + 28 + 16))]) s2"
      using emits_run [OF e i1(1,2)] by blast
    then show ?thesis using True c(2) emits_nocode [OF e i1(1) s2(1)] i1(2) by (simp add: large_frame_code_eq [OF assms(3)])
  qed (use i1 in \<open>simp add: wrote_def decode_at_def\<close>)
  then obtain s2 where s2: "(if 2048 \<le> v then large_frame_code (word_of_int v) (word_of_int n) start s1 else Inr s1) = Inr s2"
    "wrote s1 (if 2048 \<le> v then large_insns_frame v n @ [Jal 0 (of_nat (start + 20) - of_nat (ind s + 28 + 16))] else []) s2" "\<not> nocode_wanted s2"
    by blast
  define t where "t = s2\<lparr>ind := start\<rparr>"
  have ind: "ind s1 \<le> ind s2" "code_inv s2" "start + 20 \<le> ind s" "ind s2 = ind s + (if 2048 \<le> v then 48 else 16)"
    using s2(2) i1(3) l assms(6) by (simp_all add: wrote_def start_def)
  then have t: "code_inv t" "\<not> nocode_wanted t" "ind t = start" "code_of t = code_of s2" "start + 20 \<le> length (code_of s2)"
    using s2(3) i1(3) by (simp_all add: t_def code_inv_def cg_wf_def)
  define i4 where "i4 = (if 2048 \<le> v then Jal 0 (of_nat (ind s + 28) - of_nat (start + 12)) else OpImm Add False 8 2 (word_of_int (near_part v - n * 8)))"
  have "\<exists>c. emits c i4 \<and> prolog_code (word_of_int v) (word_of_int n) (ind s1) t = run (prolog_cmds v n @ [c]) t"
  proof (cases "2048 \<le> v")
    case True
    have "start + 12 = ind t + 4 * length (prolog_insns v n)" using t(3) l by simp
    moreover have "even (ind s + 28)" "even (start + 12)" "ind s + 28 < 2 ^ 31" "start + 12 < 2 ^ 31"
      "ind s + 28 < start + 12 + 2 ^ 20" "start + 12 < ind s + 28 + 2 ^ 20"
      using assms(6) assms(7) [OF True] unfolding start_def by simp_all
    ultimately obtain c where "emits c (Jal 0 (of_nat (ind s + 28) - of_nat (start + 12)))"
      "run (prolog_cmds v n @ [gjmp_addr (of_nat (ind s + 28))]) t = run (prolog_cmds v n @ [c]) t"
      using near_jump_run [OF fe(2) t(1,2)] by blast
    moreover have "ind s1 = ind s + 28" using True i1(3) l by simp
    ultimately show ?thesis using True unfolding prolog_code_eq [OF assms(3)] i4_def by auto
  next
    case False
    then show ?thesis using fe(4) unfolding prolog_code_eq [OF assms(3)] i4_def by auto
  qed
  then obtain c where c: "emits c i4" "prolog_code (word_of_int v) (word_of_int n) (ind s1) t = run (prolog_cmds v n @ [c]) t" by blast
  have e: "list_all2 emits (prolog_cmds v n @ [c]) (prolog_insns v n @ [i4])" using fe(2) c(1) by (intro list_all2_appendI) simp_all
  then have e5: "list_all2 emits ((prolog_cmds v n @ [c]) @ [EI 0x13 0 0 0 0]) ((prolog_insns v n @ [i4]) @ [OpImm Add False 0 0 0])"
    by (intro list_all2_appendI [OF e]) (simp add: emits_sp(4))
  obtain s3 where s3: "run (prolog_cmds v n @ [c]) t = Inr s3" "ind s3 = start + 16" using emits_run [OF e t(1,2)] t(3) l by (auto simp: wrote_def)
  obtain s4 where s4: "run ((prolog_cmds v n @ [c]) @ [EI 0x13 0 0 0 0]) t = Inr s4" "wrote t ((prolog_insns v n @ [i4]) @ [OpImm Add False 0 0 0]) s4"
    "length (code_of s4) = length (code_of t)"
    "\<And>p. p + 4 \<le> start \<or> start + 20 \<le> p \<Longrightarrow> read32le (code_of s4) p = read32le (code_of s2) p"
    using emits_within [OF e5 t(1,2)] t(3-5) l by auto
  have nop: "EI 0x13 0 0 0 0 s3 = Inr s4" using s4(1) s3(1) unfolding run_append [of "prolog_cmds v n @ [c]"] by (simp add: bindr_eq_Inr)
  define s' where "s' = s4\<lparr>ind := ind s2\<rparr>"
  have g: "gfunc_epilog s = Inr s'"
    unfolding gfunc_epilog_def Let_def assms(4,5)
    by (simp only: epilog_code_eq [OF assms(3)] s0_def [symmetric, unfolded assms(5)] s1(1) bindr.simps frame_words(1) [OF assms(3) refl refl]
        start_def [symmetric] s2(1) t_def [symmetric] c(2) s3 nop) (simp add: nop s'_def)
  have d: "code_of s' = code_of s4" by (simp add: s'_def)
  have r2: "read32le (code_of s2) q = read32le (code_of s1) q" if "q + 4 \<le> ind s1" for q using wrote_keeps [OF s2(2) i1(1) that] .
  have r1: "read32le (code_of s1) q = read32le (code_of s) q" if "q + 4 \<le> ind s" for q
    using wrote_keeps [OF s1(2) s0(1), of q] that s0(3,4) by simp
  have len: "length (code_of s4) = length (code_of s2)" "ind s2 \<le> length (code_of s2)" using s4(3) t(4) ind(2) by (simp_all add: code_inv_def)
  have "stands (code_of s1) (ind s) (epilog_insns v n)" using wrote_stands [OF s1(2)] s0(3) by simp
  then have "stands (code_of s4) (ind s) (epilog_insns v n)"
    by (rule stands_keeps) (use s4(4) r2 ind i1(3) len in auto)
  moreover have "stands (code_of s4) (ind s + 28) (large_insns_frame v n @ [Jal 0 (of_nat (start + 20) - of_nat (ind s + 28 + 16))])" if "2048 \<le> v"
  proof -
    have "stands (code_of s2) (ind s + 28) (large_insns_frame v n @ [Jal 0 (of_nat (start + 20) - of_nat (ind s + 28 + 16))])"
      using wrote_stands [OF s2(2)] i1(3) l that by simp
    then show ?thesis by (rule stands_keeps) (use s4(4) ind len l that in auto)
  qed
  moreover have "stands (code_of s4) start (prolog_insns v n @ [i4, OpImm Add False 0 0 0])" using wrote_stands [OF s4(2)] t(3) by simp
  ultimately have "frame_code v n start (ind s) (code_of s')" unfolding d frame_code_def i4_def by auto
  moreover have "ind s' = ind s + (if 2048 \<le> v then 48 else 16)" using ind(4) by (simp add: s'_def)
  moreover have "code_inv s'" using s4(2) len ind(2) by (simp add: s'_def code_inv_def cg_wf_def wrote_def)
  moreover have "read32le (code_of s') p = read32le (code_of s) p" if "p + 4 \<le> start \<or> start + 20 \<le> p \<and> p + 4 \<le> ind s" for p
    unfolding d using s4(4) [of p] r2 [of p] r1 [of p] that ind i1(3) by auto
  ultimately show ?thesis using g unfolding start_def by blast
qed

end
