(* ===== verification/OpicSound.thy ===== *)
theory OpicSound
  imports OpicFold
begin

text \<open>
  The simplifications of \<open>gen_opic\<close> keep the value: what is left on the stack, or left to the target to compute, has the
  value of the C operator on the two operands. A value that is not a constant has its contents when the program runs;
  the address of a symbol or of a local variable is a base and an offset.
\<close>

unbundle bit_operations_syntax

section \<open>The value of a stack entry\<close>

type_synonym env = "(16 word \<times> nat \<Rightarrow> 64 word) \<times> (svalue \<Rightarrow> 64 word)"

definition is_addr :: "svalue \<Rightarrow> bool" where
  "is_addr v \<longleftrightarrow> where_is v = VT_CONST OR VT_SYM \<or> where_is v = VT_LOCAL"

definition value_of :: "env \<Rightarrow> svalue \<Rightarrow> 64 word" where
  "value_of env v = as_type (sv_bt v) (sv_unsigned v)
    (if where_is v = VT_CONST then sv_c v
     else if is_addr v then fst env (where_is v, sv_sym v) + sv_c v else snd env v)"

lemma where_is_upd [simp]: "where_is (v\<lparr>sv_c := k\<rparr>) = where_is v" "where_is (v\<lparr>sv_r := sv_r v OR VT_NONCONST\<rparr>) = where_is v"
  "where_is (v\<lparr>sv_c := k, sv_r := sv_r v OR w AND VT_NONCONST\<rparr>) = where_is v"
  by (simp_all add: where_is_def) (rule bits_eqI, simp add: each_bit)+

lemma is_addr_upd [simp]: "is_addr (v\<lparr>sv_c := k\<rparr>) = is_addr v"
  by (simp add: is_addr_def)

lemma value_const: "where_is v = VT_CONST \<Longrightarrow> value_of env (v\<lparr>sv_c := k\<rparr>) = as_type (sv_bt v) (sv_unsigned v) k"
  by (simp add: value_of_def)

lemma value_normal: "normal (sv_bt v) (sv_unsigned v) (value_of env v)"
  by (simp add: value_of_def)

lemma as_type_value [simp]: "as_type (sv_bt v) (sv_unsigned v) (value_of env v) = value_of env v"
  using value_normal by (simp add: normal_def)

lemma mark_const_value:
  fixes s :: "'a vst_scheme"
  shows "\<exists>v'. mark_const (s\<lparr>vstack := v # vs\<rparr>) = Inr (s\<lparr>vstack := v' # vs\<rparr>) \<and> value_of env v' = value_of env v"
proof (cases "sv_r v = VT_CONST")
  case True
  then have "where_is v = VT_CONST" by (simp add: where_is_def)
  then have "value_of env (v\<lparr>sv_r := sv_r v OR VT_NONCONST\<rparr>) = value_of env v" by (simp add: value_of_def)
  moreover have "mark_const (s\<lparr>vstack := v # vs\<rparr>) = Inr (s\<lparr>vstack := v\<lparr>sv_r := sv_r v OR VT_NONCONST\<rparr> # vs\<rparr>)"
    using True by (simp add: mark_const_def upd_top_def)
  ultimately show ?thesis by blast
next
  case False
  then have "mark_const (s\<lparr>vstack := v # vs\<rparr>) = Inr (s\<lparr>vstack := v # vs\<rparr>)" by (simp add: mark_const_def upd_top_def)
  then show ?thesis by blast
qed

section \<open>Laws of the operators\<close>

lemma of_val_words: "of_val bt uns k = as_type bt uns (word_of_int k)"
  by (simp add: of_val_def)

lemma as_type_cong: "u32 x = u32 y \<Longrightarrow> \<not> wide bt \<Longrightarrow> as_type bt uns x = as_type bt uns y"
  by (simp add: as_type_eq)

lemma c_op_words:
  "c_op TOK_ADD bt uns x y = as_type bt uns (x + y)" "c_op TOK_SUB bt uns x y = as_type bt uns (x - y)"
  "c_op TOK_MUL bt uns x y = as_type bt uns (x * y)"
  by (simp_all only: c_op_def Let_def of_val_def of_int_add of_int_diff of_int_mult val_word if_True if_False, simp_all)

lemma c_op_bits:
  "c_op TOK_AND bt uns x y = as_type bt uns (x AND y)" "c_op TOK_OR bt uns x y = as_type bt uns (x OR y)"
  "c_op TOK_XOR bt uns x y = as_type bt uns (x XOR y)"
  by (simp_all add: c_op_def Let_def)

lemma c_op_div:
  "c_op TOK_DIV bt uns x y = of_val bt uns (val uns x sdiv val uns y)" "c_op TOK_UDIV bt uns x y = of_val bt uns (val uns x sdiv val uns y)"
  "c_op TOK_PDIV bt uns x y = of_val bt uns (val uns x sdiv val uns y)" "c_op TOK_MOD bt uns x y = of_val bt uns (val uns x smod val uns y)"
  "c_op TOK_UMOD bt uns x y = of_val bt uns (val uns x smod val uns y)"
  by (simp_all add: c_op_def Let_def)

lemma c_op_shift:
  "c_op TOK_SHL bt uns x y = of_val bt uns (val uns x * 2 ^ nat (uint y mod int (bit_width bt)))"
  "c_op TOK_SHR bt uns x y = of_val bt uns (val uns x div 2 ^ nat (uint y mod int (bit_width bt)))"
  "c_op TOK_SAR bt uns x y = of_val bt uns (val uns x div 2 ^ nat (uint y mod int (bit_width bt)))"
  by (simp_all add: c_op_def Let_def)

lemma c_op_eq: "c_op TOK_EQ bt uns x y = of_bool (val uns x = val uns y)" "c_op TOK_NE bt uns x y = of_bool (val uns x \<noteq> val uns y)"
  by (simp_all add: c_op_def Let_def)

lemmas c_op_simps = c_op_words c_op_bits c_op_div c_op_shift c_op_eq

lemma c_op_commute: "commutes op \<Longrightarrow> c_op op bt uns x y = c_op op bt uns y x"
  unfolding commutes_def by (elim disjE) (simp_all add: c_op_simps ac_simps eq_commute)

lemma as_type_bits: "as_type bt uns 0 = 0" "as_type bt False (- 1) = - 1"
  "\<not> wide bt \<Longrightarrow> as_type bt uns 0xFFFFFFFF = as_type bt uns (- 1)"
proof -
  have m: "u32 (- 1 :: 64 word) = - 1" "u32 (0xFFFFFFFF :: 64 word) = - 1" by (rule bits_eqI, simp add: each_bit)+
  show "as_type bt uns 0 = 0" "as_type bt False (- 1) = - 1" "\<not> wide bt \<Longrightarrow> as_type bt uns 0xFFFFFFFF = as_type bt uns (- 1)"
    unfolding as_type_eq m by simp_all
qed

lemma val_bits: "val uns 0 = 0" "val False (- 1) = - 1" "val uns 1 = 1"
  by (simp_all add: val_def)

text \<open>The left operand is a constant.\<close>

lemma c_op_shift_const:
  "op \<in> shift_ops \<Longrightarrow> c_op op bt uns 0 y = 0" "c_op TOK_SAR bt False (- 1) y = - 1"
proof -
  show "op \<in> shift_ops \<Longrightarrow> c_op op bt uns 0 y = 0" by (auto simp: shift_ops_def c_op_simps val_bits of_val_def as_type_bits)
  have "(- 1 :: int) div 2 ^ n = - 1" for n by (simp add: div_eq_minus1)
  then show "c_op TOK_SAR bt False (- 1) y = - 1" by (simp add: c_op_simps val_bits of_val_def as_type_bits)
qed

text \<open>The right operand is a constant.\<close>

definition ones :: "btype \<Rightarrow> 64 word \<Rightarrow> bool" where
  "ones bt y \<longleftrightarrow> y = - 1 \<or> (y = 0xFFFFFFFF \<and> \<not> wide bt)"

lemma c_op_absorb:
  assumes "normal bt uns y" "(y = 0 \<and> (op = TOK_AND \<or> op = TOK_MUL)) \<or> (op = TOK_OR \<and> ones bt y)"
  shows "c_op op bt uns x y = y"
proof -
  have "as_type bt uns (x OR y) = as_type bt uns y" if "ones bt y"
  proof (cases "y = - 1")
    case False
    then have n: "\<not> wide bt" "y = 0xFFFFFFFF" using that by (simp_all add: ones_def)
    have "u32 (x OR 0xFFFFFFFF) = u32 (0xFFFFFFFF :: 64 word)" by (rule bits_eqI) (simp add: each_bit)
    then show ?thesis unfolding n(2) by (rule as_type_cong [OF _ n(1)])
  qed simp
  then show ?thesis using assms
    by (elim disjE conjE) (simp_all add: c_op_simps as_type_bits normal_def)
qed

lemma c_op_mod_one: "op = TOK_MOD \<or> op = TOK_UMOD \<Longrightarrow> c_op op bt uns x 1 = 0"
  by (elim disjE) (simp_all add: c_op_simps val_bits of_val_def as_type_bits signed_modulo_int_def)

lemma c_op_neutral:
  assumes "normal bt uns x" "((op = TOK_MUL \<or> op = TOK_DIV \<or> op = TOK_UDIV \<or> op = TOK_PDIV) \<and> y = 1) \<or>
    ((op = TOK_ADD \<or> op = TOK_SUB \<or> op = TOK_OR \<or> op = TOK_XOR \<or> op \<in> shift_ops) \<and> y = 0) \<or> (op = TOK_AND \<and> ones bt y)"
  shows "c_op op bt uns x y = x"
proof -
  have v: "of_val bt uns (val uns x) = x" using assms(1) by (simp only: of_val_def val_word normal_def)
  have "as_type bt uns (x AND y) = as_type bt uns x" if "ones bt y"
  proof (cases "y = - 1")
    case False
    then have n: "\<not> wide bt" "y = 0xFFFFFFFF" using that by (simp_all add: ones_def)
    have "u32 (x AND 0xFFFFFFFF) = u32 x" by (rule bits_eqI) (simp add: each_bit)
    then show ?thesis unfolding n(2) by (rule as_type_cong [OF _ n(1)])
  qed simp
  then show ?thesis using assms v unfolding shift_ops_def
    by (elim disjE conjE insertE emptyE) (simp_all add: c_op_simps val_bits normal_def)
qed

text \<open>A power of two.\<close>

lemma count_shift_power: "count_shift (2 ^ n) k = k + int n + 1" if "n < 64" for k
  using that
proof (induction n arbitrary: k)
  case 0
  show ?case by (subst count_shift.simps, subst count_shift.simps) simp
next
  case (Suc n)
  have "(2 :: 64 word) ^ Suc n \<noteq> 0" using Suc.prems by (simp add: exp_eq_zero_iff del: power_Suc)
  moreover have "drop_bit 1 (2 ^ Suc n :: 64 word) = 2 ^ n"
    using Suc.prems by (intro bit_word_eqI) (auto simp: bit_drop_bit_eq bit_exp_iff simp del: power_Suc)
  ultimately show ?case using Suc.IH [of "k + 1"] Suc.prems by (subst count_shift.simps) simp
qed

lemma single_bit:
  fixes y :: "64 word"
  assumes "y > 0" "y AND (y - 1) = 0"
  obtains n where "n < 64" "y = 2 ^ n"
proof -
  have "y = 0" if "\<nexists>n. bit y n" using that by (intro bit_word_eqI) simp
  then have "\<exists>n. bit y n" using assms(1) by auto
  define n where "n = (LEAST n. bit y n)"
  have b: "bit y n" "\<And>m. m < n \<Longrightarrow> \<not> bit y m" unfolding n_def using \<open>\<exists>n. bit y n\<close> LeastI_ex not_less_Least by blast+
  have n: "n < 64" using bit_imp_le_length [OF b(1)] by simp
  define z where "z = y XOR 2 ^ n"
  have d: "y = z OR 2 ^ n" "\<And>m. m \<le> n \<Longrightarrow> \<not> bit z m"
    using b n by (auto intro!: bit_word_eqI simp: z_def bit_xor_iff bit_or_iff bit_exp_iff le_less)
  have y: "y = z + 2 ^ n" unfolding d(1) using d(2) by (intro disjunctive_add [symmetric]) (auto simp: bit_exp_iff)
  have "y - 1 = z + mask n" unfolding y by (simp add: mask_eq_exp_minus_1)
  also have "\<dots> = z OR mask n" using d(2) by (intro disjunctive_add) (auto simp: bit_mask_iff)
  finally have m: "y - 1 = z OR mask n" .
  have "z = (z OR 2 ^ n) AND (z OR mask n)" using d(2)
    by (intro bit_word_eqI) (auto simp: bit_and_iff bit_or_iff bit_exp_iff bit_mask_iff le_less)
  then have "z = y AND (y - 1)" by (simp only: m d(1) [symmetric])
  then have "z = 0" using assms(2) by simp
  then show thesis using that [OF n] y by simp
qed

text \<open>Multiplying by a power of two, or dividing by it, as a shift. The second operand of a division of pointers is a
  size, and divides the first.\<close>

definition as_shift :: "nat \<Rightarrow> nat" where
  "as_shift op = (if op = TOK_MUL then TOK_SHL else if op = TOK_PDIV then TOK_SAR else TOK_SHR)"

lemma normal_power_less:
  assumes "normal bt uns (2 ^ n)" "n < 64"
  shows "n < bit_width bt"
proof (rule ccontr)
  assume "\<not> n < bit_width bt"
  then have n: "\<not> wide bt" "32 \<le> n" using assms(2) by (auto simp: bit_width_def split: if_split_asm)
  then have "u32 (2 ^ n :: 64 word) = 0" by (intro bit_word_eqI) (simp add: bit_ucast_iff bit_exp_iff)
  then have "(2 :: 64 word) ^ n = 0" using normal_narrow [OF assms(1) n(1)] by (metis signed_0 unsigned_0)
  then show False using assms(2) by (simp add: exp_eq_zero_iff)
qed

lemma uint_power: "n < 64 \<Longrightarrow> uint (2 ^ n :: 64 word) = 2 ^ n"
proof -
  assume "n < 64"
  then have "(2 :: int) ^ n < 2 ^ 64" by (intro power_strict_increasing) simp_all
  then have "uint (word_of_int (2 ^ n) :: 64 word) = 2 ^ n" by (simp only: uint_word_of_int) simp
  then show ?thesis by simp
qed

lemma c_op_power:
  assumes "op = TOK_MUL \<or> op = TOK_PDIV \<or> op = TOK_UDIV" "n < 64" "normal bt uns (2 ^ n)" "op_for uns op"
    "op = TOK_PDIV \<longrightarrow> 0 < sint (2 ^ n :: 64 word) \<and> sint (2 ^ n :: 64 word) dvd sint x"
  shows "c_op (as_shift op) bt uns x (of_nat n) = c_op op bt uns x (2 ^ n)"
proof -
  have w: "bit_width bt \<le> 64" "n < bit_width bt" using normal_power_less [OF assms(3,2)] by (simp_all add: bit_width_def)
  have "uint (of_nat n :: 64 word) = int n" using assms(2) by (simp add: unsigned_of_nat take_bit_nat_eq_self)
  then have n: "nat (uint (of_nat n :: 64 word) mod int (bit_width bt)) = n" using w(2) by simp
  have m: "word_of_int (val uns x * 2 ^ n) = x * 2 ^ n" by (simp only: of_int_mult of_int_power of_int_numeral val_word)
  have u: "uint x div 2 ^ n = uint x sdiv uint (2 ^ n :: 64 word)"
    using nonneg_sdiv [of "uint x" "2 ^ n"] by (simp add: uint_power [OF assms(2)])
  have s: "sint x div 2 ^ n = sint x sdiv sint (2 ^ n :: 64 word)" if "op = TOK_PDIV"
  proof -
    have "0 < sint (2 ^ n :: 64 word)" "sint (2 ^ n :: 64 word) dvd sint x" using assms(5) that by simp_all
    moreover have "sint (2 ^ n :: 64 word) = 2 ^ n" using sint_split [of "2 ^ n :: 64 word"] uint_power [OF assms(2)] calculation(1) by simp
    ultimately show ?thesis by (simp add: signed_divide_int_eq_divide_int)
  qed
  have "op \<noteq> TOK_MUL \<Longrightarrow> uns = (op = TOK_UDIV)" using assms(1,4) by (auto simp: op_for_def plain_ops_def signed_ops_def unsigned_ops_def split: if_split_asm)
  moreover have "as_shift TOK_MUL = TOK_SHL" "as_shift TOK_PDIV = TOK_SAR" "as_shift TOK_UDIV = TOK_SHR" by (simp_all add: as_shift_def)
  ultimately show ?thesis using assms(1) m u s
    by (elim disjE) (simp_all only: c_op_simps n of_val_def, simp_all add: val_def)
qed

section \<open>The operator on the stack\<close>

text \<open>Operands for which \<open>gen_op\<close> calls \<open>gen_opic\<close>: of one type but for the amount of a shift, and a pointer is only added
  to, subtracted from and compared. Besides, what C leaves undefined and what is not a value yet is left out: a
  division is not by zero, the difference of two pointers is a multiple of the (positive) size it is divided by, and no
  operand is a comparison that has not been loaded (\<open>VT_CMP\<close>).\<close>

definition fits :: "env \<Rightarrow> nat \<Rightarrow> svalue \<Rightarrow> svalue \<Rightarrow> bool" where
  "fits env op v1 v2 \<longleftrightarrow>
    (let x = value_of env v1; y = value_of env v2
     in op_for (sv_unsigned v1) op \<and> (sv_bt v1 = VT_PTR \<longrightarrow> op \<in> {TOK_ADD, TOK_SUB} \<or> is_cond op) \<and>
        (op \<in> shift_ops \<or> sv_bt v2 = sv_bt v1 \<and> sv_unsigned v2 = sv_unsigned v1) \<and> (op \<in> div_ops \<longrightarrow> y \<noteq> 0) \<and>
        (op = TOK_PDIV \<longrightarrow> 0 < sint y \<and> sint y dvd sint x) \<and>
        sv_r v1 AND VT_VALMASK \<noteq> VT_CMP \<and> sv_r v2 AND VT_VALMASK \<noteq> VT_CMP)"

abbreviation c_value :: "env \<Rightarrow> nat \<Rightarrow> svalue \<Rightarrow> svalue \<Rightarrow> 64 word" where
  "c_value env op v1 v2 \<equiv> c_op op (sv_bt v1) (sv_unsigned v1) (value_of env v1) (value_of env v2)"

text \<open>What a computation that may call the target \<open>g\<close> does with the stack: either it leaves a value \<open>z\<close> in place of the
  operands and does not call the target, or it ends with the call of the target for one operator, which has the value \<open>z\<close>
  on the operands that are then on the stack. Nothing else of the state changes, and what it does is the same for
  every target.\<close>

definition reduces ::
  "env \<Rightarrow> svalue list \<Rightarrow> 64 word \<Rightarrow> 'a vst_scheme \<Rightarrow> ((nat \<Rightarrow> 'a vop) \<Rightarrow> 'a vst_scheme result) \<Rightarrow> bool" where
  "reduces env vs z s F \<longleftrightarrow>
    (\<exists>v. value_of env v = z \<and> (\<forall>g. F g = Inr (s\<lparr>vstack := v # vs\<rparr>))) \<or>
    (\<exists>op v1 v2. fits env op v1 v2 \<and> c_value env op v1 v2 = z \<and> (\<forall>g. F g = g op (s\<lparr>vstack := v2 # v1 # vs\<rparr>)))"

lemma reduces_Inr: "value_of env v = z \<Longrightarrow> reduces env vs z s (\<lambda>g. Inr (s\<lparr>vstack := v # vs\<rparr>))"
  by (auto simp: reduces_def)

lemma reduces_call:
  "fits env op v1 v2 \<Longrightarrow> c_value env op v1 v2 = z \<Longrightarrow> reduces env vs z s (\<lambda>g. g op (s\<lparr>vstack := v2 # v1 # vs\<rparr>))"
  unfolding reduces_def by blast

lemma reduces_if:
  "(P \<Longrightarrow> reduces env vs z s a) \<Longrightarrow> (\<not> P \<Longrightarrow> reduces env vs z s b) \<Longrightarrow> reduces env vs z s (\<lambda>g. if P then a g else b g)"
  by (cases P) simp_all

lemma not_cmp: "w AND VT_VALMASK \<noteq> VT_CMP \<Longrightarrow> w \<noteq> VT_CMP"
  by auto

lemma vswap_ops:
  assumes "vstack s = v2 # v1 # vs" "sv_r v2 AND VT_VALMASK \<noteq> VT_CMP"
  shows "vswap gv s = Inr (s\<lparr>vstack := v1 # v2 # vs\<rparr>)"
  using assms by (auto simp: vswap_def vcheck_cmp_def)

lemma vpop_ops: "vstack s = v2 # vs \<Longrightarrow> sv_r v2 AND VT_VALMASK \<noteq> VT_CMP \<Longrightarrow> vpop drp s = Inr (s\<lparr>vstack := vs\<rparr>)"
  by (simp add: vpop_def pop1_def)

text \<open>The constant that was added to an address.\<close>

lemma as_type_add: "as_type bt uns (as_type bt uns a + b) = as_type bt uns (a + b)" "as_type bt uns (as_type bt uns a - b) = as_type bt uns (a - b)"
proof -
  have w: "wide bt \<Longrightarrow> as_type bt uns a = a" by (simp add: as_type_eq)
  show "as_type bt uns (as_type bt uns a + b) = as_type bt uns (a + b)"
    using as_type_cong [of "as_type bt uns a + b" "a + b" bt uns] w by (cases "wide bt") (simp_all only: u32_arith u32_as_type not_False_eq_True simp_thms)
  show "as_type bt uns (as_type bt uns a - b) = as_type bt uns (a - b)"
    using as_type_cong [of "as_type bt uns a - b" "a - b" bt uns] w by (cases "wide bt") (simp_all only: u32_arith u32_as_type not_False_eq_True simp_thms)
qed

lemma address_value:
  assumes "is_addr v" "where_is v \<noteq> VT_CONST"
  shows "value_of env (v\<lparr>sv_c := y + sv_c v\<rparr>) = c_op TOK_ADD (sv_bt v) (sv_unsigned v) (value_of env v) y"
    "value_of env (v\<lparr>sv_c := - y + sv_c v\<rparr>) = c_op TOK_SUB (sv_bt v) (sv_unsigned v) (value_of env v) y"
  using assms by (simp_all add: c_op_words as_type_add value_of_def) (simp_all add: algebra_simps)

text \<open>The simplifications, one branch after the other.\<close>

lemma as_type_small:
  assumes "n < 64"
  shows "as_type bt uns (of_nat n) = of_nat n"
proof -
  define w where "w = u32 (of_nat n :: 64 word)"
  have w: "uint w = int n" using assms by (simp add: w_def unsigned_ucast_eq unsigned_of_nat take_bit_nat_eq_self take_bit_int_eq_self)
  then have "sint w = int n" using assms by (simp add: sint_small)
  then have "u64 w = of_nat n" "scast w = (of_nat n :: 64 word)" using w by (metis of_int_of_nat_eq of_int_uint, metis of_int_of_nat_eq of_int_sint)
  then show ?thesis unfolding as_type_eq w_def by simp
qed

lemma as_shift_simps: "as_shift TOK_MUL = TOK_SHL" "as_shift TOK_PDIV = TOK_SAR" "as_shift TOK_UDIV = TOK_SHR"
  by (simp_all add: as_shift_def)

lemma as_shift_facts:
  assumes "op = TOK_MUL \<or> op = TOK_PDIV \<or> op = TOK_UDIV" "op_for uns op"
  shows "as_shift op \<in> shift_ops \<and> op_for uns (as_shift op) \<and> as_shift op \<notin> div_ops \<and> as_shift op \<noteq> TOK_PDIV"
proof -
  have "uns = (op = TOK_UDIV) \<or> op = TOK_MUL"
    using assms by (auto simp: op_for_def plain_ops_def signed_ops_def unsigned_ops_def split: if_split_asm)
  then show ?thesis using assms(1)
    by (elim disjE) (simp_all add: as_shift_simps op_for_def plain_ops_def signed_ops_def unsigned_ops_def shift_ops_def div_ops_def)
qed

lemma ones_of: "l = - 1 \<or> (l = 0xFFFFFFFF \<and> bt \<noteq> VT_LLONG) \<Longrightarrow> bt \<noteq> VT_PTR \<Longrightarrow> ones bt l"
  by (auto simp: ones_def wide_def)

lemma simplify_reduces:
  assumes "vstack s = v2 # v1 # vs" "fits env op v1 v2"
    "c1 \<and> op \<in> shift_ops \<longrightarrow> value_of env v1 = l1" "c2 \<longrightarrow> where_is v2 = VT_CONST \<and> value_of env v2 = l2"
  shows "reduces env vs (c_value env op v1 v2) s (\<lambda>g. opic_simplify gv drp g (sv_bt v2) c1 c2 l1 l2 op s)"
proof -
  define bt uns x y where d: "bt = sv_bt v1" "uns = sv_unsigned v1" "x = value_of env v1" "y = value_of env v2"
  have nc: "sv_r v1 AND VT_VALMASK \<noteq> VT_CMP" "sv_r v2 AND VT_VALMASK \<noteq> VT_CMP" and of: "op_for uns op"
    and same: "op \<notin> shift_ops \<Longrightarrow> sv_bt v2 = bt \<and> sv_unsigned v2 = uns"
    and ptr: "bt = VT_PTR \<Longrightarrow> op = TOK_ADD \<or> op = TOK_SUB \<or> is_cond op"
    using assms(2) by (auto simp: fits_def Let_def d)
  have "s\<lparr>vstack := v2 # v1 # vs\<rparr> = s" using assms(1) by (cases s) simp
  then have g: "reduces env vs (c_op op bt uns x y) s (\<lambda>g. g op s)"
    using reduces_call [OF assms(2), of _ vs s] unfolding d by simp
  have nx: "normal bt uns x" unfolding d by (rule value_normal)
  have ny: "op \<notin> shift_ops \<Longrightarrow> normal bt uns y" using value_normal [of v2 env] same by (simp add: d)
  have "reduces env vs (c_op op bt uns x y) s (\<lambda>g. opic_simplify gv drp g (sv_bt v2) c1 c2 l1 l2 op s)"
    unfolding opic_simplify_def Let_def
  proof (intro reduces_if, goal_cases)
    case 1
    then have "op \<in> shift_ops" "x = l1" using assms(3) by (auto simp: shift_ops_def d)
    moreover have "c_op op bt uns x y = x"
      using 1 of calculation c_op_shift_const(1) [of op bt uns y] c_op_shift_const(2) [of bt y]
      by (auto simp: op_for_def plain_ops_def unsigned_ops_def split: if_split_asm)
    ultimately show ?case by (simp add: vpop_ops [OF assms(1) nc(2)] reduces_Inr d)
  next
    case 2
    then have y: "where_is v2 = VT_CONST" "y = l2" using assms(4) by (auto simp: d)
    have ns: "op \<notin> shift_ops" and np: "bt \<noteq> VT_PTR" using 2 ptr by (auto simp: shift_ops_def is_cond_def)
    note sm = same [OF ns]
    show ?case
    proof (cases "l2 = 1")
      case True
      then have "op = TOK_MOD \<or> op = TOK_UMOD" using 2 by auto
      then have "c_op op bt uns x y = 0" using c_op_mod_one y True by simp
      moreover have "value_of env (v2\<lparr>sv_c := 0\<rparr>) = 0" using y(1) by (simp add: value_const as_type_bits)
      ultimately show ?thesis using True assms(1) nc
        by (simp add: upd_top_def vswap_ops [where vs = vs] pop1_def reduces_Inr)
    next
      case False
      then have "(y = 0 \<and> (op = TOK_AND \<or> op = TOK_MUL)) \<or> (op = TOK_OR \<and> ones bt y)"
        using 2 y(2) ones_of [of l2 bt] np sm by auto
      then show ?thesis using False c_op_absorb [OF ny [OF ns]] vswap_ops [OF assms(1) nc(2)] by (simp add: pop1_def reduces_Inr d)
    qed
  next
    case 3
    then have y: "y = l2" using assms(4) by (simp add: d)
    have "ones bt y" if "op = TOK_AND"
    proof -
      have "op \<notin> shift_ops" "bt \<noteq> VT_PTR" using that ptr by (auto simp: shift_ops_def is_cond_def)
      then show ?thesis using 3 that same y ones_of [of l2 bt] by auto
    qed
    then have "c_op op bt uns x y = x" using 3 y by (intro c_op_neutral [OF nx]) (auto simp: shift_ops_def)
    then show ?case using assms(1) by (simp add: pop1_def reduces_Inr d)
  next
    case 4
    then have y: "where_is v2 = VT_CONST" "y = l2" and o: "op = TOK_MUL \<or> op = TOK_PDIV \<or> op = TOK_UDIV" using assms(4) by (auto simp: d)
    have ns: "op \<notin> shift_ops" and np: "bt \<noteq> VT_PTR" using o ptr by (auto simp: shift_ops_def is_cond_def)
    obtain n where n: "n < 64" "l2 = 2 ^ n" using single_bit [OF conjunct1 [OF 4(5)] conjunct2 [OF 4(5)]] by blast
    define v where "v = v2\<lparr>sv_c := of_nat n\<rparr>"
    have "normal bt uns (2 ^ n)" using ny [OF ns] y n by simp
    moreover have "op = TOK_PDIV \<longrightarrow> 0 < sint y \<and> sint y dvd sint x" using assms(2) by (simp add: fits_def Let_def d)
    ultimately have p: "c_op (as_shift op) bt uns x (of_nat n) = c_op op bt uns x y"
      using c_op_power [OF o n(1) _ of, of bt x] y n by simp
    have c: "of_int (count_shift l2 (- 1)) = (of_nat n :: 64 word)" using n count_shift_power [OF n(1), of "- 1"] by simp
    have vn: "value_of env v = of_nat n"
      using as_type_small [OF n(1)] n y same [OF ns] by (simp add: v_def value_const)
    have "sv_r v = sv_r v2" by (simp add: v_def)
    then have "fits env (as_shift op) v1 v"
      using as_shift_facts [OF o of] np nc unfolding fits_def Let_def d by (intro conjI) simp_all
    from reduces_call [OF this refl, of vs s]
    have "reduces env vs (c_op (as_shift op) bt uns x (value_of env v)) s (\<lambda>g. g (as_shift op) (s\<lparr>vstack := v # v1 # vs\<rparr>))"
      by (simp add: d)
    then show ?case unfolding vn p c by (simp add: upd_top_def assms(1) v_def as_shift_def)
  next
    case 6
    show ?case by (rule g)
  next
    case 7
    have "c2" "op = TOK_ADD \<or> op = TOK_SUB" "is_addr v1" "where_is v1 \<noteq> VT_CONST" "y = l2"
      using 7(5) assms(1,4) by (simp_all add: is_addr_def d) (elim conjE disjE; simp)
    then show ?case
      using address_value [of v1 env y] assms(1) by (elim disjE) (simp_all add: pop1_def upd_top_def reduces_Inr d)
  qed (rule g)+
  then show ?thesis by (simp add: d)
qed

text \<open>The operator as a whole.\<close>

lemma fits_swap: "commutes op \<Longrightarrow> fits env op v1 v2 \<Longrightarrow> fits env op v2 v1 \<and> op \<notin> shift_ops"
  unfolding commutes_def
  by (elim disjE) (simp_all add: fits_def Let_def op_for_def plain_ops_def shift_ops_def div_ops_def is_cond_def)

lemma opic_folds:
  assumes "vstack s = v2 # v1 # vs" "fits env op v1 v2" "where_is v1 = VT_CONST" "where_is v2 = VT_CONST"
  shows "\<exists>v. where_is v = VT_CONST \<and> value_of env v = c_value env op v1 v2 \<and>
    (\<forall>opl opi. gen_opic gv drp opl opi op s = Inr (s\<lparr>vstack := v # vs\<rparr>))"
proof -
  define l1 l2 where l: "l1 = value_of env v1" "l2 = value_of env v2"
  have k: "as_type (sv_bt v1) (sv_unsigned v1) (sv_c v1) = l1" "as_type (sv_bt v2) (sv_unsigned v2) (sv_c v2) = l2"
    using assms(3,4) by (simp_all add: l value_of_def)
  have "op_for (sv_unsigned v1) op" "op \<in> shift_ops \<longrightarrow> sv_bt v1 \<noteq> VT_PTR" "op \<in> div_ops \<longrightarrow> l2 \<noteq> 0"
    using assms(2) by (auto simp: fits_def Let_def l shift_ops_def is_cond_def)
  then obtain r where r: "opic_fold op (if sv_bt v1 = VT_LLONG then 63 else 31) l1 l2 = Folded r"
    "as_type (sv_bt v1) (sv_unsigned v1) r = c_op op (sv_bt v1) (sv_unsigned v1) l1 l2"
    using fold_is_c_op by blast
  define v where "v = v1\<lparr>sv_c := as_type (sv_bt v1) (sv_unsigned v1) r, sv_r := sv_r v1 OR sv_r v2 AND VT_NONCONST\<rparr>"
  have "as_type (sv_bt v1) (sv_unsigned v1) (as_type (sv_bt v1) (sv_unsigned v1) r) = as_type (sv_bt v1) (sv_unsigned v1) r"
    using normal_as_type by (simp only: normal_def)
  then have "where_is v = VT_CONST" "value_of env v = c_value env op v1 v2"
    using assms(3) r(2) by (simp_all add: v_def value_of_def l)
  moreover have "gen_opic gv drp opl opi op s = Inr (s\<lparr>vstack := v # vs\<rparr>)" for opl opi
    using assms(3,4) r(1) k by (simp add: gen_opic_def Let_def assms(1) pop1_def upd_top_def v_def)
  ultimately show ?thesis by blast
qed

lemma opic_reduces_gen:
  assumes "vstack s = v2 # v1 # vs" "fits env op v1 v2" "\<not> (where_is v1 = VT_CONST \<and> where_is v2 = VT_CONST)"
  obtains F where "reduces env vs (c_value env op v1 v2) s F"
    "\<And>opl opi. gen_opic gv drp opl opi op s = bindr (F (opic_general opl opi (sv_bt v1) (sv_bt v2))) mark_const"
proof -
  define c1 c2 l1 l2 where c: "c1 = (where_is v1 = VT_CONST)" "c2 = (where_is v2 = VT_CONST)"
    "l1 = as_type (sv_bt v1) (sv_unsigned v1) (if c1 then sv_c v1 else 0)" "l2 = as_type (sv_bt v2) (sv_unsigned v2) (if c2 then sv_c v2 else 0)"
  have l: "c1 \<Longrightarrow> value_of env v1 = l1" "c2 \<Longrightarrow> value_of env v2 = l2" by (simp_all add: c value_of_def)
  have nc: "sv_r v2 AND VT_VALMASK \<noteq> VT_CMP" using assms(2) by (simp add: fits_def Let_def)
  have top: "vstack s ! 1 = v1" "vstack s ! 0 = v2" by (simp_all add: assms(1))
  have n: "(c1 \<and> c2) = False" using assms(3) by (simp add: c)
  have u: "gen_opic gv drp opl opi op s = bindr (if c1 \<and> commutes op then vswap gv s else Inr s) (\<lambda>s.
       bindr (opic_simplify gv drp (opic_general opl opi (sv_bt v1) (sv_bt v2)) (sv_bt v2) c1 (if c1 \<and> commutes op then c1 else c2) l1
         (if c1 \<and> commutes op then l1 else l2) op s) mark_const)" for opl opi
    unfolding gen_opic_def Let_def top c(1,2) [symmetric] n if_False c(3,4) by (rule refl)
  show thesis
  proof (cases "c1 \<and> commutes op")
    case True
    define s' where "s' = s\<lparr>vstack := v1 # v2 # vs\<rparr>"
    have v: "vswap gv s = Inr s'" "vstack s' = v1 # v2 # vs" using vswap_ops [OF assms(1) nc] by (simp_all add: s'_def)
    note f = fits_swap [OF conjunct2 [OF True] assms(2)]
    have t: "sv_bt v2 = sv_bt v1" "sv_unsigned v2 = sv_unsigned v1" using f by (auto simp: fits_def Let_def)
    have "reduces env vs (c_value env op v2 v1) s' (\<lambda>g. opic_simplify gv drp g (sv_bt v1) c1 c1 l1 l1 op s')"
      using simplify_reduces [OF v(2) conjunct1 [OF f], of c1 l1 c1 l1] f l True by (simp add: c t)
    then have "reduces env vs (c_value env op v1 v2) s (\<lambda>g. opic_simplify gv drp g (sv_bt v1) c1 c1 l1 l1 op s')"
      using c_op_commute [OF conjunct2 [OF True]] by (simp add: reduces_def s'_def t)
    then show thesis using that u True by (simp add: v(1) t)
  next
    case False
    have "reduces env vs (c_value env op v1 v2) s (\<lambda>g. opic_simplify gv drp g (sv_bt v2) c1 c2 l1 l2 op s)"
      using simplify_reduces [OF assms(1,2), of c1 l1 c2 l2] l by (simp add: c)
    then show thesis using that u False by (simp only: if_not_P if_False bindr.simps)
  qed
qed

lemma opic_reduces:
  assumes "vstack s = v2 # v1 # vs" "fits env op v1 v2"
  shows "(\<exists>v. value_of env v = c_value env op v1 v2 \<and> (\<forall>opl opi. gen_opic gv drp opl opi op s = Inr (s\<lparr>vstack := v # vs\<rparr>))) \<or>
    (\<exists>op' w1 w2. fits env op' w1 w2 \<and> c_value env op' w1 w2 = c_value env op v1 v2 \<and>
      (\<forall>opl opi. gen_opic gv drp opl opi op s =
        bindr (opic_general opl opi (sv_bt v1) (sv_bt v2) op' (s\<lparr>vstack := w2 # w1 # vs\<rparr>)) mark_const))"
proof (cases "where_is v1 = VT_CONST \<and> where_is v2 = VT_CONST")
  case False
  from opic_reduces_gen [OF assms False] obtain F where F: "reduces env vs (c_value env op v1 v2) s F"
    "\<And>opl opi. gen_opic gv drp opl opi op s = bindr (F (opic_general opl opi (sv_bt v1) (sv_bt v2))) mark_const" by blast
  from F(1) consider v where "value_of env v = c_value env op v1 v2" "\<And>g. F g = Inr (s\<lparr>vstack := v # vs\<rparr>)"
    | op' w1 w2 where "fits env op' w1 w2" "c_value env op' w1 w2 = c_value env op v1 v2" "\<And>g. F g = g op' (s\<lparr>vstack := w2 # w1 # vs\<rparr>)"
    unfolding reduces_def by blast
  then show ?thesis
  proof cases
    case 1
    then show ?thesis using mark_const_value [where s = s and v = v and vs = vs and env = env] unfolding F(2) by auto
  next
    case 2
    then have "\<forall>opl opi. gen_opic gv drp opl opi op s =
        bindr (opic_general opl opi (sv_bt v1) (sv_bt v2) op' (s\<lparr>vstack := w2 # w1 # vs\<rparr>)) mark_const" using F(2) by simp
    with 2(1,2) show ?thesis by blast
  qed
next
  case True
  then show ?thesis using opic_folds [OF assms, of gv drp] by blast
qed

end
