(* ===== verification/GenProps.thy ===== *)
theory GenProps
  imports GenCond GenImm GenFrame OpicSound
begin

text \<open>
  The properties of the code generator: lists of forward jumps, constants in registers, the operators against their
  folding, and the frame of a function.
\<close>

unbundle bit_operations_syntax

section \<open>Examples for the witnesses\<close>

definition ex_sec :: "nat \<Rightarrow> sec" where
  "ex_sec n = \<lparr>sec_data = replicate n 0, data_offset = n, data_allocated = n, sh_addralign = 4, sh_nobits = False\<rparr>"

definition ex_cg :: "nat \<Rightarrow> nat \<Rightarrow> cg" where
  "ex_cg n i = \<lparr>cur_text_section = ex_sec n, ind = i, nocode_wanted = False\<rparr>"

lemma ex_cg_simps [simp]: "code_of (ex_cg n i) = replicate n 0" "ind (ex_cg n i) = i" "\<not> nocode_wanted (ex_cg n i)"
  "code_inv (ex_cg n i) \<longleftrightarrow> i \<le> n"
  by (simp_all add: ex_cg_def ex_sec_def code_inv_def cg_wf_def)

definition ex_machine :: "64 word \<Rightarrow> rv" where
  "ex_machine a = \<lparr>xregs = (\<lambda>_. 0), pc = a, rmem = (\<lambda>_. 0)\<rparr>"

section \<open>Forward jumps\<close>

definition jumps_by :: "8 word list \<Rightarrow> nat \<Rightarrow> 64 word \<Rightarrow> bool" where
  "jumps_by d p k \<longleftrightarrow> (\<exists>i. insn_at d p = Some i \<and> (\<forall>m. exec i m = Some (m\<lparr>pc := pc m + k\<rparr>)))"

text \<open>A jump has 21 bits for its distance; one bit more is accepted.\<close>

definition reached :: "64 word \<Rightarrow> 64 word" where
  "reached x = (if jump_fits 20 x then x else if sint x < 0 then x + 2 ^ 21 else x - 2 ^ 21)"

lemma j_dist_reached: "jump_fits 21 x \<Longrightarrow> j_dist x = reached x"
  using j_dist_fits [of x] j_dist_wraps [of x] by (auto simp: jump_fits_def reached_def)

lemma jump_word_jumps:
  assumes "unat a < 2 ^ 31" "p < 2 ^ 31" "read32le d p = jump_word a p" "\<not> far (a - of_nat p)"
  shows "jumps_by d p (reached (jump_dist a p))"
proof -
  obtain i where "decode (jump_word a p) = Some i" using jump_word_exec [OF assms(1,2)] by blast
  moreover have "exec i m = Some (m\<lparr>pc := pc m + j_dist (jump_dist a p)\<rparr>)" for m
    using jump_word_exec [OF assms(1,2), of m] calculation by auto
  ultimately show ?thesis using assms(3,4) j_dist_reached far_dist [OF assms(1,2)] by (simp add: jumps_by_def insn_at_def)
qed

text \<open>C39. Resolving a list of forward jumps: every place becomes an instruction that jumps to the target, as far as a
  jump reaches (20 bits and a sign), and nothing else in the code changes. If a place is farther than 2 MiB away, or
  at an odd distance, an error is reported. Between 1 and 2 MiB the jump is written without an error and goes 2 MiB
  off.\<close>

theorem gsym_addr_resolves:
  assumes "jump_list (code_of s) t ps" "apart ps" "unat a < 2 ^ 31" "\<forall>p\<in>set ps. p < 2 ^ 31"
  shows "if \<exists>p\<in>set ps. \<not> jump_fits 21 (jump_dist a p) then gsym_addr t a s = Some (Inl (TccError ''out-of-range branch chain''))
    else \<exists>s'. gsym_addr t a s = Some (Inr s') \<and> ind s' = ind s \<and> length (code_of s') = length (code_of s) \<and>
      (\<forall>p\<in>set ps. jumps_by (code_of s') p (reached (jump_dist a p))) \<and>
      (\<forall>j. (\<forall>p\<in>set ps. j < p \<or> p + 4 \<le> j) \<longrightarrow> code_of s' ! j = code_of s ! j)"
proof -
  have f: "p \<in> set ps \<Longrightarrow> far (a - of_nat p) \<longleftrightarrow> \<not> jump_fits 21 (jump_dist a p)" for p using far_dist assms(3,4) by blast
  note g = gsym_addr_eq [OF assms(1,2), of a]
  show ?thesis
  proof (cases "\<exists>p\<in>set ps. \<not> jump_fits 21 (jump_dist a p)")
    case True
    then show ?thesis using f unfolding g by auto
  next
    case False
    have "jumps_by (resolve a ps (code_of s)) p (reached (jump_dist a p))" if "p \<in> set ps" for p
      using that jump_list_bound [OF assms(1) that] resolve_word [OF assms(2) that] assms(3,4) f [OF that] False
      by (intro jump_word_jumps) auto
    then show ?thesis using False f resolve_other unfolding g by (auto simp: put_data_def)
  qed
qed

lemma ex_list: "jump_list (replicate 16 0) 4 [4]"
  by (simp add: jump_list_Cons jump_end read32le_def read16le_def)

theorem gsym_addr_resolves_witness:
  "\<exists>s'. gsym_addr 4 12 (ex_cg 16 16) = Some (Inr s') \<and> jumps_by (code_of s') 4 8"
  using gsym_addr_resolves [of "ex_cg 16 16" 4 "[4]" 12] ex_list by (auto simp: jump_fits_def jump_dist_def reached_def)

text \<open>C34. A function under construction: after whatever sequence of instructions, jumps, conditional jumps, concatenations
  and resolutions of lists, the list of every label has exactly the places that wait for the label, and every place that
  was resolved to a target within 1 MiB is still a jump to it. In each of these states every operation comes to its end and
  succeeds, concatenations of different lists and resolutions included; only a resolution with a place farther than 2
  MiB from its target, or at an odd distance, ends with an error. (Between 1 and 2 MiB see \<open>gsym_addr_resolves\<close>.)\<close>

theorem jumps_reach:
  assumes "reach s0 L s (P, D)" "code_inv s0" "\<not> nocode_wanted s0" "0 < ind s0" "ind s < 2 ^ 31" "\<forall>(p, a)\<in>D. unat a < 2 ^ 31"
  shows "(\<forall>k. jump_list (code_of s) (L k) (P k)) \<and>
    (\<forall>(p, a)\<in>D. jump_fits 20 (jump_dist a p) \<longrightarrow> jumps_by (code_of s) p (jump_dist a p)) \<and>
    (\<forall>w. \<exists>s'. jump_step L s (Emit w) L s') \<and> (\<forall>k. \<exists>L' s'. jump_step L s (Jump k) L' s') \<and>
    (\<forall>k op a b. \<exists>L' s'. jump_step L s (Cond_jump k op a b) L' s') \<and>
    (\<forall>k j. k \<noteq> j \<longrightarrow> (\<exists>L' s'. jump_step L s (Join k j) L' s')) \<and>
    (\<forall>k a. unat a < 2 ^ 31 \<longrightarrow>
      (if \<exists>p\<in>set (P k). \<not> jump_fits 21 (jump_dist a p) then gsym_addr (L k) a s = Some (Inl (TccError ''out-of-range branch chain''))
       else \<exists>L' s'. jump_step L s (Resolve k a) L' s'))"
proof (intro conjI)
  have ok: "jumps_ok L s (P, D)" using reach_ok [OF assms(1-5)] .
  then show "\<forall>k. jump_list (code_of s) (L k) (P k)" by (auto simp: jumps_ok_def)
  have "jumps_by (code_of s) p (jump_dist a p)" if "(p, a) \<in> D" "jump_fits 20 (jump_dist a p)" for p a
  proof -
    have "read32le (code_of s) p = jump_word a p" "\<not> far (a - of_nat p)" "p < 2 ^ 31" "unat a < 2 ^ 31"
      using ok that(1) assms(5,6) by (auto simp: jumps_ok_def)
    then show ?thesis using jump_word_jumps [of a p "code_of s"] that(2) by (simp add: reached_def)
  qed
  then show "\<forall>(p, a)\<in>D. jump_fits 20 (jump_dist a p) \<longrightarrow> jumps_by (code_of s) p (jump_dist a p)" by blast
  show "\<forall>k j. k \<noteq> j \<longrightarrow> (\<exists>L' s'. jump_step L s (Join k j) L' s')" using join_steps [OF ok] by blast
  show "\<forall>k a. unat a < 2 ^ 31 \<longrightarrow>
      (if \<exists>p\<in>set (P k). \<not> jump_fits 21 (jump_dist a p) then gsym_addr (L k) a s = Some (Inl (TccError ''out-of-range branch chain''))
       else \<exists>L' s'. jump_step L s (Resolve k a) L' s')" using resolve_steps [OF ok assms(5)] by simp
qed (metis jump_step.intros surj_pair)+

lemma ex_reach: "\<exists>L s. reach (ex_cg 16 4) L s (\<lambda>_. [], {(4, 12)}) \<and> ind s = 8"
proof -
  define s1 where "s1 = snd (gjmp 0 (ex_cg 16 4))"
  have g: "gjmp 0 (ex_cg 16 4) = (4, s1)" "ind s1 = 8" "code_of s1 = write32le (replicate 16 0) 4 0"
    by (simp_all add: s1_def gjmp_def o_emit_def fit_text_def Let_def ex_cg_def ex_sec_def put_code_def)
  have j: "jump_step (\<lambda>_. 0) (ex_cg 16 4) (Jump 0) ((\<lambda>_. 0)(0 := 4)) s1" using g(1) by (intro jump_step.intros(2)) simp
  have l: "jump_list (code_of s1) 4 [4]"
    unfolding g(3) by (simp add: jump_list_Cons jump_end write32le_def write16le_def read32le_def read16le_def)
  have "\<not> far (12 - of_nat 4)" by (simp add: far_def)
  then obtain s2 where s2: "gsym_addr 4 12 s1 = Some (Inr s2)" "ind s2 = 8"
    using gsym_addr_eq [OF l, of 12] g(2) by (auto simp: put_data_def)
  have "jump_step ((\<lambda>_. 0)(0 := 4)) s1 (Resolve 0 12) (((\<lambda>_. 0)(0 := 4))(0 := 0)) s2"
    using s2(1) by (intro jump_step.intros(5)) simp
  then have "reach (ex_cg 16 4) (((\<lambda>_. 0)(0 := 4))(0 := 0)) s2 (spec_step (ind s1) (Resolve 0 12) (spec_step (ind (ex_cg 16 4)) (Jump 0) (\<lambda>_. [], {})))"
    by (intro reach_step [OF reach_step [OF reach_start j]])
  moreover have "spec_step (ind s1) (Resolve 0 12) (spec_step (ind (ex_cg 16 4)) (Jump 0) (\<lambda>_. [], {})) = (\<lambda>_. [], {(4, 12)})" by auto
  ultimately show ?thesis using s2(2) by auto
qed

theorem jumps_reach_witness:
  "\<exists>L s. reach (ex_cg 16 4) L s (\<lambda>_. [], {(4, 12)}) \<and> jumps_by (code_of s) 4 8 \<and>
    (\<exists>L' s'. jump_step L s (Join 0 1) L' s') \<and> (\<exists>L' s'. jump_step L s (Resolve 0 12) L' s')"
proof -
  obtain L s where r: "reach (ex_cg 16 4) L s (\<lambda>_. [], {(4, 12)})" "ind s = 8" using ex_reach by blast
  have "jump_fits 20 (jump_dist 12 4)" "jump_dist 12 4 = 8" by (simp_all add: jump_fits_def jump_dist_def)
  moreover have "code_inv (ex_cg 16 4)" "\<not> nocode_wanted (ex_cg 16 4)" "0 < ind (ex_cg 16 4)" "ind s < 2 ^ 31" "\<forall>(p, a)\<in>{(4, 12)}. unat (a :: 32 word) < 2 ^ 31"
    using r(2) by simp_all
  note j = jumps_reach [OF r(1) this]
  ultimately have "jumps_by (code_of s) 4 8" using j by fastforce
  moreover have "\<exists>L' s'. jump_step L s (Join 0 1) L' s'" using j by (metis zero_neq_one)
  moreover have "\<exists>L' s'. jump_step L s (Resolve 0 12) L' s'"
    using j [THEN conjunct2, THEN conjunct2, THEN conjunct2, THEN conjunct2, THEN conjunct2, THEN conjunct2, rule_format, of 12 0] by simp
  ultimately show ?thesis using r(1) by blast
qed

text \<open>C40. A conditional jump: the branch that is written goes on to the jump behind it, which is the new end of the list,
  exactly when the comparison of the two registers holds, as C compares their values, and else skips the jump.\<close>

theorem cond_jump_taken:
  assumes "op \<in> cmp_ops" "op_for uns op" "a < 32" "b < 32" "code_inv s" "\<not> nocode_wanted s" "normal bt uns x" "normal bt uns y"
  shows "\<exists>s' i. gjmp_cond op a b t s = (of_nat (ind s + 4), s') \<and> ind s' = ind s + 8 \<and>
    insn_at (code_of s') (ind s) = Some i \<and> read32le (code_of s') (ind s + 4) = t \<and>
    (\<forall>m. xr m (ucast a) = in_reg bt x \<longrightarrow> xr m (ucast b) = in_reg bt y \<longrightarrow>
      exec i m = Some (m\<lparr>pc := pc m + (if c_op op bt uns x y = 1 then 4 else 8)\<rparr>))"
  using gjmp_cond_branch [OF assms(1,3-6)] cmp_is_c_op [OF assms(1,2,7,8)] by fastforce

theorem cond_jump_taken_witness:
  "\<exists>s' i. gjmp_cond TOK_LT 10 11 0 (ex_cg 16 4) = (8, s') \<and> insn_at (code_of s') 4 = Some i \<and>
    (\<forall>m. xr m 10 = - 1 \<longrightarrow> xr m 11 = 1 \<longrightarrow> exec i m = Some (m\<lparr>pc := pc m + 4\<rparr>))"
proof -
  have "u32 (- 1 :: 64 word) = - 1" by (rule bits_eqI) (simp add: each_bit)
  then have n: "normal VT_INT False (- 1)" "normal VT_INT False 1" "in_reg VT_INT (- 1) = - 1" "in_reg VT_INT 1 = 1" "c_op TOK_LT VT_INT False (- 1) 1 = 1"
    "op_for False TOK_LT" "TOK_LT \<in> cmp_ops"
    by (simp_all add: normal_def as_type_eq wide_def in_reg_def c_op_def val_def op_for_def signed_ops_def cmp_ops_def)
  then show ?thesis using cond_jump_taken [of TOK_LT False 10 11 "ex_cg 16 4" VT_INT "- 1" 1 0] by fastforce
qed

section \<open>Constants\<close>

text \<open>Constants for which the register is wrong: a pointer between 2 and 4 GiB gets its upper half from its sign, and a
  value of 64 bits whose low half is at least \<open>0x7ff80000\<close> and positive loses a carry.\<close>

definition load_off :: "btype \<Rightarrow> 64 word \<Rightarrow> bool" where
  "load_off bt ci \<longleftrightarrow> wide bt \<and> (if drop_bit 32 ci = 0 then bt = VT_PTR \<and> bit ci 31 else scast (u32 ci) \<noteq> ci \<and> li_overflow ci)"

lemma upper_zero: "drop_bit 32 (u64 x) = 0" for x :: "32 word"
  by (rule bits_eqI) (simp add: each_bit bit_beyond)

lemma const_value_in_reg:
  assumes "normal bt uns ci"
  shows "const_value bt ci = (if load_off bt ci then ci - 2 ^ 32 else in_reg bt ci)"
proof -
  have h: "scast (u32 ci) = ci - 2 ^ 32 \<and> bit ci 31" if "drop_bit 32 ci = 0" "scast (u32 ci) \<noteq> ci"
    using halves [of ci] scast_split [of "u32 ci"] that bit_last_iff [of "u32 ci"] by (auto simp: bit_simps split: if_split_asm)
  have l: "\<not> bit ci 31" if "drop_bit 32 ci = 0" "scast (u32 ci) = ci"
  proof
    assume "bit ci 31"
    then have "bit (scast (u32 ci) :: 64 word) 32" by (simp add: bit_simps)
    then have "bit (drop_bit 32 ci) 0" using that(2) by (simp add: bit_drop_bit_eq)
    then show False using that(1) by simp
  qed
  show ?thesis
  proof (cases "wide bt")
    case True
    then show ?thesis using h l by (auto simp: const_value_def load_off_def in_reg_def wide_def)
  next
    case False
    have "scast (u32 ci) \<noteq> ci \<Longrightarrow> drop_bit 32 ci = 0"
      using normal_narrow [OF assms False] upper_zero [of "u32 ci"] by (cases uns) simp_all
    then show ?thesis using False h by (auto simp: const_value_def load_off_def in_reg_def wide_def)
  qed
qed

text \<open>C38. Loading a constant: the instructions that \<open>load\<close> writes for an integer constant, executed, leave the constant in the
  register as its type has it there (32 bits with their sign extended, or 64 bits), change no other register and go
  on behind them. The two kinds of constants of \<open>load_off\<close> come out too small by \<open>2 ^ 32\<close>.\<close>

theorem const_loaded:
  assumes "ireg r = Inr rr" "\<not> is_float bt" "normal bt uns ci" "code_inv s" "\<not> nocode_wanted s"
  shows "\<exists>is s'. load_const r bt ci s = Inr s' \<and> wrote s is s' \<and>
    sets_reg is (ucast rr) m (if load_off bt ci then ci - 2 ^ 32 else in_reg bt ci)"
proof -
  have r: "rr < 32 \<and> rr \<noteq> 0 \<and> is_ireg r"
  proof (cases "r = TREG_RA \<or> r = TREG_SP")
    case False
    then have b: "0 \<le> r" "r < 8" "rr = of_int (r + 10)" using assms(1) by (auto simp: ireg_def split: if_split_asm)
    then have "r = 0 \<or> r = 1 \<or> r = 2 \<or> r = 3 \<or> r = 4 \<or> r = 5 \<or> r = 6 \<or> r = 7" by linarith
    then show ?thesis using b(3) by (elim disjE) (simp_all add: is_ireg_def)
  qed (use assms(1) in \<open>auto simp: ireg_def is_ireg_def\<close>)
  then have q: "(ucast rr :: 5 word) \<noteq> 0" using u32_reg [of rr] by (metis unsigned_0)
  have "load_const r bt ci s = run (const_code rr bt ci) s" using r assms(1,2) by (intro load_const_run) simp_all
  moreover obtain s' where "run (const_code rr bt ci) s = Inr s'" "wrote s (const_insns (ucast rr) bt ci) s'"
    using emits_run [OF const_emits assms(4,5)] r by blast
  ultimately show ?thesis using const_sets [OF q, of bt ci m] unfolding const_value_in_reg [OF assms(3)] by auto
qed

theorem const_loaded_witness:
  "\<exists>is s'. load_const 0 VT_LLONG 0x123456789ABCDEF0 (ex_cg 64 4) = Inr s' \<and> sets_reg is 10 (ex_machine 0) 0x123456789ABCDEF0"
  using const_loaded [of 0 10 VT_LLONG False "0x123456789ABCDEF0" "ex_cg 64 4" "ex_machine 0"]
  by (auto simp: ireg_def is_float_def normal_def as_type_eq wide_def load_off_def in_reg_def li_overflow_def)

section \<open>Operators\<close>

text \<open>C36. Folding and code agree: for operands of any integer type, the operator folded by \<open>gen_opic\<close> gives the value that
  the code of \<open>gen_opil\<close> (with what \<open>load\<close> adds for a comparison) leaves in the register when it is executed with the
  operands in registers; both are the value of the C operator. The division of a difference of pointers (\<open>TOK_PDIV\<close>) is
  folded as a signed one, but its code divides unsigned numbers: there the two agree when the difference is not
  negative and the size is positive, and may differ otherwise (\<open>pointer_division\<close>).\<close>

theorem fold_equals_code:
  assumes "op \<in> value_ops \<union> cmp_ops \<union> {TOK_PDIV}" "op_for uns op" "op \<in> shift_ops \<longrightarrow> bt \<noteq> VT_PTR" "op \<in> div_ops \<longrightarrow> y \<noteq> 0" "normal bt uns x"
    "op \<notin> shift_ops \<longrightarrow> normal bt uns y" "d < 32" "a < 32" "b < 32" "d \<noteq> 0"
    "xr m (ucast a) = in_reg bt x" "xr m (ucast b) = in_reg (if op \<in> shift_ops then VT_INT else bt) y" "code_inv s" "\<not> nocode_wanted s"
    "op = TOK_PDIV \<longrightarrow> 0 \<le> sint x \<and> 0 < sint y"
  shows "\<exists>l is s'. opic_fold op (if bt = VT_LLONG then 63 else 31) x y = Folded l \<and> as_type bt uns l = c_op op bt uns x y \<and>
    op_code op (wide bt) d a b s = Inr s' \<and> wrote s is s' \<and> sets_reg is (ucast d) m (in_reg bt (as_type bt uns l))"
proof -
  obtain l where l: "opic_fold op (if bt = VT_LLONG then 63 else 31) x y = Folded l" "as_type bt uns l = c_op op bt uns x y"
    using fold_is_c_op [OF assms(2-4)] by blast
  show ?thesis
  proof (cases "op = TOK_PDIV")
    case False
    then show ?thesis using op_code_value [OF _ assms(2-14)] assms(1) l by auto
  next
    case True
    have o: "TOK_PDIV \<notin> shift_ops" "TOK_UDIV \<notin> shift_ops" "TOK_UDIV \<in> value_ops \<union> cmp_ops" "op_for True TOK_UDIV" "\<not> uns"
      using assms(2) True by (auto simp: shift_ops_def value_ops_def op_for_def plain_ops_def signed_ops_def unsigned_ops_def split: if_split_asm)
    have n: "normal bt True x" "normal bt True y" "y \<noteq> 0"
      using normal_nonneg [of bt x] normal_nonneg [of bt y] assms(5,6,15) o(1,5) True by auto
    have r: "xr m (ucast b) = in_reg (if TOK_UDIV \<in> shift_ops then VT_INT else bt) y" using assms(12) o(1,2) True by simp
    have "in_reg bt (c_op op bt uns x y) = in_reg bt (c_op TOK_UDIV bt True x y)"
      using pdiv_udiv [of x y bt] assms(15) o(5) True by simp
    then show ?thesis
      using op_code_value [OF o(3,4) _ _ n(1) _ assms(7-11) r assms(13,14)] n(2,3) o(2) l unfolding True op_code_pdiv by simp
  qed
qed

definition with_regs :: "64 word \<Rightarrow> 64 word \<Rightarrow> rv" where
  "with_regs x y = set_xr 11 y (set_xr 10 x (ex_machine 0))"

lemma with_regs_simps [simp]: "xr (with_regs x y) 10 = x" "xr (with_regs x y) 11 = y"
  by (simp_all add: with_regs_def)

theorem fold_equals_code_witness:
  "\<exists>l is s'. opic_fold TOK_UDIV 63 100 7 = Folded l \<and> op_code TOK_UDIV True 10 10 11 (ex_cg 64 4) = Inr s' \<and>
    sets_reg is 10 (with_regs 100 7) l"
  using fold_equals_code [of TOK_UDIV True VT_LLONG 7 100 10 10 11 "with_regs 100 7" "ex_cg 64 4"]
  by (auto simp: value_ops_def op_for_def unsigned_ops_def shift_ops_def normal_def as_type_eq wide_def in_reg_def)

text \<open>C37. The same for a constant operand of twelve bits, wherever \<open>gen_opil\<close> does without a second register (\<open>by_imm\<close>): the
  arithmetic, bit and shift operators and \<open>LE\<close>, \<open>LT\<close> take it as an immediate, \<open>GE\<close> and \<open>GT\<close> are the inverse of these, and \<open>EQ\<close> and \<open>NE\<close>
  subtract it and compare with zero. \<open>gv2\<close>, which loads operands into registers, is then not called.\<close>

theorem fold_equals_immediate:
  assumes "op \<in> imm_ops \<union> cmp_ops" "op_for uns op" "op \<in> shift_ops \<longrightarrow> bt \<noteq> VT_PTR" "imm_ok fc" "by_imm op (wide bt) fc" "normal bt uns x"
    "op \<notin> shift_ops \<longrightarrow> normal bt uns y" "in_reg (if op \<in> shift_ops then VT_INT else bt) y = scast fc" "d < 32" "a < 32" "d \<noteq> 0"
    "xr m (ucast a) = in_reg bt x" "code_inv s" "\<not> nocode_wanted s"
  shows "\<exists>l is s'. opic_fold op (if bt = VT_LLONG then 63 else 31) x y = Folded l \<and> as_type bt uns l = c_op op bt uns x y \<and>
    (\<forall>gv2. imm_code gv2 op (wide bt) d a fc s = Inr s') \<and> wrote s is s' \<and> sets_reg is (ucast d) m (in_reg bt (as_type bt uns l))"
proof -
  have "op \<notin> div_ops" using assms(1) by (auto simp: imm_ops_def div_ops_def cmp_ops_def)
  then obtain l where l: "opic_fold op (if bt = VT_LLONG then 63 else 31) x y = Folded l" "as_type bt uns l = c_op op bt uns x y"
    using fold_is_c_op [OF assms(2,3)] by blast
  obtain "is" s' where "imm_code gv0 op (wide bt) d a fc s = Inr s'" "wrote s is s'" "sets_reg is (ucast d) m (in_reg bt (c_op op bt uns x y))"
    using imm_code_value [OF assms, of gv0] by blast
  with l show ?thesis using imm_code_gv2 [OF assms(5)] by metis
qed

theorem fold_equals_immediate_witness:
  "\<exists>l is s'. opic_fold TOK_UGT 31 5 5 = Folded l \<and> (\<forall>gv2. imm_code gv2 TOK_UGT False 10 10 5 (ex_cg 64 4) = Inr s') \<and>
    sets_reg is 10 (with_regs 5 0) (in_reg VT_INT (as_type VT_INT True l))"
  using fold_equals_immediate [of TOK_UGT True VT_INT 5 5 5 10 10 "with_regs 5 0" "ex_cg 64 4"]
  by (auto simp: imm_ops_def cmp_ops_def op_for_def unsigned_ops_def shift_ops_def normal_def as_type_eq wide_def in_reg_def by_imm_def inverted_def
      opil_cop_def Let_def imm_ok_def)

text \<open>The division of a pointer difference is folded as a division of signed numbers, its code divides unsigned ones.\<close>

lemma pointer_division:
  "opic_fold TOK_PDIV 63 (- 12) 4 = Folded (- 3)" "opil_regs TOK_PDIV long d a b = opil_regs TOK_UDIV long d a b"
  "alu_exec Divu False (- 12) 4 = 0x3FFFFFFFFFFFFFFD"
proof -
  show "opic_fold TOK_PDIV 63 (- 12) 4 = Folded (- 3)" by (simp add: opic_fold_def Let_def sdiv_eq)
  show "opil_regs TOK_PDIV long d a b = opil_regs TOK_UDIV long d a b" by (rule ext) (simp add: opil_regs_def)
  show "alu_exec Divu False (- 12) 4 = 0x3FFFFFFFFFFFFFFD" by (simp add: alu_exec_def)
qed

text \<open>A division by a constant zero is an error where a constant is needed; elsewhere the code for it is generated.\<close>

lemma division_by_zero:
  assumes "op \<in> div_ops" "vstack s = v2 # v1 # vs" "where_is v1 = VT_CONST" "where_is v2 = VT_CONST" "value_of env v2 = 0"
  shows "gen_opic gv drp opl opi op s =
    (if const_wanted s then Inl (TccError ''division by zero in constant'')
     else bindr (opic_general opl opi (sv_bt v1) (sv_bt v2) op s) mark_const)"
proof -
  have "as_type (sv_bt v2) (sv_unsigned v2) (sv_c v2) = 0" using assms(4,5) by (simp add: value_of_def)
  then show ?thesis using fold_div_zero [OF assms(1)] by (simp add: gen_opic_def Let_def assms(2-4))
qed







section \<open>The frame of a function\<close>

text \<open>C35. The frame: \<open>gfunc_epilog\<close> writes code that, where it is loaded, enters the function with the stack pointer lowered
  by the size of the frame, the frame pointer above the saved registers, and memory changed only where those are.
  When the body, which is left alone, comes to its end with the stack pointer and the saved words as they were, the code
  that leaves the function goes back to the return address with the stack pointer and the frame pointer of the caller.
  This holds for small frames and for those that need the code at the end of the function.\<close>

theorem frame_restored:
  assumes "code_inv s" "\<not> nocode_wanted s" "v = sint (frame_size s)" "n = sint (num_va_regs s)" "frame_ok v n" "start = func_sub_sp_offset s"
    "start + 20 \<le> ind s" "2048 \<le> v \<longrightarrow> even start \<and> even (ind s) \<and> ind s + 48 < 2 ^ 31 \<and> ind s + 48 < start + 2 ^ 20"
  shows "\<exists>s'. gfunc_epilog s = Inr s' \<and> ind s' = ind s + (if 2048 \<le> v then 48 else 16) \<and>
    (\<forall>p. p + 4 \<le> start \<or> start + 20 \<le> p \<and> p + 4 \<le> ind s \<longrightarrow> read32le (code_of s') p = read32le (code_of s) p) \<and>
    (\<forall>base m. length (code_of s') < 2 ^ 64 \<longrightarrow> pc m = base + of_nat start \<longrightarrow>
      (\<exists>k m1. run_code k (code_of s') base m = Some m1 \<and> pc m1 = base + of_nat (start + 20) \<and>
        xr m1 2 = xr m 2 - word_of_int v \<and> xr m1 8 = frame_ptr n m \<and> (\<forall>q. q \<notin> {2, 5, 8} \<longrightarrow> xr m1 q = xr m q) \<and>
        (\<forall>b. (\<forall>i < 16. b \<noteq> frame_ptr n m - 16 + of_nat i) \<longrightarrow> rmem m1 b = rmem m b) \<and>
        (\<forall>m2. pc m2 = base + of_nat (ind s) \<and> xr m2 2 = xr m1 2 \<and>
          (\<forall>i < 16. rmem m2 (frame_ptr n m - 16 + of_nat i) = rmem m1 (frame_ptr n m - 16 + of_nat i)) \<longrightarrow>
          (\<exists>k m3. run_code k (code_of s') base m2 = Some m3 \<and> left m m2 m3))))"
proof -
  have w: "frame_size s = word_of_int v" "num_va_regs s = word_of_int n" using assms(3,4) by simp_all
  obtain s' where s': "gfunc_epilog s = Inr s'" "ind s' = ind s + (if 2048 \<le> v then 48 else 16)" "frame_code v n start (ind s) (code_of s')"
    "\<forall>p. p + 4 \<le> start \<or> start + 20 \<le> p \<and> p + 4 \<le> ind s \<longrightarrow> read32le (code_of s') p = read32le (code_of s) p"
    using gfunc_epilog_code [OF assms(1,2,5) w] assms(6-8) by blast
  have u: "rmem m1 b = rmem m b" if "entered v n m m1" "\<forall>i < 16. b \<noteq> frame_ptr n m - 16 + of_nat i" for m m1 b
    using that save_two(3) [of "saved n m" "frame_ptr n m" "xr m 8" "xr m 1" "rmem m" b] by (simp add: entered_def saved_def)
  show ?thesis
  proof (intro exI [of _ s'] conjI allI impI)
    fix base :: "64 word" and m :: rv
    assume "length (code_of s') < 2 ^ 64" "pc m = base + of_nat start"
    from frame_code_runs [OF s'(3) assms(5) this] obtain k m1 where m1: "run_code k (code_of s') base m = Some m1"
      "pc m1 = base + of_nat (start + 20)" "entered v n m m1"
      "\<forall>m2. pc m2 = base + of_nat (ind s) \<and> xr m2 2 = xr m1 2 \<and>
        (\<forall>i < 16. rmem m2 (frame_ptr n m - 16 + of_nat i) = rmem m1 (frame_ptr n m - 16 + of_nat i)) \<longrightarrow>
        (\<exists>k m3. run_code k (code_of s') base m2 = Some m3 \<and> left m m2 m3)" by blast
    show "\<exists>k m1. run_code k (code_of s') base m = Some m1 \<and> pc m1 = base + of_nat (start + 20) \<and>
        xr m1 2 = xr m 2 - word_of_int v \<and> xr m1 8 = frame_ptr n m \<and> (\<forall>q. q \<notin> {2, 5, 8} \<longrightarrow> xr m1 q = xr m q) \<and>
        (\<forall>b. (\<forall>i < 16. b \<noteq> frame_ptr n m - 16 + of_nat i) \<longrightarrow> rmem m1 b = rmem m b) \<and>
        (\<forall>m2. pc m2 = base + of_nat (ind s) \<and> xr m2 2 = xr m1 2 \<and>
          (\<forall>i < 16. rmem m2 (frame_ptr n m - 16 + of_nat i) = rmem m1 (frame_ptr n m - 16 + of_nat i)) \<longrightarrow>
          (\<exists>k m3. run_code k (code_of s') base m2 = Some m3 \<and> left m m2 m3))"
      using m1 u [OF m1(3)] by (intro exI [of _ k] exI [of _ m1]) (simp add: entered_def)
  qed (use s' in \<open>auto\<close>)
qed

definition ex_gen :: gen where
  "ex_gen = cg.extend (ex_cg 64 32) \<lparr>vloc = - 4000, num_va_regs = 0, func_sub_sp_offset = 4\<rparr>"

theorem frame_restored_witness:
  "\<exists>s'. gfunc_epilog ex_gen = Inr s' \<and> ind s' = 80 \<and> read32le (code_of s') 24 = read32le (code_of ex_gen) 24"
proof -
  have g: "code_inv ex_gen" "\<not> nocode_wanted ex_gen" "sint (frame_size ex_gen) = 4000" "sint (num_va_regs ex_gen) = 0"
    "func_sub_sp_offset ex_gen = 4" "ind ex_gen = 32"
    by (simp_all add: ex_gen_def cg.defs ex_cg_def ex_sec_def code_inv_def cg_wf_def frame_size_def)
  have "frame_ok 4000 0" by (simp add: frame_ok_def)
  then show ?thesis using frame_restored [OF g(1,2) refl refl, of 4] g by auto
qed

end
