(* ===== verification/Spec2Isabelle.thy ===== *)
theory Spec2Isabelle
  imports SoftFloatProps AsmProps RiscvLinkProps ElfSymProps GenProps
begin

text \<open>
  TinyCC for riscv64 (\<open>src/tcc-chain-vintage\<close>): the part of the compiler that is specific to this target, and the
  runtime the compiled programs call. Names of files and functions in this text are those of the source.

  \<^bold>\<open>The program and its parts.\<close> The compiler reads a C or assembler file and emits machine code directly into the
  text section, one instruction at a time. A place that is not known yet gets a relocation entry; the linker
  (\<open>tccelf.c\<close>, \<open>riscv64-link.c\<close>) enters the symbols of all files into one table, sorts it and then writes the distances into
  the instructions. Programs that use \<open>long double\<close> (binary128) call a software implementation,
  \<open>lib/lib-arm64.c\<close>. The parts modelled here meet in the bytes of a section (\<open>TccMem\<close>): the
  assembler and the code generator append to it through \<open>Emit\<close>, \<open>relocate\<close> rewrites it, and the definitions of
  \<open>RvSpec\<close> and \<open>RvExec\<close> say what a processor makes of it.

  \<^bold>\<open>Shared theories.\<close>
  \<^item> \<open>Prelude\<close>, \<open>WordFields\<close>, \<open>HiLo\<close>: facts about words, fields of instruction words, and the splitting of a constant into an
    upper part and a sign-extended lower part.
  \<^item> \<open>TccMem\<close>: \<open>read16le\<close> to \<open>add64le\<close> of \<open>tcc.h\<close> on the bytes of a section; the locale \<open>le_access\<close> states what they promise
    and is interpreted for each width.
  \<^item> \<open>Emit\<close>: \<open>section_realloc\<close>, \<open>section_add\<close>, \<open>section_ptr_add\<close> and \<open>section_reserve\<close> of \<open>tccelf.c\<close>, \<open>o\<close> of \<open>riscv64-gen.c\<close> and \<open>g\<close>,
    \<open>gen_le16\<close>, \<open>gen_le32\<close> of \<open>riscv64-asm.c\<close>. The state \<open>cg\<close> holds \<open>cur_text_section\<close>, \<open>ind\<close> and \<open>nocode_wanted\<close>.
    The locale \<open>emitter\<close> is the contract of emission (code before \<open>ind\<close> stays, what is written can be read back, nothing happens
    while no code is wanted). An error or a failed assertion is a value \<open>Inl\<close> of type \<open>cc_error\<close>.
  \<^item> \<open>RvSpec\<close>, \<open>RvExec\<close>, \<open>RvRun\<close>: the target, after the instruction set manual and independent of the program: instructions,
    their decoding, their effect on registers and memory, and fetching them from a section that is loaded at an address.

  \<^bold>\<open>The binary128 runtime\<close> (all functions of \<open>lib/lib-arm64.c\<close> but the flush of the instruction cache).
  \<^item> \<open>SoftFloatBase\<close>, \<open>SoftFloatUnpack\<close>, \<open>SoftFloatArith\<close>: two-word numbers, the sticky shift, packing and unpacking, and the
    four operations; \<open>SoftFloatAdd\<close>, \<open>SoftFloatMul\<close>, \<open>SoftFloatDiv\<close>: why their integer computations keep all that rounding needs.
  \<^item> \<open>SoftFloatRound\<close>, \<open>SoftFloatSpec\<close>: the specification: the nearest representable number, ties to even, infinity from the
    overflow threshold on; the code's rounding step is proved to meet it.
  \<^item> \<open>SoftFloatExtend\<close>, \<open>SoftFloatTrunc\<close>, \<open>SoftFloatInt\<close>, \<open>SoftFloatCmp\<close>: conversions and comparisons.
  \<^item> \<open>SoftFloatProps\<close>: the properties. The normalisation loop of the
    widening conversions has fuel of 24 (53) steps, one per bit of the fraction, which is proved enough; the division loop
    runs 116 times, as in the code.

  \<^bold>\<open>The assembler\<close> (\<open>riscv64-asm.c\<close>, the expressions and labels of \<open>tccasm.c\<close>, \<open>elfsym\<close>, \<open>global_identifier_push\<close> and
  \<open>greloca\<close> of \<open>tccgen.c\<close>). A line is the list of its tokens; the state \<open>asm_st\<close> extends \<open>cg\<close> by tokens, relocations and symbols.
  \<^item> \<open>AsmTok\<close>: the mnemonics of \<open>riscv64-tok.h\<close> in the order that the tests on ranges of tokens rely on.
  \<^item> \<open>AsmExpr\<close>: \<open>asm_expr\<close> with one function per level of precedence. Its recursion has fuel; \<open>AsmExprProps\<close> proves that \<open>expr_fuel\<close>,
    ten calls for every token that is left and ten more, is always enough, so no result depends on it. \<open>AsmAexp\<close>: expressions as trees,
    their value and their tokens.
  \<^item> \<open>AsmEmit\<close>, \<open>AsmEmitC\<close>: the emitters of the 32-bit and of the compressed formats; \<open>AsmOpcode\<close>: operands and \<open>asm_opcode\<close> with all
    its groups of mnemonics. A \<open>switch\<close> over tokens is a table.
  \<^item> \<open>AsmFrame\<close>, \<open>AsmInvar\<close>: locales of what every primitive step respects, and so the whole of \<open>asm_opcode\<close>, on
    errors too. \<open>AsmDecode\<close>, \<open>AsmParse\<close>, \<open>AsmLines\<close>, \<open>AsmJumps\<close>, \<open>AsmLi\<close>: from the tokens of a line to the decoded instruction.
  \<^item> \<open>AsmProps\<close>: the properties.

  \<^bold>\<open>The code generator\<close> (\<open>riscv64-gen.c\<close>) \<^bold>\<open>and constant folding\<close> (\<open>gen_opic\<close> of \<open>tccgen.c\<close>).
  \<^item> \<open>RiscvGen\<close>: registers, instruction words, lists of forward jumps, constants and comparisons in registers, the operators of
    \<open>gen_opil\<close>, \<open>gfunc_epilog\<close>. A list of jumps lives in the code itself, so a loop over it is a partial function; \<open>GenJumps\<close> shows
    that it ends for every list that \<open>gjmp\<close> and \<open>gjmp_append\<close> have built. The state \<open>gen\<close> extends \<open>cg\<close> by what belongs to the frame.
  \<^item> \<open>GenCode\<close>: what the instruction words decode to. \<open>GenJumps\<close>, \<open>GenCond\<close>: sequences of operations on jumps as a step relation, with
    the places that wait for a label as specification. \<open>GenConst\<close>, \<open>GenOps\<close>, \<open>GenImm\<close>: the code of constants and operators executed. (In \<open>opil_imm\<close> the
    registers are those that \<open>get_reg\<close> and \<open>gv\<close> have chosen, and \<open>gv2\<close>, which loads both operands, is an argument.)
    \<open>GenFrame\<close>: entering and leaving a function, run where it is loaded.
  \<^item> \<open>TccOpic\<close>: \<open>gen_opic\<close> on a value stack with its top first; \<open>gv\<close>, \<open>gsym\<close>, \<open>gen_opi\<close> and \<open>gen_opl\<close> are arguments. The loop that
    counts the position of a bit has the number as measure. \<open>OpicFold\<close>: the operators of C on integers, \<open>c_op\<close>, and that folding computes
    them; \<open>OpicSound\<close>: the simplifications keep the value. Nothing is assumed of the target: what is left to it is the operator and
    the operands it is called for.
  \<^item> \<open>GenProps\<close>: the properties; folded and generated operators agree.

  \<^bold>\<open>Relocation\<close> (\<open>riscv64-link.c\<close>).
  \<^item> \<open>RiscvLink\<close>: the classification of relocation types, the procedure linkage table and \<open>relocate\<close>. What \<open>relocate\<close> reads of the linker's
    state is the record \<open>rel_env\<close>; errors are counted and work goes on, as the code does.
  \<^item> \<open>RelocWords\<close>, \<open>RelocEffect\<close>: the immediates of the formats B, J, U, I, S and the bytes that change. \<open>RiscvPlt\<close>: the words of
    the linkage table and what they do. The loop over its entries has the remaining bytes as measure.
  \<^item> \<open>RiscvLinkProps\<close>: the properties: the relocated code, run where it is loaded, reaches its symbol.

  \<^bold>\<open>Symbol tables\<close> (\<open>tccelf.c\<close>).
  \<^item> \<open>ElfSymtab\<close>: string table, hash table, \<open>put_elf_sym\<close>, \<open>find_elf_sym\<close>, \<open>set_elf_sym\<close>, \<open>sort_syms\<close>. \<open>find_loop\<close> has the number of
    symbols and one more as fuel; \<open>ElfHash\<close> proves that the chain of a bucket is decreasing, so that the search ends before.
  \<^item> \<open>ElfHash\<close>: the invariant of the hash table; \<open>ElfResolve\<close>: merging symbols, with the locale \<open>name_table\<close> for tables that are
    searched by name; \<open>ElfSort\<close>: sorting is a stable partition and relocations follow it.
  \<^item> \<open>ElfSymProps\<close>: the properties.

  \<^bold>\<open>What the properties show about defects.\<close> A few statements hold only with an exception that the
  code has and the text before the property names: branches with constant offsets lose bit 10, \<open>blez\<close> and \<open>bgez\<close> are exchanged,
  \<open>sraiw\<close> is the logical shift, an absolute symbol does not replace a tentative one, \<open>li\<close> is off by \<open>2 ^ 32\<close> in one
  range, jumps between one and two MiB are accepted by the linker and by the code generator and go elsewhere, two kinds of constants
  are loaded wrongly, and a division of pointers is folded as a signed one and generated as an unsigned one.

  \<^bold>\<open>Not modelled.\<close> The C front end (\<open>tccgen.c\<close>) apart from \<open>gen_opic\<close>, and the preprocessor (\<open>tccpp.c\<close>): types, declarations and the
  token stream, whose functions call each other. Of \<open>riscv64-gen.c\<close>: the register allocator, loads and stores through memory,
  the passing of parameters, floating-point operators, variable-length arrays and bounds checks, which rest on the value stack and
  on the layout of types. Assembler directives and inline assembly: text substitution and file inclusion. Reading and writing
  of object files, section layout, debug information and the driver: mostly input and output of structures. Other
  targets and object formats, the instruction-cache flush, and messages (an error keeps only its kind).
\<close>

end
